(* ===== verification/Delta_Prelude.thy ===== *)
theory Delta_Prelude
  imports Main "HOL-Library.Word" "HOL-Library.Signed_Division"
begin

text \<open>
  Shared vocabulary of the development: the exceptions the sources throw, the result type that
  carries them, sequencing and folding of fallible steps, the limits of the fixed-width integer
  types, and the generic list and arithmetic lemmas used by the component theories.
\<close>

section \<open>Exceptions and results\<close>

text \<open>
  One constructor for each exception class the modelled sources throw. \<open>FC_ASSERT\<close> throws
  \<open>fc::assert_exception\<close>; \<open>fc::safe\<close> throws the three arithmetic ones; \<open>chainbase\<close> throws
  \<open>std::logic_error\<close> and \<open>std::out_of_range\<close>; \<open>fc::uint128\<close> division throws on zero;
  the transaction checks throw the \<open>tx_\<close> exceptions of \<open>protocol/exceptions.hpp\<close>.
\<close>

datatype fc_error =
    Assert_Exception
  | Overflow_Exception
  | Underflow_Exception
  | Divide_By_Zero_Exception
  | Domain_Error
  | Logic_Error
  | Out_Of_Range
  | Unlinkable_Block_Exception
  | Order_Match_Exception
  | Order_Fill_Exception
  | Tx_Missing_Active_Auth
  | Tx_Missing_Owner_Auth
  | Tx_Missing_Posting_Auth
  | Tx_Missing_Other_Auth
  | Tx_Irrelevant_Sig
  | Tx_Duplicate_Sig
  | Invalid_Code_Point
  | Undefined_Behaviour

type_synonym 'a result = "fc_error + 'a"

named_theorems res_simps \<open>rewriting of sequenced fallible computations\<close>
named_theorems width_simps \<open>limits of the fixed-width integer types\<close>

definition res_bind :: "'a result \<Rightarrow> ('a \<Rightarrow> 'b result) \<Rightarrow> 'b result" where
  "res_bind m f = (case m of Inl e \<Rightarrow> Inl e | Inr x \<Rightarrow> f x)"

definition fc_assert :: "bool \<Rightarrow> 'a result \<Rightarrow> 'a result" where
  "fc_assert c k = (if c then k else Inl Assert_Exception)"

definition of_option :: "fc_error \<Rightarrow> 'a option \<Rightarrow> 'a result" where
  "of_option e x = (case x of None \<Rightarrow> Inl e | Some y \<Rightarrow> Inr y)"

fun res_fold :: "('a \<Rightarrow> 's \<Rightarrow> 's result) \<Rightarrow> 'a list \<Rightarrow> 's \<Rightarrow> 's result" where
  "res_fold f [] s = Inr s"
| "res_fold f (x # xs) s = res_bind (f x s) (res_fold f xs)"

definition is_ok :: "'a result \<Rightarrow> bool" where
  "is_ok r = (case r of Inl _ \<Rightarrow> False | Inr _ \<Rightarrow> True)"

lemma res_bind_simps [simp, res_simps]:
  "res_bind (Inl e) f = Inl e"
  "res_bind (Inr x) f = f x"
  by (simp_all add: res_bind_def)

lemma res_bind_eq_Inr [res_simps]:
  "res_bind m f = Inr y \<longleftrightarrow> (\<exists>x. m = Inr x \<and> f x = Inr y)"
  by (cases m) auto

lemma res_bind_InrE [elim!]:
  assumes "res_bind m f = Inr y"
  obtains x where "m = Inr x" and "f x = Inr y"
  using assms by (cases m) auto

lemma fc_assert_eq_Inr [simp, res_simps]:
  "fc_assert c k = Inr y \<longleftrightarrow> c \<and> k = Inr y"
  by (simp add: fc_assert_def)

lemma fc_assert_True [simp]: "fc_assert True k = k"
  and fc_assert_False [simp]: "fc_assert False k = Inl Assert_Exception"
  by (simp_all add: fc_assert_def)

lemma of_option_eq_Inr [simp, res_simps]: "of_option e x = Inr y \<longleftrightarrow> x = Some y"
  by (cases x) (auto simp: of_option_def)

lemma of_option_simps [simp]:
  "of_option e None = Inl e"
  "of_option e (Some y) = Inr y"
  by (simp_all add: of_option_def)

lemma is_ok_simps [simp]: "is_ok (Inr x)" "\<not> is_ok (Inl e)"
  by (simp_all add: is_ok_def)

lemma is_ok_iff: "is_ok r \<longleftrightarrow> (\<exists>x. r = Inr x)"
  by (cases r) auto

text \<open>An invariant kept by every step of a fold is kept by the fold.\<close>

lemma res_fold_invariant:
  assumes "res_fold f xs s = Inr t" and "I s"
    and "\<And>x s t. x \<in> set xs \<Longrightarrow> I s \<Longrightarrow> f x s = Inr t \<Longrightarrow> I t"
  shows "I t"
  using assms
proof (induction xs arbitrary: s)
  case (Cons x xs)
  from Cons.prems(1) obtain u where u: "f x s = Inr u" and rest: "res_fold f xs u = Inr t"
    by auto
  from Cons.prems(2,3) u have "I u" by auto
  with rest show ?case using Cons.IH Cons.prems(3) by auto
qed simp

lemma res_fold_append:
  "res_fold f (xs @ ys) s = res_bind (res_fold f xs s) (res_fold f ys)"
proof (induction xs arbitrary: s)
  case (Cons x xs)
  then show ?case by (cases "f x s") auto
qed simp

section \<open>Fixed-width integers\<close>

abbreviation int64_max :: int where "int64_max \<equiv> 9223372036854775807"
abbreviation int64_min :: int where "int64_min \<equiv> - 9223372036854775808"
abbreviation int32_max :: int where "int32_max \<equiv> 2147483647"

definition in_int64 :: "int \<Rightarrow> bool" where
  "in_int64 x \<longleftrightarrow> int64_min \<le> x \<and> x \<le> int64_max"

text \<open>
  Conversion of a wider value to \<open>int64_t\<close> keeps the low 64 bits and reads them in two's
  complement.
\<close>

definition to_int64 :: "int \<Rightarrow> int" where
  "to_int64 x = sint (word_of_int x :: 64 word)"

lemma to_int64_id: "in_int64 x \<Longrightarrow> to_int64 x = x"
  by (simp add: to_int64_def in_int64_def sint_sbintrunc' signed_take_bit_int_eq_self)

lemma in_int64_to_int64 [simp]: "in_int64 (to_int64 x)"
proof -
  have "sint (w :: 64 word) \<in> {- (2 ^ 63) ..< 2 ^ 63}" for w
    using sint_ge [of w] sint_lt [of w] by simp
  from this [of "word_of_int x"] show ?thesis
    by (simp add: to_int64_def in_int64_def)
qed

end
