(* ===== verification/Fc_Safe.thy ===== *)
theory Fc_Safe
  imports Delta_Prelude
begin

unbundle bit_operations_syntax

text \<open>
  Overflow-checked and saturating 64-bit arithmetic of \<open>libraries/fc\<close>: \<open>fc::safe<int64_t>\<close> (the
  chain's \<open>share_type\<close>, \<open>safe.hpp\<close>) and \<open>signed_sat_add\<close> / \<open>signed_sat_sub\<close> (\<open>saturation.hpp\<close>).
  The lemmas show that a checked operation is exact or throws, and that the bit tricks of the
  saturating ones clamp the exact result.
\<close>

section \<open>Checked arithmetic: \<open>fc::safe<int64_t>\<close>\<close>

definition safe_add :: "int \<Rightarrow> int \<Rightarrow> int result" where
  "safe_add a b =
     (if b > 0 \<and> a > int64_max - b then Inl Overflow_Exception
      else if b < 0 \<and> a < int64_min - b then Inl Underflow_Exception
      else Inr (a + b))"

definition safe_sub :: "int \<Rightarrow> int \<Rightarrow> int result" where
  "safe_sub a b =
     (if b > 0 \<and> a < int64_min + b then Inl Underflow_Exception
      else if b < 0 \<and> a > int64_max + b then Inl Overflow_Exception
      else Inr (a - b))"

definition safe_mul :: "int \<Rightarrow> int \<Rightarrow> int result" where
  "safe_mul a b =
     (if a > 0 then
        (if b > 0 then
           (if a > int64_max sdiv b then Inl Overflow_Exception else Inr (a * b))
         else
           (if b < int64_min sdiv a then Inl Underflow_Exception else Inr (a * b)))
      else
        (if b > 0 then
           (if a < int64_min sdiv b then Inl Underflow_Exception else Inr (a * b))
         else
           (if a \<noteq> 0 \<and> b < int64_max sdiv a then Inl Overflow_Exception else Inr (a * b))))"

definition safe_div :: "int \<Rightarrow> int \<Rightarrow> int result" where
  "safe_div a b =
     (if b = 0 then Inl Divide_By_Zero_Exception
      else if a = int64_min \<and> b = -1 then Inl Overflow_Exception
      else Inr (a sdiv b))"

definition safe_mod :: "int \<Rightarrow> int \<Rightarrow> int result" where
  "safe_mod a b =
     (if b = 0 then Inl Divide_By_Zero_Exception
      else if a = int64_min \<and> b = -1 then Inl Overflow_Exception
      else Inr (a smod b))"

definition safe_neg :: "int \<Rightarrow> int result" where
  "safe_neg a = (if a = int64_min then Inl Overflow_Exception else Inr (- a))"

section \<open>Saturating arithmetic: \<open>fc::signed_sat_add\<close>, \<open>fc::signed_sat_sub\<close>\<close>

definition signed_sat_add :: "64 word \<Rightarrow> 64 word \<Rightarrow> 64 word" where
  "signed_sat_add x y =
     (let res = x + y;
          sat = (if 0 \<le> sint x then 0x7FFFFFFFFFFFFFFF else 0x8000000000000000)
      in if sint (NOT (x XOR y) AND (x XOR res)) < 0 then sat else res)"

definition signed_sat_sub :: "64 word \<Rightarrow> 64 word \<Rightarrow> 64 word" where
  "signed_sat_sub x y =
     (let res = x - y;
          sat = (if 0 \<le> sint x then 0x7FFFFFFFFFFFFFFF else 0x8000000000000000)
      in if sint ((x XOR y) AND (x XOR res)) < 0 then sat else res)"

definition clamp64 :: "int \<Rightarrow> int" where
  "clamp64 z = max int64_min (min int64_max z)"

section \<open>Checked arithmetic is exact or throws\<close>

lemma safe_add_eq:
  assumes "in_int64 a" "in_int64 b"
  shows "safe_add a b = (if in_int64 (a + b) then Inr (a + b)
           else if b > 0 then Inl Overflow_Exception else Inl Underflow_Exception)"
  using assms by (auto simp: safe_add_def in_int64_def)

lemma safe_sub_eq:
  assumes "in_int64 a" "in_int64 b"
  shows "safe_sub a b = (if in_int64 (a - b) then Inr (a - b)
           else if b > 0 then Inl Underflow_Exception else Inl Overflow_Exception)"
  using assms by (auto simp: safe_sub_def in_int64_def)

lemma safe_neg_eq:
  assumes "in_int64 a"
  shows "safe_neg a = (if in_int64 (- a) then Inr (- a) else Inl Overflow_Exception)"
  using assms by (auto simp: safe_neg_def in_int64_def)

lemma safe_mod_eq:
  assumes "a \<noteq> int64_min \<or> b \<noteq> - 1" "b \<noteq> 0"
  shows "safe_mod a b = Inr (a smod b)"
  using assms by (auto simp: safe_mod_def)

text \<open>What a successful operation returned, whatever its arguments.\<close>

lemma safe_add_Inr: "safe_add a b = Inr c \<Longrightarrow> c = a + b"
  by (auto simp: safe_add_def split: if_splits)

lemma safe_sub_Inr: "safe_sub a b = Inr c \<Longrightarrow> c = a - b"
  by (auto simp: safe_sub_def split: if_splits)

lemma safe_mul_Inr: "safe_mul a b = Inr c \<Longrightarrow> c = a * b"
  by (auto simp: safe_mul_def split: if_splits)

lemma safe_div_Inr: "safe_div a b = Inr c \<Longrightarrow> b \<noteq> 0 \<and> c = a sdiv b"
  by (auto simp: safe_div_def split: if_splits)

lemma safe_neg_Inr: "safe_neg a = Inr c \<Longrightarrow> c = - a"
  by (auto simp: safe_neg_def split: if_splits)

lemmas safe_Inr = safe_add_Inr safe_sub_Inr safe_mul_Inr safe_div_Inr safe_neg_Inr

lemma int_div_less_iff:
  fixes a b c :: int
  assumes "b > 0"
  shows "c div b < a \<longleftrightarrow> c < a * b"
proof -
  have split: "c = b * (c div b) + c mod b" "0 \<le> c mod b" "c mod b < b"
    using assms by simp_all
  show ?thesis
  proof
    assume "c div b < a"
    then have "b * (c div b + 1) \<le> b * a"
      using assms by (intro mult_left_mono) auto
    then have "b * (c div b) + b \<le> a * b" by (simp add: algebra_simps)
    with split show "c < a * b" by linarith
  next
    assume lt: "c < a * b"
    show "c div b < a"
    proof (rule ccontr)
      assume "\<not> c div b < a"
      then have "b * a \<le> b * (c div b)"
        using assms by (intro mult_left_mono) auto
      then have "a * b \<le> b * (c div b)" by (simp add: mult.commute)
      with split lt show False by linarith
    qed
  qed
qed

lemma sdiv_gt_iff:
  fixes a b c :: int
  assumes "b > 0" "c \<ge> 0"
  shows "a > c sdiv b \<longleftrightarrow> a * b > c"
proof -
  have "c sdiv b = c div b"
    using assms by (cases "c = 0") (simp_all add: signed_divide_int_def)
  then show ?thesis using assms int_div_less_iff [of b c a] by simp
qed

lemma sdiv_neg_lt_iff:
  fixes a b c :: int
  assumes "b > 0" "c < 0"
  shows "a < c sdiv b \<longleftrightarrow> a * b < c"
proof -
  have *: "c sdiv b = - ((- c) div b)"
    using assms by (simp add: signed_divide_int_def)
  have "a < - ((- c) div b) \<longleftrightarrow> (- c) div b < - a" by arith
  also have "\<dots> \<longleftrightarrow> - c < - a * b" using assms int_div_less_iff [of b "- c" "- a"] by simp
  finally show ?thesis using * by simp
qed

lemma sdiv_neg_divisor_lt_iff:
  fixes a b c :: int
  assumes "a < 0" "c > 0"
  shows "b < c sdiv a \<longleftrightarrow> a * b > c"
proof -
  have *: "c sdiv a = - (c div (- a))"
    using assms by (simp add: signed_divide_int_def)
  have "b < - (c div (- a)) \<longleftrightarrow> c div (- a) < - b" by arith
  also have "\<dots> \<longleftrightarrow> c < - b * - a" using assms int_div_less_iff [of "- a" c "- b"] by simp
  finally show ?thesis using * by (simp add: mult.commute)
qed

lemma safe_mul_eq:
  assumes "in_int64 a" "in_int64 b"
  shows "safe_mul a b = (if in_int64 (a * b) then Inr (a * b)
           else if 0 < a * b then Inl Overflow_Exception else Inl Underflow_Exception)"
proof -
  consider (pp) "a > 0" "b > 0" | (pn) "a > 0" "b \<le> 0" | (np) "a \<le> 0" "b > 0"
    | (nn) "a < 0" "b \<le> 0" | (zn) "a = 0" "b \<le> 0" by linarith
  then show ?thesis
  proof cases
    case pp
    then have "0 < a * b" by simp
    then have "int64_min \<le> a * b" by simp
    with pp show ?thesis
      by (auto simp: safe_mul_def in_int64_def sdiv_gt_iff)
  next
    case pn
    then have "a * b \<le> 0" by (simp add: mult_nonneg_nonpos)
    with pn sdiv_neg_lt_iff [of a int64_min b] show ?thesis
      by (auto simp: safe_mul_def in_int64_def mult.commute)
  next
    case np
    then have "a * b \<le> 0" by (simp add: mult_nonpos_nonneg)
    with np sdiv_neg_lt_iff [of b int64_min a] show ?thesis
      by (auto simp: safe_mul_def in_int64_def)
  next
    case nn
    then have "0 \<le> a * b" by (simp add: mult_nonpos_nonpos)
    with nn show ?thesis
      by (auto simp: safe_mul_def in_int64_def sdiv_neg_divisor_lt_iff)
  next
    case zn
    then show ?thesis by (simp add: safe_mul_def in_int64_def)
  qed
qed

lemma safe_div_eq:
  assumes "in_int64 a" "in_int64 b" "b \<noteq> 0"
  shows "safe_div a b = (if in_int64 (a sdiv b) then Inr (a sdiv b) else Inl Overflow_Exception)"
proof (cases "a = int64_min \<and> b = - 1")
  case True
  then show ?thesis by (simp add: safe_div_def in_int64_def signed_divide_int_def)
next
  case False
  have "0 \<le> \<bar>a\<bar> div \<bar>b\<bar>" using assms(3) by (simp add: pos_imp_zdiv_nonneg_iff)
  then have bound: "\<bar>a sdiv b\<bar> = \<bar>a\<bar> div \<bar>b\<bar>"
    using assms(3) by (cases "a = 0") (simp_all add: signed_divide_int_def abs_mult)
  have le: "\<bar>a\<bar> div \<bar>b\<bar> \<le> \<bar>a\<bar>"
  proof -
    from assms(3) have "(\<bar>a\<bar> + 1) * 1 \<le> (\<bar>a\<bar> + 1) * \<bar>b\<bar>"
      by (intro mult_left_mono) auto
    then have "\<bar>a\<bar> < (\<bar>a\<bar> + 1) * \<bar>b\<bar>" unfolding mult_1_right by (rule less_le_trans [rotated]) simp
    then show ?thesis
      using assms(3) int_div_less_iff [of "\<bar>b\<bar>" "\<bar>a\<bar>" "\<bar>a\<bar> + 1"] by simp
  qed
  have "in_int64 (a sdiv b)"
  proof (cases "a = int64_min")
    case True
    show ?thesis
    proof (cases "b = 1")
      case b: True
      with True show ?thesis by (simp add: in_int64_def signed_divide_int_def)
    next
      case b: False
      with False True assms(3) have "2 \<le> \<bar>b\<bar>" by arith
      then have "\<bar>a\<bar> div \<bar>b\<bar> \<le> \<bar>a\<bar> div 2" by (simp add: zdiv_mono2)
      with bound True have "\<bar>a sdiv b\<bar> \<le> 4611686018427387904" by simp
      then show ?thesis unfolding in_int64_def by arith
    qed
  next
    case a: False
    with assms(1) have "\<bar>a\<bar> \<le> int64_max" by (auto simp: in_int64_def)
    with bound le show ?thesis unfolding in_int64_def by arith
  qed
  with False assms(3) show ?thesis by (auto simp: safe_div_def)
qed

section \<open>Saturating arithmetic clamps\<close>

lemma sint_bounds_64: "int64_min \<le> sint (w :: 64 word)" "sint (w :: 64 word) \<le> int64_max"
  using in_int64_to_int64 [of "sint w"] by (simp_all add: to_int64_def in_int64_def)

lemma wrap64:
  fixes z :: int
  assumes "- 18446744073709551616 \<le> z" "z < 18446744073709551616"
  shows "signed_take_bit 63 z =
    (if int64_max < z then z - 18446744073709551616
     else if z < int64_min then z + 18446744073709551616 else z)"
proof -
  let ?M = "18446744073709551616 :: int" and ?h = "9223372036854775808 :: int"
  have "signed_take_bit 63 z = (z + ?h) mod ?M - ?h"
    by (simp add: signed_take_bit_eq_take_bit_shift take_bit_eq_mod)
  moreover have "(z + ?h) mod ?M = (z + ?h - ?M) mod ?M" "(z + ?h) mod ?M = (z + ?h + ?M) mod ?M"
    by (simp_all only: minus_mod_self2 mod_add_self2)
  ultimately show ?thesis using assms
    by (cases "int64_max < z"; cases "z < int64_min") (simp_all add: mod_pos_pos_trivial)
qed

lemma sint_neg_iff_64: "sint (w :: 64 word) < 0 \<longleftrightarrow> bit w 63"
  using bit_last_iff [of w] by simp

lemma sint_add_64:
  "sint (x + y :: 64 word) = (if int64_max < sint x + sint y then sint x + sint y - 2 ^ 64
     else if sint x + sint y < int64_min then sint x + sint y + 2 ^ 64 else sint x + sint y)"
proof -
  have "sint (x + y) = signed_take_bit 63 (sint x + sint y)"
    by (simp add: sint_word_ariths)
  also have "\<dots> = (if int64_max < sint x + sint y then sint x + sint y - 2 ^ 64
     else if sint x + sint y < int64_min then sint x + sint y + 2 ^ 64 else sint x + sint y)"
    using sint_bounds_64 [of x] sint_bounds_64 [of y] by (subst wrap64) auto
  finally show ?thesis .
qed

lemma sint_sub_64:
  "sint (x - y :: 64 word) = (if int64_max < sint x - sint y then sint x - sint y - 2 ^ 64
     else if sint x - sint y < int64_min then sint x - sint y + 2 ^ 64 else sint x - sint y)"
proof -
  have "sint (x - y) = signed_take_bit 63 (sint x - sint y)"
    by (simp add: sint_word_ariths)
  also have "\<dots> = (if int64_max < sint x - sint y then sint x - sint y - 2 ^ 64
     else if sint x - sint y < int64_min then sint x - sint y + 2 ^ 64 else sint x - sint y)"
    using sint_bounds_64 [of x] sint_bounds_64 [of y] by (subst wrap64) auto
  finally show ?thesis .
qed

lemma sint_signed_sat_add: "sint (signed_sat_add x y) = clamp64 (sint x + sint y)"
proof -
  have "sint (NOT (x XOR y) AND (x XOR (x + y))) < 0 \<longleftrightarrow>
      (sint x < 0) = (sint y < 0) \<and> (sint x < 0) \<noteq> (sint (x + y) < 0)"
    unfolding sint_neg_iff_64 by (simp add: bit_simps)
  then show ?thesis
    using sint_bounds_64 [of x] sint_bounds_64 [of y] sint_add_64 [of x y]
    by (simp add: signed_sat_add_def Let_def clamp64_def min_def max_def split: if_split_asm)
qed

lemma sint_signed_sat_sub: "sint (signed_sat_sub x y) = clamp64 (sint x - sint y)"
proof -
  have "sint ((x XOR y) AND (x XOR (x - y))) < 0 \<longleftrightarrow>
      (sint x < 0) \<noteq> (sint y < 0) \<and> (sint x < 0) \<noteq> (sint (x - y) < 0)"
    unfolding sint_neg_iff_64 by (simp add: bit_simps)
  then show ?thesis
    using sint_bounds_64 [of x] sint_bounds_64 [of y] sint_sub_64 [of x y]
    by (simp add: signed_sat_sub_def Let_def clamp64_def min_def max_def split: if_split_asm)
qed

section \<open>Properties\<close>



text \<open>C30: \<open>signed_sat_add\<close> and \<open>signed_sat_sub\<close>, which detect overflow from sign bits, return the
  exact sum and difference clamped to the range of \<open>int64_t\<close>.\<close>

theorem signed_sat_clamps:
  "sint (signed_sat_add x y) = clamp64 (sint x + sint y) \<and>
   sint (signed_sat_sub x y) = clamp64 (sint x - sint y)"
  by (simp only: sint_signed_sat_add sint_signed_sat_sub)

end
