(* ===== verification/Fc_Uint128.thy ===== *)
theory Fc_Uint128
  imports Fc_Safe
begin

unbundle bit_operations_syntax

text \<open>
  The 128-bit unsigned integer of \<open>libraries/fc\<close> (\<open>uint128.hpp\<close>, \<open>uint128.cpp\<close>): two 64-bit
  halves with hand-written carries, shifts, limb multiplication, full product and long division.
  The lemmas show that each operation computes the corresponding operation on 128-bit words, and
  the locale \<open>word_arith\<close> states that contract for the clients of the type.
\<close>

section \<open>128-bit integers: \<open>fc::uint128\<close>\<close>

record uint128 =
  u_hi :: "64 word"
  u_lo :: "64 word"

definition u128_make :: "64 word \<Rightarrow> 64 word \<Rightarrow> uint128" where
  "u128_make h l = \<lparr>u_hi = h, u_lo = l\<rparr>"

text \<open>Construction from \<open>uint64_t\<close> zero-extends, from \<open>int64_t\<close> sign-extends.\<close>

definition u128_of_uint64 :: "64 word \<Rightarrow> uint128" where
  "u128_of_uint64 l = u128_make 0 l"

definition u128_of_int64 :: "64 word \<Rightarrow> uint128" where
  "u128_of_int64 l = u128_make (if sint l < 0 then - 1 else 0) l"

definition u128_less :: "uint128 \<Rightarrow> uint128 \<Rightarrow> bool" where
  "u128_less a b = (if u_hi a = u_hi b then u_lo a < u_lo b else u_hi a < u_hi b)"

definition u128_not :: "uint128 \<Rightarrow> uint128" where
  "u128_not a = u128_make (NOT (u_hi a)) (NOT (u_lo a))"

definition u128_inc :: "uint128 \<Rightarrow> uint128" where
  "u128_inc a = (let l = u_lo a + 1 in u128_make (u_hi a + (if l = 0 then 1 else 0)) l)"

definition u128_dec :: "uint128 \<Rightarrow> uint128" where
  "u128_dec a = u128_make (u_hi a - (if u_lo a = 0 then 1 else 0)) (u_lo a - 1)"

definition u128_neg :: "uint128 \<Rightarrow> uint128" where
  "u128_neg a = u128_inc (u128_not a)"

definition u128_add :: "uint128 \<Rightarrow> uint128 \<Rightarrow> uint128" where
  "u128_add a b =
     (let old = u_lo a; l = u_lo a + u_lo b
      in u128_make (u_hi a + (u_hi b + (if l < old then 1 else 0))) l)"

definition u128_sub :: "uint128 \<Rightarrow> uint128 \<Rightarrow> uint128" where
  "u128_sub a b = u128_add a (u128_neg b)"

definition u128_and :: "uint128 \<Rightarrow> uint128 \<Rightarrow> uint128" where
  "u128_and a b = u128_make (u_hi a AND u_hi b) (u_lo a AND u_lo b)"

text \<open>The compound assignment \<open>|=\<close> is bitwise; the binary operator \<open>|\<close> is not (it assigns).\<close>

definition u128_or_assign :: "uint128 \<Rightarrow> uint128 \<Rightarrow> uint128" where
  "u128_or_assign a b = u128_make (u_hi a OR u_hi b) (u_lo a OR u_lo b)"

definition u128_or_op :: "uint128 \<Rightarrow> uint128 \<Rightarrow> uint128" where
  "u128_or_op l r = r"

definition u128_xor :: "uint128 \<Rightarrow> uint128 \<Rightarrow> uint128" where
  "u128_xor a b = u128_make (u_hi a XOR u_hi b) (u_lo a XOR u_lo b)"

text \<open>
  The shift operators take their count as a \<open>uint128\<close>; \<open>n\<close> here is its value, and the code
  converts it with \<open>to_integer\<close> only after ruling out counts of 128 and more.
\<close>

definition u128_shl :: "uint128 \<Rightarrow> nat \<Rightarrow> uint128" where
  "u128_shl a rhs =
     (if rhs \<ge> 128 then u128_make 0 0
      else
        let (n, h, l) = (if rhs \<ge> 64 then (rhs - 64, u_lo a, 0) else (rhs, u_hi a, u_lo a))
        in if n \<noteq> 0 then
             let h1 = push_bit n h;
                 mask = NOT (drop_bit n (- 1));
                 h2 = h1 OR drop_bit (64 - n) (l AND mask)
             in u128_make h2 (push_bit n l)
           else u128_make h l)"

definition u128_shr :: "uint128 \<Rightarrow> nat \<Rightarrow> uint128" where
  "u128_shr a rhs =
     (if rhs \<ge> 128 then u128_make 0 0
      else
        let (n, h, l) = (if rhs \<ge> 64 then (rhs - 64, 0, u_hi a) else (rhs, u_hi a, u_lo a))
        in if n \<noteq> 0 then
             let l1 = drop_bit n l;
                 mask = NOT (push_bit n (- 1));
                 l2 = l1 OR push_bit (64 - n) (h AND mask)
             in u128_make (drop_bit n h) l2
           else u128_make h l)"

text \<open>The cast \<open>(uint32_t)\<close> of a 64-bit value.\<close>

definition low32 :: "64 word \<Rightarrow> 64 word" where
  "low32 w = w AND 0xFFFFFFFF"

definition u128_mul :: "uint128 \<Rightarrow> uint128 \<Rightarrow> uint128" where
  "u128_mul x y =
     (let a0 = low32 (u_lo x); a1 = low32 (drop_bit 0x20 (u_lo x));
          a2 = low32 (u_hi x); a3 = low32 (drop_bit 0x20 (u_hi x));
          b0 = low32 (u_lo y); b1 = low32 (drop_bit 0x20 (u_lo y));
          b2 = low32 (u_hi y); b3 = low32 (drop_bit 0x20 (u_hi y));
          plus = (\<lambda>t p. u128_add t (u128_of_uint64 p));
          t0 = u128_make 0 (a3 * b0);
          t1 = u128_shl (plus (plus (plus t0 (a2 * b1)) (a1 * b2)) (a0 * b3)) 0x20;
          t2 = u128_shl (plus (plus (plus t1 (a2 * b0)) (a1 * b1)) (a0 * b2)) 0x20;
          t3 = u128_shl (plus (plus t2 (a1 * b0)) (a0 * b1)) 0x20
      in plus t3 (a0 * b0))"

definition u128_full_product :: "uint128 \<Rightarrow> uint128 \<Rightarrow> uint128 \<times> uint128" where
  "u128_full_product a b =
     (let s = u128_mul (u128_of_uint64 (u_lo a)) (u128_of_uint64 (u_lo b));
          r = u128_mul (u128_of_uint64 (u_hi a)) (u128_of_uint64 (u_lo b));
          q = u128_mul (u128_of_uint64 (u_lo a)) (u128_of_uint64 (u_hi b));
          p = u128_mul (u128_of_uint64 (u_hi a)) (u128_of_uint64 (u_hi b));
          y0 = u_lo s;
          acc1 = u128_add (u128_add (u128_of_uint64 (u_hi s)) (u128_of_uint64 (u_lo q)))
                   (u128_of_uint64 (u_lo r));
          y1 = u_lo acc1;
          acc2 = u128_add (u128_add (u128_add (u128_of_uint64 (u_hi acc1)) (u128_of_uint64 (u_hi q)))
                   (u128_of_uint64 (u_hi r))) (u128_of_uint64 (u_lo p));
          y2 = u_lo acc2;
          y3 = u_hi acc2 + u_hi p
      in (u128_make y3 y2, u128_make y1 y0))"

definition u128_to_uint64 :: "uint128 \<Rightarrow> (64 word) result" where
  "u128_to_uint64 a = fc_assert (u_hi a = 0) (Inr (u_lo a))"

definition u128_to_int64 :: "uint128 \<Rightarrow> int result" where
  "u128_to_int64 a =
     fc_assert (u_hi a = 0) (fc_assert (u_lo a \<le> 0x7FFFFFFFFFFFFFFF) (Inr (uint (u_lo a))))"

definition u128_max_value :: uint128 where
  "u128_max_value = u128_make (- 1) (- 1)"

text \<open>
  The abstraction: the 128-bit word the two halves stand for. Components above \<open>fc\<close> compute
  with \<^typ>\<open>128 word\<close> directly, which the lemmas below justify.
\<close>

definition u128_val :: "uint128 \<Rightarrow> 128 word" where
  "u128_val a = push_bit 64 (ucast (u_hi a)) OR ucast (u_lo a)"

section \<open>Bits and halves\<close>

lemma bit_u128_val:
  "bit (u128_val a) i \<longleftrightarrow> (if i < 64 then bit (u_lo a) i else bit (u_hi a) (i - 64))"
  by (auto simp: u128_val_def bit_simps dest: bit_imp_le_length)

lemma u128_val_shl: "u128_val (u128_shl a n) = push_bit n (u128_val a)"
proof (rule bit_word_eqI)
  fix i :: nat assume i: "i < LENGTH(128)"
  show "bit (u128_val (u128_shl a n)) i = bit (push_bit n (u128_val a)) i"
    using i by (auto simp: bit_u128_val u128_shl_def u128_make_def Let_def bit_simps ac_simps
        split: if_splits dest: bit_imp_le_length)
qed

lemma u128_val_shr: "u128_val (u128_shr a n) = drop_bit n (u128_val a)"
proof (rule bit_word_eqI)
  fix i :: nat assume i: "i < LENGTH(128)"
  show "bit (u128_val (u128_shr a n)) i = bit (drop_bit n (u128_val a)) i"
    using i by (auto simp: bit_u128_val u128_shr_def u128_make_def Let_def bit_simps ac_simps
        split: if_splits dest: bit_imp_le_length)
qed

lemma u128_val_arith: "u128_val a = ucast (u_hi a) * 2 ^ 64 + ucast (u_lo a)"
proof -
  have "push_bit 64 (ucast (u_hi a) :: 128 word) OR ucast (u_lo a) 
      = push_bit 64 (ucast (u_hi a)) + ucast (u_lo a)"
    by (rule disjunctive_add [symmetric]) (auto simp: bit_simps dest: bit_imp_le_length)
  then show ?thesis by (simp add: u128_val_def push_bit_eq_mult mult.commute)
qed

lemma unat_lt_64: "unat (w :: 64 word) < 18446744073709551616"
proof -
  have "unat w < 2 ^ LENGTH(64)" by (rule unsigned_less)
  then show ?thesis by simp
qed

lemma unat_u128_val: "unat (u128_val a) = unat (u_hi a) * 2 ^ 64 + unat (u_lo a)"
proof -
  have lt: "unat (u_hi a) * 2 ^ 64 + unat (u_lo a) < 2 ^ 128"
    using unat_lt_64 [of "u_hi a"] unat_lt_64 [of "u_lo a"] by simp
  have "u128_val a = of_nat (unat (u_hi a) * 2 ^ 64 + unat (u_lo a))"
    by (simp add: u128_val_arith)
  then have "unat (u128_val a) = (unat (u_hi a) * 2 ^ 64 + unat (u_lo a)) mod 2 ^ LENGTH(128)"
    by (simp only: unat_of_nat)
  with lt show ?thesis by simp
qed

lemma add_halves_mod:
  fixes ha hb la lb :: nat
  assumes "la < H" "lb < H"
  shows "((ha + (hb + (if (la + lb) mod H < la then 1 else 0))) mod H * H + (la + lb) mod H) mod (H * H)
    = (ha * H + la + (hb * H + lb)) mod (H * H)"
proof -
  let ?c = "if (la + lb) mod H < la then 1 else 0 :: nat"
  have low: "?c * H + (la + lb) mod H = la + lb"
    using assms by (auto simp: mod_if)
  have "((ha + (hb + ?c)) mod H * H + (la + lb) mod H) mod (H * H)
      = ((ha + (hb + ?c)) * H mod (H * H) + (la + lb) mod H) mod (H * H)"
    by (simp add: mult_mod_left)
  also have "\<dots> = ((ha + (hb + ?c)) * H + (la + lb) mod H) mod (H * H)"
    by (rule mod_add_left_eq)
  also have "(ha + (hb + ?c)) * H + (la + lb) mod H = ha * H + hb * H + (?c * H + (la + lb) mod H)"
    by (simp only: add_mult_distrib add.assoc)
  finally show ?thesis unfolding low by (simp only: ac_simps)
qed

lemma u128_val_add: "u128_val (u128_add a b) = u128_val a + u128_val b"
proof -
  have "unat (u128_val (u128_add a b)) mod (2 ^ 64 * 2 ^ 64)
      = (unat (u128_val a) + unat (u128_val b)) mod (2 ^ 64 * 2 ^ 64)"
    using add_halves_mod [of "unat (u_lo a)" "2 ^ 64" "unat (u_lo b)" "unat (u_hi a)" "unat (u_hi b)"]
      unat_lt_64 [of "u_lo a"] unat_lt_64 [of "u_lo b"]
    by (auto simp: unat_u128_val u128_add_def u128_make_def Let_def unat_word_ariths word_less_nat_alt
        mod_simps split: if_splits)
  moreover have "unat (u128_val (u128_add a b)) < 2 ^ LENGTH(128)" by (rule unsigned_less)
  ultimately show ?thesis
    by (intro word_unat_eq_iff [THEN iffD2]) (simp add: unat_word_ariths)
qed

lemma u128_val_of_uint64: "u128_val (u128_of_uint64 l) = ucast l"
  by (simp add: u128_val_def u128_of_uint64_def u128_make_def)

lemma u128_val_make: "u128_val (u128_make h l) = ucast h * 2 ^ 64 + ucast l"
  by (simp add: u128_val_arith u128_make_def)

lemma u128_eqI: "u128_val a = u128_val b \<Longrightarrow> a = b"
proof -
  assume eq: "u128_val a = u128_val b"
  have "u_lo a = u_lo b"
  proof (rule bit_word_eqI)
    fix i :: nat assume "i < LENGTH(64)"
    moreover from eq have "bit (u128_val a) i = bit (u128_val b) i" by simp
    ultimately show "bit (u_lo a) i = bit (u_lo b) i" by (simp add: bit_u128_val)
  qed
  moreover have "u_hi a = u_hi b"
  proof (rule bit_word_eqI)
    fix i :: nat
    from eq have "bit (u128_val a) (i + 64) = bit (u128_val b) (i + 64)" by simp
    then show "bit (u_hi a) i = bit (u_hi b) i" by (simp add: bit_u128_val)
  qed
  ultimately show ?thesis by simp
qed

lemma u128_val_not: "u128_val (u128_not a) = NOT (u128_val a)"
  by (rule bit_word_eqI) (auto simp: bit_u128_val u128_not_def u128_make_def bit_simps)

lemma u128_val_inc: "u128_val (u128_inc a) = u128_val a + 1"
proof -
  have "l + 1 < l \<longleftrightarrow> l + 1 = 0" for l :: "64 word"
    by (cases "l + 1 = 0") (auto simp: word_less_nat_alt unat_gt_0 unatSuc add.commute)
  then have "u128_inc a = u128_add a (u128_make 0 1)"
    by (simp add: u128_inc_def u128_add_def u128_make_def Let_def)
  then show ?thesis by (simp add: u128_val_add u128_val_make)
qed

lemma u128_val_neg: "u128_val (u128_neg a) = - u128_val a"
  by (simp add: u128_neg_def u128_val_inc u128_val_not minus_eq_not_plus_1)

lemma u128_val_sub: "u128_val (u128_sub a b) = u128_val a - u128_val b"
  by (simp add: u128_sub_def u128_val_add u128_val_neg)

lemma u128_val_bitops:
  "u128_val (u128_and a b) = u128_val a AND u128_val b"
  "u128_val (u128_or_assign a b) = u128_val a OR u128_val b"
  "u128_val (u128_xor a b) = u128_val a XOR u128_val b"
  by (rule bit_word_eqI; auto simp: bit_u128_val u128_and_def u128_or_assign_def u128_xor_def
      u128_make_def bit_simps)+

lemma u128_less_iff: "u128_less a b \<longleftrightarrow> u128_val a < u128_val b"
proof -
  have "unat (u_hi a) \<noteq> unat (u_hi b)" if "u_hi a \<noteq> u_hi b"
    using that by (simp add: word_unat_eq_iff)
  then show ?thesis
    using unat_lt_64 [of "u_lo a"] unat_lt_64 [of "u_lo b"]
    unfolding u128_less_def word_less_nat_alt unat_u128_val by (cases "u_hi a = u_hi b") auto
qed

lemma low32_take_bit: "low32 w = take_bit 32 w"
  by (simp add: low32_def take_bit_eq_mask mask_numeral)

lemma low32_lt: "unat (low32 w) < 2 ^ 32"
  by (simp only: low32_take_bit unsigned_take_bit_eq take_bit_nat_less_exp)

lemma ucast_low32_mult:
  "(ucast (low32 a * low32 b) :: 128 word) = ucast (low32 a) * ucast (low32 b)"
proof -
  have "unat (low32 a) * unat (low32 b) < 2 ^ 32 * 2 ^ 32"
    by (intro mult_strict_mono low32_lt) auto
  then have "unat (low32 a * low32 b) = unat (low32 a) * unat (low32 b)"
    by (simp add: unat_word_ariths)
  then have "(of_nat (unat (low32 a * low32 b)) :: 128 word) = of_nat (unat (low32 a)) * of_nat (unat (low32 b))"
    by simp
  then show ?thesis by simp
qed

lemma ucast_split32:
  "(ucast w :: 128 word) = ucast (low32 w) + ucast (low32 (drop_bit 32 w)) * 2 ^ 32"
proof -
  have "(ucast (low32 w) :: 128 word) + push_bit 32 (ucast (low32 (drop_bit 32 w)))
      = ucast (low32 w) OR push_bit 32 (ucast (low32 (drop_bit 32 w)))"
    by (rule disjunctive_add) (auto simp: low32_take_bit bit_simps)
  also have "\<dots> = ucast w"
    by (rule bit_word_eqI) (auto simp: low32_take_bit bit_simps dest: bit_imp_le_length)
  finally show ?thesis by (simp add: push_bit_eq_mult mult.commute)
qed

lemma limb_product:
  fixes a0 :: "128 word"
  assumes "B ^ 4 = 0"
  shows "(a0 + a1 * B + (a2 + a3 * B) * B ^ 2) * (b0 + b1 * B + (b2 + b3 * B) * B ^ 2)
    = (((a3 * b0 + a2 * b1 + a1 * b2 + a0 * b3) * B + a2 * b0 + a1 * b1 + a0 * b2) * B
        + a1 * b0 + a0 * b1) * B + a0 * b0"
proof -
  have "(a0 + a1 * B + (a2 + a3 * B) * B ^ 2) * (b0 + b1 * B + (b2 + b3 * B) * B ^ 2)
    = (((a3 * b0 + a2 * b1 + a1 * b2 + a0 * b3) * B + a2 * b0 + a1 * b1 + a0 * b2) * B
        + a1 * b0 + a0 * b1) * B + a0 * b0
      + B ^ 4 * (a3 * b1 + a2 * b2 + a1 * b3 + (a3 * b2 + a2 * b3) * B + a3 * b3 * B ^ 2)"
    by (simp add: power2_eq_square power4_eq_xxxx algebra_simps)
  with assms show ?thesis by simp
qed

lemma u128_val_limbs:
  "u128_val x = ucast (low32 (u_lo x)) + ucast (low32 (drop_bit 32 (u_lo x))) * 2 ^ 32
    + (ucast (low32 (u_hi x)) + ucast (low32 (drop_bit 32 (u_hi x))) * 2 ^ 32) * (2 ^ 32) ^ 2"
  unfolding u128_val_arith by (subst (1 2) ucast_split32) (simp add: ac_simps)

lemma u128_val_mul: "u128_val (u128_mul x y) = u128_val x * u128_val y"
proof -
  have B: "((2::128 word) ^ 32) ^ 4 = 0" by simp
  have shl: "u128_val (u128_shl t 32) = u128_val t * 2 ^ 32" for t
    by (simp only: u128_val_shl push_bit_eq_mult)
  show ?thesis
    unfolding u128_val_limbs [of x] u128_val_limbs [of y] limb_product [OF B]
    unfolding u128_mul_def Let_def
    by (simp only: u128_val_add u128_val_of_uint64 u128_val_make shl ucast_low32_mult
        mult_zero_left add_0_left unsigned_0)
qed

lemma unat_mult_halves:
  "unat (u128_val (u128_mul (u128_of_uint64 a) (u128_of_uint64 b))) = unat a * unat b"
proof -
  have "unat a * unat b < 2 ^ 64 * 2 ^ 64"
    using unat_lt_64 [of a] unat_lt_64 [of b] by (intro mult_strict_mono) auto
  moreover have "unat (ucast w :: 128 word) = unat w" for w :: "64 word"
    using unat_lt_64 [of w] by (simp add: unsigned_ucast_eq take_bit_nat_eq_self)
  ultimately show ?thesis
    by (simp add: u128_val_mul u128_val_of_uint64 unat_word_ariths)
qed

section \<open>Long division\<close>

text \<open>
  \<open>divide\<close> is templated over the integer type and only ever instantiated at \<open>uint128\<close>; by the
  lemmas above its operators are those of 128-bit words. The guard \<open>d \<noteq> 0\<close> excludes the one
  call that would not return, which the zero test of \<open>divide\<close> rules out.
\<close>

lemma top_bit_128: "bit d 127 \<longleftrightarrow> 2 ^ 127 \<le> unat (d :: 128 word)"
proof -
  have lt: "unat d < 2 ^ 128" using unsigned_less [of d] by simp
  have "bit d 127 = bit (unat d) 127" by (simp add: bit_unsigned_iff)
  then have "bit d 127 \<longleftrightarrow> odd (unat d div 2 ^ 127)" by (simp only: bit_iff_odd)
  moreover have "unat d div 2 ^ 127 = (if 2 ^ 127 \<le> unat d then 1 else 0)"
    using lt by (auto simp: div_if)
  ultimately show ?thesis by simp
qed

lemma unat_double_128:
  assumes "\<not> bit (d :: 128 word) 127"
  shows "unat (push_bit 1 d) = 2 * unat d"
  using assms by (simp add: top_bit_128 push_bit_eq_mult unat_word_ariths)

lemma unat_half_128: "unat (drop_bit 1 (d :: 128 word)) = unat d div 2"
  by (simp add: drop_bit_eq_div unat_div)

function divide_up :: "128 word \<Rightarrow> 128 word \<Rightarrow> 128 word \<Rightarrow> 128 word \<times> 128 word" where
  "divide_up n d x =
     (if d \<noteq> 0 \<and> d \<le> n \<and> drop_bit 127 d AND 1 = 0
      then divide_up n (push_bit 1 d) (push_bit 1 x)
      else (x, d))"
  by pat_completeness auto
termination
proof (relation "measure (\<lambda>(n, d, x). 2 ^ 128 - unat d)")
  fix n d x :: "128 word"
  assume "d \<noteq> 0 \<and> d \<le> n \<and> drop_bit 127 d AND 1 = 0"
  then have nz: "unat d \<noteq> 0" and top: "\<not> bit d 127"
    by (auto simp: unat_eq_zero and_one_eq bit_iff_odd_drop_bit odd_iff_mod_2_eq_one)
  have "unat d < 2 ^ 128" using unsigned_less [of d] by simp
  with nz unat_double_128 [OF top] show "((n, push_bit 1 d, push_bit 1 x), n, d, x) \<in> measure (\<lambda>(n, d, x). 2 ^ 128 - unat d)"
    by simp
qed simp

function divide_down :: "128 word \<Rightarrow> 128 word \<Rightarrow> 128 word \<Rightarrow> 128 word \<Rightarrow> 128 word \<times> 128 word" where
  "divide_down n d x answer =
     (if x \<noteq> 0 then
        let (n', answer') = (if d \<le> n then (n - d, answer OR x) else (n, answer))
        in divide_down n' (drop_bit 1 d) (drop_bit 1 x) answer'
      else (answer, n))"
  by pat_completeness auto
termination
proof (relation "measure (\<lambda>(n, d, x, answer). unat x)")
  fix n d x answer n' answer' :: "128 word" and p
  assume "x \<noteq> 0"
  then have "unat (drop_bit 1 x) < unat x"
    by (simp add: drop_bit_eq_div unat_div unat_gt_0)
  then show "((n', drop_bit 1 d, drop_bit 1 x, answer'), n, d, x, answer) \<in> measure (\<lambda>(n, d, x, answer). unat x)"
    by simp
qed simp
declare divide_up.simps [simp del] divide_down.simps [simp del]

definition u128_divide :: "128 word \<Rightarrow> 128 word \<Rightarrow> (128 word \<times> 128 word) result" where
  "u128_divide numerator denominator =
     (if denominator = 0 then Inl Domain_Error
      else let (x, d) = divide_up numerator denominator 1
           in Inr (divide_down numerator d x 0))"

lemma divide_up_spec:
  assumes "0 < unat d0" "unat d = unat d0 * 2 ^ k" "unat x = 2 ^ k" "divide_up n d x = (x', d')"
  shows "\<exists>j. unat d' = unat d0 * 2 ^ j \<and> unat x' = 2 ^ j \<and> unat n < 2 * unat d'"
  using assms
proof (induction n d x arbitrary: k rule: divide_up.induct)
  case (1 n d x)
  show ?case
  proof (cases "d \<noteq> 0 \<and> d \<le> n \<and> drop_bit 127 d AND 1 = 0")
    case True
    then have top: "\<not> bit d 127"
      by (auto simp: and_one_eq bit_iff_odd_drop_bit odd_iff_mod_2_eq_one)
    have d: "unat (push_bit 1 d) = unat d0 * 2 ^ Suc k"
      using unat_double_128 [OF top] 1(3) by simp
    have "unat x \<le> unat d" using 1(2-4) by simp
    with top have "\<not> bit x 127" by (simp add: top_bit_128)
    then have x: "unat (push_bit 1 x) = 2 ^ Suc k" using 1(4) unat_double_128 by simp
    have "divide_up n (push_bit 1 d) (push_bit 1 x) = (x', d')"
      using 1(5) True by (simp add: divide_up.simps [of n d x])
    from 1(1) [OF True 1(2) d x this] show ?thesis .
  next
    case False
    with 1(5) have "x' = x" "d' = d" by (auto simp: divide_up.simps [of n d x] split: if_splits)
    moreover have "unat n < 2 * unat d"
    proof (cases "bit d 127")
      case True
      have "unat n < 2 ^ 128" using unsigned_less [of n] by simp
      with True show ?thesis by (simp add: top_bit_128)
    next
      case top: False
      then have "drop_bit 127 d AND 1 = 0"
        by (simp add: and_one_eq bit_iff_odd_drop_bit odd_iff_mod_2_eq_one)
      moreover have "d \<noteq> 0" using 1(2,3) by auto
      ultimately show ?thesis using False by (simp add: word_le_nat_alt)
    qed
    ultimately show ?thesis using 1(3,4) by blast
  qed
qed

lemma or_disjoint_128:
  assumes "2 ^ Suc k dvd unat (a :: 128 word)" "unat x = 2 ^ k"
  shows "unat (a OR x) = unat a + unat x"
proof -
  have "unat (a OR x) = unat a OR unat x" by (simp add: unsigned_or_eq)
  also have "\<dots> = unat a + unat x"
  proof (rule disjunctive_add [symmetric])
    fix i
    show "\<not> bit (unat a) i \<or> \<not> bit (unat x) i"
    proof (cases "i = k")
      case True
      from assms(1) have "even (unat a div 2 ^ k)" by (auto simp: dvd_def)
      with True show ?thesis by (simp add: bit_iff_odd)
    next
      case False
      then show ?thesis by (simp add: assms(2) bit_exp_iff)
    qed
  qed
  finally show ?thesis .
qed

lemma divide_down_spec:
  assumes "unat d = unat d0 * 2 ^ k" "unat x = 2 ^ k" "unat n < 2 * unat d"
    "unat N = unat answer * unat d0 + unat n" "2 ^ Suc k dvd unat answer" "divide_down n d x answer = (q, r)"
  shows "unat N = unat q * unat d0 + unat r \<and> unat r < unat d0"
  using assms
proof (induction k arbitrary: n d x answer)
  case 0
  then have x: "x = 1" by (metis power_0 unat_1 word_unat_eq_iff)
  have "divide_down n d x answer = divide_down (if d \<le> n then n - d else n) (drop_bit 1 d) 0
      (if d \<le> n then answer OR x else answer)"
    unfolding x by (simp add: divide_down.simps [of n d 1] drop_bit_eq_div)
  then have qr: "q = (if d \<le> n then answer OR x else answer)" "r = (if d \<le> n then n - d else n)"
    using 0(6) by (simp_all add: divide_down.simps [of _ _ 0])
  show ?case
    using 0 or_disjoint_128 [of 0 answer x]
    by (auto simp: qr word_le_nat_alt unat_sub add_mult_distrib)
next
  case (Suc k)
  have x0: "x \<noteq> 0" using Suc.prems(2) by auto
  let ?n = "if d \<le> n then n - d else n" and ?a = "if d \<le> n then answer OR x else answer"
  have step: "divide_down ?n (drop_bit 1 d) (drop_bit 1 x) ?a = (q, r)"
    using Suc.prems(6) x0 by (simp add: divide_down.simps [of n d x] split: if_splits)
  have d: "unat (drop_bit 1 d) = unat d0 * 2 ^ k" and x: "unat (drop_bit 1 x) = 2 ^ k"
    unfolding unat_half_128 using Suc.prems(1,2) by simp_all
  have n: "unat ?n < 2 * unat (drop_bit 1 d)"
    using Suc.prems(1,3) d by (auto simp: word_le_nat_alt unat_sub)
  have orr: "unat (answer OR x) = unat answer + unat x"
    using Suc.prems(2,5) by (rule or_disjoint_128 [rotated])
  have N: "unat N = unat ?a * unat d0 + unat ?n"
    using Suc.prems(1,2,4) by (auto simp: orr word_le_nat_alt unat_sub add_mult_distrib)
  have "2 ^ Suc k dvd unat ?a"
    using Suc.prems(2,5) by (auto simp: orr intro: dvd_add dest: power_le_dvd [of 2 "Suc (Suc k)" _ "Suc k"])
  from Suc.IH [OF d x n N this step] show ?case .
qed

lemma u128_divide_eq:
  assumes "denominator \<noteq> 0"
  shows "u128_divide numerator denominator = Inr (numerator div denominator, numerator mod denominator)"
proof -
  have pos: "0 < unat denominator" using assms by (simp add: unat_gt_0)
  obtain x d where up: "divide_up numerator denominator 1 = (x, d)" by fastforce
  obtain q r where down: "divide_down numerator d x 0 = (q, r)" by fastforce
  from divide_up_spec [OF pos _ _ up, of 0] obtain j where
    j: "unat d = unat denominator * 2 ^ j" "unat x = 2 ^ j" "unat numerator < 2 * unat d"
    by auto
  from divide_down_spec [OF j _ _ down, of numerator]
  have "unat numerator = unat q * unat denominator + unat r" "unat r < unat denominator"
    by auto
  then have "unat q = unat numerator div unat denominator" "unat r = unat numerator mod unat denominator"
    by (simp_all add: div_mult_self3 mult.commute)
  then have "q = numerator div denominator" "r = numerator mod denominator"
    by (simp_all add: word_unat_eq_iff unat_div unat_mod)
  with assms up down show ?thesis by (simp add: u128_divide_def)
qed

section \<open>Full product\<close>

lemma unat_ucast_64_128: "unat (ucast w :: 128 word) = unat (w :: 64 word)"
  using unat_lt_64 [of w] by (simp add: unsigned_ucast_eq take_bit_nat_eq_self)

lemma u128_add_small:
  assumes "unat (u128_val a) + unat w < 2 ^ 128"
  shows "unat (u128_val (u128_add a (u128_of_uint64 w))) = unat (u128_val a) + unat w"
  using assms by (simp add: u128_val_add u128_val_of_uint64 unat_word_ariths unat_ucast_64_128)

lemma full_product_digits:
  fixes H :: nat
  assumes S: "al * bl = sh * H + sl" and R: "ah * bl = rh * H + rl"
    and Q: "al * bh = qh * H + ql" and P: "ah * bh = ph * H + pl"
    and acc1: "sh + ql + rl = c1 * H + y1" and acc2: "c1 + qh + rh + pl = c2 * H + y2"
  shows "(ah * H + al) * (bh * H + bl) = ((c2 + ph) * H + y2) * (H * H) + (y1 * H + sl)"
proof -
  have "(ah * H + al) * (bh * H + bl) = (ah * bh) * (H * H) + (al * bh + ah * bl) * H + al * bl"
    by (simp add: algebra_simps)
  also have "\<dots> = (ph * H + (qh + rh + pl)) * (H * H) + (sh + ql + rl) * H + sl"
    unfolding S R Q P by (simp add: algebra_simps)
  also have "\<dots> = (ph * H + (c1 + qh + rh + pl)) * (H * H) + y1 * H + sl"
    unfolding acc1 by (simp add: algebra_simps)
  also have "\<dots> = ((c2 + ph) * H + y2) * (H * H) + (y1 * H + sl)"
    unfolding acc2 by (simp add: algebra_simps)
  finally show ?thesis .
qed

lemma u128_full_product_eq:
  "unat (u128_val (fst (u128_full_product a b))) * 2 ^ 128 + unat (u128_val (snd (u128_full_product a b)))
     = unat (u128_val a) * unat (u128_val b)"
proof -
  let ?H = "18446744073709551616 :: nat"
  define s where "s = u128_mul (u128_of_uint64 (u_lo a)) (u128_of_uint64 (u_lo b))"
  define r where "r = u128_mul (u128_of_uint64 (u_hi a)) (u128_of_uint64 (u_lo b))"
  define q where "q = u128_mul (u128_of_uint64 (u_lo a)) (u128_of_uint64 (u_hi b))"
  define p where "p = u128_mul (u128_of_uint64 (u_hi a)) (u128_of_uint64 (u_hi b))"
  define acc1 where "acc1 = u128_add (u128_add (u128_of_uint64 (u_hi s)) (u128_of_uint64 (u_lo q)))
                   (u128_of_uint64 (u_lo r))"
  define acc2 where "acc2 = u128_add (u128_add (u128_add (u128_of_uint64 (u_hi acc1)) (u128_of_uint64 (u_hi q)))
                   (u128_of_uint64 (u_hi r))) (u128_of_uint64 (u_lo p))"
  note lt = unat_lt_64
  have halves: "unat (u128_val z) = unat (u_hi z) * ?H + unat (u_lo z)" for z
    by (simp add: unat_u128_val)
  have v0: "unat (u128_val (u128_of_uint64 w)) = unat w" for w
    by (simp add: u128_val_of_uint64 unat_ucast_64_128)
  have prods:
    "unat (u_lo a) * unat (u_lo b) = unat (u_hi s) * ?H + unat (u_lo s)"
    "unat (u_hi a) * unat (u_lo b) = unat (u_hi r) * ?H + unat (u_lo r)"
    "unat (u_lo a) * unat (u_hi b) = unat (u_hi q) * ?H + unat (u_lo q)"
    "unat (u_hi a) * unat (u_hi b) = unat (u_hi p) * ?H + unat (u_lo p)"
    using halves [of s] halves [of r] halves [of q] halves [of p]
    by (simp_all add: s_def r_def q_def p_def unat_mult_halves)
  have "unat (u128_val acc1) = unat (u_hi s) + unat (u_lo q) + unat (u_lo r)"
    unfolding acc1_def using lt [of "u_hi s"] lt [of "u_lo q"] lt [of "u_lo r"]
    by (simp add: u128_add_small v0)
  then have acc1: "unat (u_hi s) + unat (u_lo q) + unat (u_lo r) = unat (u_hi acc1) * ?H + unat (u_lo acc1)"
    using halves [of acc1] by simp
  have "unat (u128_val acc2) = unat (u_hi acc1) + unat (u_hi q) + unat (u_hi r) + unat (u_lo p)"
    unfolding acc2_def using lt [of "u_hi acc1"] lt [of "u_hi q"] lt [of "u_hi r"] lt [of "u_lo p"]
    by (simp add: u128_add_small v0)
  then have acc2: "unat (u_hi acc1) + unat (u_hi q) + unat (u_hi r) + unat (u_lo p)
      = unat (u_hi acc2) * ?H + unat (u_lo acc2)"
    using halves [of acc2] by simp
  have total: "unat (u128_val a) * unat (u128_val b)
      = ((unat (u_hi acc2) + unat (u_hi p)) * ?H + unat (u_lo acc2)) * (?H * ?H)
        + (unat (u_lo acc1) * ?H + unat (u_lo s))"
    unfolding halves [of a] halves [of b]
    by (rule full_product_digits [OF prods acc1 acc2])
  have "unat (u128_val a) * unat (u128_val b) < 2 ^ 128 * 2 ^ 128"
    using unsigned_less [of "u128_val a"] unsigned_less [of "u128_val b"]
    by (intro mult_strict_mono) auto
  then have "((unat (u_hi acc2) + unat (u_hi p)) * ?H) * (?H * ?H) < ?H * ?H * (?H * ?H)"
    unfolding total by (simp add: add_mult_distrib)
  then have y3: "unat (u_hi acc2 + u_hi p) = unat (u_hi acc2) + unat (u_hi p)"
    by (simp add: unat_word_ariths)
  have fp: "u128_full_product a b =
      (u128_make (u_hi acc2 + u_hi p) (u_lo acc2), u128_make (u_lo acc1) (u_lo s))"
    by (simp only: u128_full_product_def Let_def s_def r_def q_def p_def acc1_def acc2_def)
  show ?thesis
    unfolding fp total by (simp add: unat_u128_val u128_make_def y3)
qed

section \<open>The contract of the type\<close>

text \<open>
  What a client of a fixed-width integer type relies on: a faithful reading \<open>val\<close> of its values
  as machine words under which the operators are those of the words.
\<close>

locale word_arith =
  fixes val :: "'u \<Rightarrow> 'n::len word"
    and add sub mul :: "'u \<Rightarrow> 'u \<Rightarrow> 'u"
    and less :: "'u \<Rightarrow> 'u \<Rightarrow> bool"
  assumes val_inject: "val a = val b \<Longrightarrow> a = b"
    and val_add: "val (add a b) = val a + val b"
    and val_sub: "val (sub a b) = val a - val b"
    and val_mul: "val (mul a b) = val a * val b"
    and less_iff: "less a b \<longleftrightarrow> val a < val b"
begin

lemma add_commute: "add a b = add b a"
  by (rule val_inject) (simp add: val_add add.commute)

lemma add_assoc: "add (add a b) c = add a (add b c)"
  by (rule val_inject) (simp add: val_add add.assoc)

lemma sub_add_cancel: "sub (add a b) b = a"
  by (rule val_inject) (simp add: val_add val_sub)

lemma square_difference:
  "val (sub (mul (add r s) (add r s)) (mul s s)) = val r * (val r + 2 * val s)"
  by (simp add: val_add val_sub val_mul algebra_simps)

lemma add_overflows_iff: "less (add a b) a \<longleftrightarrow> val a + val b < val a"
  by (simp add: less_iff val_add)

end

interpretation u128: word_arith u128_val u128_add u128_sub u128_mul u128_less
  by unfold_locales
    (simp_all add: u128_eqI u128_val_add u128_val_sub u128_val_mul u128_less_iff)

section \<open>Properties\<close>

text \<open>C21: \<open>fc::uint128\<close> implements 128-bit words: addition with its hand-written carry,
  two's-complement subtraction, the sixteen-limb multiplication, both shifts (any count),
  comparison and the conversion from \<open>uint64_t\<close> all agree with the word operations on the
  value of the two halves.\<close>

theorem uint128_refines_word:
  "u128_val (u128_add a b) = u128_val a + u128_val b \<and>
   u128_val (u128_sub a b) = u128_val a - u128_val b \<and>
   u128_val (u128_mul a b) = u128_val a * u128_val b \<and>
   u128_val (u128_shl a n) = push_bit n (u128_val a) \<and>
   u128_val (u128_shr a n) = drop_bit n (u128_val a) \<and>
   u128_val (u128_neg a) = - u128_val a \<and>
   (u128_less a b \<longleftrightarrow> u128_val a < u128_val b) \<and>
   u128_val (u128_of_uint64 l) = ucast l"
  by (intro conjI u128.val_add u128.val_sub u128.val_mul u128.less_iff u128_val_shl u128_val_shr
      u128_val_neg u128_val_of_uint64)

text \<open>C28: \<open>uint128::full_product\<close> returns the exact 256-bit product of two 128-bit values as a
  high and a low half; no partial sum of the four cross products is lost.\<close>

theorem full_product_exact:
  "unat (u128_val (fst (u128_full_product a b))) * 2 ^ 128
     + unat (u128_val (snd (u128_full_product a b))) = unat (u128_val a) * unat (u128_val b)"
  by (rule u128_full_product_eq)

text \<open>C29: The shift-and-subtract long division behind \<open>uint128::operator%=\<close> and the decimal
  conversion terminates and returns quotient and remainder; it throws exactly on a zero
  denominator.\<close>

theorem long_division_correct:
  "u128_divide numerator denominator =
     (if denominator = 0 then Inl Domain_Error
      else Inr (numerator div denominator, numerator mod denominator))"
  using u128_divide_eq by (simp add: u128_divide_def)


end
