(* ===== verification/Chainbase_Undo.thy ===== *)
theory Chainbase_Undo
  imports Delta_Prelude
begin

text \<open>
  The object store of the chain (\<open>chainbase/chainbase.hpp\<close>, class \<open>generic_index\<close>): objects under
  consecutive ids, with a stack of undo states that records, for every open session, the ids
  created, the old values of the objects modified and the objects removed. The abstract store is
  a current map and a stack of snapshots; \<open>undo\<close> restores the newest snapshot, \<open>squash\<close> forgets it,
  \<open>commit\<close> forgets the oldest ones.

  \<open>MultiIndexType\<close> is a template parameter: its unique secondary indices are the parameter
  \<open>clash\<close>, which says when two objects cannot be in the container together.
\<close>

section \<open>Containers ordered by id\<close>

type_synonym 'v kv = "(nat \<times> 'v) list"

definition kv_emplace :: "nat \<Rightarrow> 'v \<Rightarrow> 'v kv \<Rightarrow> 'v kv" where
  "kv_emplace k v m = (if k \<in> fst ` set m then m else insort_key fst (k, v) m)"

definition kv_erase :: "nat \<Rightarrow> 'v kv \<Rightarrow> 'v kv" where
  "kv_erase k m = filter (\<lambda>p. fst p \<noteq> k) m"

definition kv_set :: "nat \<Rightarrow> 'v \<Rightarrow> 'v kv \<Rightarrow> 'v kv" where
  "kv_set k v m = map (\<lambda>p. if fst p = k then (k, v) else p) m"

section \<open>The index\<close>

text \<open>\<open>_stack\<close> is kept with the back of the deque, the newest undo state, first.\<close>

record 'v undo_state =
  old_values :: "'v kv"
  removed_values :: "'v kv"
  new_ids :: "nat list"
  old_next_id :: nat
  state_revision :: int

record 'v generic_index =
  undo_stack :: "'v undo_state list"
  revision :: int
  next_id :: nat
  indices :: "'v kv"

definition empty_index :: "'v generic_index" where
  "empty_index = \<lparr>undo_stack = [], revision = 0, next_id = 0, indices = []\<rparr>"

definition on_modify :: "nat \<Rightarrow> 'v \<Rightarrow> 'v generic_index \<Rightarrow> 'v generic_index" where
  "on_modify i v ix =
     (case undo_stack ix of
        [] \<Rightarrow> ix
      | head # st \<Rightarrow>
          if i \<in> set (new_ids head) then ix
          else if i \<in> fst ` set (old_values head) then ix
          else ix\<lparr>undo_stack := head\<lparr>old_values := kv_emplace i v (old_values head)\<rparr> # st\<rparr>)"

definition on_remove :: "nat \<Rightarrow> 'v \<Rightarrow> 'v generic_index \<Rightarrow> 'v generic_index" where
  "on_remove i v ix =
     (case undo_stack ix of
        [] \<Rightarrow> ix
      | head # st \<Rightarrow>
          if i \<in> set (new_ids head) then
            ix\<lparr>undo_stack := head\<lparr>new_ids := filter (\<lambda>j. j \<noteq> i) (new_ids head)\<rparr> # st\<rparr>
          else
            case map_of (old_values head) i of
              Some w \<Rightarrow>
                ix\<lparr>undo_stack := head\<lparr>removed_values := kv_emplace i w (removed_values head),
                                      old_values := kv_erase i (old_values head)\<rparr> # st\<rparr>
            | None \<Rightarrow>
                if i \<in> fst ` set (removed_values head) then ix
                else ix\<lparr>undo_stack := head\<lparr>removed_values := kv_emplace i v (removed_values head)\<rparr> # st\<rparr>)"

definition on_create :: "nat \<Rightarrow> 'v generic_index \<Rightarrow> 'v generic_index" where
  "on_create i ix =
     (case undo_stack ix of
        [] \<Rightarrow> ix
      | head # st \<Rightarrow> ix\<lparr>undo_stack := head\<lparr>new_ids := insort_insert i (new_ids head)\<rparr> # st\<rparr>)"

text \<open>
  The container operations: insertion and in-place modification fail when the object collides
  with another one on a unique index; modifying or erasing at the end iterator is undefined.
\<close>

definition container_emplace :: "('v \<Rightarrow> 'v \<Rightarrow> bool) \<Rightarrow> nat \<Rightarrow> 'v \<Rightarrow> 'v kv \<Rightarrow> 'v kv result" where
  "container_emplace clash i v xs =
     (if i \<in> fst ` set xs \<or> (\<exists>p \<in> set xs. clash v (snd p)) then Inl Logic_Error
      else Inr (kv_emplace i v xs))"

definition container_modify :: "('v \<Rightarrow> 'v \<Rightarrow> bool) \<Rightarrow> nat \<Rightarrow> 'v \<Rightarrow> 'v kv \<Rightarrow> 'v kv result" where
  "container_modify clash i v xs =
     (if i \<notin> fst ` set xs then Inl Undefined_Behaviour
      else if \<exists>p \<in> set xs. fst p \<noteq> i \<and> clash v (snd p) then Inl Logic_Error
      else Inr (kv_set i v xs))"

definition container_erase :: "nat \<Rightarrow> 'v kv \<Rightarrow> 'v kv result" where
  "container_erase i xs =
     (if i \<notin> fst ` set xs then Inl Undefined_Behaviour else Inr (kv_erase i xs))"

definition emplace :: "('v \<Rightarrow> 'v \<Rightarrow> bool) \<Rightarrow> (nat \<Rightarrow> 'v) \<Rightarrow> 'v generic_index \<Rightarrow> 'v generic_index result" where
  "emplace clash c ix =
     (let new_id = next_id ix
      in res_bind (container_emplace clash new_id (c new_id) (indices ix)) (\<lambda>xs.
           Inr (on_create new_id (ix\<lparr>indices := xs, next_id := new_id + 1\<rparr>))))"

definition modify :: "('v \<Rightarrow> 'v \<Rightarrow> bool) \<Rightarrow> nat \<Rightarrow> ('v \<Rightarrow> 'v) \<Rightarrow> 'v generic_index \<Rightarrow> 'v generic_index result" where
  "modify clash i m ix =
     res_bind (of_option Undefined_Behaviour (map_of (indices ix) i)) (\<lambda>obj.
       let ix' = on_modify i obj ix
       in res_bind (container_modify clash i (m obj) (indices ix')) (\<lambda>xs. Inr (ix'\<lparr>indices := xs\<rparr>)))"

definition remove :: "nat \<Rightarrow> 'v generic_index \<Rightarrow> 'v generic_index result" where
  "remove i ix =
     res_bind (of_option Undefined_Behaviour (map_of (indices ix) i)) (\<lambda>obj.
       let ix' = on_remove i obj ix
       in res_bind (container_erase i (indices ix')) (\<lambda>xs. Inr (ix'\<lparr>indices := xs\<rparr>)))"

definition find_obj :: "nat \<Rightarrow> 'v generic_index \<Rightarrow> 'v option" where
  "find_obj i ix = map_of (indices ix) i"

definition get_obj :: "nat \<Rightarrow> 'v generic_index \<Rightarrow> 'v result" where
  "get_obj i ix = of_option Out_Of_Range (find_obj i ix)"

section \<open>Sessions\<close>

definition start_undo_session :: "'v generic_index \<Rightarrow> 'v generic_index" where
  "start_undo_session ix =
     (let r = revision ix + 1
      in ix\<lparr>undo_stack := \<lparr>old_values = [], removed_values = [], new_ids = [],
                          old_next_id = next_id ix, state_revision = r\<rparr> # undo_stack ix,
             revision := r\<rparr>)"

definition undo :: "('v \<Rightarrow> 'v \<Rightarrow> bool) \<Rightarrow> 'v generic_index \<Rightarrow> 'v generic_index result" where
  "undo clash ix =
     (case undo_stack ix of
        [] \<Rightarrow> Inr ix
      | head # st \<Rightarrow>
          res_bind (res_fold (\<lambda>(i, v). container_modify clash i v) (old_values head) (indices ix)) (\<lambda>xs1.
          res_bind (res_fold container_erase (new_ids head) xs1) (\<lambda>xs2.
          res_bind (res_fold (\<lambda>(i, v). container_emplace clash i v) (removed_values head) xs2) (\<lambda>xs3.
            Inr (ix\<lparr>indices := xs3, next_id := old_next_id head, undo_stack := st,
                    revision := revision ix - 1\<rparr>)))))"

definition merge_old :: "nat \<times> 'v \<Rightarrow> 'v undo_state \<Rightarrow> 'v undo_state" where
  "merge_old item p =
     (let (i, v) = item
      in if i \<in> set (new_ids p) then p
         else if i \<in> fst ` set (old_values p) then p
         else p\<lparr>old_values := kv_emplace i v (old_values p)\<rparr>)"

definition merge_new :: "nat \<Rightarrow> 'v undo_state \<Rightarrow> 'v undo_state" where
  "merge_new i p = p\<lparr>new_ids := insort_insert i (new_ids p)\<rparr>"

definition merge_removed :: "nat \<times> 'v \<Rightarrow> 'v undo_state \<Rightarrow> 'v undo_state" where
  "merge_removed obj p =
     (let (i, v) = obj
      in if i \<in> set (new_ids p) then p\<lparr>new_ids := filter (\<lambda>j. j \<noteq> i) (new_ids p)\<rparr>
         else
           case map_of (old_values p) i of
             Some w \<Rightarrow> p\<lparr>removed_values := kv_emplace i w (removed_values p),
                        old_values := kv_erase i (old_values p)\<rparr>
           | None \<Rightarrow> p\<lparr>removed_values := kv_emplace i v (removed_values p)\<rparr>)"

text \<open>The bodies of the three loops of \<open>squash\<close>, which merge the newest state into the one below.\<close>

definition merge_states :: "'v undo_state \<Rightarrow> 'v undo_state \<Rightarrow> 'v undo_state" where
  "merge_states state prev_state =
     fold merge_removed (removed_values state)
       (fold merge_new (new_ids state) (fold merge_old (old_values state) prev_state))"

definition squash :: "'v generic_index \<Rightarrow> 'v generic_index" where
  "squash ix =
     (case undo_stack ix of
        [] \<Rightarrow> ix
      | [_] \<Rightarrow> ix\<lparr>undo_stack := []\<rparr>
      | state # prev_state # st \<Rightarrow>
          ix\<lparr>undo_stack := merge_states state prev_state # st,
             revision := revision ix - 1\<rparr>)"

definition commit :: "int \<Rightarrow> 'v generic_index \<Rightarrow> 'v generic_index" where
  "commit r ix =
     ix\<lparr>undo_stack := rev (dropWhile (\<lambda>u. state_revision u \<le> r) (rev (undo_stack ix)))\<rparr>"

text \<open>\<open>undo_all\<close> loops while the stack is not empty; every \<open>undo\<close> pops one state.\<close>

definition undo_all :: "('v \<Rightarrow> 'v \<Rightarrow> bool) \<Rightarrow> 'v generic_index \<Rightarrow> 'v generic_index result" where
  "undo_all clash ix = res_fold (\<lambda>_. undo clash) (undo_stack ix) ix"

definition set_revision :: "int \<Rightarrow> 'v generic_index \<Rightarrow> 'v generic_index result" where
  "set_revision r ix = (if undo_stack ix \<noteq> [] then Inl Logic_Error else Inr (ix\<lparr>revision := r\<rparr>))"

section \<open>Snapshots\<close>

lemma map_of_kv_emplace:
  "map_of (kv_emplace k v m) = (if k \<in> dom (map_of m) then map_of m else (map_of m)(k \<mapsto> v))"
proof -
  have ins: "map_of (insort_key fst (k, v) m) = (map_of m)(k \<mapsto> v)" if "k \<notin> fst ` set m"
    using that
  proof (induction m)
    case (Cons p m)
    then show ?case by (cases p) (auto simp: fun_upd_twist)
  qed simp
  then show ?thesis by (auto simp: kv_emplace_def dom_map_of_conv_image_fst)
qed

lemma map_of_kv_erase: "map_of (kv_erase k m) = (map_of m)(k := None)"
  by (induction m) (auto simp: kv_erase_def fun_eq_iff)

lemma map_of_kv_set:
  assumes "k \<in> dom (map_of m)"
  shows "map_of (kv_set k v m) = (map_of m)(k \<mapsto> v)"
proof -
  have "map_of (kv_set k v m) x = (if x = k \<and> map_of m k \<noteq> None then Some v else map_of m x)" for x
    unfolding kv_set_def by (induction m) auto
  then show ?thesis using assms by auto
qed

lemma keys_conv: "fst ` set m = dom (map_of m)"
  by (simp add: dom_map_of_conv_image_fst)

lemmas kv_simps = map_of_kv_emplace map_of_kv_erase map_of_kv_set keys_conv

definition apply_undo :: "'v undo_state \<Rightarrow> (nat \<rightharpoonup> 'v) \<Rightarrow> (nat \<rightharpoonup> 'v)" where
  "apply_undo u m i =
     (if i \<in> set (new_ids u) then None
      else case map_of (old_values u) i of
             Some v \<Rightarrow> Some v
           | None \<Rightarrow> (case map_of (removed_values u) i of Some v \<Rightarrow> Some v | None \<Rightarrow> m i))"

definition layer_ok :: "(nat \<rightharpoonup> 'v) \<Rightarrow> nat \<Rightarrow> 'v undo_state \<Rightarrow> bool" where
  "layer_ok m n u \<longleftrightarrow>
     set (new_ids u) \<subseteq> dom m \<and> dom (map_of (old_values u)) \<subseteq> dom m \<and>
     dom (map_of (removed_values u)) \<inter> dom m = {} \<and>
     set (new_ids u) \<subseteq> {old_next_id u..<n} \<and>
     dom m \<inter> {old_next_id u..} \<subseteq> set (new_ids u) \<and>
     dom (map_of (old_values u)) \<subseteq> {..<old_next_id u} \<and>
     dom (map_of (removed_values u)) \<subseteq> {..<old_next_id u} \<and>
     distinct (map fst (old_values u)) \<and> distinct (map fst (removed_values u)) \<and> distinct (new_ids u) \<and>
     old_next_id u \<le> n"

fun stack_ok :: "(nat \<rightharpoonup> 'v) \<Rightarrow> nat \<Rightarrow> 'v undo_state list \<Rightarrow> bool" where
  "stack_ok m n [] = (dom m \<subseteq> {..<n})"
| "stack_ok m n (u # us) = (dom m \<subseteq> {..<n} \<and> layer_ok m n u \<and> stack_ok (apply_undo u m) (old_next_id u) us)"

fun revisions_ok :: "int \<Rightarrow> 'v undo_state list \<Rightarrow> bool" where
  "revisions_ok r [] = True"
| "revisions_ok r (u # us) = (state_revision u = r \<and> revisions_ok (r - 1) us)"

definition index_ok :: "'v generic_index \<Rightarrow> bool" where
  "index_ok ix \<longleftrightarrow>
     stack_ok (map_of (indices ix)) (next_id ix) (undo_stack ix) \<and> revisions_ok (revision ix) (undo_stack ix)"

lemma distinct_kv_emplace:
  assumes "distinct (map fst m)"
  shows "distinct (map fst (kv_emplace k v m))"
proof -
  have "distinct (map fst (insort_key fst (k, v) m))" if "distinct (map fst m)" "k \<notin> fst ` set m"
    using that by (induction m) (auto simp: set_insort_key)
  then show ?thesis using assms by (simp add: kv_emplace_def)
qed

lemma distinct_kv_erase: "distinct (map fst m) \<Longrightarrow> distinct (map fst (kv_erase k m))"
  by (simp add: kv_erase_def distinct_map_filter)

lemma layer_modify:
  assumes "layer_ok m n u" "m i = Some v"
    and "u' = (if i \<in> set (new_ids u) \<or> i \<in> dom (map_of (old_values u)) then u
               else u\<lparr>old_values := kv_emplace i v (old_values u)\<rparr>)"
  shows "layer_ok (m(i \<mapsto> w)) n u'" "apply_undo u' (m(i \<mapsto> w)) = apply_undo u m"
proof -
  have "i < old_next_id u" if "i \<notin> set (new_ids u)"
    using assms(1,2) that unfolding layer_ok_def by (metis Int_iff atLeast_iff domI linorder_not_le subsetD)
  with assms show "layer_ok (m(i \<mapsto> w)) n u'"
    by (auto simp: layer_ok_def kv_simps distinct_kv_emplace)
  have "map_of (removed_values u) i = None"
    using assms(1,2) by (auto simp: layer_ok_def)
  with assms show "apply_undo u' (m(i \<mapsto> w)) = apply_undo u m"
    by (auto simp: apply_undo_def kv_simps fun_eq_iff split: option.splits)
qed

lemma layer_remove:
  assumes "layer_ok m n u" "m i = Some v"
    and "u' = (if i \<in> set (new_ids u) then u\<lparr>new_ids := filter (\<lambda>j. j \<noteq> i) (new_ids u)\<rparr>
               else case map_of (old_values u) i of
                 Some w \<Rightarrow> u\<lparr>removed_values := kv_emplace i w (removed_values u), old_values := kv_erase i (old_values u)\<rparr>
               | None \<Rightarrow> u\<lparr>removed_values := kv_emplace i v (removed_values u)\<rparr>)"
  shows "layer_ok (m(i := None)) n u'" "apply_undo u' (m(i := None)) = apply_undo u m"
proof -
  have less: "i < old_next_id u" if "i \<notin> set (new_ids u)"
    using assms(1,2) that unfolding layer_ok_def by (metis Int_iff atLeast_iff domI linorder_not_le subsetD)
  have rem: "map_of (removed_values u) i = None"
    using assms(1,2) by (auto simp: layer_ok_def)
  have old: "map_of (old_values u) i = None" if "i \<in> set (new_ids u)"
    using assms(1) that by (force simp: layer_ok_def)
  show "layer_ok (m(i := None)) n u'"
  proof (cases "i \<in> set (new_ids u)")
    case True
    then show ?thesis using assms old by (auto simp: layer_ok_def)
  next
    case False
    then show ?thesis using assms less rem
      by (cases "map_of (old_values u) i")
        (auto simp: layer_ok_def kv_simps distinct_kv_emplace distinct_kv_erase)
  qed
  show "apply_undo u' (m(i := None)) = apply_undo u m"
    using assms rem old by (auto simp: apply_undo_def kv_simps fun_eq_iff split: option.splits)
qed

lemma layer_create:
  assumes "layer_ok m n u" "dom m \<subseteq> {..<n}"
  shows "layer_ok (m(n \<mapsto> v)) (Suc n) (u\<lparr>new_ids := insort_insert n (new_ids u)\<rparr>)"
    "apply_undo (u\<lparr>new_ids := insort_insert n (new_ids u)\<rparr>) (m(n \<mapsto> v)) = apply_undo u m"
proof -
  have "n \<notin> dom m" using assms(2) by auto
  then have m: "m n = None" by auto
  have n: "n \<notin> set (new_ids u)" using assms(1) m by (auto simp: layer_ok_def)
  have u: "map_of (old_values u) n = None" "map_of (removed_values u) n = None"
    using assms(1) by (auto simp: layer_ok_def)
  have ins: "set (insort_insert n (new_ids u)) = insert n (set (new_ids u))" "insort_insert n (new_ids u) = insort n (new_ids u)"
    using n by (simp_all add: insort_insert_insort set_insort_insert set_insort_key)
  show "layer_ok (m(n \<mapsto> v)) (Suc n) (u\<lparr>new_ids := insort_insert n (new_ids u)\<rparr>)"
    using assms u n by (auto simp: layer_ok_def ins distinct_insort set_insort_key less_Suc_eq)
  show "apply_undo (u\<lparr>new_ids := insort_insert n (new_ids u)\<rparr>) (m(n \<mapsto> v)) = apply_undo u m"
    using m u by (auto simp: apply_undo_def ins fun_eq_iff set_insort_key split: option.splits)
qed

lemma stack_ok_dom: "stack_ok m n us \<Longrightarrow> dom m \<subseteq> {..<n}"
  by (cases us) auto

lemma container_modify_Inr:
  "container_modify clash i v xs = Inr ys \<Longrightarrow> i \<in> dom (map_of xs) \<and> map_of ys = (map_of xs)(i \<mapsto> v)"
  by (auto simp: container_modify_def keys_conv map_of_kv_set [OF domI] split: if_splits)

lemma container_emplace_Inr:
  "container_emplace clash i v xs = Inr ys \<Longrightarrow> i \<notin> dom (map_of xs) \<and> map_of ys = (map_of xs)(i \<mapsto> v)"
  by (auto simp: container_emplace_def kv_simps split: if_splits)

lemma container_erase_Inr:
  "container_erase i xs = Inr ys \<Longrightarrow> i \<in> dom (map_of xs) \<and> map_of ys = (map_of xs)(i := None)"
  by (auto simp: container_erase_def kv_simps split: if_splits)

lemmas container_Inr = container_modify_Inr container_emplace_Inr container_erase_Inr

text \<open>The snapshots under the stack, newest first, with the next id at the time.\<close>

fun snapshots :: "(nat \<rightharpoonup> 'v) \<Rightarrow> 'v undo_state list \<Rightarrow> ((nat \<rightharpoonup> 'v) \<times> nat) list" where
  "snapshots m [] = []"
| "snapshots m (u # us) = (apply_undo u m, old_next_id u) # snapshots (apply_undo u m) us"

definition current :: "'v generic_index \<Rightarrow> (nat \<rightharpoonup> 'v) \<times> nat" where
  "current ix = (map_of (indices ix), next_id ix)"

definition history :: "'v generic_index \<Rightarrow> ((nat \<rightharpoonup> 'v) \<times> nat) list" where
  "history ix = snapshots (map_of (indices ix)) (undo_stack ix)"

lemma emplace_ok:
  assumes "index_ok ix" "emplace clash c ix = Inr ix'"
  shows "index_ok ix'" "history ix' = history ix"
    "current ix' = ((fst (current ix))(next_id ix \<mapsto> c (next_id ix)), Suc (next_id ix))"
proof -
  let ?m = "map_of (indices ix)" and ?n = "next_id ix"
  from assms(2) obtain xs where xs: "container_emplace clash ?n (c ?n) (indices ix) = Inr xs"
    and ix': "ix' = on_create ?n (ix\<lparr>indices := xs, next_id := ?n + 1\<rparr>)" by (auto simp: emplace_def Let_def)
  have m: "map_of xs = ?m(?n \<mapsto> c ?n)" using container_emplace_Inr [OF xs] by simp
  have ok: "stack_ok ?m ?n (undo_stack ix)" using assms(1) by (simp add: index_ok_def)
  have "index_ok ix' \<and> history ix' = history ix"
  proof (cases "undo_stack ix")
    case Nil
    then show ?thesis using ok m by (auto simp: ix' on_create_def index_ok_def history_def)
  next
    case (Cons u us)
    have layer: "layer_ok ?m ?n u" and dom: "dom ?m \<subseteq> {..<?n}" using ok Cons by simp_all
    then show ?thesis using layer_create [OF layer dom] ok m Cons assms(1)
      by (auto simp: ix' on_create_def index_ok_def history_def)
  qed
  then show "index_ok ix'" "history ix' = history ix" by simp_all
  show "current ix' = ((fst (current ix))(?n \<mapsto> c ?n), Suc ?n)"
    using m by (simp add: ix' on_create_def current_def split: list.splits)
qed

lemma modify_ok:
  assumes "index_ok ix" "modify clash i f ix = Inr ix'"
  shows "index_ok ix'" "history ix' = history ix"
    "\<exists>v. fst (current ix) i = Some v \<and> current ix' = ((fst (current ix))(i \<mapsto> f v), next_id ix)"
proof -
  let ?m = "map_of (indices ix)" and ?n = "next_id ix"
  from assms(2) obtain v xs where v: "?m i = Some v"
    and xs: "container_modify clash i (f v) (indices (on_modify i v ix)) = Inr xs"
    and ix': "ix' = (on_modify i v ix)\<lparr>indices := xs\<rparr>" by (auto simp: modify_def Let_def)
  have keep: "indices (on_modify i v ix) = indices ix" "next_id (on_modify i v ix) = ?n"
    "revision (on_modify i v ix) = revision ix"
    by (simp_all add: on_modify_def split: list.splits)
  have m: "map_of xs = ?m(i \<mapsto> f v)" using container_modify_Inr [OF xs] keep by simp
  have ok: "stack_ok ?m ?n (undo_stack ix)" using assms(1) by (simp add: index_ok_def)
  have i: "i < ?n" using stack_ok_dom [OF ok] v by auto
  have "stack_ok (?m(i \<mapsto> f v)) ?n (undo_stack (on_modify i v ix)) \<and>
    revisions_ok (revision ix) (undo_stack (on_modify i v ix)) \<and>
    snapshots (?m(i \<mapsto> f v)) (undo_stack (on_modify i v ix)) = snapshots ?m (undo_stack ix)"
  proof (cases "undo_stack ix")
    case Nil
    with ok i show ?thesis by (auto simp: on_modify_def)
  next
    case (Cons u us)
    have layer: "layer_ok ?m ?n u" using ok Cons by simp
    have st: "undo_stack (on_modify i v ix) = (if i \<in> set (new_ids u) \<or> i \<in> dom (map_of (old_values u)) then u
               else u\<lparr>old_values := kv_emplace i v (old_values u)\<rparr>) # us" (is "_ = ?u' # us")
      using Cons by (auto simp: on_modify_def keys_conv)
    have u': "old_next_id ?u' = old_next_id u" "state_revision ?u' = state_revision u" by simp_all
    show ?thesis unfolding st
      using layer_modify [OF layer v refl, of "f v"] ok Cons u' assms(1) i by (auto simp: index_ok_def)
  qed
  then show "index_ok ix'" "history ix' = history ix"
    by (simp_all add: ix' index_ok_def history_def keep m)
  show "\<exists>v. fst (current ix) i = Some v \<and> current ix' = ((fst (current ix))(i \<mapsto> f v), next_id ix)"
    using v m by (auto simp: ix' current_def keep)
qed

lemma remove_ok:
  assumes "index_ok ix" "remove i ix = Inr ix'"
  shows "index_ok ix'" "history ix' = history ix"
    "i \<in> dom (fst (current ix)) \<and> current ix' = ((fst (current ix))(i := None), next_id ix)"
proof -
  let ?m = "map_of (indices ix)" and ?n = "next_id ix"
  from assms(2) obtain v xs where v: "?m i = Some v"
    and xs: "container_erase i (indices (on_remove i v ix)) = Inr xs"
    and ix': "ix' = (on_remove i v ix)\<lparr>indices := xs\<rparr>" by (auto simp: remove_def Let_def)
  have keep: "indices (on_remove i v ix) = indices ix" "next_id (on_remove i v ix) = ?n"
    "revision (on_remove i v ix) = revision ix"
    by (simp_all add: on_remove_def split: list.splits option.splits)
  have m: "map_of xs = ?m(i := None)" using container_erase_Inr [OF xs] keep by simp
  have ok: "stack_ok ?m ?n (undo_stack ix)" using assms(1) by (simp add: index_ok_def)
  have "stack_ok (?m(i := None)) ?n (undo_stack (on_remove i v ix)) \<and>
    revisions_ok (revision ix) (undo_stack (on_remove i v ix)) \<and>
    snapshots (?m(i := None)) (undo_stack (on_remove i v ix)) = snapshots ?m (undo_stack ix)"
  proof (cases "undo_stack ix")
    case Nil
    with ok show ?thesis by (auto simp: on_remove_def)
  next
    case (Cons u us)
    have layer: "layer_ok ?m ?n u" using ok Cons by simp
    have "i \<notin> dom (map_of (removed_values u))" using layer v by (auto simp: layer_ok_def)
    then have st: "undo_stack (on_remove i v ix) = (if i \<in> set (new_ids u) then u\<lparr>new_ids := filter (\<lambda>j. j \<noteq> i) (new_ids u)\<rparr>
               else case map_of (old_values u) i of
                 Some w \<Rightarrow> u\<lparr>removed_values := kv_emplace i w (removed_values u), old_values := kv_erase i (old_values u)\<rparr>
               | None \<Rightarrow> u\<lparr>removed_values := kv_emplace i v (removed_values u)\<rparr>) # us" (is "_ = ?u' # us")
      using Cons by (auto simp: on_remove_def keys_conv split: option.splits)
    have u': "old_next_id ?u' = old_next_id u" "state_revision ?u' = state_revision u"
      by (simp_all split: option.splits)
    show ?thesis unfolding st
      using layer_remove [OF layer v refl] ok Cons u' assms(1) by (auto simp: index_ok_def)
  qed
  then show "index_ok ix'" "history ix' = history ix"
    by (simp_all add: ix' index_ok_def history_def keep m)
  show "i \<in> dom (fst (current ix)) \<and> current ix' = ((fst (current ix))(i := None), next_id ix)"
    using v m by (auto simp: ix' current_def keep)
qed

lemma start_ok:
  assumes "index_ok ix"
  shows "index_ok (start_undo_session ix)" "current (start_undo_session ix) = current ix"
    "history (start_undo_session ix) = current ix # history ix"
proof -
  let ?u = "\<lparr>old_values = [], removed_values = [], new_ids = [], old_next_id = next_id ix, state_revision = revision ix + 1\<rparr>"
  have nop: "apply_undo ?u m = m" for m by (simp add: apply_undo_def fun_eq_iff)
  have "layer_ok (map_of (indices ix)) (next_id ix) ?u"
    using stack_ok_dom assms by (force simp: layer_ok_def index_ok_def)
  moreover have "dom (map_of (indices ix)) \<subseteq> {..<next_id ix}" using assms unfolding index_ok_def by (blast dest: stack_ok_dom)
  ultimately show "index_ok (start_undo_session ix)" "current (start_undo_session ix) = current ix"
    "history (start_undo_session ix) = current ix # history ix"
    using assms by (simp_all add: start_undo_session_def Let_def index_ok_def history_def current_def nop)
qed

text \<open>What the three loops of \<open>undo\<close> compute, on maps.\<close>

lemma undo_modify_loop:
  assumes "res_fold (\<lambda>(i, v). container_modify clash i v) old xs = Inr ys" "distinct (map fst old)"
  shows "map_of ys = map_of xs ++ map_of old"
  using assms
proof (induction old arbitrary: xs)
  case (Cons p old)
  obtain i v where p: "p = (i, v)" by (cases p)
  from Cons.prems obtain zs where zs: "container_modify clash i v xs = Inr zs"
    "res_fold (\<lambda>(i, v). container_modify clash i v) old zs = Inr ys" by (auto simp: p)
  with Cons have "map_of ys = map_of zs ++ map_of old" by simp
  moreover have "i \<notin> dom (map_of old)" using Cons.prems(2) by (simp add: p keys_conv)
  ultimately show ?case using container_modify_Inr [OF zs(1)] p
    by (auto simp: fun_eq_iff map_add_def domIff split: option.splits)
qed simp

lemma undo_erase_loop:
  assumes "res_fold container_erase ids xs = Inr ys"
  shows "map_of ys = map_of xs |` (- set ids)"
  using assms
proof (induction ids arbitrary: xs)
  case (Cons i ids)
  from Cons.prems obtain zs where zs: "container_erase i xs = Inr zs" "res_fold container_erase ids zs = Inr ys" by auto
  with Cons.IH have "map_of ys = map_of zs |` (- set ids)" by simp
  then show ?case using container_erase_Inr [OF zs(1)] by (auto simp: fun_eq_iff restrict_map_def)
qed (simp add: restrict_map_def)

lemma undo_emplace_loop:
  assumes "res_fold (\<lambda>(i, v). container_emplace clash i v) rem xs = Inr ys" "distinct (map fst rem)"
  shows "map_of ys = map_of xs ++ map_of rem"
  using assms
proof (induction rem arbitrary: xs)
  case (Cons p rem)
  obtain i v where p: "p = (i, v)" by (cases p)
  from Cons.prems obtain zs where zs: "container_emplace clash i v xs = Inr zs"
    "res_fold (\<lambda>(i, v). container_emplace clash i v) rem zs = Inr ys" by (auto simp: p)
  with Cons have "map_of ys = map_of zs ++ map_of rem" by simp
  moreover have "i \<notin> dom (map_of rem)" using Cons.prems(2) by (simp add: p keys_conv)
  ultimately show ?case using container_emplace_Inr [OF zs(1)] p
    by (auto simp: fun_eq_iff map_add_def domIff split: option.splits)
qed simp

lemma layer_okD:
  assumes "layer_ok m n u"
  shows "map_of (old_values u) i = Some v \<Longrightarrow> map_of (removed_values u) i = None"
    "i \<in> set (new_ids u) \<Longrightarrow> map_of (removed_values u) i = None"
    "i \<in> set (new_ids u) \<Longrightarrow> map_of (old_values u) i = None"
proof -
  have sub: "set (new_ids u) \<subseteq> dom m" "dom (map_of (old_values u)) \<subseteq> dom m" "dom (map_of (removed_values u)) \<inter> dom m = {}"
    "set (new_ids u) \<subseteq> {old_next_id u..<n}" "dom (map_of (old_values u)) \<subseteq> {..<old_next_id u}"
    using assms by (simp_all add: layer_ok_def)
  show "map_of (old_values u) i = Some v \<Longrightarrow> map_of (removed_values u) i = None" using sub(2,3) by blast
  show "i \<in> set (new_ids u) \<Longrightarrow> map_of (removed_values u) i = None" using sub(1,3) by blast
  show "i \<in> set (new_ids u) \<Longrightarrow> map_of (old_values u) i = None"
    using sub(4,5) by (metis atLeastLessThan_iff domIff lessThan_iff linorder_not_less subsetD)
qed

lemma undo_layer:
  assumes "layer_ok m n u"
  shows "((m ++ map_of (old_values u)) |` (- set (new_ids u))) ++ map_of (removed_values u) = apply_undo u m"
proof
  fix i
  show "(((m ++ map_of (old_values u)) |` (- set (new_ids u))) ++ map_of (removed_values u)) i = apply_undo u m i"
    using layer_okD [OF assms, of i]
    by (cases "map_of (removed_values u) i"; cases "map_of (old_values u) i")
      (auto simp add: apply_undo_def map_add_def restrict_map_def)
qed

lemma undo_ok:
  assumes "index_ok ix" "undo clash ix = Inr ix'" "undo_stack ix \<noteq> []"
  shows "index_ok ix'" "history ix = current ix' # history ix'" "revision ix' = revision ix - 1"
proof -
  obtain u us where st: "undo_stack ix = u # us" using assms(3) by (cases "undo_stack ix") auto
  have ok: "layer_ok (map_of (indices ix)) (next_id ix) u"
    "stack_ok (apply_undo u (map_of (indices ix))) (old_next_id u) us"
    using assms(1) st by (auto simp: index_ok_def)
  from assms(2) obtain xs1 xs2 xs3 where
    1: "res_fold (\<lambda>(i, v). container_modify clash i v) (old_values u) (indices ix) = Inr xs1" and
    2: "res_fold container_erase (new_ids u) xs1 = Inr xs2" and
    3: "res_fold (\<lambda>(i, v). container_emplace clash i v) (removed_values u) xs2 = Inr xs3" and
    ix': "ix' = ix\<lparr>indices := xs3, next_id := old_next_id u, undo_stack := us, revision := revision ix - 1\<rparr>"
    by (auto simp: undo_def st)
  have d: "distinct (map fst (old_values u))" "distinct (map fst (removed_values u))" using ok by (auto simp: layer_ok_def)
  have "map_of xs3 = apply_undo u (map_of (indices ix))"
    using undo_modify_loop [OF 1 d(1)] undo_erase_loop [OF 2] undo_emplace_loop [OF 3 d(2)] undo_layer [OF ok(1)] by simp
  then show "index_ok ix'" "history ix = current ix' # history ix'" "revision ix' = revision ix - 1"
    using assms(1) st ok by (auto simp: ix' index_ok_def history_def current_def)
qed

lemma modify_loop_errors:
  assumes "res_fold (\<lambda>(i, v). container_modify clash i v) old xs = Inl e" "fst ` set old \<subseteq> dom (map_of xs)"
  shows "e = Logic_Error \<and> (\<exists>a b. clash a b)"
  using assms
proof (induction old arbitrary: xs)
  case (Cons p old)
  obtain i v where p: "p = (i, v)" by (cases p)
  show ?case
  proof (cases "container_modify clash i v xs")
    case (Inl e')
    then have "e' = Logic_Error \<and> (\<exists>a b. clash a b)" using Cons.prems(2)
      by (auto simp: p container_modify_def keys_conv split: if_splits)
    with Inl Cons.prems(1) show ?thesis by (simp add: p)
  next
    case (Inr zs)
    have "map_of zs = (map_of xs)(i \<mapsto> v)" using container_modify_Inr [OF Inr] by simp
    moreover have "fst ` set old \<subseteq> dom (map_of xs)" using Cons.prems(2) by (simp add: p)
    ultimately have "fst ` set old \<subseteq> dom (map_of zs)" by auto
    with Inr Cons show ?thesis by (simp add: p)
  qed
qed simp

lemma erase_loop_total:
  assumes "set ids \<subseteq> dom (map_of xs)" "distinct ids"
  shows "\<exists>ys. res_fold container_erase ids xs = Inr ys"
  using assms
proof (induction ids arbitrary: xs)
  case (Cons i ids)
  then have e: "container_erase i xs = Inr (kv_erase i xs)" by (simp add: container_erase_def keys_conv)
  have "set ids \<subseteq> dom (map_of (kv_erase i xs))" using Cons.prems by (auto simp: map_of_kv_erase)
  with Cons e show ?case by simp
qed simp

lemma emplace_loop_errors:
  assumes "res_fold (\<lambda>(i, v). container_emplace clash i v) rem xs = Inl e"
    "fst ` set rem \<inter> dom (map_of xs) = {}" "distinct (map fst rem)"
  shows "e = Logic_Error \<and> (\<exists>a b. clash a b)"
  using assms
proof (induction rem arbitrary: xs)
  case (Cons p rem)
  obtain i v where p: "p = (i, v)" by (cases p)
  have i: "i \<notin> dom (map_of xs)" using Cons.prems(2) by (auto simp: p)
  show ?case
  proof (cases "container_emplace clash i v xs")
    case (Inl e')
    then have "e' = Logic_Error \<and> (\<exists>a b. clash a b)" using i
      by (auto simp: container_emplace_def keys_conv split: if_splits)
    with Inl Cons.prems(1) show ?thesis by (simp add: p)
  next
    case (Inr zs)
    have "map_of zs = (map_of xs)(i \<mapsto> v)" using container_emplace_Inr [OF Inr] by simp
    moreover have "i \<notin> fst ` set rem" using Cons.prems(3) by (simp add: p)
    moreover have "fst ` set rem \<inter> dom (map_of xs) = {}" using Cons.prems(2) by (simp add: p)
    ultimately have "fst ` set rem \<inter> dom (map_of zs) = {}" by auto
    with Inr Cons show ?thesis by (simp add: p)
  qed
qed simp

lemma undo_errors:
  assumes "index_ok ix" "undo clash ix = Inl e"
  shows "e = Logic_Error \<and> (\<exists>a b. clash a b)"
proof -
  obtain u us where st: "undo_stack ix = u # us" using assms(2) by (cases "undo_stack ix") (auto simp: undo_def)
  let ?m = "map_of (indices ix)"
  have ok: "layer_ok ?m (next_id ix) u" using assms(1) st by (auto simp: index_ok_def)
  have sub: "set (new_ids u) \<subseteq> dom ?m" "dom (map_of (old_values u)) \<subseteq> dom ?m" "dom (map_of (removed_values u)) \<inter> dom ?m = {}"
    and d: "distinct (map fst (old_values u))" "distinct (map fst (removed_values u))" "distinct (new_ids u)"
    using ok by (simp_all add: layer_ok_def)
  show ?thesis
  proof (cases "res_fold (\<lambda>(i, v). container_modify clash i v) (old_values u) (indices ix)")
    case (Inl e')
    then show ?thesis using assms(2) modify_loop_errors [OF Inl] sub(2) by (simp add: undo_def st keys_conv)
  next
    case (Inr xs1)
    have m1: "map_of xs1 = ?m ++ map_of (old_values u)" by (rule undo_modify_loop [OF Inr d(1)])
    then have "set (new_ids u) \<subseteq> dom (map_of xs1)" using sub(1) by auto
    from erase_loop_total [OF this d(3)] obtain xs2 where xs2: "res_fold container_erase (new_ids u) xs1 = Inr xs2" ..
    have m2: "map_of xs2 = map_of xs1 |` (- set (new_ids u))" by (rule undo_erase_loop [OF xs2])
    have "dom (map_of xs2) \<subseteq> dom ?m" unfolding m2 m1 dom_restrict dom_map_add using sub(2) by blast
    then have disj: "fst ` set (removed_values u) \<inter> dom (map_of xs2) = {}" unfolding keys_conv using sub(3) by blast
    from assms(2) have "res_fold (\<lambda>(i, v). container_emplace clash i v) (removed_values u) xs2 = Inl e"
      by (simp add: undo_def st Inr xs2) (cases "res_fold (\<lambda>(i, v). container_emplace clash i v) (removed_values u) xs2"; simp)
    from emplace_loop_errors [OF this disj d(2)] show ?thesis .
  qed
qed

section \<open>Squashing two undo states\<close>

definition old_merged :: "(nat \<rightharpoonup> 'v) \<Rightarrow> 'v undo_state \<Rightarrow> 'v undo_state \<Rightarrow> bool" where
  "old_merged m p q \<longleftrightarrow>
     map_of (old_values q) = (\<lambda>i. if i \<in> set (new_ids p) then map_of (old_values p) i
       else case map_of (old_values p) i of Some w \<Rightarrow> Some w | None \<Rightarrow> m i) \<and>
     new_ids q = new_ids p \<and> removed_values q = removed_values p \<and>
     old_next_id q = old_next_id p \<and> state_revision q = state_revision p \<and>
     (distinct (map fst (old_values p)) \<longrightarrow> distinct (map fst (old_values q)))"

lemma merge_old_loop: "old_merged (map_of old) p (fold merge_old old p)"
proof (induction old arbitrary: p)
  case (Cons x old)
  obtain i v where x: "x = (i, v)" by (cases x)
  have "old_merged (Map.empty(i \<mapsto> v)) p (merge_old x p)"
    by (auto simp: old_merged_def merge_old_def x keys_conv map_of_kv_emplace distinct_kv_emplace fun_eq_iff
        split: option.splits)
  with Cons.IH [of "merge_old x p"] show ?case
    by (auto simp: old_merged_def x fun_eq_iff split: option.splits if_splits)
qed (auto simp: old_merged_def fun_eq_iff split: option.splits)

definition new_merged :: "nat set \<Rightarrow> 'v undo_state \<Rightarrow> 'v undo_state \<Rightarrow> bool" where
  "new_merged N p q \<longleftrightarrow>
     set (new_ids q) = set (new_ids p) \<union> N \<and> old_values q = old_values p \<and> removed_values q = removed_values p \<and>
     old_next_id q = old_next_id p \<and> state_revision q = state_revision p \<and>
     (distinct (new_ids p) \<longrightarrow> distinct (new_ids q))"

lemma merge_new_loop: "new_merged (set ids) p (fold merge_new ids p)"
proof (induction ids arbitrary: p)
  case (Cons i ids)
  show ?case using Cons.IH [of "merge_new i p"]
    by (auto simp: new_merged_def merge_new_def set_insort_insert distinct_insort_insert)
qed (simp add: new_merged_def)

definition removed_merged :: "(nat \<rightharpoonup> 'v) \<Rightarrow> 'v undo_state \<Rightarrow> 'v undo_state \<Rightarrow> bool" where
  "removed_merged m p q \<longleftrightarrow>
     (\<forall>i. i \<in> set (new_ids q) \<longleftrightarrow> i \<in> set (new_ids p) \<and> m i = None) \<and>
     (\<forall>i. map_of (old_values q) i =
       (if m i \<noteq> None \<and> i \<notin> set (new_ids p) then None else map_of (old_values p) i)) \<and>
     (\<forall>i. map_of (removed_values q) i =
       (if m i \<noteq> None \<and> i \<notin> set (new_ids p) \<and> map_of (removed_values p) i = None
        then (case map_of (old_values p) i of Some w \<Rightarrow> Some w | None \<Rightarrow> m i) else map_of (removed_values p) i)) \<and>
     old_next_id q = old_next_id p \<and> state_revision q = state_revision p \<and>
     (distinct (new_ids p) \<longrightarrow> distinct (new_ids q)) \<and>
     (distinct (map fst (old_values p)) \<longrightarrow> distinct (map fst (old_values q))) \<and>
     (distinct (map fst (removed_values p)) \<longrightarrow> distinct (map fst (removed_values q)))"

lemma merge_removed_step: "removed_merged (Map.empty(i \<mapsto> v)) p (merge_removed (i, v) p)"
  by (auto simp: removed_merged_def merge_removed_def map_of_kv_emplace map_of_kv_erase distinct_kv_emplace
      distinct_kv_erase split: option.splits)

lemma removed_mergedD:
  assumes "removed_merged m p q"
  shows "i \<in> set (new_ids q) \<longleftrightarrow> i \<in> set (new_ids p) \<and> m i = None"
    "map_of (old_values q) i = (if m i \<noteq> None \<and> i \<notin> set (new_ids p) then None else map_of (old_values p) i)"
    "map_of (removed_values q) i =
       (if m i \<noteq> None \<and> i \<notin> set (new_ids p) \<and> map_of (removed_values p) i = None
        then (case map_of (old_values p) i of Some w \<Rightarrow> Some w | None \<Rightarrow> m i) else map_of (removed_values p) i)"
    "old_next_id q = old_next_id p" "state_revision q = state_revision p"
    "distinct (new_ids p) \<Longrightarrow> distinct (new_ids q)"
    "distinct (map fst (old_values p)) \<Longrightarrow> distinct (map fst (old_values q))"
    "distinct (map fst (removed_values p)) \<Longrightarrow> distinct (map fst (removed_values q))"
  using assms unfolding removed_merged_def by blast+

lemma removed_merged_trans:
  assumes pq: "removed_merged (Map.empty(i \<mapsto> v)) p q" and qr: "removed_merged m q r" and i: "m i = None"
  shows "removed_merged (m(i \<mapsto> v)) p r"
  unfolding removed_merged_def
proof (intro conjI allI impI)
  fix j
  show "j \<in> set (new_ids r) \<longleftrightarrow> j \<in> set (new_ids p) \<and> (m(i \<mapsto> v)) j = None"
    using i by (cases "j = i") (simp_all add: removed_mergedD(1-3) [OF qr] removed_mergedD(1-3) [OF pq] split: option.split)
  show "map_of (old_values r) j = (if (m(i \<mapsto> v)) j \<noteq> None \<and> j \<notin> set (new_ids p) then None else map_of (old_values p) j)"
    using i by (cases "j = i") (simp_all add: removed_mergedD(1-3) [OF qr] removed_mergedD(1-3) [OF pq] split: option.split)
  show "map_of (removed_values r) j =
     (if (m(i \<mapsto> v)) j \<noteq> None \<and> j \<notin> set (new_ids p) \<and> map_of (removed_values p) j = None
      then (case map_of (old_values p) j of Some w \<Rightarrow> Some w | None \<Rightarrow> (m(i \<mapsto> v)) j) else map_of (removed_values p) j)"
    using i by (cases "j = i") (simp_all add: removed_mergedD(1-3) [OF qr] removed_mergedD(1-3) [OF pq] split: option.split)
  show "old_next_id r = old_next_id p" "state_revision r = state_revision p"
    by (simp_all only: removed_mergedD(4,5) [OF pq] removed_mergedD(4,5) [OF qr])
qed (intro removed_mergedD(6-8) [OF qr] removed_mergedD(6-8) [OF pq]; assumption)+

lemma merge_removed_loop: "distinct (map fst rem) \<Longrightarrow> removed_merged (map_of rem) p (fold merge_removed rem p)"
proof (induction rem arbitrary: p)
  case (Cons x rem)
  obtain i v where x: "x = (i, v)" by (cases x)
  have fresh: "map_of rem i = None" using Cons.prems by (simp add: x map_of_eq_None_iff)
  have "distinct (map fst rem)" using Cons.prems by simp
  from removed_merged_trans [OF merge_removed_step Cons.IH [OF this] fresh, of v p]
  show ?case by (simp only: x map_of.simps fold_simps fst_conv snd_conv)
qed (simp add: removed_merged_def)

text \<open>Merging the newest state into the one below keeps the meaning of the one below.\<close>

lemma merge_pointwise:
  fixes nA nB :: bool and oA oB rA rB m :: "'v option"
  assumes B: "oB \<noteq> None \<Longrightarrow> rB = None \<and> m \<noteq> None \<and> \<not> nB" "rB \<noteq> None \<Longrightarrow> m = None \<and> \<not> nB" "nB \<Longrightarrow> m \<noteq> None"
    and m1: "m1 = (if nB then None else case oB of Some v \<Rightarrow> Some v | None \<Rightarrow> (case rB of Some v \<Rightarrow> Some v | None \<Rightarrow> m))"
    and A: "oA \<noteq> None \<Longrightarrow> rA = None \<and> m1 \<noteq> None \<and> \<not> nA" "rA \<noteq> None \<Longrightarrow> m1 = None \<and> \<not> nA" "nA \<Longrightarrow> m1 \<noteq> None"
    and BA: "nB \<Longrightarrow> \<not> nA \<and> oA = None \<and> rA = None"
    and n: "n' = ((nA \<or> nB) \<and> rB = None)"
    and o1: "o1 = (if nA then oA else case oA of Some v \<Rightarrow> Some v | None \<Rightarrow> oB)"
    and o': "o' = (if rB \<noteq> None \<and> \<not> (nA \<or> nB) then None else o1)"
    and r': "r' = (if rB \<noteq> None \<and> \<not> (nA \<or> nB) \<and> rA = None then (case o1 of Some v \<Rightarrow> Some v | None \<Rightarrow> rB) else rA)"
  shows "(if n' then None else case o' of Some v \<Rightarrow> Some v | None \<Rightarrow> (case r' of Some v \<Rightarrow> Some v | None \<Rightarrow> m)) =
      (if nA then None else case oA of Some v \<Rightarrow> Some v | None \<Rightarrow> (case rA of Some v \<Rightarrow> Some v | None \<Rightarrow> m1)) \<and>
    (n' \<longrightarrow> m \<noteq> None) \<and> (o' \<noteq> None \<longrightarrow> m \<noteq> None) \<and> (r' \<noteq> None \<longrightarrow> m = None) \<and>
    (n' \<longrightarrow> nA \<or> nB) \<and> (o' \<noteq> None \<longrightarrow> oA \<noteq> None \<or> oB \<noteq> None \<and> \<not> nA) \<and>
    (r' \<noteq> None \<longrightarrow> rA \<noteq> None \<or> oA \<noteq> None \<or> oB \<noteq> None \<and> \<not> nA \<or> rB \<noteq> None \<and> \<not> nA)"
proof -
  consider (rem) y where "rB = Some y" | (new) "rB = None" nB | (old) y where "rB = None" "\<not> nB" "oB = Some y"
    | (nop) "rB = None" "\<not> nB" "oB = None" by fastforce
  then show ?thesis
  proof cases
    case rem
    then have "oB = None" "m = None" "\<not> nB" "m1 = Some y" "rA = None" using B A(2) m1 by (cases oB; force)+
    with rem A n o1 o' r' show ?thesis by (cases nA; cases oA; simp)
  next
    case new
    with B BA m1 n o1 o' r' show ?thesis by (cases oB; simp)
  next
    case old
    then have "m \<noteq> None" "m1 = Some y" "rA = None" using B A(2) m1 by (simp, simp, force)
    with old A n o1 o' r' show ?thesis by (cases nA; cases oA; simp)
  next
    case nop
    then have "m1 = m" using m1 by simp
    with nop A n o1 o' r' show ?thesis by (cases nA; cases oA; cases rA; simp)
  qed
qed

lemma layer_ok_iff:
  "layer_ok m n u \<longleftrightarrow>
     (\<forall>i. (i \<in> set (new_ids u) \<longrightarrow> i \<in> dom m \<and> old_next_id u \<le> i \<and> i < n) \<and>
          (i \<in> dom (map_of (old_values u)) \<longrightarrow> i \<in> dom m \<and> i < old_next_id u) \<and>
          (i \<in> dom (map_of (removed_values u)) \<longrightarrow> i \<notin> dom m \<and> i < old_next_id u) \<and>
          (i \<in> dom m \<and> old_next_id u \<le> i \<longrightarrow> i \<in> set (new_ids u))) \<and>
     distinct (map fst (old_values u)) \<and> distinct (map fst (removed_values u)) \<and> distinct (new_ids u) \<and>
     old_next_id u \<le> n"
  unfolding layer_ok_def subset_iff disjoint_iff atLeastLessThan_iff lessThan_iff Int_iff atLeast_iff
  by (simp only: imp_conjR all_conj_distrib not_not conj_ac)

lemma merge_states_eq:
  fixes u p :: "'v undo_state"
  assumes "distinct (map fst (removed_values u))"
  defines "q \<equiv> merge_states u p"
  shows "i \<in> set (new_ids q) \<longleftrightarrow> (i \<in> set (new_ids p) \<or> i \<in> set (new_ids u)) \<and> map_of (removed_values u) i = None"
    "\<exists>o1. o1 = (if i \<in> set (new_ids p) then map_of (old_values p) i
         else case map_of (old_values p) i of Some v \<Rightarrow> Some v | None \<Rightarrow> map_of (old_values u) i) \<and>
       map_of (old_values q) i = (if map_of (removed_values u) i \<noteq> None \<and> \<not> (i \<in> set (new_ids p) \<or> i \<in> set (new_ids u)) then None else o1) \<and>
       map_of (removed_values q) i = (if map_of (removed_values u) i \<noteq> None \<and> \<not> (i \<in> set (new_ids p) \<or> i \<in> set (new_ids u)) \<and>
           map_of (removed_values p) i = None
         then (case o1 of Some v \<Rightarrow> Some v | None \<Rightarrow> map_of (removed_values u) i) else map_of (removed_values p) i)"
    "old_next_id q = old_next_id p" "state_revision q = state_revision p"
    "distinct (map fst (old_values p)) \<Longrightarrow> distinct (map fst (removed_values p)) \<Longrightarrow> distinct (new_ids p) \<Longrightarrow>
       distinct (map fst (old_values q)) \<and> distinct (map fst (removed_values q)) \<and> distinct (new_ids q)"
proof -
  define p1 where "p1 = fold merge_old (old_values u) p"
  define p2 where "p2 = fold merge_new (new_ids u) p1"
  have q: "q = fold merge_removed (removed_values u) p2" by (simp add: q_def merge_states_def p2_def p1_def)
  have 1: "old_merged (map_of (old_values u)) p p1" unfolding p1_def by (rule merge_old_loop)
  have 2: "new_merged (set (new_ids u)) p1 p2" unfolding p2_def by (rule merge_new_loop)
  have 3: "removed_merged (map_of (removed_values u)) p2 q" unfolding q by (rule merge_removed_loop [OF assms(1)])
  note D = removed_mergedD [OF 3] 1 [unfolded old_merged_def] 2 [unfolded new_merged_def]
  show "i \<in> set (new_ids q) \<longleftrightarrow> (i \<in> set (new_ids p) \<or> i \<in> set (new_ids u)) \<and> map_of (removed_values u) i = None"
    "old_next_id q = old_next_id p" "state_revision q = state_revision p"
    using 1 2 by (simp_all add: D(1,4,5) old_merged_def new_merged_def)
  show "distinct (map fst (old_values p)) \<Longrightarrow> distinct (map fst (removed_values p)) \<Longrightarrow> distinct (new_ids p) \<Longrightarrow>
       distinct (map fst (old_values q)) \<and> distinct (map fst (removed_values q)) \<and> distinct (new_ids q)"
    using 1 2 D(6-8) by (simp add: old_merged_def new_merged_def)
  show "\<exists>o1. o1 = (if i \<in> set (new_ids p) then map_of (old_values p) i
         else case map_of (old_values p) i of Some v \<Rightarrow> Some v | None \<Rightarrow> map_of (old_values u) i) \<and>
       map_of (old_values q) i = (if map_of (removed_values u) i \<noteq> None \<and> \<not> (i \<in> set (new_ids p) \<or> i \<in> set (new_ids u)) then None else o1) \<and>
       map_of (removed_values q) i = (if map_of (removed_values u) i \<noteq> None \<and> \<not> (i \<in> set (new_ids p) \<or> i \<in> set (new_ids u)) \<and>
           map_of (removed_values p) i = None
         then (case o1 of Some v \<Rightarrow> Some v | None \<Rightarrow> map_of (removed_values u) i) else map_of (removed_values p) i)"
    using 1 2 by (simp add: D(2,3) old_merged_def new_merged_def)
qed

lemma merge_layer:
  assumes B: "layer_ok m n u" and A: "layer_ok (apply_undo u m) (old_next_id u) p"
  shows "layer_ok m n (merge_states u p)" "apply_undo (merge_states u p) m = apply_undo p (apply_undo u m)"
proof -
  let ?q = "merge_states u p" and ?m1 = "apply_undo u m"
  let ?oB = "map_of (old_values u)" and ?rB = "map_of (removed_values u)" and ?nB = "set (new_ids u)"
  let ?oA = "map_of (old_values p)" and ?rA = "map_of (removed_values p)" and ?nA = "set (new_ids p)"
  have d: "distinct (map fst (removed_values u))" using B by (simp add: layer_ok_def)
  have b: "i \<in> ?nB \<Longrightarrow> i \<in> dom m" "i \<in> ?nB \<Longrightarrow> old_next_id u \<le> i" "i \<in> ?nB \<Longrightarrow> i < n"
    "i \<in> dom ?oB \<Longrightarrow> i \<in> dom m" "i \<in> dom ?oB \<Longrightarrow> i < old_next_id u"
    "i \<in> dom ?rB \<Longrightarrow> i \<notin> dom m" "i \<in> dom ?rB \<Longrightarrow> i < old_next_id u"
    "i \<in> dom m \<Longrightarrow> old_next_id u \<le> i \<Longrightarrow> i \<in> ?nB" for i
    using B unfolding layer_ok_iff by blast+
  have a: "i \<in> ?nA \<Longrightarrow> i \<in> dom ?m1" "i \<in> ?nA \<Longrightarrow> old_next_id p \<le> i" "i \<in> ?nA \<Longrightarrow> i < old_next_id u"
    "i \<in> dom ?oA \<Longrightarrow> i \<in> dom ?m1" "i \<in> dom ?oA \<Longrightarrow> i < old_next_id p"
    "i \<in> dom ?rA \<Longrightarrow> i \<notin> dom ?m1" "i \<in> dom ?rA \<Longrightarrow> i < old_next_id p"
    "i \<in> dom ?m1 \<Longrightarrow> old_next_id p \<le> i \<Longrightarrow> i \<in> ?nA" for i
    using A unfolding layer_ok_iff by blast+
  have le: "old_next_id p \<le> old_next_id u" "old_next_id u \<le> n" using A B by (simp_all add: layer_ok_def)
  have less: "i \<in> ?nA \<Longrightarrow> i \<notin> dom ?oA \<and> i \<notin> dom ?rA" "i \<in> ?nB \<Longrightarrow> i \<notin> dom ?oB \<and> i \<notin> dom ?rB"
    "i \<in> ?nB \<Longrightarrow> i \<notin> ?nA \<and> i \<notin> dom ?oA \<and> i \<notin> dom ?rA" for i
    using a(2,3,5,7) [of i] b(2,5,7) [of i] le(1) by linarith+
  have point: "apply_undo ?q m i = apply_undo p ?m1 i \<and>
    (i \<in> set (new_ids ?q) \<longrightarrow> m i \<noteq> None) \<and> (map_of (old_values ?q) i \<noteq> None \<longrightarrow> m i \<noteq> None) \<and>
    (map_of (removed_values ?q) i \<noteq> None \<longrightarrow> m i = None) \<and>
    (i \<in> set (new_ids ?q) \<longrightarrow> i \<in> ?nA \<or> i \<in> ?nB) \<and>
    (map_of (old_values ?q) i \<noteq> None \<longrightarrow> ?oA i \<noteq> None \<or> ?oB i \<noteq> None \<and> i \<notin> ?nA) \<and>
    (map_of (removed_values ?q) i \<noteq> None \<longrightarrow> ?rA i \<noteq> None \<or> ?oA i \<noteq> None \<or> ?oB i \<noteq> None \<and> i \<notin> ?nA \<or> ?rB i \<noteq> None \<and> i \<notin> ?nA)" for i
  proof -
    obtain o1 where o1: "o1 = (if i \<in> ?nA then ?oA i else case ?oA i of Some v \<Rightarrow> Some v | None \<Rightarrow> ?oB i)"
      "map_of (old_values ?q) i = (if ?rB i \<noteq> None \<and> \<not> (i \<in> ?nA \<or> i \<in> ?nB) then None else o1)"
      "map_of (removed_values ?q) i = (if ?rB i \<noteq> None \<and> \<not> (i \<in> ?nA \<or> i \<in> ?nB) \<and> ?rA i = None
         then (case o1 of Some v \<Rightarrow> Some v | None \<Rightarrow> ?rB i) else ?rA i)"
      using merge_states_eq(2) [OF d, of i p] by blast
    have m1: "?m1 i = (if i \<in> ?nB then None else case ?oB i of Some v \<Rightarrow> Some v
        | None \<Rightarrow> (case ?rB i of Some v \<Rightarrow> Some v | None \<Rightarrow> m i))"
      by (simp only: apply_undo_def)
    show ?thesis
      unfolding apply_undo_def [of ?q] apply_undo_def [of p]
      by (rule merge_pointwise [OF _ _ _ m1 _ _ _ _ merge_states_eq(1) [OF d] o1], unfold domIff [symmetric] not_not [of "i \<in> dom _"])
        (use a(1,4,6) [of i] b(1,4,6) [of i] less [of i] in blast)+
  qed
  show "apply_undo ?q m = apply_undo p ?m1" using point by blast
  have m1: "i \<in> dom ?oB \<or> i \<in> dom ?rB \<or> i \<in> dom m \<and> i \<notin> ?nB \<Longrightarrow> i \<in> dom ?m1" for i
    using less(2) [of i] unfolding domIff apply_undo_def by (auto split: option.splits)
  have later: "i < old_next_id p" if "i \<in> dom ?m1" "i \<notin> ?nA" for i
    using a(8) [OF that(1)] that(2) linorder_not_le by blast
  have "(i \<in> set (new_ids ?q) \<longrightarrow> i \<in> dom m \<and> old_next_id p \<le> i \<and> i < n) \<and>
      (i \<in> dom (map_of (old_values ?q)) \<longrightarrow> i \<in> dom m \<and> i < old_next_id p) \<and>
      (i \<in> dom (map_of (removed_values ?q)) \<longrightarrow> i \<notin> dom m \<and> i < old_next_id p) \<and>
      (i \<in> dom m \<and> old_next_id p \<le> i \<longrightarrow> i \<in> set (new_ids ?q))" for i
  proof (intro conjI impI)
    assume "i \<in> set (new_ids ?q)"
    then show "i \<in> dom m" "old_next_id p \<le> i" "i < n"
      using point [of i] a(2,3) [of i] b(2,3) [of i] le by (blast, linarith, linarith)
  next
    assume "i \<in> dom (map_of (old_values ?q))"
    then show "i \<in> dom m" "i < old_next_id p"
      using point [of i] a(5) [of i] m1 [of i] later [of i] unfolding domIff by blast+
  next
    assume i: "i \<in> dom (map_of (removed_values ?q))"
    then show "i \<notin> dom m" using point [of i] by (simp add: domIff)
    from i show "i < old_next_id p"
      using point [of i] a(5,7) [of i] m1 [of i] later [of i] unfolding domIff by blast
  next
    assume i: "i \<in> dom m \<and> old_next_id p \<le> i"
    then have "i \<notin> dom ?rB" using b(6) [of i] by blast
    moreover have "i \<in> ?nA \<or> i \<in> ?nB" using i m1 [of i] a(8) [of i] by blast
    ultimately show "i \<in> set (new_ids ?q)" by (simp add: merge_states_eq(1) [OF d] domIff)
  qed
  moreover have "distinct (map fst (old_values ?q)) \<and> distinct (map fst (removed_values ?q)) \<and> distinct (new_ids ?q)"
    using A by (intro merge_states_eq(5) [OF d]) (simp_all add: layer_ok_def)
  ultimately show "layer_ok m n ?q"
    unfolding layer_ok_iff merge_states_eq(3) [OF d] using le by (blast intro: order_trans)
qed

lemma stack_ok_merge:
  assumes "stack_ok m n (u # p # us)"
  shows "stack_ok m n (merge_states u p # us)"
    "snapshots m (merge_states u p # us) = tl (snapshots m (u # p # us))"
proof -
  have l: "layer_ok m n u" "layer_ok (apply_undo u m) (old_next_id u) p" using assms by simp_all
  have d: "distinct (map fst (removed_values u))" using l(1) by (simp add: layer_ok_def)
  show "stack_ok m n (merge_states u p # us)" "snapshots m (merge_states u p # us) = tl (snapshots m (u # p # us))"
    using assms merge_layer [OF l] merge_states_eq(3) [OF d] by simp_all
qed

lemma squash_ok:
  assumes "index_ok ix"
  shows "index_ok (squash ix)" "history (squash ix) = tl (history ix)" "current (squash ix) = current ix"
proof -
  consider (empty) "undo_stack ix = []" | (one) u where "undo_stack ix = [u]"
    | (more) u p us where "undo_stack ix = u # p # us" by (metis neq_Nil_conv)
  then have "index_ok (squash ix) \<and> history (squash ix) = tl (history ix) \<and> current (squash ix) = current ix"
  proof cases
    case empty
    with assms show ?thesis by (simp add: squash_def history_def)
  next
    case one
    with assms show ?thesis by (simp add: squash_def history_def index_ok_def current_def)
  next
    case more
    have ok: "stack_ok (map_of (indices ix)) (next_id ix) (u # p # us)" using assms more by (simp add: index_ok_def)
    have "distinct (map fst (removed_values u))" using ok by (simp add: layer_ok_def)
    from merge_states_eq(4) [OF this, of p] have "state_revision (merge_states u p) = revision ix - 1"
      using assms more by (simp add: index_ok_def)
    with assms more stack_ok_merge [OF ok] show ?thesis
      by (simp add: squash_def history_def index_ok_def current_def)
  qed
  then show "index_ok (squash ix)" "history (squash ix) = tl (history ix)" "current (squash ix) = current ix" by simp_all
qed

lemma revisions_ok_le: "revisions_ok r us \<Longrightarrow> u \<in> set us \<Longrightarrow> state_revision u \<le> r"
  by (induction us arbitrary: r) fastforce+

lemma revisions_ok_dropWhile:
  "revisions_ok r us \<Longrightarrow> rev (dropWhile (\<lambda>u. state_revision u \<le> k) (rev us)) = take (nat (r - k)) us"
proof (induction us arbitrary: r)
  case (Cons u us)
  let ?P = "\<lambda>u. state_revision u \<le> k"
  show ?case
  proof (cases "r \<le> k")
    case True
    have "?P x" if "x \<in> set (rev (u # us))" for x
      using revisions_ok_le [OF Cons.prems, of x] that True by simp
    then have "dropWhile ?P (rev (u # us)) = []" unfolding dropWhile_eq_Nil_conv by blast
    with True show ?thesis by (simp only: rev.simps(1)) simp
  next
    case False
    have "dropWhile ?P (rev us @ [u]) = dropWhile ?P (rev us) @ [u]"
      using False Cons.prems by (cases "\<forall>x \<in> set (rev us). ?P x") (auto simp: dropWhile_append3)
    moreover have "nat (r - k) = Suc (nat (r - 1 - k))" using False by simp
    ultimately show ?thesis using Cons by simp
  qed
qed simp

lemma snapshots_take: "snapshots m (take j us) = take j (snapshots m us)"
  by (induction us arbitrary: m j) (auto simp: take_Cons split: nat.splits)

lemma stack_ok_take: "stack_ok m n us \<Longrightarrow> stack_ok m n (take j us)"
  by (induction us arbitrary: m n j) (auto simp: take_Cons split: nat.splits)

lemma revisions_ok_take: "revisions_ok r us \<Longrightarrow> revisions_ok r (take j us)"
  by (induction us arbitrary: r j) (auto simp: take_Cons split: nat.splits)

lemma commit_ok:
  assumes "index_ok ix"
  shows "index_ok (commit r ix)" "history (commit r ix) = take (nat (revision ix - r)) (history ix)"
    "current (commit r ix) = current ix"
  using assms
  by (auto simp: commit_def index_ok_def history_def current_def revisions_ok_dropWhile snapshots_take
      stack_ok_take revisions_ok_take)

section \<open>Sessions as seen by their users\<close>

text \<open>
  A store with undo sessions: the state of the objects, the stack of snapshots, changes that leave
  the snapshots alone, and the session operations.
\<close>

locale undo_store =
  fixes ok :: "'s \<Rightarrow> bool" and cur :: "'s \<Rightarrow> 'o" and hist :: "'s \<Rightarrow> 'o list"
    and change :: "'s \<Rightarrow> 's \<Rightarrow> bool"
    and start squash :: "'s \<Rightarrow> 's" and undo :: "'s \<Rightarrow> 's result"
  assumes change_ok: "ok s \<Longrightarrow> change s t \<Longrightarrow> ok t \<and> hist t = hist s"
    and start: "ok s \<Longrightarrow> ok (start s) \<and> cur (start s) = cur s \<and> hist (start s) = cur s # hist s"
    and squash: "ok s \<Longrightarrow> ok (squash s) \<and> cur (squash s) = cur s \<and> hist (squash s) = tl (hist s)"
    and undo: "ok s \<Longrightarrow> undo s = Inr t \<Longrightarrow> ok t \<and> (hist s = [] \<and> cur t = cur s \<and> hist t = [] \<or> hist s = cur t # hist t)"
begin

lemma changes_ok: "change\<^sup>*\<^sup>* s t \<Longrightarrow> ok s \<Longrightarrow> ok t \<and> hist t = hist s"
  by (induction rule: rtranclp_induct) (auto dest: change_ok)

text \<open>Whatever is done in a session, undoing it restores the state at its start.\<close>

lemma rollback:
  assumes "ok s" "change\<^sup>*\<^sup>* (start s) t" "undo t = Inr t'"
  shows "ok t' \<and> cur t' = cur s \<and> hist t' = hist s"
proof -
  have "ok t" "hist t = cur s # hist s" using changes_ok [OF assms(2)] start [OF assms(1)] by auto
  with undo [OF _ assms(3)] show ?thesis by auto
qed

text \<open>A squashed inner session belongs to the outer one: undoing the outer session undoes both.\<close>

lemma nested_rollback:
  assumes "ok s" "change\<^sup>*\<^sup>* (start s) t" "change\<^sup>*\<^sup>* (start t) u" "undo (squash u) = Inr u'"
  shows "ok u' \<and> cur u' = cur s \<and> hist u' = hist s"
proof -
  have t: "ok t" "hist t = cur s # hist s" using changes_ok [OF assms(2)] start [OF assms(1)] by auto
  then have "ok u" "hist u = cur t # hist t" using changes_ok [OF assms(3)] start [OF t(1)] by auto
  then have "ok (squash u)" "hist (squash u) = cur s # hist s" using squash t by auto
  with undo [OF _ assms(4)] show ?thesis by auto
qed

end

text \<open>One call of an object operation.\<close>

inductive index_change :: "('v \<Rightarrow> 'v \<Rightarrow> bool) \<Rightarrow> 'v generic_index \<Rightarrow> 'v generic_index \<Rightarrow> bool" for clash where
  created: "emplace clash c ix = Inr ix' \<Longrightarrow> index_change clash ix ix'"
| modified: "modify clash i f ix = Inr ix' \<Longrightarrow> index_change clash ix ix'"
| removed: "remove i ix = Inr ix' \<Longrightarrow> index_change clash ix ix'"

lemma index_change_ok:
  "index_change clash ix ix' \<Longrightarrow> index_ok ix \<Longrightarrow> index_ok ix' \<and> history ix' = history ix"
  by (induction rule: index_change.induct) (auto dest: emplace_ok modify_ok remove_ok)

lemma undo_cases:
  assumes "index_ok ix" "undo clash ix = Inr ix'"
  shows "index_ok ix' \<and> (history ix = [] \<and> current ix' = current ix \<and> history ix' = [] \<or> history ix = current ix' # history ix')"
proof (cases "undo_stack ix = []")
  case True
  then show ?thesis using assms by (auto simp: undo_def history_def)
next
  case False
  then show ?thesis using undo_ok [OF assms] by simp
qed

interpretation store: undo_store index_ok current history "index_change clash" start_undo_session squash "undo clash" for clash
proof
  fix s t :: "'a generic_index"
  assume s: "index_ok s"
  show "index_ok t \<and> history t = history s" if "index_change clash s t" by (rule index_change_ok [OF that s])
  show "index_ok (start_undo_session s) \<and> current (start_undo_session s) = current s \<and>
      history (start_undo_session s) = current s # history s" using start_ok [OF s] by simp
  show "index_ok (squash s) \<and> current (squash s) = current s \<and> history (squash s) = tl (history s)"
    using squash_ok [OF s] by simp
  show "index_ok t \<and> (history s = [] \<and> current t = current s \<and> history t = [] \<or> history s = current t # history t)"
    if "undo clash s = Inr t" by (rule undo_cases [OF s that])
qed

section \<open>Properties\<close>

text \<open>
  C2: In a consistent index, whatever objects are created, modified and removed during a session,
  undoing the session restores every object and the next id as they were when it started, and
  leaves the older sessions as they were; when a unique secondary index gets in the way the undo
  throws instead.
\<close>

theorem undo_restores_session_start:
  assumes "index_ok ix" "(index_change clash)\<^sup>*\<^sup>* (start_undo_session ix) ix1"
  shows "(\<exists>ix2. undo clash ix1 = Inr ix2 \<and> index_ok ix2 \<and> current ix2 = current ix \<and> history ix2 = history ix)
    \<or> undo clash ix1 = Inl Logic_Error \<and> (\<exists>a b. clash a b)"
proof (cases "undo clash ix1")
  case (Inl e)
  have "index_ok ix1" using store.changes_ok [OF assms(2)] start_ok(1) [OF assms(1)] by simp
  from undo_errors [OF this Inl] show ?thesis using Inl by simp
next
  case (Inr ix2)
  from store.rollback [OF assms Inr] show ?thesis using Inr by simp
qed

definition no_clash :: "nat \<Rightarrow> nat \<Rightarrow> bool" where
  "no_clash a b = False"

lemma example_session:
  "emplace no_clash (\<lambda>i. i + 7) empty_index = Inr \<lparr>undo_stack = [], revision = 0, next_id = 1, indices = [(0, 7)]\<rparr>"
  by (simp add: emplace_def container_emplace_def empty_index_def on_create_def kv_emplace_def no_clash_def)

lemma empty_index_ok: "index_ok empty_index"
  by (simp add: index_ok_def empty_index_def)

theorem undo_restores_session_start_witness:
  "let ix = \<lparr>undo_stack = [], revision = 0, next_id = 1, indices = [(0, 7 :: nat)]\<rparr>
   in index_ok ix \<and> (\<exists>ix1 ix2. modify no_clash 0 (\<lambda>_. 9) (start_undo_session ix) = Inr ix1 \<and>
        current ix1 \<noteq> current ix \<and> undo no_clash ix1 = Inr ix2 \<and> current ix2 = current ix)"
proof -
  let ?ix = "\<lparr>undo_stack = [], revision = 0, next_id = 1, indices = [(0, 7 :: nat)]\<rparr>"
  have ok: "index_ok ?ix" using emplace_ok(1) [OF empty_index_ok example_session] .
  obtain ix1 where ix1: "modify no_clash 0 (\<lambda>_. 9) (start_undo_session ?ix) = Inr ix1"
    by (simp add: modify_def start_undo_session_def on_modify_def container_modify_def no_clash_def)
  then have "(index_change no_clash)\<^sup>*\<^sup>* (start_undo_session ?ix) ix1" by (blast intro: index_change.modified)
  from undo_restores_session_start [OF ok this] obtain ix2 where "undo no_clash ix1 = Inr ix2" "current ix2 = current ?ix"
    by (auto simp: no_clash_def)
  moreover have "current ix1 \<noteq> current ?ix" using modify_ok(3) [OF start_ok(1) [OF ok] ix1] start_ok(2) [OF ok]
    by (auto simp: current_def fun_eq_iff)
  ultimately show ?thesis using ok ix1 by auto
qed

text \<open>
  C18: Squashing keeps the objects and forgets exactly the newest snapshot; committing a revision
  keeps the objects and the snapshots of the sessions above that revision, and nothing else.
\<close>

theorem squash_and_commit_forget_snapshots:
  assumes "index_ok ix"
  shows "index_ok (squash ix) \<and> current (squash ix) = current ix \<and> history (squash ix) = tl (history ix) \<and>
    index_ok (commit r ix) \<and> current (commit r ix) = current ix \<and>
    history (commit r ix) = take (nat (revision ix - r)) (history ix)"
  using squash_ok [OF assms] commit_ok [OF assms] by simp

theorem squash_and_commit_forget_snapshots_witness:
  "let ix = start_undo_session (empty_index :: nat generic_index)
   in history ix \<noteq> [] \<and> history (squash ix) = [] \<and> current (squash ix) = current empty_index"
proof -
  have ok: "index_ok (empty_index :: nat generic_index)" by (rule empty_index_ok)
  have "history (empty_index :: nat generic_index) = []" by (simp add: history_def empty_index_def)
  then show ?thesis
    using squash_and_commit_forget_snapshots [OF start_ok(1) [OF ok], of 0] start_ok(2,3) [OF ok]
    by (simp add: Let_def)
qed


end
