(* ===== verification/Authority.thy ===== *)
theory Authority
  imports Delta_Prelude "HOL-Library.Char_ord" "HOL-Library.List_Lexorder"
begin

text \<open>
  Account names, authorities and the recursive signature check of \<open>libraries/protocol\<close>
  (\<open>authority.hpp\<close>, \<open>authority.cpp\<close>, \<open>sign_state.hpp\<close>, \<open>sign_state.cpp\<close>). Names are strings, public
  keys a type parameter; a \<open>flat_map\<close> is the list of its entries in iteration order. The function
  that yields the active authority of an account is an argument, as it is in the code.
\<close>

section \<open>Account names\<close>

definition lower_letters :: string where
  "lower_letters = ''abcdefghijklmnopqrstuvwxyz''"

definition digits :: string where
  "digits = ''0123456789''"

text \<open>The checks of the body of the loop on the part of the name between two dots.\<close>

definition valid_label :: "string \<Rightarrow> bool" where
  "valid_label l \<longleftrightarrow>
     3 \<le> length l \<and> hd l \<in> set lower_letters \<and> last l \<in> set (lower_letters @ digits) \<and>
     list_all (\<lambda>c. c \<in> set (lower_letters @ digits @ ''-'')) (butlast (tl l))"

text \<open>The loop: \<open>rest\<close> is the suffix of the name that starts at \<open>begin\<close>.\<close>

function valid_labels_from :: "string \<Rightarrow> bool" where
  "valid_labels_from rest =
     (valid_label (takeWhile (\<lambda>c. c \<noteq> CHR ''.'') rest) \<and>
      (case dropWhile (\<lambda>c. c \<noteq> CHR ''.'') rest of [] \<Rightarrow> True | _ # after \<Rightarrow> valid_labels_from after))"
  by pat_completeness auto
termination
proof (relation "measure length")
  fix rest c after
  assume "dropWhile (\<lambda>c. c \<noteq> CHR ''.'') rest = c # (after :: string)"
  then have "length (c # after) \<le> length rest" using length_dropWhile_le by metis
  then show "(after, rest) \<in> measure length" by simp
qed simp

declare valid_labels_from.simps [simp del]

definition DELTA_MIN_ACCOUNT_NAME_LENGTH :: nat where "DELTA_MIN_ACCOUNT_NAME_LENGTH = 3"
definition DELTA_MAX_ACCOUNT_NAME_LENGTH :: nat where "DELTA_MAX_ACCOUNT_NAME_LENGTH = 16"

definition is_valid_account_name :: "string \<Rightarrow> bool" where
  "is_valid_account_name name =
     (if length name < DELTA_MIN_ACCOUNT_NAME_LENGTH then False
      else if length name > DELTA_MAX_ACCOUNT_NAME_LENGTH then False
      else valid_labels_from name)"

text \<open>The grammar of RFC 1035, in the form the header gives it, with labels of three characters or more.\<close>

definition letter :: "char \<Rightarrow> bool" where "letter c \<longleftrightarrow> c \<in> set lower_letters"
definition let_dig :: "char \<Rightarrow> bool" where "let_dig c \<longleftrightarrow> letter c \<or> c \<in> set digits"
definition let_dig_hyp :: "char \<Rightarrow> bool" where "let_dig_hyp c \<longleftrightarrow> let_dig c \<or> c = CHR ''-''"

inductive name_label :: "string \<Rightarrow> bool" where
  "letter c \<Longrightarrow> ldh \<noteq> [] \<Longrightarrow> \<forall>x \<in> set ldh. let_dig_hyp x \<Longrightarrow> let_dig d \<Longrightarrow> name_label (c # ldh @ [d])"

inductive subdomain :: "string \<Rightarrow> bool" where
  label: "name_label l \<Longrightarrow> subdomain l"
| dot: "name_label l \<Longrightarrow> subdomain s \<Longrightarrow> subdomain (l @ ''.'' @ s)"

lemma valid_label_iff: "valid_label l \<longleftrightarrow> name_label l"
proof
  assume v: "valid_label l"
  then obtain c rest where l: "l = c # rest" by (cases l) (auto simp: valid_label_def)
  with v have "rest \<noteq> []" by (auto simp: valid_label_def)
  then obtain ldh d where r: "rest = ldh @ [d]" by (cases rest rule: rev_cases) auto
  have v': "3 \<le> length ldh + 2" "c \<in> set lower_letters" "d \<in> set (lower_letters @ digits)"
    "\<forall>x \<in> set ldh. x \<in> set (lower_letters @ digits @ ''-'')"
    using v unfolding valid_label_def l r by (simp_all add: list_all_iff)
  show "name_label l"
    unfolding l r
  proof (rule name_label.intros)
    show "letter c" using v'(2) by (simp add: letter_def)
    show "ldh \<noteq> []" using v'(1) by (cases ldh) simp_all
    show "\<forall>x \<in> set ldh. let_dig_hyp x" using v'(4) by (auto simp: letter_def let_dig_def let_dig_hyp_def)
    show "let_dig d" using v'(3) by (simp add: letter_def let_dig_def)
  qed
next
  assume "name_label l"
  then show "valid_label l"
    by cases (auto simp: valid_label_def list_all_iff letter_def let_dig_def let_dig_hyp_def Suc_le_eq)
qed

lemma let_dig_hyp_no_dot: "let_dig_hyp c \<Longrightarrow> c \<noteq> CHR ''.''"
proof (rule notI)
  assume "let_dig_hyp c" "c = CHR ''.''"
  then show False by (simp add: letter_def let_dig_def let_dig_hyp_def lower_letters_def digits_def)
qed

lemma name_label_no_dot: "name_label l \<Longrightarrow> c \<in> set l \<Longrightarrow> c \<noteq> CHR ''.''"
  by (rule let_dig_hyp_no_dot, erule name_label.cases) (auto simp: let_dig_def let_dig_hyp_def)

lemma subdomain_iff: "valid_labels_from s \<longleftrightarrow> subdomain s"
proof
  show "subdomain s" if "valid_labels_from s"
    using that
  proof (induction s rule: valid_labels_from.induct)
    case (1 s)
    let ?l = "takeWhile (\<lambda>c. c \<noteq> CHR ''.'') s"
    from 1(2) have l: "name_label ?l" by (simp add: valid_labels_from.simps [of s] valid_label_iff)
    show ?case
    proof (cases "dropWhile (\<lambda>c. c \<noteq> CHR ''.'') s")
      case Nil
      then have "?l = s" using takeWhile_dropWhile_id [of "\<lambda>c. c \<noteq> CHR ''.''" s] by simp
      with l have "name_label s" by simp
      then show ?thesis by (rule subdomain.label)
    next
      case (Cons c after)
      then have "c = CHR ''.''" using hd_dropWhile [of "\<lambda>c. c \<noteq> CHR ''.''" s] by simp
      then have s: "s = ?l @ ''.'' @ after" using takeWhile_dropWhile_id [of "\<lambda>c. c \<noteq> CHR ''.''" s] Cons by simp
      have "valid_labels_from after" using 1(2) Cons by (simp add: valid_labels_from.simps [of s])
      then have "subdomain after" by (rule 1(1) [OF Cons])
      with l show ?thesis by (subst s) (rule subdomain.dot)
    qed
  qed
next
  show "valid_labels_from s" if "subdomain s"
    using that
  proof induction
    case (label l)
    have e: "takeWhile (\<lambda>c. c \<noteq> CHR ''.'') l = l" "dropWhile (\<lambda>c. c \<noteq> CHR ''.'') l = []"
      using name_label_no_dot [OF label] by (auto simp: takeWhile_eq_all_conv dropWhile_eq_Nil_conv)
    show ?case unfolding valid_labels_from.simps [of l] e valid_label_iff using label by simp
  next
    case (dot l s)
    have e: "takeWhile (\<lambda>c. c \<noteq> CHR ''.'') (l @ ''.'' @ s) = l" "dropWhile (\<lambda>c. c \<noteq> CHR ''.'') (l @ ''.'' @ s) = ''.'' @ s"
      using name_label_no_dot [OF dot(1)] by (auto simp: takeWhile_append2 dropWhile_append2)
    show ?case unfolding valid_labels_from.simps [of "l @ ''.'' @ s"] e valid_label_iff using dot by simp
  qed
qed

text \<open>
  C34: \<open>is_valid_account_name\<close> accepts exactly the names of the documented grammar: dot separated
  labels of at least three lower case letters, digits and hyphens, each beginning with a letter and
  ending with a letter or digit, 3 to 16 characters in all.
\<close>

theorem account_name_grammar:
  "is_valid_account_name name \<longleftrightarrow> 3 \<le> length name \<and> length name \<le> 16 \<and> subdomain name"
  by (auto simp: is_valid_account_name_def subdomain_iff DELTA_MIN_ACCOUNT_NAME_LENGTH_def DELTA_MAX_ACCOUNT_NAME_LENGTH_def)

section \<open>Authorities\<close>

text \<open>
  \<open>boost::container::flat_map\<close> as the list of its entries in key order: assignment through \<open>[]\<close>
  overwrites the entry of the key or inserts one at its place.
\<close>

fun flat_map_set :: "('k :: linorder) \<Rightarrow> 'v \<Rightarrow> ('k \<times> 'v) list \<Rightarrow> ('k \<times> 'v) list" where
  "flat_map_set k v [] = [(k, v)]"
| "flat_map_set k v ((k', v') # m) =
     (if k < k' then (k, v) # (k', v') # m else if k = k' then (k, v) # m else (k', v') # flat_map_set k v m)"

type_synonym account_name_type = string
type_synonym weight_type = "16 word"

record 'k authority =
  weight_threshold :: "32 word"
  account_auths :: "(account_name_type \<times> weight_type) list"
  key_auths :: "('k \<times> weight_type) list"

definition add_key_authority :: "('k :: linorder) \<Rightarrow> weight_type \<Rightarrow> 'k authority \<Rightarrow> 'k authority" where
  "add_key_authority k w a = a\<lparr>key_auths := flat_map_set k w (key_auths a)\<rparr>"

definition add_account_authority :: "account_name_type \<Rightarrow> weight_type \<Rightarrow> 'k authority \<Rightarrow> 'k authority" where
  "add_account_authority n w a = a\<lparr>account_auths := flat_map_set n w (account_auths a)\<rparr>"

definition get_keys :: "'k authority \<Rightarrow> 'k list" where
  "get_keys a = map fst (key_auths a)"

text \<open>The sum of the weights, modulo \<open>2 ^ 64\<close>, against the threshold.\<close>

definition is_impossible :: "'k authority \<Rightarrow> bool" where
  "is_impossible a =
     (let s1 = foldl (\<lambda>acc item. acc + ucast (snd item)) (0 :: 64 word) (account_auths a);
          s2 = foldl (\<lambda>acc item. acc + ucast (snd item)) s1 (key_auths a)
      in s2 < ucast (weight_threshold a))"

definition num_auths :: "'k authority \<Rightarrow> 32 word" where
  "num_auths a = of_nat (length (account_auths a) + length (key_auths a))"

definition authority_clear :: "'k authority \<Rightarrow> 'k authority" where
  "authority_clear a = a\<lparr>account_auths := [], key_auths := []\<rparr>"

definition authority_validate :: "'k authority \<Rightarrow> unit result" where
  "authority_validate a = res_fold (\<lambda>item _. fc_assert (is_valid_account_name (fst item)) (Inr ())) (account_auths a) ()"

definition add_authority_accounts :: "account_name_type set \<Rightarrow> 'k authority \<Rightarrow> account_name_type set" where
  "add_authority_accounts result a = foldl (\<lambda>r item. insert (fst item) r) result (account_auths a)"

section \<open>Checking signatures against authorities\<close>

text \<open>
  The members of \<open>sign_state\<close> that a check leaves alone, and those it changes: the flag of a provided
  signature records that some authority counted it.
\<close>

record 'k sign_context =
  get_active :: "account_name_type \<Rightarrow> 'k authority"
  available_keys :: "'k set"
  max_recursion :: "32 word"
  max_membership :: "32 word"
  max_account_auths :: "32 word"

record 'k sign_state =
  provided_signatures :: "('k \<times> bool) list"
  approved_by :: "account_name_type set"

definition make_sign_state :: "('k :: linorder) list \<Rightarrow> 'k sign_state" where
  "make_sign_state sigs =
     \<lparr>provided_signatures = foldl (\<lambda>m key. flat_map_set key False m) [] sigs, approved_by = {''temp''}\<rparr>"

definition signed_by :: "('k :: linorder) sign_context \<Rightarrow> 'k \<Rightarrow> 'k sign_state \<Rightarrow> bool \<times> 'k sign_state" where
  "signed_by ctx k s =
     (case map_of (provided_signatures s) k of
        None \<Rightarrow>
          if k \<in> available_keys ctx then (True, s\<lparr>provided_signatures := flat_map_set k True (provided_signatures s)\<rparr>)
          else (False, s)
      | Some _ \<Rightarrow> (True, s\<lparr>provided_signatures := flat_map_set k True (provided_signatures s)\<rparr>))"

text \<open>
  The first loop of \<open>check_authority_impl\<close>. It either returns a verdict or hands the accumulated
  weight and the number of members seen on to the second loop.
\<close>

datatype key_scan = Verdict bool | Undecided "32 word" nat

fun scan_keys ::
  "('k :: linorder) sign_context \<Rightarrow> 32 word \<Rightarrow> ('k \<times> weight_type) list \<Rightarrow> 32 word \<Rightarrow> nat \<Rightarrow> 'k sign_state \<Rightarrow> key_scan \<times> 'k sign_state" where
  "scan_keys ctx threshold [] total_weight membership s = (Undecided total_weight membership, s)"
| "scan_keys ctx threshold ((k, w) # ks) total_weight membership s =
     (let (has_sig, s) = signed_by ctx k s;
          total_weight = (if has_sig then total_weight + ucast w else total_weight);
          membership' = membership + 1
      in if has_sig \<and> total_weight \<ge> threshold then (Verdict True, s)
         else if max_membership ctx > 0 \<and> membership' \<ge> unat (max_membership ctx) then (Verdict False, s)
         else scan_keys ctx threshold ks total_weight membership' s)"

text \<open>
  The second loop; the recursive call of \<open>check_authority_impl\<close> on the authority of a member account
  is its two loops in sequence. \<open>depth\<close> and \<open>account_auth_count\<close> are \<open>uint32_t\<close> and wrap.
\<close>

lemma depth_decreases: "depth \<noteq> m \<Longrightarrow> unat (m - (depth + 1)) < unat (m - depth :: 32 word)"
proof -
  assume "depth \<noteq> m"
  then have "m - depth \<noteq> 0" by simp
  then have "unat (m - depth - 1) < unat (m - depth)"
    by (metis gr_zeroI less_one measure_unat unat_eq_zero)
  then show ?thesis by (simp add: diff_diff_eq)
qed

function scan_accounts ::
  "('k :: linorder) sign_context \<Rightarrow> 32 word \<Rightarrow> 32 word \<Rightarrow> (account_name_type \<times> weight_type) list \<Rightarrow> 32 word \<Rightarrow> nat \<Rightarrow>
   32 word \<Rightarrow> 'k sign_state \<Rightarrow> bool \<times> 32 word \<times> 'k sign_state" where
  "scan_accounts ctx threshold depth [] total_weight membership count s = (total_weight \<ge> threshold, count, s)"
| "scan_accounts ctx threshold depth ((a, w) # auths) total_weight membership count s =
     (if a \<notin> approved_by s then
        if depth = max_recursion ctx then
          scan_accounts ctx threshold depth auths total_weight membership count s
        else if max_account_auths ctx > 0 \<and> count \<ge> max_account_auths ctx then (False, count, s)
        else
          (let count = count + 1;
               auth = get_active ctx a;
               (approved, count, s) =
                 (case scan_keys ctx (weight_threshold auth) (key_auths auth) 0 0 s of
                    (Verdict b, s) \<Rightarrow> (b, count, s)
                  | (Undecided tw mem, s) \<Rightarrow>
                      scan_accounts ctx (weight_threshold auth) (depth + 1) (account_auths auth) tw mem count s);
               s = (if approved then s\<lparr>approved_by := insert a (approved_by s)\<rparr> else s);
               total_weight = (if approved then total_weight + ucast w else total_weight);
               membership = membership + 1
           in if approved \<and> total_weight \<ge> threshold then (True, count, s)
              else if max_membership ctx > 0 \<and> membership \<ge> unat (max_membership ctx) then (False, count, s)
              else scan_accounts ctx threshold depth auths total_weight membership count s)
      else
        (let total_weight = total_weight + ucast w;
             membership = membership + 1
         in if total_weight \<ge> threshold then (True, count, s)
            else if max_membership ctx > 0 \<and> membership \<ge> unat (max_membership ctx) then (False, count, s)
            else scan_accounts ctx threshold depth auths total_weight membership count s))"
  by pat_completeness auto
termination
  by (relation "inv_image (less_than <*lex*> less_than)
        (\<lambda>(ctx, threshold, depth, auths, _). (unat (max_recursion ctx - depth), length auths))")
    (auto simp: depth_decreases)

definition check_authority_impl ::
  "('k :: linorder) sign_context \<Rightarrow> 'k authority \<Rightarrow> 32 word \<Rightarrow> 32 word \<Rightarrow> 'k sign_state \<Rightarrow> bool \<times> 32 word \<times> 'k sign_state" where
  "check_authority_impl ctx auth depth count s =
     (case scan_keys ctx (weight_threshold auth) (key_auths auth) 0 0 s of
        (Verdict b, s) \<Rightarrow> (b, count, s)
      | (Undecided tw mem, s) \<Rightarrow> scan_accounts ctx (weight_threshold auth) depth (account_auths auth) tw mem count s)"

definition check_authority :: "('k :: linorder) sign_context \<Rightarrow> 'k authority \<Rightarrow> 'k sign_state \<Rightarrow> bool \<times> 'k sign_state" where
  "check_authority ctx auth s = (let (ok, _, s) = check_authority_impl ctx auth 0 0 s in (ok, s))"

definition check_authority_of :: "('k :: linorder) sign_context \<Rightarrow> account_name_type \<Rightarrow> 'k sign_state \<Rightarrow> bool \<times> 'k sign_state" where
  "check_authority_of ctx name s =
     (if name \<in> approved_by s then (True, s)
      else let (ok, _, s) = check_authority_impl ctx (get_active ctx name) 0 1 s in (ok, s))"

definition remove_unused_signatures :: "'k sign_state \<Rightarrow> bool \<times> 'k sign_state" where
  "remove_unused_signatures s =
     (let remove_sigs = filter (\<lambda>sig. \<not> snd sig) (provided_signatures s)
      in (length remove_sigs \<noteq> 0, s\<lparr>provided_signatures := filter snd (provided_signatures s)\<rparr>))"

section \<open>What a successful check means\<close>

text \<open>
  The specification, free of recursion depth, limits and search order: with the keys \<open>K\<close> signing and
  the accounts \<open>B\<close> approving, an account is approved when it is in \<open>B\<close> or when the keys and approved
  accounts of its authority reach the threshold.
\<close>

definition signed_weight :: "'a set \<Rightarrow> ('a \<times> weight_type) list \<Rightarrow> nat" where
  "signed_weight S auths = sum_list (map (\<lambda>(x, w). if x \<in> S then unat w else 0) auths)"

definition authority_met :: "'k set \<Rightarrow> account_name_type set \<Rightarrow> 'k authority \<Rightarrow> bool" where
  "authority_met K N auth \<longleftrightarrow>
     unat (weight_threshold auth) \<le> signed_weight K (key_auths auth) + signed_weight N (account_auths auth)"

inductive approvable :: "(account_name_type \<Rightarrow> 'k authority) \<Rightarrow> 'k set \<Rightarrow> account_name_type set \<Rightarrow> account_name_type \<Rightarrow> bool"
  for get K B where
  given: "n \<in> B \<Longrightarrow> approvable get K B n"
| derived: "\<forall>m \<in> N. approvable get K B m \<Longrightarrow> authority_met K N (get n) \<Longrightarrow> approvable get K B n"

definition signing_keys :: "'k sign_context \<Rightarrow> 'k sign_state \<Rightarrow> 'k set" where
  "signing_keys ctx s = fst ` set (provided_signatures s) \<union> available_keys ctx"

lemma set_flat_map_set: "fst ` set (flat_map_set k v m) = insert k (fst ` set m)"
  by (induction k v m rule: flat_map_set.induct) auto

lemma signed_weight_simps [simp]:
  "signed_weight S [] = 0" "signed_weight S ((x, w) # auths) = (if x \<in> S then unat w else 0) + signed_weight S auths"
  by (simp_all add: signed_weight_def)

lemma unat_add_weight: "unat (t + ucast (w :: 16 word) :: 32 word) \<le> unat t + unat w"
proof -
  have "unat w < 2 ^ LENGTH(16)" by (rule unsigned_less)
  then have "unat (ucast w :: 32 word) = unat w" by (simp add: unsigned_ucast_eq take_bit_nat_eq_self)
  then show ?thesis by (metis unat_word_ariths(1) mod_less_eq_dividend)
qed

lemma signed_by_eq:
  "signed_by ctx k s =
     (if k \<in> signing_keys ctx s then (True, s\<lparr>provided_signatures := flat_map_set k True (provided_signatures s)\<rparr>) else (False, s))"
proof (cases "k \<in> fst ` set (provided_signatures s)")
  case True
  then obtain b where "map_of (provided_signatures s) k = Some b" by (metis map_of_eq_None_iff option.exhaust)
  with True show ?thesis by (simp add: signed_by_def signing_keys_def)
next
  case False
  then have "map_of (provided_signatures s) k = None" by (simp add: map_of_eq_None_iff)
  with False show ?thesis by (simp add: signed_by_def signing_keys_def)
qed

lemma signed_by_correct:
  assumes "signed_by ctx k s = (has_sig, s')"
  shows "has_sig \<longleftrightarrow> k \<in> signing_keys ctx s" "signing_keys ctx s' = signing_keys ctx s" "approved_by s' = approved_by s"
proof -
  have "insert k (fst ` set (provided_signatures s)) \<union> available_keys ctx = signing_keys ctx s" if "k \<in> signing_keys ctx s"
    using that unfolding signing_keys_def by blast
  then have "signing_keys ctx (s\<lparr>provided_signatures := flat_map_set k True (provided_signatures s)\<rparr>) = signing_keys ctx s"
    if "k \<in> signing_keys ctx s" using that by (simp add: signing_keys_def set_flat_map_set)
  with assms show "has_sig \<longleftrightarrow> k \<in> signing_keys ctx s" "signing_keys ctx s' = signing_keys ctx s" "approved_by s' = approved_by s"
    by (auto simp: signed_by_eq split: if_splits)
qed

lemma scan_keys_sound:
  "scan_keys ctx threshold ks tw mem s = (r, s') \<Longrightarrow>
   signing_keys ctx s' = signing_keys ctx s \<and> approved_by s' = approved_by s \<and>
   (r = Verdict True \<longrightarrow> unat threshold \<le> unat tw + signed_weight (signing_keys ctx s) ks) \<and>
   (\<forall>tw' mem'. r = Undecided tw' mem' \<longrightarrow> unat tw' \<le> unat tw + signed_weight (signing_keys ctx s) ks)"
proof (induction ks arbitrary: tw mem s)
  case (Cons p ks)
  obtain k w where p: "p = (k, w)" by force
  obtain has_sig s1 where sb: "signed_by ctx k s = (has_sig, s1)" by force
  note c = signed_by_correct [OF sb]
  let ?tw = "if has_sig then tw + ucast w else tw"
  have le: "unat ?tw \<le> unat tw + (if k \<in> signing_keys ctx s then unat w else 0)"
    using unat_add_weight [of tw w] c(1) by simp
  show ?case
  proof (cases "has_sig \<and> ?tw \<ge> threshold")
    case True
    then have "r = Verdict True" "s' = s1" using Cons.prems by (auto simp: p sb Let_def)
    moreover have "unat threshold \<le> unat ?tw" using True by (auto simp: word_le_nat_alt)
    ultimately show ?thesis using c le by (simp add: p)
  next
    case F: False
    show ?thesis
    proof (cases "max_membership ctx > 0 \<and> mem + 1 \<ge> unat (max_membership ctx)")
      case True
      then have "r = Verdict False" "s' = s1" using Cons.prems F by (auto simp: p sb Let_def split: if_splits)
      then show ?thesis using c by simp
    next
      case False
      have "scan_keys ctx threshold ks ?tw (mem + 1) s1 = (r, s')"
        using Cons.prems F False by (auto simp: p sb Let_def split: if_splits)
      from Cons.IH [OF this] show ?thesis using le c by (auto simp: p)
    qed
  qed
qed auto

text \<open>
  A run of the check from \<open>s\<close> to \<open>s'\<close> keeps the signing keys and only adds accounts that are
  approvable.
\<close>

definition sound_run :: "'k sign_context \<Rightarrow> account_name_type set \<Rightarrow> 'k sign_state \<Rightarrow> 'k sign_state \<Rightarrow> bool" where
  "sound_run ctx B s s' \<longleftrightarrow> signing_keys ctx s' = signing_keys ctx s \<and> approved_by s \<subseteq> approved_by s' \<and>
     (\<forall>n \<in> approved_by s'. approvable (get_active ctx) (signing_keys ctx s) B n)"

definition approvable_set :: "'k sign_context \<Rightarrow> account_name_type set \<Rightarrow> 'k sign_state \<Rightarrow> account_name_type set" where
  "approvable_set ctx B s = Collect (approvable (get_active ctx) (signing_keys ctx s) B)"

lemma sound_run_trans: "sound_run ctx B s s1 \<Longrightarrow> sound_run ctx B s1 s2 \<Longrightarrow> sound_run ctx B s s2"
  by (auto simp: sound_run_def)

lemma sound_run_same: "sound_run ctx B s s1 \<Longrightarrow> approvable_set ctx B s1 = approvable_set ctx B s \<and> sound_run ctx B s1 s1"
  by (auto simp: sound_run_def approvable_set_def)

lemma sound_run_approve:
  "sound_run ctx B s s1 \<Longrightarrow> a \<in> approvable_set ctx B s \<Longrightarrow> sound_run ctx B s (s1\<lparr>approved_by := insert a (approved_by s1)\<rparr>)"
  by (auto simp: sound_run_def approvable_set_def signing_keys_def)

lemma authority_met_approves:
  "authority_met (signing_keys ctx s) (approvable_set ctx B s) (get_active ctx a) \<Longrightarrow> a \<in> approvable_set ctx B s"
  by (auto simp: approvable_set_def intro: approvable.derived [of "Collect (approvable (get_active ctx) (signing_keys ctx s) B)"])

text \<open>Both loops together, given that the second is sound at this depth.\<close>

lemma check_authority_impl_sound:
  assumes loop: "\<And>tw mem s1. sound_run ctx B s1 s1 \<Longrightarrow>
      scan_accounts ctx (weight_threshold auth) depth (account_auths auth) tw mem cnt s1 = (ok, cnt', s') \<Longrightarrow>
      sound_run ctx B s1 s' \<and>
      (ok \<longrightarrow> unat (weight_threshold auth) \<le> unat tw + signed_weight (approvable_set ctx B s1) (account_auths auth))"
    and run: "check_authority_impl ctx auth depth cnt s = (ok, cnt', s')" and s: "sound_run ctx B s s"
  shows "sound_run ctx B s s' \<and> (ok \<longrightarrow> authority_met (signing_keys ctx s) (approvable_set ctx B s) auth)"
proof -
  obtain r s0 where sk: "scan_keys ctx (weight_threshold auth) (key_auths auth) 0 0 s = (r, s0)" by force
  note ks = scan_keys_sound [OF sk]
  have s0: "sound_run ctx B s s0" using ks s by (simp add: sound_run_def)
  show ?thesis
  proof (cases r)
    case (Verdict b)
    then show ?thesis using run sk ks s0 by (auto simp: check_authority_impl_def authority_met_def)
  next
    case (Undecided tw mem)
    then have "scan_accounts ctx (weight_threshold auth) depth (account_auths auth) tw mem cnt s0 = (ok, cnt', s')"
      using run sk by (simp add: check_authority_impl_def)
    note sa = loop [OF sound_run_same [OF s0, THEN conjunct2] this]
    have tw: "unat tw \<le> signed_weight (signing_keys ctx s) (key_auths auth)" using ks Undecided by simp
    have "approvable_set ctx B s0 = approvable_set ctx B s" using sound_run_same [OF s0] by simp
    then show ?thesis using sa sound_run_trans [OF s0] tw by (auto simp: authority_met_def)
  qed
qed

text \<open>What remains of the second loop once the verdict \<open>yes\<close> on its first account is known.\<close>

definition account_step ::
  "('k :: linorder) sign_context \<Rightarrow> 32 word \<Rightarrow> 32 word \<Rightarrow> (account_name_type \<times> weight_type) list \<Rightarrow> weight_type \<Rightarrow> bool \<Rightarrow> 32 word \<Rightarrow> nat \<Rightarrow>
   32 word \<Rightarrow> 'k sign_state \<Rightarrow> bool \<times> 32 word \<times> 'k sign_state" where
  "account_step ctx threshold depth auths w yes tw mem cnt s =
     (let tw = (if yes then tw + ucast w else tw)
      in if yes \<and> tw \<ge> threshold then (True, cnt, s)
         else if max_membership ctx > 0 \<and> mem + 1 \<ge> unat (max_membership ctx) then (False, cnt, s)
         else scan_accounts ctx threshold depth auths tw (mem + 1) cnt s)"

lemma scan_accounts_Cons:
  "scan_accounts ctx threshold depth ((a, w) # auths) tw mem cnt s =
     (if a \<in> approved_by s then account_step ctx threshold depth auths w True tw mem cnt s
      else if depth = max_recursion ctx then scan_accounts ctx threshold depth auths tw mem cnt s
      else if max_account_auths ctx > 0 \<and> cnt \<ge> max_account_auths ctx then (False, cnt, s)
      else case check_authority_impl ctx (get_active ctx a) (depth + 1) (cnt + 1) s of (approved, c, s1) \<Rightarrow>
        account_step ctx threshold depth auths w approved tw mem c
          (if approved then s1\<lparr>approved_by := insert a (approved_by s1)\<rparr> else s1))"
  unfolding scan_accounts.simps(2) account_step_def check_authority_impl_def Let_def
  by (cases "a \<in> approved_by s") (simp_all only: simp_thms if_True if_False)

lemma account_step_sound:
  assumes loop: "\<And>tw mem. sound_run ctx B s1 s1 \<Longrightarrow> scan_accounts ctx threshold depth auths tw mem cnt s1 = (ok, cnt', s') \<Longrightarrow>
      sound_run ctx B s1 s' \<and> (ok \<longrightarrow> unat threshold \<le> unat tw + signed_weight (approvable_set ctx B s1) auths)"
    and run: "account_step ctx threshold depth auths w yes tw mem cnt s1 = (ok, cnt', s')"
    and s1: "sound_run ctx B s s1" and yes: "yes \<longrightarrow> a \<in> approvable_set ctx B s"
  shows "sound_run ctx B s s' \<and> (ok \<longrightarrow> unat threshold \<le> unat tw + signed_weight (approvable_set ctx B s) ((a, w) # auths))"
proof -
  let ?tw = "if yes then tw + ucast w else tw"
  have le: "unat ?tw \<le> unat tw + (if a \<in> approvable_set ctx B s then unat w else 0)" using yes unat_add_weight [of tw w] by auto
  note same = sound_run_same [OF s1]
  consider "yes \<and> ?tw \<ge> threshold" "ok" "s' = s1" | "\<not> ok" "s' = s1"
    | "scan_accounts ctx threshold depth auths ?tw (mem + 1) cnt s1 = (ok, cnt', s')"
    using run unfolding account_step_def Let_def by (auto split: if_splits)
  then show ?thesis
  proof cases
    case 1
    then have "unat threshold \<le> unat ?tw" using word_le_nat_alt by blast
    then show ?thesis using 1 le s1 by auto
  next
    case 2
    then show ?thesis using s1 by simp
  next
    case 3
    from loop [OF same [THEN conjunct2] this] le same sound_run_trans [OF s1] show ?thesis by auto
  qed
qed

lemma scan_accounts_sound:
  "scan_accounts ctx threshold depth auths tw mem cnt s = (ok, cnt', s') \<Longrightarrow> sound_run ctx B s s \<Longrightarrow>
   sound_run ctx B s s' \<and> (ok \<longrightarrow> unat threshold \<le> unat tw + signed_weight (approvable_set ctx B s) auths)"
proof (induction "unat (max_recursion ctx - depth)" arbitrary: threshold depth auths tw mem cnt s ok cnt' s' rule: less_induct)
  case (less depth)
  show ?case using less.prems
  proof (induction auths arbitrary: tw mem cnt s)
    case Nil
    then show ?case by (auto simp: word_le_nat_alt)
  next
    case (Cons p auths)
    obtain a w where p: "p = (a, w)" by force
    consider (approved) "a \<in> approved_by s" "account_step ctx threshold depth auths w True tw mem cnt s = (ok, cnt', s')"
      | (deep) "scan_accounts ctx threshold depth auths tw mem cnt s = (ok, cnt', s')"
      | (many) "\<not> ok" "s' = s"
      | (call) yes c s1 where "depth \<noteq> max_recursion ctx"
          "check_authority_impl ctx (get_active ctx a) (depth + 1) (cnt + 1) s = (yes, c, s1)"
          "account_step ctx threshold depth auths w yes tw mem c
             (if yes then s1\<lparr>approved_by := insert a (approved_by s1)\<rparr> else s1) = (ok, cnt', s')"
      using Cons.prems(1) unfolding p scan_accounts_Cons by (auto split: if_splits prod.splits)
    then show ?case
    proof cases
      case approved
      have "a \<in> approvable_set ctx B s" using approved(1) Cons.prems(2) by (auto simp: sound_run_def approvable_set_def)
      then show ?thesis unfolding p using Cons.IH approved(2) Cons.prems(2) by (intro account_step_sound) auto
    next
      case deep
      from Cons.IH [OF this Cons.prems(2)] show ?thesis by (auto simp: p)
    next
      case many
      then show ?thesis using Cons.prems(2) by simp
    next
      case (call yes c s1)
      have d: "unat (max_recursion ctx - (depth + 1)) < unat (max_recursion ctx - depth)"
        by (rule depth_decreases [OF call(1)])
      have "sound_run ctx B s s1 \<and> (yes \<longrightarrow> authority_met (signing_keys ctx s) (approvable_set ctx B s) (get_active ctx a))"
        by (rule check_authority_impl_sound [OF _ call(2) Cons.prems(2)]) (rule less.hyps [OF d])
      then have s1: "sound_run ctx B s s1" and yes: "yes \<longrightarrow> a \<in> approvable_set ctx B s"
        using authority_met_approves by blast+
      then have "sound_run ctx B s (if yes then s1\<lparr>approved_by := insert a (approved_by s1)\<rparr> else s1)"
        using sound_run_approve by auto
      then show ?thesis unfolding p using Cons.IH call(3) yes by (intro account_step_sound) auto
    qed
  qed
qed

lemma check_authority_sound:
  assumes "check_authority ctx auth s = (ok, s')" and "sound_run ctx B s s"
  shows "sound_run ctx B s s' \<and> (ok \<longrightarrow> authority_met (signing_keys ctx s) (approvable_set ctx B s) auth)"
proof -
  from assms(1) obtain c where "check_authority_impl ctx auth 0 0 s = (ok, c, s')"
    by (auto simp: check_authority_def split: prod.splits)
  from check_authority_impl_sound [OF _ this assms(2)] scan_accounts_sound show ?thesis by blast
qed

lemma check_authority_of_sound:
  assumes "check_authority_of ctx n s = (ok, s')" and s: "sound_run ctx B s s"
  shows "sound_run ctx B s s' \<and> (ok \<longrightarrow> n \<in> approvable_set ctx B s)"
proof (cases "n \<in> approved_by s")
  case True
  then show ?thesis using assms by (auto simp: check_authority_of_def sound_run_def approvable_set_def)
next
  case False
  with assms(1) obtain c where "check_authority_impl ctx (get_active ctx n) 0 1 s = (ok, c, s')"
    by (auto simp: check_authority_of_def split: prod.splits)
  from check_authority_impl_sound [OF _ this s] scan_accounts_sound authority_met_approves show ?thesis by blast
qed

text \<open>Within the limits, a set of signatures that reaches a threshold above 0 through keys alone is found.\<close>

lemma unat_add_weight_exact: "unat t + unat (w :: 16 word) < 2 ^ 32 \<Longrightarrow> unat (t + ucast w :: 32 word) = unat t + unat w"
proof -
  assume a: "unat t + unat w < 2 ^ 32"
  have "unat w < 2 ^ LENGTH(16)" by (rule unsigned_less)
  then have "unat (ucast w :: 32 word) = unat w" by (simp add: unsigned_ucast_eq take_bit_nat_eq_self)
  with a show ?thesis by (simp add: unat_word_ariths(1))
qed

lemma scan_keys_complete:
  assumes "unat tw < unat threshold" "unat threshold \<le> unat tw + signed_weight (signing_keys ctx s) ks"
    "unat tw + signed_weight (signing_keys ctx s) ks < 2 ^ 32" "mem + length ks \<le> unat (max_membership ctx)"
  shows "\<exists>s'. scan_keys ctx threshold ks tw mem s = (Verdict True, s')"
  using assms
proof (induction ks arbitrary: tw mem s)
  case (Cons p ks)
  obtain k w where p: "p = (k, w)" by force
  obtain has_sig s1 where sb: "signed_by ctx k s = (has_sig, s1)" by force
  note c = signed_by_correct [OF sb]
  let ?tw = "if has_sig then tw + ucast w else tw"
  have eq: "unat ?tw = unat tw + (if k \<in> signing_keys ctx s then unat w else 0)"
    using Cons.prems(3) c(1) unat_add_weight_exact [of tw w] by (auto simp: p)
  have step: "scan_keys ctx threshold (p # ks) tw mem s =
      (if has_sig \<and> ?tw \<ge> threshold then (Verdict True, s1)
       else if max_membership ctx > 0 \<and> mem + 1 \<ge> unat (max_membership ctx) then (Verdict False, s1)
       else scan_keys ctx threshold ks ?tw (mem + 1) s1)"
    by (simp only: p scan_keys.simps sb Let_def prod.case)
  show ?case
  proof (cases "has_sig \<and> ?tw \<ge> threshold")
    case True
    then show ?thesis unfolding step by auto
  next
    case False
    have lt: "unat ?tw < unat threshold"
    proof (cases has_sig)
      case True
      with False show ?thesis by (auto simp: word_le_nat_alt)
    qed (use Cons.prems(1) in simp)
    then have "ks \<noteq> []" using Cons.prems(2) eq by (auto simp: p)
    then have mem: "\<not> mem + 1 \<ge> unat (max_membership ctx)" using Cons.prems(4) by (cases ks) simp_all
    have "\<exists>s'. scan_keys ctx threshold ks ?tw (mem + 1) s1 = (Verdict True, s')"
      using lt Cons.prems eq by (intro Cons.IH) (simp_all only: c(2), auto simp: p)
    then show ?thesis unfolding step using False mem by (simp only: if_False simp_thms)
  qed
qed simp

text \<open>
  C33: The signature check decides an authority of positive threshold that names keys only: within the membership
  limit and without overflow of the 32-bit sum it succeeds exactly when the weights of the keys that signed
  reach the threshold.
\<close>

theorem key_authority_decided:
  assumes "account_auths auth = []" and "0 < weight_threshold auth" and "length (key_auths auth) \<le> unat (max_membership ctx)"
    and "signed_weight (signing_keys ctx s) (key_auths auth) < 2 ^ 32"
  shows "fst (check_authority ctx auth s) \<longleftrightarrow> unat (weight_threshold auth) \<le> signed_weight (signing_keys ctx s) (key_auths auth)"
proof
  obtain ok s' where c: "check_authority ctx auth s = (ok, s')" by force
  obtain r s0 where sk: "scan_keys ctx (weight_threshold auth) (key_auths auth) 0 0 s = (r, s0)" by force
  {
    assume "fst (check_authority ctx auth s)"
    with c have ok by simp
    have "ok \<longrightarrow> unat (weight_threshold auth) \<le> signed_weight (signing_keys ctx s) (key_auths auth)"
      using scan_keys_sound [OF sk] c sk assms(1)
      by (cases r) (auto simp: check_authority_def check_authority_impl_def word_le_nat_alt split: prod.splits)
    with \<open>ok\<close> show "unat (weight_threshold auth) \<le> signed_weight (signing_keys ctx s) (key_auths auth)" by blast
  }
  assume reach: "unat (weight_threshold auth) \<le> signed_weight (signing_keys ctx s) (key_auths auth)"
  show "fst (check_authority ctx auth s)"
  proof -
    have "unat (0 :: 32 word) < unat (weight_threshold auth)" using assms(2) by (simp add: unat_gt_0 word_gt_0)
    from scan_keys_complete [OF this, of ctx s "key_auths auth" 0] reach assms(3,4) sk have "r = Verdict True" by auto
    then show ?thesis using sk by (simp add: check_authority_def check_authority_impl_def)
  qed
qed

theorem key_authority_decided_witness:
  "fst (check_authority \<lparr>get_active = (\<lambda>_. \<lparr>weight_threshold = 1, account_auths = [], key_auths = []\<rparr>), available_keys = {},
      max_recursion = 2, max_membership = 40, max_account_auths = 125\<rparr>
      \<lparr>weight_threshold = 2, account_auths = [], key_auths = [(5 :: nat, 1), (6, 1), (7, 1)]\<rparr>
      (make_sign_state [5, 7]))"
  by (subst key_authority_decided) (simp_all add: signing_keys_def make_sign_state_def)

end
