(* ===== verification/Utf8.thy ===== *)
theory Utf8
  imports Delta_Prelude
begin

text \<open>
  The UTF-8 check every text field of an operation goes through (\<open>fc/src/utf8.cpp\<close>,
  \<open>fc/src/utf8/core.h\<close>) and the encoder of the same library (\<open>fc/src/utf8/checked.h\<close>). Octets are
  natural numbers below 256; the masks of the source, all of the form \<open>2 ^ k - 1\<close>, are remainders.
\<close>

section \<open>Decoding\<close>

datatype utf_error = NOT_ENOUGH_ROOM | INVALID_LEAD | INCOMPLETE_SEQUENCE | OVERLONG_SEQUENCE | INVALID_CODE_POINT

definition is_trail :: "nat \<Rightarrow> bool" where
  "is_trail oc \<longleftrightarrow> (oc mod 256) div 64 = 2"

definition is_surrogate :: "nat \<Rightarrow> bool" where
  "is_surrogate cp \<longleftrightarrow> 0xd800 \<le> cp \<and> cp \<le> 0xdfff"

definition is_code_point_valid :: "nat \<Rightarrow> bool" where
  "is_code_point_valid cp \<longleftrightarrow> cp \<le> 0x10ffff \<and> \<not> is_surrogate cp"

definition sequence_length :: "nat \<Rightarrow> nat" where
  "sequence_length oc =
     (let lead = oc mod 256
      in if lead < 0x80 then 1
         else if lead div 32 = 6 then 2
         else if lead div 16 = 0xe then 3
         else if lead div 8 = 0x1e then 4
         else 0)"

definition is_overlong_sequence :: "nat \<Rightarrow> nat \<Rightarrow> bool" where
  "is_overlong_sequence cp len =
     (if cp < 0x80 then len \<noteq> 1
      else if cp < 0x800 then len \<noteq> 2
      else if cp < 0x10000 then len \<noteq> 3
      else False)"

text \<open>\<open>increase_safely\<close> moves to the next octet, which has to exist and to be a trail octet.\<close>

fun increase_safely :: "nat list \<Rightarrow> utf_error + (nat \<times> nat list)" where
  "increase_safely [] = Inl NOT_ENOUGH_ROOM"
| "increase_safely (b # bs) = (if is_trail b then Inr (b, bs) else Inl INCOMPLETE_SEQUENCE)"

definition utf_bind :: "utf_error + 'a \<Rightarrow> ('a \<Rightarrow> utf_error + 'b) \<Rightarrow> utf_error + 'b" where
  "utf_bind m f = (case m of Inl e \<Rightarrow> Inl e | Inr x \<Rightarrow> f x)"

definition get_sequence_1 :: "nat \<Rightarrow> nat list \<Rightarrow> utf_error + (nat \<times> nat list)" where
  "get_sequence_1 b bs = Inr (b mod 256, bs)"

definition get_sequence_2 :: "nat \<Rightarrow> nat list \<Rightarrow> utf_error + (nat \<times> nat list)" where
  "get_sequence_2 b bs =
     utf_bind (increase_safely bs) (\<lambda>(b1, bs1).
       Inr ((b mod 256 * 64) mod 0x800 + b1 mod 64, bs1))"

definition get_sequence_3 :: "nat \<Rightarrow> nat list \<Rightarrow> utf_error + (nat \<times> nat list)" where
  "get_sequence_3 b bs =
     utf_bind (increase_safely bs) (\<lambda>(b1, bs1).
     utf_bind (increase_safely bs1) (\<lambda>(b2, bs2).
       Inr ((b mod 256 * 4096) mod 0x10000 + (b1 mod 256 * 64) mod 0x1000 + b2 mod 64, bs2)))"

definition get_sequence_4 :: "nat \<Rightarrow> nat list \<Rightarrow> utf_error + (nat \<times> nat list)" where
  "get_sequence_4 b bs =
     utf_bind (increase_safely bs) (\<lambda>(b1, bs1).
     utf_bind (increase_safely bs1) (\<lambda>(b2, bs2).
     utf_bind (increase_safely bs2) (\<lambda>(b3, bs3).
       Inr ((b mod 256 * 262144) mod 0x200000 + (b1 mod 256 * 4096) mod 0x40000
            + (b2 mod 256 * 64) mod 0x1000 + b3 mod 64, bs3))))"

definition validate_next :: "nat \<Rightarrow> nat list \<Rightarrow> utf_error + (nat \<times> nat list)" where
  "validate_next b bs =
     (let len = sequence_length b;
          decoded = (if len = 0 then Inl INVALID_LEAD
                     else if len = 1 then get_sequence_1 b bs
                     else if len = 2 then get_sequence_2 b bs
                     else if len = 3 then get_sequence_3 b bs
                     else get_sequence_4 b bs)
      in utf_bind decoded (\<lambda>(cp, rest).
           if is_code_point_valid cp then
             (if \<not> is_overlong_sequence cp len then Inr (cp, rest) else Inl OVERLONG_SEQUENCE)
           else Inl INVALID_CODE_POINT))"

lemma increase_safely_shorter: "increase_safely bs = Inr (b, bs') \<Longrightarrow> bs = b # bs' \<and> is_trail b"
  by (cases bs) (auto split: if_splits)

lemma utf_bind_Inr [simp]: "utf_bind m f = Inr y \<longleftrightarrow> (\<exists>x. m = Inr x \<and> f x = Inr y)"
  by (cases m) (auto simp: utf_bind_def)

lemmas get_sequence_defs = get_sequence_1_def get_sequence_2_def get_sequence_3_def get_sequence_4_def

lemma get_sequence_shorter:
  "get_sequence_1 b bs = Inr (cp, rest) \<Longrightarrow> length rest \<le> length bs"
  "get_sequence_2 b bs = Inr (cp, rest) \<Longrightarrow> length rest \<le> length bs"
  "get_sequence_3 b bs = Inr (cp, rest) \<Longrightarrow> length rest \<le> length bs"
  "get_sequence_4 b bs = Inr (cp, rest) \<Longrightarrow> length rest \<le> length bs"
  by (auto simp: get_sequence_defs dest!: increase_safely_shorter)

lemma validate_next_Inr:
  assumes "validate_next b bs = Inr (cp, rest)"
  shows "is_code_point_valid cp" "\<not> is_overlong_sequence cp (sequence_length b)"
    "sequence_length b = 1 \<and> get_sequence_1 b bs = Inr (cp, rest) \<or> sequence_length b = 2 \<and> get_sequence_2 b bs = Inr (cp, rest) \<or>
     sequence_length b = 3 \<and> get_sequence_3 b bs = Inr (cp, rest) \<or> sequence_length b = 4 \<and> get_sequence_4 b bs = Inr (cp, rest)"
proof -
  have len: "sequence_length b \<in> {0, 1, 2, 3, 4}" by (simp add: sequence_length_def Let_def)
  from assms show "is_code_point_valid cp" "\<not> is_overlong_sequence cp (sequence_length b)"
    unfolding validate_next_def Let_def by (auto split: if_splits)
  from assms len show "sequence_length b = 1 \<and> get_sequence_1 b bs = Inr (cp, rest) \<or> sequence_length b = 2 \<and> get_sequence_2 b bs = Inr (cp, rest) \<or>
     sequence_length b = 3 \<and> get_sequence_3 b bs = Inr (cp, rest) \<or> sequence_length b = 4 \<and> get_sequence_4 b bs = Inr (cp, rest)"
    unfolding validate_next_def Let_def by (auto split: if_splits)
qed

lemma validate_next_shorter: "validate_next b bs = Inr (cp, rest) \<Longrightarrow> length rest < Suc (length bs)"
  using validate_next_Inr(3) get_sequence_shorter by (metis le_imp_less_Suc)

text \<open>\<open>find_invalid\<close> returns the rest of the text from the first malformed sequence on.\<close>

function find_invalid :: "nat list \<Rightarrow> nat list" where
  "find_invalid [] = []"
| "find_invalid (b # bs) = (case validate_next b bs of Inl _ \<Rightarrow> b # bs | Inr (_, rest) \<Rightarrow> find_invalid rest)"
  by pat_completeness auto
termination
  by (relation "measure length") (auto dest: validate_next_shorter)

definition is_valid :: "nat list \<Rightarrow> bool" where
  "is_valid bs \<longleftrightarrow> find_invalid bs = []"

definition is_utf8 :: "string \<Rightarrow> bool" where
  "is_utf8 str = is_valid (map of_char str)"

section \<open>Encoding\<close>

definition utf8_octets :: "nat \<Rightarrow> nat list" where
  "utf8_octets cp =
     (if cp < 0x80 then [cp]
      else if cp < 0x800 then [cp div 64 + 0xc0, cp mod 64 + 0x80]
      else if cp < 0x10000 then [cp div 4096 + 0xe0, cp div 64 mod 64 + 0x80, cp mod 64 + 0x80]
      else [cp div 262144 + 0xf0, cp div 4096 mod 64 + 0x80, cp div 64 mod 64 + 0x80, cp mod 64 + 0x80])"

definition utf8_append :: "nat \<Rightarrow> nat list \<Rightarrow> nat list result" where
  "utf8_append cp result = (if \<not> is_code_point_valid cp then Inl Invalid_Code_Point else Inr (result @ utf8_octets cp))"

section \<open>The check accepts exactly the encodings\<close>

lemma div_interval: "0 < k \<Longrightarrow> (n :: nat) div k = m \<longleftrightarrow> m * k \<le> n \<and> n < Suc m * k"
  using less_eq_div_iff_mult_less_eq [of k m n] div_less_iff_less_mult [of k n "Suc m"] by linarith

lemma trail_iff: "b < 256 \<Longrightarrow> is_trail b \<longleftrightarrow> 128 \<le> b \<and> b < 192"
  by (simp add: is_trail_def div_interval)

lemma sequence_length_eq:
  "b < 256 \<Longrightarrow> sequence_length b = (if b < 128 then 1 else if 192 \<le> b \<and> b < 224 then 2
    else if 224 \<le> b \<and> b < 240 then 3 else if 240 \<le> b \<and> b < 248 then 4 else 0)"
  by (simp add: sequence_length_def Let_def div_interval)

lemma mod_shift:
  assumes "a * k \<le> n" "n < a * k + a"
  shows "n mod a = n - a * (k :: nat)"
proof -
  obtain r where r: "n = a * k + r" using assms(1) le_Suc_ex by blast
  with assms(2) show ?thesis by simp
qed

lemma octet_masks:
  "x < 64 \<Longrightarrow> (x + 128) mod 64 = x" "x < 64 \<Longrightarrow> ((x + 128) * 64) mod 4096 = x * 64"
  "x < 64 \<Longrightarrow> ((x + 128) * 4096) mod 262144 = x * 4096"
  "x < 32 \<Longrightarrow> ((x + 192) * 64) mod 2048 = x * 64" "x < 16 \<Longrightarrow> ((x + 224) * 4096) mod 65536 = x * 4096"
  "x < 8 \<Longrightarrow> ((x + 240) * 262144) mod 2097152 = x * (262144 :: nat)"
  using mod_shift [of 64 2 "x + 128"] mod_shift [of 4096 2 "(x + 128) * 64"] mod_shift [of 262144 2 "(x + 128) * 4096"]
    mod_shift [of 2048 6 "(x + 192) * 64"] mod_shift [of 65536 14 "(x + 224) * 4096"]
    mod_shift [of 2097152 30 "(x + 240) * 262144"] by simp_all

lemma octet_small:
  "x < 64 \<Longrightarrow> is_trail (x + 128)" "x < 64 \<Longrightarrow> (x + 128) mod 256 = x + 128" "x < 32 \<Longrightarrow> (x + 192) mod 256 = x + 192"
  "x < 16 \<Longrightarrow> (x + 224) mod 256 = x + 224" "x < 8 \<Longrightarrow> (x + 240) mod 256 = x + (240 :: nat)"
  by (simp_all add: trail_iff)

lemma get_sequence_octets:
  "x < 32 \<Longrightarrow> y < 64 \<Longrightarrow> get_sequence_2 (x + 192) ((y + 128) # rest) = Inr (x * 64 + y, rest)"
  "x < 16 \<Longrightarrow> y < 64 \<Longrightarrow> z < 64 \<Longrightarrow>
     get_sequence_3 (x + 224) ((y + 128) # (z + 128) # rest) = Inr (x * 4096 + y * 64 + z, rest)"
  "x < 8 \<Longrightarrow> y < 64 \<Longrightarrow> z < 64 \<Longrightarrow> w < 64 \<Longrightarrow>
     get_sequence_4 (x + 240) ((y + 128) # (z + 128) # (w + 128) # rest) = Inr (x * 262144 + y * 4096 + z * 64 + w, rest)"
  by (simp_all only: get_sequence_defs utf_bind_def increase_safely.simps octet_masks octet_small if_True
      sum.case prod.case order_refl)

lemma octets_of_digits:
  "y < 64 \<Longrightarrow> 0x80 \<le> x * 64 + y \<Longrightarrow> x * 64 + y < 0x800 \<Longrightarrow> utf8_octets (x * 64 + y) = [x + 192, y + 128]"
  "y < 64 \<Longrightarrow> z < 64 \<Longrightarrow> 0x800 \<le> x * 4096 + y * 64 + z \<Longrightarrow> x * 4096 + y * 64 + z < 0x10000 \<Longrightarrow>
     utf8_octets (x * 4096 + y * 64 + z) = [x + 224, y + 128, z + 128]"
  "y < 64 \<Longrightarrow> z < 64 \<Longrightarrow> w < 64 \<Longrightarrow> 0x10000 \<le> x * 262144 + y * 4096 + z * 64 + w \<Longrightarrow>
     utf8_octets (x * 262144 + y * 4096 + z * 64 + w) = [x + 240, y + 128, z + 128, w + 128]"
proof -
  show "utf8_octets (x * 64 + y) = [x + 192, y + 128]" if "y < 64" "0x80 \<le> x * 64 + y" "x * 64 + y < 0x800"
    using that by (simp add: utf8_octets_def)
next
  assume a: "y < 64" "z < 64" "0x800 \<le> x * 4096 + y * 64 + z" "x * 4096 + y * 64 + z < 0x10000"
  have d: "(x * 4096 + y * 64 + z) div 64 = x * 64 + y" "(x * 4096 + y * 64 + z) div 4096 = x" "(x * 4096 + y * 64 + z) mod 64 = z"
    using a by (simp_all add: div_interval mod_shift [of 64 "x * 64 + y"])
  show "utf8_octets (x * 4096 + y * 64 + z) = [x + 224, y + 128, z + 128]"
    unfolding utf8_octets_def d using a by simp
next
  assume a: "y < 64" "z < 64" "w < 64" "0x10000 \<le> x * 262144 + y * 4096 + z * 64 + w"
  let ?n = "x * 262144 + y * 4096 + z * 64 + w"
  have d: "?n div 64 = x * 4096 + y * 64 + z" "?n div 4096 = x * 64 + y" "?n div 262144 = x" "?n mod 64 = w"
    using a by (simp_all add: div_interval mod_shift [of 64 "x * 4096 + y * 64 + z"])
  have e: "(x * 4096 + y * 64 + z) mod 64 = z"
    using a by (simp add: mod_shift [of 64 "x * 64 + y"])
  show "utf8_octets ?n = [x + 240, y + 128, z + 128, w + 128]"
    unfolding utf8_octets_def d e using a by simp
qed

text \<open>The digits in base 64 of a code point that needs two, three or four octets.\<close>

lemma code_point_digits:
  fixes cp :: nat
  assumes "cp \<le> 0x10ffff"
  obtains (one) "cp < 0x80"
  | (two) x y where "0x80 \<le> cp" "cp < 0x800" "x < 32" "y < 64" "cp = x * 64 + y"
  | (three) x y z where "0x800 \<le> cp" "cp < 0x10000" "x < 16" "y < 64" "z < 64" "cp = x * 4096 + y * 64 + z"
  | (four) x y z w where "0x10000 \<le> cp" "x < 8" "y < 64" "z < 64" "w < 64" "cp = x * 262144 + y * 4096 + z * 64 + w"
proof -
  have d1: "cp = cp div 64 * 64 + cp mod 64" by simp
  have d2: "cp div 64 = cp div 64 div 64 * 64 + cp div 64 mod 64" by simp
  have d3: "cp div 64 div 64 = cp div 64 div 64 div 64 * 64 + cp div 64 div 64 mod 64" by simp
  have m: "cp mod 64 < 64" "cp div 64 mod 64 < 64" "cp div 64 div 64 mod 64 < 64" by simp_all
  consider "cp < 0x80" | "0x80 \<le> cp" "cp < 0x800" | "0x800 \<le> cp" "cp < 0x10000" | "0x10000 \<le> cp" by linarith
  then show ?thesis
  proof cases
    case 1 then show ?thesis by (rule one)
  next
    case 2 show ?thesis by (rule two [of "cp div 64" "cp mod 64"]) (use 2 d1 m in \<open>linarith+\<close>)
  next
    case 3 show ?thesis
      by (rule three [of "cp div 64 div 64" "cp div 64 mod 64" "cp mod 64"]) (use 3 d1 d2 m in \<open>linarith+\<close>)
  next
    case 4 show ?thesis
      by (rule four [of "cp div 64 div 64 div 64" "cp div 64 div 64 mod 64" "cp div 64 mod 64" "cp mod 64"])
        (use 4 assms d1 d2 d3 m in \<open>linarith+\<close>)
  qed
qed

lemma validate_next_octets:
  assumes "is_code_point_valid cp"
  shows "\<exists>b bs. utf8_octets cp @ rest = b # bs \<and> validate_next b bs = Inr (cp, rest)"
proof -
  have cp: "cp \<le> 0x10ffff" using assms by (simp add: is_code_point_valid_def)
  then show ?thesis
  proof (cases rule: code_point_digits)
    case one
    then show ?thesis using assms
      by (simp add: utf8_octets_def validate_next_def sequence_length_eq get_sequence_1_def utf_bind_def is_overlong_sequence_def)
  next
    case (two x y)
    have "utf8_octets cp = [x + 192, y + 128]" using two octets_of_digits(1) [of y x] by simp
    moreover have "validate_next (x + 192) ((y + 128) # rest) = Inr (cp, rest)"
      using two assms get_sequence_octets(1) [of x y rest]
      by (simp add: validate_next_def sequence_length_eq utf_bind_def is_overlong_sequence_def)
    ultimately show ?thesis by simp
  next
    case (three x y z)
    have "utf8_octets cp = [x + 224, y + 128, z + 128]" using three octets_of_digits(2) [of y z x] by simp
    moreover have "validate_next (x + 224) ((y + 128) # (z + 128) # rest) = Inr (cp, rest)"
      using three assms get_sequence_octets(2) [of x y z rest]
      by (simp add: validate_next_def sequence_length_eq utf_bind_def is_overlong_sequence_def)
    ultimately show ?thesis by simp
  next
    case (four x y z w)
    have "utf8_octets cp = [x + 240, y + 128, z + 128, w + 128]" using four octets_of_digits(3) [of y z w x] by simp
    moreover have "validate_next (x + 240) ((y + 128) # (z + 128) # (w + 128) # rest) = Inr (cp, rest)"
      using four assms get_sequence_octets(3) [of x y z w rest]
      by (simp add: validate_next_def sequence_length_eq utf_bind_def is_overlong_sequence_def)
    ultimately show ?thesis by simp
  qed
qed

lemma trail_octet: "increase_safely bs = Inr (b, rest) \<Longrightarrow> \<forall>c \<in> set bs. c < 256 \<Longrightarrow> \<exists>y < 64. b = y + 128 \<and> bs = (y + 128) # rest"
  using increase_safely_shorter [of bs b rest] trail_iff [of b] by (auto intro!: exI [of _ "b - 128"])

lemma validate_next_encoded:
  assumes v: "validate_next b bs = Inr (cp, rest)" and oct: "b < 256" "\<forall>c \<in> set bs. c < 256"
  shows "b # bs = utf8_octets cp @ rest"
proof -
  have ok: "\<not> is_overlong_sequence cp (sequence_length b)" using validate_next_Inr [OF v] by simp
  have len: "sequence_length b = (if b < 128 then 1 else if 192 \<le> b \<and> b < 224 then 2
    else if 224 \<le> b \<and> b < 240 then 3 else if 240 \<le> b \<and> b < 248 then 4 else 0)" by (rule sequence_length_eq [OF oct(1)])
  from validate_next_Inr(3) [OF v] consider
      "sequence_length b = 1" "get_sequence_1 b bs = Inr (cp, rest)" | "sequence_length b = 2" "get_sequence_2 b bs = Inr (cp, rest)"
    | "sequence_length b = 3" "get_sequence_3 b bs = Inr (cp, rest)" | "sequence_length b = 4" "get_sequence_4 b bs = Inr (cp, rest)"
    by blast
  then show ?thesis
  proof cases
    case 1
    have "b < 128" using 1(1) unfolding len by (simp split: if_splits)
    with 1(2) show ?thesis by (simp add: get_sequence_1_def utf8_octets_def)
  next
    case 2
    have "192 \<le> b" "b < 224" using 2(1) len by (simp_all split: if_splits)
    then obtain x where x: "b = x + 192" "x < 32" using that [of "b - 192"] by simp
    from 2(2) obtain c where "increase_safely bs = Inr (c, rest)" by (auto simp: get_sequence_2_def)
    from trail_octet [OF this oct(2)] obtain y where y: "y < 64" "bs = (y + 128) # rest" by blast
    with 2(2) x have cp: "cp = x * 64 + y" using get_sequence_octets(1) [of x y rest] by simp
    have "cp < 0x800" using cp x y by linarith
    moreover have "0x80 \<le> cp" using ok 2(1) by (simp add: is_overlong_sequence_def split: if_splits)
    ultimately show ?thesis using octets_of_digits(1) [of y x] x y cp by simp
  next
    case 3
    have "224 \<le> b" "b < 240" using 3(1) len by (simp_all split: if_splits)
    then obtain x where x: "b = x + 224" "x < 16" using that [of "b - 224"] by simp
    from 3(2) obtain c bs1 d where s: "increase_safely bs = Inr (c, bs1)" "increase_safely bs1 = Inr (d, rest)"
      by (auto simp: get_sequence_3_def)
    from trail_octet [OF s(1) oct(2)] obtain y where y: "y < 64" "bs = (y + 128) # bs1" by blast
    then have "\<forall>c \<in> set bs1. c < 256" using oct(2) by simp
    from trail_octet [OF s(2) this] obtain z where z: "z < 64" "bs1 = (z + 128) # rest" by blast
    with 3(2) x y have cp: "cp = x * 4096 + y * 64 + z" using get_sequence_octets(2) [of x y z rest] by simp
    have "cp < 0x10000" using cp x y z by linarith
    moreover have "0x800 \<le> cp" using ok 3(1) by (simp add: is_overlong_sequence_def split: if_splits)
    ultimately show ?thesis using octets_of_digits(2) [of y z x] x y z cp by simp
  next
    case 4
    have "240 \<le> b" "b < 248" using 4(1) len by (simp_all split: if_splits)
    then obtain x where x: "b = x + 240" "x < 8" using that [of "b - 240"] by simp
    from 4(2) obtain c bs1 d bs2 e where s: "increase_safely bs = Inr (c, bs1)" "increase_safely bs1 = Inr (d, bs2)"
      "increase_safely bs2 = Inr (e, rest)" by (auto simp: get_sequence_4_def)
    from trail_octet [OF s(1) oct(2)] obtain y where y: "y < 64" "bs = (y + 128) # bs1" by blast
    then have o1: "\<forall>c \<in> set bs1. c < 256" using oct(2) by simp
    from trail_octet [OF s(2) this] obtain z where z: "z < 64" "bs1 = (z + 128) # bs2" by blast
    then have "\<forall>c \<in> set bs2. c < 256" using o1 by simp
    from trail_octet [OF s(3) this] obtain w where w: "w < 64" "bs2 = (w + 128) # rest" by blast
    with 4(2) x y z have cp: "cp = x * 262144 + y * 4096 + z * 64 + w" using get_sequence_octets(3) [of x y z w rest] by simp
    have "0x10000 \<le> cp" using ok 4(1) by (simp add: is_overlong_sequence_def split: if_splits)
    then show ?thesis using octets_of_digits(3) [of y z w x] x y z w cp by simp
  qed
qed

lemma octets_nonempty: "utf8_octets cp \<noteq> []"
  by (simp add: utf8_octets_def)

lemma is_valid_encoding: "\<forall>cp \<in> set cps. is_code_point_valid cp \<Longrightarrow> is_valid (concat (map utf8_octets cps))"
proof (induction cps)
  case (Cons cp cps)
  then obtain b bs where "utf8_octets cp @ concat (map utf8_octets cps) = b # bs"
    "validate_next b bs = Inr (cp, concat (map utf8_octets cps))"
    using validate_next_octets [of cp "concat (map utf8_octets cps)"] by auto
  with Cons show ?case by (simp add: is_valid_def)
qed (simp add: is_valid_def)

lemma is_valid_decoding:
  "is_valid bs \<Longrightarrow> \<forall>b \<in> set bs. b < 256 \<Longrightarrow> \<exists>cps. (\<forall>cp \<in> set cps. is_code_point_valid cp) \<and> bs = concat (map utf8_octets cps)"
  unfolding is_valid_def
proof (induction bs rule: find_invalid.induct)
  case 1
  show ?case by (rule exI [of _ "[]"]) simp
next
  case (2 b bs)
  from 2(2) obtain cp rest where v: "validate_next b bs = Inr (cp, rest)" and r: "find_invalid rest = []"
    by (auto split: sum.splits prod.splits)
  have e: "b # bs = utf8_octets cp @ rest" by (rule validate_next_encoded [OF v]) (use 2(3) in auto)
  have "\<forall>c \<in> set rest. c < 256" using 2(3) by (auto simp: e)
  with 2(1) [OF v] r obtain cps where "\<forall>cp \<in> set cps. is_code_point_valid cp" "rest = concat (map utf8_octets cps)" by auto
  with e validate_next_Inr(1) [OF v] show ?case by (intro exI [of _ "cp # cps"]) auto
qed

text \<open>
  C37: A text passes \<open>is_utf8\<close> exactly when its octets are the encodings, one after the other, of code
  points of the Unicode range that are no surrogates.
\<close>

theorem is_utf8_iff_encoding:
  "is_utf8 s \<longleftrightarrow> (\<exists>cps. list_all is_code_point_valid cps \<and> map of_char s = concat (map utf8_octets cps))"
proof -
  have "\<forall>b \<in> set (map of_char s :: nat list). b < 256" by (auto simp: of_char_def intro!: horner_sum_of_bool_2_less [THEN order_less_le_trans])
  then show ?thesis
    using is_valid_encoding is_valid_decoding [of "map of_char s"] by (auto simp: is_utf8_def list_all_iff)
qed

end
