(* ===== verification/Asset_Symbol.thy ===== *)
theory Asset_Symbol
  imports Delta_Prelude
begin

unbundle bit_operations_syntax

text \<open>
  Asset symbols (\<open>protocol/asset_symbol.hpp\<close>, \<open>protocol/asset.cpp\<close>): the 32-bit asset number, its
  numerical asset identifier (NAI) with the Damm check digit, the \<open>@@ddddddddd\<close> text form and the
  binary serialization. The three core tokens live in the "legacy" space, every other number in
  the NAI space.
\<close>

section \<open>Constants\<close>

abbreviation (input) SMT_MAX_NAI :: nat where "SMT_MAX_NAI \<equiv> 99999999"
abbreviation (input) SMT_MIN_NAI :: nat where "SMT_MIN_NAI \<equiv> 1"
abbreviation (input) SMT_MIN_NON_RESERVED_NAI :: nat where "SMT_MIN_NON_RESERVED_NAI \<equiv> 10000000"
abbreviation (input) DELTA_PRECISION_DBD :: nat where "DELTA_PRECISION_DBD \<equiv> 3"
abbreviation (input) DELTA_PRECISION_DELTA :: nat where "DELTA_PRECISION_DELTA \<equiv> 3"
abbreviation (input) DELTA_PRECISION_VESTS :: nat where "DELTA_PRECISION_VESTS \<equiv> 6"
abbreviation (input) DELTA_NAI_DBD :: nat where "DELTA_NAI_DBD \<equiv> 1"
abbreviation (input) DELTA_NAI_DELTA :: nat where "DELTA_NAI_DELTA \<equiv> 2"
abbreviation (input) DELTA_NAI_VESTS :: nat where "DELTA_NAI_VESTS \<equiv> 3"
abbreviation (input) DELTA_ASSET_MAX_DECIMALS :: nat where "DELTA_ASSET_MAX_DECIMALS \<equiv> 12"

type_synonym asset_symbol_type = "32 word"

definition DELTA_ASSET_NUM_DBD :: asset_symbol_type where
  "DELTA_ASSET_NUM_DBD = push_bit 4 (of_nat (SMT_MAX_NAI + DELTA_NAI_DBD)) OR of_nat DELTA_PRECISION_DBD"

definition DELTA_ASSET_NUM_DELTA :: asset_symbol_type where
  "DELTA_ASSET_NUM_DELTA = push_bit 4 (of_nat (SMT_MAX_NAI + DELTA_NAI_DELTA)) OR of_nat DELTA_PRECISION_DELTA"

definition DELTA_ASSET_NUM_VESTS :: asset_symbol_type where
  "DELTA_ASSET_NUM_VESTS = push_bit 4 (of_nat (SMT_MAX_NAI + DELTA_NAI_VESTS)) OR of_nat DELTA_PRECISION_VESTS"

abbreviation DELTA_SYMBOL :: asset_symbol_type where "DELTA_SYMBOL \<equiv> DELTA_ASSET_NUM_DELTA"
abbreviation DBD_SYMBOL :: asset_symbol_type where "DBD_SYMBOL \<equiv> DELTA_ASSET_NUM_DBD"
abbreviation VESTS_SYMBOL :: asset_symbol_type where "VESTS_SYMBOL \<equiv> DELTA_ASSET_NUM_VESTS"

section \<open>The Damm check digit\<close>

definition damm_table :: "nat list" where
  "damm_table =
    [ 0, 30, 10, 70, 50, 90, 80, 60, 40, 20,
     70,  0, 90, 20, 10, 50, 40, 80, 60, 30,
     40, 20,  0, 60, 80, 70, 10, 30, 50, 90,
     10, 70, 50,  0, 90, 80, 30, 40, 20, 60,
     60, 10, 20, 30,  0, 40, 50, 90, 70, 80,
     30, 60, 70, 40, 20,  0, 90, 50, 80, 10,
     50, 80, 60, 90, 70, 20,  0, 10, 30, 40,
     80, 90, 40, 50, 30, 60, 20,  0, 10, 70,
     90, 40, 30, 80, 60, 10, 70, 20,  0, 50,
     20, 50, 80, 10, 40, 30, 60, 70, 90, 0]"

definition damm_checksum_8digit :: "nat \<Rightarrow> nat result" where
  "damm_checksum_8digit value =
     fc_assert (value < 100000000)
       (let t = (\<lambda>i. damm_table ! i);
            q0 = value div 10; d0 = value mod 10;
            q1 = q0 div 10; d1 = q0 mod 10;
            q2 = q1 div 10; d2 = q1 mod 10;
            q3 = q2 div 10; d3 = q2 mod 10;
            q4 = q3 div 10; d4 = q3 mod 10;
            q5 = q4 div 10; d5 = q4 mod 10;
            d6 = q5 mod 10; d7 = q5 div 10;
            x = t d7; x = t (x + d6); x = t (x + d5); x = t (x + d4); x = t (x + d3);
            x = t (x + d2); x = t (x + d1); x = t (x + d0)
        in Inr (x div 10))"

section \<open>Symbols\<close>

datatype asset_symbol_space = legacy_space | smt_nai_space

definition space :: "asset_symbol_type \<Rightarrow> asset_symbol_space" where
  "space s = (if s = DELTA_ASSET_NUM_DELTA \<or> s = DELTA_ASSET_NUM_DBD \<or> s = DELTA_ASSET_NUM_VESTS
     then legacy_space else smt_nai_space)"

definition decimals :: "asset_symbol_type \<Rightarrow> nat" where
  "decimals s = unat (s AND 0x0F)"

definition get_stripped_precision_smt_num :: "asset_symbol_type \<Rightarrow> asset_symbol_type" where
  "get_stripped_precision_smt_num s = s AND NOT 0xF"

definition symbol_validate :: "asset_symbol_type \<Rightarrow> unit result" where
  "symbol_validate s =
     (if s = DELTA_ASSET_NUM_DELTA \<or> s = DELTA_ASSET_NUM_DBD \<or> s = DELTA_ASSET_NUM_VESTS then Inr ()
      else
        let nai_data_digits = unat (drop_bit 5 s);
            nai_1bit = s AND 0x10;
            nai_decimal_places = unat (s AND 0x0F)
        in fc_assert (nai_data_digits \<ge> SMT_MIN_NAI \<and> nai_data_digits \<le> SMT_MAX_NAI \<and>
                      nai_1bit = 0x10 \<and> nai_decimal_places \<le> DELTA_ASSET_MAX_DECIMALS)
             (Inr ()))"

definition asset_num_from_nai :: "nat \<Rightarrow> nat \<Rightarrow> asset_symbol_type result" where
  "asset_num_from_nai nai decimal_places =
     (let nai_check_digit = nai mod 10;
          nai_data_digits = nai div 10
      in fc_assert (nai_data_digits \<ge> SMT_MIN_NAI \<and> nai_data_digits \<le> SMT_MAX_NAI)
         (res_bind (damm_checksum_8digit nai_data_digits) (\<lambda>check.
          fc_assert (nai_check_digit = check)
            (if nai_data_digits = DELTA_NAI_DELTA then
               fc_assert (decimal_places = DELTA_PRECISION_DELTA) (Inr DELTA_ASSET_NUM_DELTA)
             else if nai_data_digits = DELTA_NAI_DBD then
               fc_assert (decimal_places = DELTA_PRECISION_DBD) (Inr DELTA_ASSET_NUM_DBD)
             else if nai_data_digits = DELTA_NAI_VESTS then
               fc_assert (decimal_places = DELTA_PRECISION_VESTS) (Inr DELTA_ASSET_NUM_VESTS)
             else
               fc_assert (decimal_places \<le> DELTA_ASSET_MAX_DECIMALS)
                 (Inr (push_bit 5 (of_nat nai_data_digits) OR 0x10 OR of_nat decimal_places))))))"

definition to_nai :: "asset_symbol_type \<Rightarrow> nat result" where
  "to_nai s =
     (let nai_data_digits =
            (if s = DELTA_ASSET_NUM_DELTA then DELTA_NAI_DELTA
             else if s = DELTA_ASSET_NUM_DBD then DELTA_NAI_DBD
             else if s = DELTA_ASSET_NUM_VESTS then DELTA_NAI_VESTS
             else unat (drop_bit 5 s))
      in res_bind (damm_checksum_8digit nai_data_digits) (\<lambda>nai_check_digit.
         Inr (nai_data_digits * 10 + nai_check_digit)))"

definition is_vesting :: "asset_symbol_type \<Rightarrow> bool" where
  "is_vesting s =
     (case space s of
        legacy_space \<Rightarrow> s = DELTA_ASSET_NUM_VESTS
      | smt_nai_space \<Rightarrow> s AND 0x20 \<noteq> 0)"

definition get_paired_symbol :: "asset_symbol_type \<Rightarrow> asset_symbol_type" where
  "get_paired_symbol s =
     (case space s of
        legacy_space \<Rightarrow>
          (if s = DELTA_ASSET_NUM_DELTA then DELTA_ASSET_NUM_VESTS
           else if s = DELTA_ASSET_NUM_DBD then s
           else DELTA_ASSET_NUM_DELTA)
      | smt_nai_space \<Rightarrow> s XOR 0x20)"

section \<open>Text form\<close>

definition digit_char :: "nat \<Rightarrow> char" where
  "digit_char d = char_of (d + 48)"

text \<open>\<open>buf\<close> is filled from its last digit to its first; the terminating NUL is left out.\<close>

definition to_nai_string :: "asset_symbol_type \<Rightarrow> string result" where
  "to_nai_string s =
     res_bind (to_nai s) (\<lambda>x.
       let c10 = digit_char (x mod 10); x = x div 10;
           c9 = digit_char (x mod 10); x = x div 10;
           c8 = digit_char (x mod 10); x = x div 10;
           c7 = digit_char (x mod 10); x = x div 10;
           c6 = digit_char (x mod 10); x = x div 10;
           c5 = digit_char (x mod 10); x = x div 10;
           c4 = digit_char (x mod 10); x = x div 10;
           c3 = digit_char (x mod 10); x = x div 10;
           c2 = digit_char x
       in Inr [CHR ''@'', CHR ''@'', c2, c3, c4, c5, c6, c7, c8, c9, c10])"

definition is_space :: "char \<Rightarrow> bool" where
  "is_space c \<longleftrightarrow> c \<in> {CHR '' '', CHR 0x09, CHR 0x0A, CHR 0x0D}"

definition is_digit :: "char \<Rightarrow> bool" where
  "is_digit c \<longleftrightarrow> 48 \<le> (of_char c :: nat) \<and> (of_char c :: nat) \<le> 57"

text \<open>
  The digit loop of \<open>from_nai_string\<close>: it returns the accumulated number, the digit count and
  the unread rest. The end of the list stands for the terminating NUL.
\<close>

fun parse_nai_digits :: "string \<Rightarrow> nat \<Rightarrow> nat \<Rightarrow> (nat \<times> nat \<times> string) result" where
  "parse_nai_digits [] nai digit_count = Inr (nai, digit_count, [])"
| "parse_nai_digits (c # p) nai digit_count =
     (if is_digit c then
        let new_nai = nai * 10 + (of_char c - 48)
        in fc_assert (new_nai \<ge> nai) (fc_assert (new_nai \<le> SMT_MAX_NAI)
             (parse_nai_digits p new_nai (digit_count + 1)))
      else Inr (nai, digit_count, c # p))"

definition at_end :: "string \<Rightarrow> bool" where
  "at_end p = (case p of [] \<Rightarrow> True | c # _ \<Rightarrow> c = CHR 0x00)"

definition from_nai_string :: "string \<Rightarrow> nat \<Rightarrow> asset_symbol_type result" where
  "from_nai_string p decimal_places =
     (case dropWhile is_space p of
        CHR ''@'' # p1 \<Rightarrow>
          (case p1 of
             CHR ''@'' # p2 \<Rightarrow>
               res_bind (parse_nai_digits p2 0 0) (\<lambda>(nai, digit_count, p3).
               fc_assert (digit_count = 9)
                 (res_bind (asset_num_from_nai nai decimal_places) (\<lambda>asset_num.
                  fc_assert (at_end (dropWhile is_space p3)) (Inr asset_num))))
           | _ \<Rightarrow> Inl Assert_Exception)
      | _ \<Rightarrow> Inl Assert_Exception)"

section \<open>Binary serialization\<close>

text \<open>
  The serialized forms of the core symbols on the live network: a precision byte followed by
  the letters of the name, little endian, in eight bytes. NAI symbols take four bytes.
\<close>

type_synonym byte = "8 word"

definition VESTS_SYMBOL_SER :: "64 word" where
  "VESTS_SYMBOL_SER = 6 OR push_bit 8 (0x44 OR push_bit 8 0x58)"

definition DELTA_SYMBOL_SER :: "64 word" where
  "DELTA_SYMBOL_SER =
     3 OR push_bit 8 (0x44 OR push_bit 8 0x45 OR push_bit 16 0x4C OR push_bit 24 0x54 OR push_bit 32 0x41)"

definition DBD_SYMBOL_SER :: "64 word" where
  "DBD_SYMBOL_SER = 3 OR push_bit 8 (0x44 OR push_bit 8 0x42 OR push_bit 16 0x44)"

definition pack_uint32 :: "32 word \<Rightarrow> byte list" where
  "pack_uint32 w = map (\<lambda>i. ucast (drop_bit (8 * i) w)) [0, 1, 2, 3]"

definition pack_uint64 :: "64 word \<Rightarrow> byte list" where
  "pack_uint64 w = map (\<lambda>i. ucast (drop_bit (8 * i) w)) [0, 1, 2, 3, 4, 5, 6, 7]"

fun le_bytes :: "byte list \<Rightarrow> 64 word" where
  "le_bytes [] = 0"
| "le_bytes (b # bs) = ucast b OR push_bit 8 (le_bytes bs)"

definition pack_symbol :: "asset_symbol_type \<Rightarrow> byte list" where
  "pack_symbol s =
     (case space s of
        legacy_space \<Rightarrow>
          pack_uint64
            (if s = DELTA_ASSET_NUM_DELTA then DELTA_SYMBOL_SER
             else if s = DELTA_ASSET_NUM_DBD then DBD_SYMBOL_SER
             else VESTS_SYMBOL_SER)
      | smt_nai_space \<Rightarrow> pack_uint32 s)"

text \<open>\<open>s.read\<close> of \<open>n\<close> bytes throws when fewer are left.\<close>

definition read_bytes :: "nat \<Rightarrow> byte list \<Rightarrow> (byte list \<times> byte list) result" where
  "read_bytes n bs = (if n \<le> length bs then Inr (take n bs, drop n bs) else Inl Out_Of_Range)"

definition unpack_symbol :: "byte list \<Rightarrow> (asset_symbol_type \<times> byte list) result" where
  "unpack_symbol bs =
     res_bind (read_bytes 4 bs) (\<lambda>(b4, rest).
       let ser = le_bytes b4;
           legacy = (\<lambda>full sym.
             res_bind (read_bytes 4 rest) (\<lambda>(b8, rest').
             fc_assert (ser OR push_bit 32 (le_bytes b8) = full)
               (res_bind (symbol_validate sym) (\<lambda>_. Inr (sym, rest')))))
       in if ser = DELTA_SYMBOL_SER AND 0xFFFFFFFF then legacy DELTA_SYMBOL_SER DELTA_ASSET_NUM_DELTA
          else if ser = DBD_SYMBOL_SER AND 0xFFFFFFFF then legacy DBD_SYMBOL_SER DELTA_ASSET_NUM_DBD
          else if ser = VESTS_SYMBOL_SER AND 0xFFFFFFFF then legacy VESTS_SYMBOL_SER DELTA_ASSET_NUM_VESTS
          else res_bind (symbol_validate (ucast ser)) (\<lambda>_. Inr (ucast ser, rest)))"

section \<open>The check digit as a quasigroup fold\<close>

text \<open>
  The table of \<open>damm_checksum_8digit\<close> holds ten times the Damm quasigroup operation, which is
  totally anti-symmetric; the check digit is the fold of the operation over the decimal digits.
\<close>

definition damm_op :: "nat \<Rightarrow> nat \<Rightarrow> nat" where
  "damm_op x d = damm_table ! (10 * x + d) div 10"

lemma damm_vals:
  "damm_op 0 0 = 0" "damm_op 0 1 = 3" "damm_op 0 2 = 1" "damm_op 0 3 = 7" "damm_op 0 4 = 5" "damm_op 0 5 = 9" "damm_op 0 6 = 8" "damm_op 0 7 = 6" "damm_op 0 8 = 4" "damm_op 0 9 = 2"
  "damm_op 1 0 = 7" "damm_op 1 1 = 0" "damm_op 1 2 = 9" "damm_op 1 3 = 2" "damm_op 1 4 = 1" "damm_op 1 5 = 5" "damm_op 1 6 = 4" "damm_op 1 7 = 8" "damm_op 1 8 = 6" "damm_op 1 9 = 3"
  "damm_op 2 0 = 4" "damm_op 2 1 = 2" "damm_op 2 2 = 0" "damm_op 2 3 = 6" "damm_op 2 4 = 8" "damm_op 2 5 = 7" "damm_op 2 6 = 1" "damm_op 2 7 = 3" "damm_op 2 8 = 5" "damm_op 2 9 = 9"
  "damm_op 3 0 = 1" "damm_op 3 1 = 7" "damm_op 3 2 = 5" "damm_op 3 3 = 0" "damm_op 3 4 = 9" "damm_op 3 5 = 8" "damm_op 3 6 = 3" "damm_op 3 7 = 4" "damm_op 3 8 = 2" "damm_op 3 9 = 6"
  "damm_op 4 0 = 6" "damm_op 4 1 = 1" "damm_op 4 2 = 2" "damm_op 4 3 = 3" "damm_op 4 4 = 0" "damm_op 4 5 = 4" "damm_op 4 6 = 5" "damm_op 4 7 = 9" "damm_op 4 8 = 7" "damm_op 4 9 = 8"
  "damm_op 5 0 = 3" "damm_op 5 1 = 6" "damm_op 5 2 = 7" "damm_op 5 3 = 4" "damm_op 5 4 = 2" "damm_op 5 5 = 0" "damm_op 5 6 = 9" "damm_op 5 7 = 5" "damm_op 5 8 = 8" "damm_op 5 9 = 1"
  "damm_op 6 0 = 5" "damm_op 6 1 = 8" "damm_op 6 2 = 6" "damm_op 6 3 = 9" "damm_op 6 4 = 7" "damm_op 6 5 = 2" "damm_op 6 6 = 0" "damm_op 6 7 = 1" "damm_op 6 8 = 3" "damm_op 6 9 = 4"
  "damm_op 7 0 = 8" "damm_op 7 1 = 9" "damm_op 7 2 = 4" "damm_op 7 3 = 5" "damm_op 7 4 = 3" "damm_op 7 5 = 6" "damm_op 7 6 = 2" "damm_op 7 7 = 0" "damm_op 7 8 = 1" "damm_op 7 9 = 7"
  "damm_op 8 0 = 9" "damm_op 8 1 = 4" "damm_op 8 2 = 3" "damm_op 8 3 = 8" "damm_op 8 4 = 6" "damm_op 8 5 = 1" "damm_op 8 6 = 7" "damm_op 8 7 = 2" "damm_op 8 8 = 0" "damm_op 8 9 = 5"
  "damm_op 9 0 = 2" "damm_op 9 1 = 5" "damm_op 9 2 = 8" "damm_op 9 3 = 1" "damm_op 9 4 = 4" "damm_op 9 5 = 3" "damm_op 9 6 = 6" "damm_op 9 7 = 7" "damm_op 9 8 = 9" "damm_op 9 9 = 0"
  by (simp_all add: damm_op_def damm_table_def)

lemma all_digits: "(\<forall>x < (10::nat). P x) \<longleftrightarrow>
    P 0 \<and> P 1 \<and> P 2 \<and> P 3 \<and> P 4 \<and> P 5 \<and> P 6 \<and> P 7 \<and> P 8 \<and> P 9"
  by (auto simp add: numeral_eq_Suc All_less_Suc)

lemma damm_table_eq: "\<forall>x < 10. \<forall>d < 10. damm_table ! (10 * x + d) = 10 * damm_op x d"
  unfolding all_digits by (simp add: damm_op_def damm_table_def)

lemma damm_closed_all: "\<forall>x < 10. \<forall>d < 10. damm_op x d < 10"
  unfolding all_digits by (simp add: damm_vals del: One_nat_def)

lemma damm_row_all: "\<forall>x < 10. \<forall>d < 10. \<forall>e < 10. damm_op x d = damm_op x e \<longrightarrow> d = e"
  unfolding all_digits by (simp add: damm_vals del: One_nat_def)

lemma damm_col_all: "\<forall>d < 10. \<forall>x < 10. \<forall>y < 10. damm_op x d = damm_op y d \<longrightarrow> x = y"
  unfolding all_digits by (simp add: damm_vals del: One_nat_def)

lemma damm_antisym_all:
  "\<forall>c < 10. \<forall>x < 10. \<forall>y < 10. damm_op (damm_op c x) y = damm_op (damm_op c y) x \<longrightarrow> x = y"
  unfolding all_digits by (simp add: damm_vals del: One_nat_def)

lemma damm_diag_all: "\<forall>x < 10. damm_op x x = 0"
  unfolding all_digits by (simp add: damm_vals del: One_nat_def)

fun dec_digits :: "nat \<Rightarrow> nat \<Rightarrow> nat list" where
  "dec_digits 0 v = []"
| "dec_digits (Suc n) v = dec_digits n (v div 10) @ [v mod 10]"

lemma length_dec_digits [simp]: "length (dec_digits n v) = n"
  by (induction n arbitrary: v) auto

lemma dec_digits_less: "d \<in> set (dec_digits n v) \<Longrightarrow> d < 10"
  by (induction n arbitrary: v) auto

lemma dec_digits_inject:
  "v < 10 ^ n \<Longrightarrow> w < 10 ^ n \<Longrightarrow> dec_digits n v = dec_digits n w \<Longrightarrow> v = w"
proof (induction n arbitrary: v w)
  case (Suc n)
  then have "v div 10 < 10 ^ n" "w div 10 < 10 ^ n" by (simp_all add: div_less_iff_less_mult)
  moreover from Suc.prems(3) have "dec_digits n (v div 10) = dec_digits n (w div 10)" "v mod 10 = w mod 10"
    by simp_all
  ultimately have "v div 10 = w div 10" using Suc.IH by blast
  with \<open>v mod 10 = w mod 10\<close> show ?case by (metis mult_div_mod_eq)
qed simp

lemmas damm_rules =
  damm_table_eq [rule_format] damm_closed_all [rule_format] damm_row_all [rule_format]
  damm_col_all [rule_format] damm_antisym_all [rule_format] damm_diag_all [rule_format]

lemma damm_foldl_less: "a < 10 \<Longrightarrow> (\<And>d. d \<in> set ds \<Longrightarrow> d < 10) \<Longrightarrow> foldl damm_op a ds < 10"
  by (induction ds arbitrary: a) (auto simp: damm_rules(2))

lemma damm_foldl_inject:
  "a < 10 \<Longrightarrow> b < 10 \<Longrightarrow> (\<And>d. d \<in> set ds \<Longrightarrow> d < 10) \<Longrightarrow>
     foldl damm_op a ds = foldl damm_op b ds \<Longrightarrow> a = b"
proof (induction ds arbitrary: a b)
  case (Cons d ds)
  then have "damm_op a d = damm_op b d" by (auto intro: Cons.IH simp: damm_rules(2))
  with Cons.prems show ?case by (auto intro: damm_rules(4))
qed simp

lemma damm_chain:
  assumes "d0 < 10" "d1 < 10" "d2 < 10" "d3 < 10" "d4 < 10" "d5 < 10" "d6 < 10" "d7 < 10"
  shows "damm_table ! (damm_table ! (damm_table ! (damm_table ! (damm_table ! (damm_table !
      (damm_table ! (damm_table ! d7 + d6) + d5) + d4) + d3) + d2) + d1) + d0) div 10
    = foldl damm_op 0 [d7, d6, d5, d4, d3, d2, d1, d0]"
proof -
  have first: "damm_table ! d7 = 10 * damm_op 0 d7"
    using damm_rules(1) [of 0 d7] assms by simp
  have "damm_op 0 d7 < 10" using damm_rules(2) assms by simp
  with assms show ?thesis by (simp add: first damm_rules(1,2))
qed

lemma dec_digits_8:
  "dec_digits 8 v =
    [v div 10 div 10 div 10 div 10 div 10 div 10 div 10 mod 10, v div 10 div 10 div 10 div 10 div 10 div 10 mod 10,
     v div 10 div 10 div 10 div 10 div 10 mod 10, v div 10 div 10 div 10 div 10 mod 10,
     v div 10 div 10 div 10 mod 10, v div 10 div 10 mod 10, v div 10 mod 10, v mod 10]"
proof -
  have 8: "8 = Suc (Suc (Suc (Suc (Suc (Suc (Suc (Suc 0)))))))" by simp
  show ?thesis by (simp only: 8 dec_digits.simps append.simps)
qed

lemma damm_checksum_eq:
  assumes "v < 100000000"
  shows "damm_checksum_8digit v = Inr (foldl damm_op 0 (dec_digits 8 v))"
proof -
  let ?d7 = "v div 10 div 10 div 10 div 10 div 10 div 10 div 10"
  have "?d7 = v div 10000000" by (simp add: div_mult2_eq [symmetric])
  with assms have top: "?d7 < 10" by (simp add: div_less_iff_less_mult)
  then have m: "?d7 mod 10 = ?d7" by simp
  show ?thesis
    unfolding damm_checksum_8digit_def Let_def dec_digits_8 m
    using assms top by (subst damm_chain [symmetric]) simp_all
qed

lemma nai_accepted:
  assumes "asset_num_from_nai nai p = Inr s"
  shows "nai < 1000000000" "nai div 10 \<in> {SMT_MIN_NAI..SMT_MAX_NAI}"
    "damm_checksum_8digit (nai div 10) = Inr (nai mod 10)" "foldl damm_op 0 (dec_digits 9 nai) = 0"
proof -
  from assms have range: "SMT_MIN_NAI \<le> nai div 10" "nai div 10 \<le> SMT_MAX_NAI"
    and damm: "damm_checksum_8digit (nai div 10) = Inr (nai mod 10)"
    by (auto simp: asset_num_from_nai_def Let_def)
  from range show "nai div 10 \<in> {SMT_MIN_NAI..SMT_MAX_NAI}" by simp
  from range(2) show "nai < 1000000000" by linarith
  show "damm_checksum_8digit (nai div 10) = Inr (nai mod 10)" by (fact damm)
  from damm range(2) have "nai mod 10 = foldl damm_op 0 (dec_digits 8 (nai div 10))"
    by (simp add: damm_checksum_eq)
  moreover have "dec_digits 9 nai = dec_digits 8 (nai div 10) @ [nai mod 10]"
  proof -
    have 9: "9 = Suc 8" by simp
    show ?thesis unfolding 9 by (simp only: dec_digits.simps)
  qed
  ultimately show "foldl damm_op 0 (dec_digits 9 nai) = 0"
    by (simp add: damm_rules(6))
qed

lemma damm_detects_substitution:
  assumes "foldl damm_op 0 (p @ d # r) = foldl damm_op 0 (p @ e # r)"
    and "\<And>x. x \<in> set (p @ d # e # r) \<Longrightarrow> x < 10"
  shows "d = e"
proof -
  let ?a = "foldl damm_op 0 p"
  have less: "?a < 10" "d < 10" "e < 10" using assms(2) by (auto intro: damm_foldl_less)
  then have "damm_op ?a d < 10" "damm_op ?a e < 10" by (simp_all add: damm_rules(2))
  then have "damm_op ?a d = damm_op ?a e"
    by (rule damm_foldl_inject [of _ _ r]) (use assms in simp_all)
  with less show ?thesis by (rule_tac damm_rules(3))
qed

lemma damm_detects_transposition:
  assumes "foldl damm_op 0 (p @ d # e # r) = foldl damm_op 0 (p @ e # d # r)"
    and "\<And>x. x \<in> set (p @ d # e # r) \<Longrightarrow> x < 10"
  shows "d = e"
proof -
  let ?a = "foldl damm_op 0 p"
  have less: "?a < 10" "d < 10" "e < 10" using assms(2) by (auto intro: damm_foldl_less)
  then have "damm_op (damm_op ?a d) e < 10" "damm_op (damm_op ?a e) d < 10" by (simp_all add: damm_rules(2))
  then have "damm_op (damm_op ?a d) e = damm_op (damm_op ?a e) d"
    by (rule damm_foldl_inject [of _ _ r]) (use assms in simp_all)
  with less show ?thesis by (rule_tac damm_rules(5))
qed

lemma asset_num_values:
  "DELTA_ASSET_NUM_DBD = 1600000003" "DELTA_ASSET_NUM_DELTA = 1600000019" "DELTA_ASSET_NUM_VESTS = 1600000038"
  by (simp_all add: DELTA_ASSET_NUM_DBD_def DELTA_ASSET_NUM_DELTA_def DELTA_ASSET_NUM_VESTS_def)

lemma not_bit_nat_less: "d < 2 ^ k \<Longrightarrow> k \<le> n \<Longrightarrow> \<not> bit (d :: nat) n"
  by (metis bit_take_bit_iff linorder_not_le take_bit_nat_eq_self)

lemma bit_field_masks:
  "bit (16 :: int) n \<longleftrightarrow> n = 4" "bit (15 :: int) n \<longleftrightarrow> n < 4" "bit (32 :: int) n \<longleftrightarrow> n = 5"
proof -
  have "(16 :: int) = push_bit 4 1" "(15 :: int) = mask 4" "(32 :: int) = push_bit 5 1"
    by (simp_all add: mask_eq_exp_minus_1)
  then show "bit (16 :: int) n \<longleftrightarrow> n = 4" "bit (15 :: int) n \<longleftrightarrow> n < 4" "bit (32 :: int) n \<longleftrightarrow> n = 5"
    by (auto simp only: bit_push_bit_iff bit_1_iff bit_mask_iff possible_bit_def) auto
qed

lemma smt_num_fields:
  assumes "d < 2 ^ 27" "p < 16"
  shows "unat (drop_bit 5 (push_bit 5 (of_nat d) OR 0x10 OR of_nat p :: 32 word)) = d"
    and "unat ((push_bit 5 (of_nat d) OR 0x10 OR of_nat p :: 32 word) AND 0x0F) = p"
    and "(push_bit 5 (of_nat d) OR 0x10 OR of_nat p :: 32 word) AND 0x10 = 0x10"
proof -
  let ?w = "push_bit 5 (of_nat d) OR 0x10 OR of_nat p :: 32 word"
  have d: "\<not> bit d n" if "n \<ge> 27" for n by (rule not_bit_nat_less [OF assms(1) that])
  have p: "\<not> bit p n" if "n \<ge> 4" for n using assms(2) that by (intro not_bit_nat_less [of _ 4]) simp_all
  have "drop_bit 5 ?w = of_nat d"
    by (rule bit_word_eqI) (use d in \<open>auto simp: bit_simps bit_field_masks p\<close>, meson linorder_not_le)
  then show "unat (drop_bit 5 ?w) = d" using assms(1) by (simp add: unsigned_of_nat take_bit_nat_eq_self)
  have "?w AND 0x0F = of_nat p"
    by (rule bit_word_eqI) (use p in \<open>auto simp: bit_simps bit_field_masks\<close>, meson linorder_not_le)
  then show "unat (?w AND 0x0F) = p" using assms(2) by (simp add: unsigned_of_nat take_bit_nat_eq_self)
  show "?w AND 0x10 = 0x10"
    by (rule bit_word_eqI) (auto simp: bit_simps bit_field_masks)
qed

lemma smt_num_rebuild:
  assumes "(s :: 32 word) AND 0x10 = 0x10"
  shows "push_bit 5 (drop_bit 5 s) OR 0x10 OR (s AND 0x0F) = s"
proof (rule bit_word_eqI)
  fix n assume n: "n < LENGTH(32)"
  have "bit (s AND 0x10) 4" unfolding assms by (simp add: bit_field_masks)
  then have 4: "bit s 4" by (simp add: bit_simps)
  show "bit (push_bit 5 (drop_bit 5 s) OR 0x10 OR (s AND 0x0F)) n = bit s n"
    using 4 n by (cases "n = 4") (auto simp: bit_simps bit_field_masks)
qed

lemma symbol_valid_smt:
  assumes "symbol_validate s = Inr ()" "space s = smt_nai_space"
  shows "unat (drop_bit 5 s) \<in> {1..99999999}" "s AND 0x10 = 0x10" "unat (s AND 0x0F) \<le> 12"
  using assms by (auto simp: symbol_validate_def space_def Let_def fc_assert_def split: if_splits)

lemma to_nai_smt:
  assumes "unat (drop_bit 5 s) < 100000000" "space s = smt_nai_space"
  shows "to_nai s = Inr (unat (drop_bit 5 s) * 10 + foldl damm_op 0 (dec_digits 8 (unat (drop_bit 5 s))))"
  using assms by (auto simp: to_nai_def space_def damm_checksum_eq Let_def split: if_splits)

lemma damm_digit_less: "foldl damm_op 0 (dec_digits n v) < 10"
  by (rule damm_foldl_less) (auto dest: dec_digits_less)

lemma from_nai_smt:
  assumes "v \<in> {4..99999999}" "p \<le> 12"
  shows "asset_num_from_nai (v * 10 + foldl damm_op 0 (dec_digits 8 v)) p
    = Inr (push_bit 5 (of_nat v) OR 0x10 OR of_nat p)"
  using assms damm_digit_less [of 8 v]
  by (simp add: asset_num_from_nai_def Let_def damm_checksum_eq)

lemma nai_roundtrip_smt:
  assumes "symbol_validate s = Inr ()" "space s = smt_nai_space" "unat (drop_bit 5 s) > 3"
  shows "\<exists>nai. to_nai s = Inr nai \<and> asset_num_from_nai nai (decimals s) = Inr s"
proof -
  note valid = symbol_valid_smt [OF assms(1,2)]
  have "asset_num_from_nai (unat (drop_bit 5 s) * 10 + foldl damm_op 0 (dec_digits 8 (unat (drop_bit 5 s)))) (unat (s AND 0x0F))
    = Inr (push_bit 5 (drop_bit 5 s) OR 0x10 OR (s AND 0x0F))"
    using from_nai_smt [of "unat (drop_bit 5 s)" "unat (s AND 0x0F)"] valid assms(3) by simp
  then show ?thesis
    using valid assms(2) smt_num_rebuild [OF valid(2)]
    by (simp add: to_nai_smt decimals_def)
qed

lemma damm_core: "damm_checksum_8digit 1 = Inr 3" "damm_checksum_8digit 2 = Inr 1" "damm_checksum_8digit 3 = Inr 7"
  by (simp_all add: damm_checksum_eq dec_digits_8 damm_vals damm_diag_all del: One_nat_def)

lemma core_symbol_nai:
  "to_nai DBD_SYMBOL = Inr 13" "asset_num_from_nai 13 3 = Inr DBD_SYMBOL" "decimals DBD_SYMBOL = 3"
  "to_nai DELTA_SYMBOL = Inr 21" "asset_num_from_nai 21 3 = Inr DELTA_SYMBOL" "decimals DELTA_SYMBOL = 3"
  "to_nai VESTS_SYMBOL = Inr 37" "asset_num_from_nai 37 6 = Inr VESTS_SYMBOL" "decimals VESTS_SYMBOL = 6"
  by (simp_all add: to_nai_def asset_num_from_nai_def Let_def decimals_def damm_core damm_core [unfolded One_nat_def] asset_num_values)

lemma legacy_cases:
  assumes "space s = legacy_space"
  obtains "s = DELTA_SYMBOL" | "s = DBD_SYMBOL" | "s = VESTS_SYMBOL"
  using assms by (auto simp: space_def split: if_splits)

lemma nai_roundtrip_legacy:
  "space s = legacy_space \<Longrightarrow> \<exists>nai. to_nai s = Inr nai \<and> asset_num_from_nai nai (decimals s) = Inr s"
  by (erule legacy_cases) (simp_all add: core_symbol_nai)

lemma from_nai_cases:
  assumes "asset_num_from_nai nai p = Inr s"
  obtains (core) "space s = legacy_space" "to_nai s = Inr nai" "decimals s = p"
  | (smt) "3 < nai div 10" "p \<le> 12" "s = push_bit 5 (of_nat (nai div 10)) OR 0x10 OR of_nat p"
proof -
  have check: "damm_checksum_8digit (nai div 10) = Inr (nai mod 10)" by (rule nai_accepted(3) [OF assms])
  show ?thesis
  proof (cases "nai div 10 \<in> {1, 2, 3}")
    case True
    with check have "nai div 10 = 1 \<and> nai mod 10 = 3 \<or> nai div 10 = 2 \<and> nai mod 10 = 1 \<or> nai div 10 = 3 \<and> nai mod 10 = 7"
      using damm_core by auto
    then have "nai = 13 \<or> nai = 21 \<or> nai = 37" by presburger
    then have "nai \<in> {13, 21, 37}" by simp
    with assms have "p = (if nai = 37 then 6 else 3)"
      "s = (if nai = 13 then DBD_SYMBOL else if nai = 21 then DELTA_SYMBOL else VESTS_SYMBOL)"
      by (auto simp: asset_num_from_nai_def Let_def damm_core fc_assert_def split: if_splits)
    with \<open>nai \<in> {13, 21, 37}\<close> show ?thesis
      by (intro core) (auto simp: core_symbol_nai space_def)
  next
    case False
    then show ?thesis using assms by (intro smt) (auto simp: asset_num_from_nai_def Let_def)
  qed
qed
text \<open>
  C24: For a symbol that passes \<open>validate\<close>, printing its NAI and reading it back with the symbol's
  decimals gives the same symbol exactly when it is a core token or its data digits are above 3:
  the numbers whose data digits are 1, 2 or 3 pass \<open>validate\<close> although their NAIs belong to the core tokens.
\<close>

theorem nai_roundtrip:
  assumes "symbol_validate s = Inr ()"
  shows "(\<exists>nai. to_nai s = Inr nai \<and> asset_num_from_nai nai (decimals s) = Inr s) \<longleftrightarrow>
    space s = legacy_space \<or> 3 < unat (drop_bit 5 s)"
proof (cases "space s")
  case legacy_space
  then show ?thesis using nai_roundtrip_legacy by simp
next
  case smt_nai_space
  note valid = symbol_valid_smt [OF assms smt_nai_space]
  have "3 < unat (drop_bit 5 s)" if "to_nai s = Inr nai" "asset_num_from_nai nai (decimals s) = Inr s" for nai
    using that(2)
  proof (cases rule: from_nai_cases)
    case smt
    with that(1) smt_nai_space valid(1) show ?thesis
      using damm_digit_less [of 8 "unat (drop_bit 5 s)"] by (auto simp: to_nai_smt)
  qed (simp add: smt_nai_space)
  then show ?thesis using nai_roundtrip_smt [OF assms smt_nai_space] smt_nai_space by auto
qed

theorem nai_roundtrip_witness:
  "symbol_validate DELTA_SYMBOL = Inr () \<and>
   (\<exists>nai. to_nai DELTA_SYMBOL = Inr nai \<and> asset_num_from_nai nai (decimals DELTA_SYMBOL) = Inr DELTA_SYMBOL)"
  using nai_roundtrip [of DELTA_SYMBOL] by (simp add: symbol_validate_def space_def)

lemma smt_num_legacy_iff:
  assumes "v \<in> {4..99999999}" "p \<le> 12"
  shows "space (push_bit 5 (of_nat v) OR 0x10 OR of_nat p) = legacy_space \<longleftrightarrow> v = 50000000 \<and> p = 3"
proof -
  let ?w = "push_bit 5 (of_nat v) OR 0x10 OR of_nat p :: 32 word"
  have f: "unat (drop_bit 5 ?w) = v" "unat (?w AND 0x0F) = p" "?w AND 0x10 = 0x10"
    using assms by (intro smt_num_fields; simp)+
  have "?w \<noteq> DBD_SYMBOL" "?w \<noteq> VESTS_SYMBOL" using f(3) by (auto simp: asset_num_values)
  moreover have "?w = DELTA_SYMBOL \<longleftrightarrow> v = 50000000 \<and> p = 3"
  proof
    assume eq: "?w = DELTA_SYMBOL"
    show "v = 50000000 \<and> p = 3"
      using f(1) f(2) unfolding eq by (simp add: asset_num_values)
  qed (simp add: asset_num_values)
  ultimately show ?thesis by (simp add: space_def)
qed

text \<open>
  C25: Every NAI that \<open>asset_num_from_nai\<close> accepts gives a valid symbol with the requested decimals,
  and \<open>to_nai\<close> returns the same NAI for it, with one exception: data digits 50000000 with three
  decimals produce the asset number of the core token DELTA.
\<close>

theorem from_nai_roundtrip:
  assumes "asset_num_from_nai nai p = Inr s"
  shows "symbol_validate s = Inr () \<and> decimals s = p \<and>
    (to_nai s = Inr nai \<longleftrightarrow> \<not> (nai div 10 = 50000000 \<and> p = 3))"
  using assms
proof (cases rule: from_nai_cases)
  case core
  moreover have "nai div 10 \<noteq> 50000000"
    using core(1,2) by (auto elim!: legacy_cases simp: core_symbol_nai)
  ultimately show ?thesis by (auto elim!: legacy_cases simp: symbol_validate_def)
next
  case smt
  have v: "nai div 10 \<in> {4..99999999}" using smt(1) nai_accepted(2) [OF assms] by simp
  have f: "unat (drop_bit 5 s) = nai div 10" "unat (s AND 0x0F) = p" "s AND 0x10 = 0x10"
    unfolding smt(3) using v smt(2) by (intro smt_num_fields; simp)+
  have sp: "space s = legacy_space \<longleftrightarrow> nai div 10 = 50000000 \<and> p = 3"
    unfolding smt(3) by (rule smt_num_legacy_iff [OF v smt(2)])
  have check: "foldl damm_op 0 (dec_digits 8 (nai div 10)) = nai mod 10"
    using nai_accepted(3) [OF assms] v by (simp add: damm_checksum_eq)
  have "symbol_validate s = Inr ()" using v smt(2) f by (auto simp: symbol_validate_def Let_def)
  moreover have "to_nai s = Inr nai \<longleftrightarrow> space s \<noteq> legacy_space"
  proof (cases "space s")
    case legacy_space
    then have "nai div 10 = 50000000" using sp by simp
    with legacy_space show ?thesis by (auto elim!: legacy_cases simp: core_symbol_nai)
  next
    case smt_nai_space
    then show ?thesis using v f(1) check by (simp add: to_nai_smt)
  qed
  ultimately show ?thesis using f(2) sp by (simp add: decimals_def)
qed

theorem from_nai_roundtrip_witness:
  "asset_num_from_nai 21 3 = Inr DELTA_SYMBOL \<and> to_nai DELTA_SYMBOL = Inr 21"
  using from_nai_roundtrip [of 21 3 DELTA_SYMBOL] by (simp add: core_symbol_nai(5))

lemma dec_value: "foldl (\<lambda>a d. a * 10 + d) a (dec_digits n v) = a * 10 ^ n + v mod 10 ^ n"
proof (induction n arbitrary: v)
  case (Suc n)
  have "10 * (v div 10 mod 10 ^ n) + v mod 10 = v mod 10 ^ Suc n"
    by (simp add: mod_mult2_eq)
  with Suc show ?case by (simp add: algebra_simps)
qed simp

lemma digit_char_digit: "d < 10 \<Longrightarrow> is_digit (digit_char d) \<and> (of_char (digit_char d) :: nat) = d + 48"
  by (simp add: is_digit_def digit_char_def)

lemma dec_value_ge: "(a :: nat) \<le> foldl (\<lambda>a d. a * 10 + d) a ds"
proof (induction ds arbitrary: a)
  case (Cons d ds)
  show ?case using Cons [of "a * 10 + d"] by simp
qed simp

lemma parse_nai_digits_map:
  assumes "\<And>d. d \<in> set ds \<Longrightarrow> d < 10" "a \<le> SMT_MAX_NAI"
  shows "parse_nai_digits (map digit_char ds) a n =
    (if foldl (\<lambda>a d. a * 10 + d) a ds \<le> SMT_MAX_NAI
     then Inr (foldl (\<lambda>a d. a * 10 + d) a ds, n + length ds, []) else Inl Assert_Exception)"
  using assms
proof (induction ds arbitrary: a n)
  case (Cons d ds)
  then have d: "is_digit (digit_char d)" "(of_char (digit_char d) :: nat) = d + 48"
    using digit_char_digit by simp_all
  show ?case
  proof (cases "a * 10 + d \<le> SMT_MAX_NAI")
    case True
    then show ?thesis using Cons d by simp
  next
    case False
    then have "\<not> foldl (\<lambda>a d. a * 10 + d) (a * 10 + d) ds \<le> SMT_MAX_NAI"
      using dec_value_ge [of "a * 10 + d" ds] by linarith
    with False d show ?thesis by (simp add: Let_def)
  qed
qed simp

lemma dec_digits_9:
  "v < 1000000000 \<Longrightarrow> dec_digits 9 v =
    [v div 10 div 10 div 10 div 10 div 10 div 10 div 10 div 10,
     v div 10 div 10 div 10 div 10 div 10 div 10 div 10 mod 10, v div 10 div 10 div 10 div 10 div 10 div 10 mod 10,
     v div 10 div 10 div 10 div 10 div 10 mod 10, v div 10 div 10 div 10 div 10 mod 10,
     v div 10 div 10 div 10 mod 10, v div 10 div 10 mod 10, v div 10 mod 10, v mod 10]"
proof -
  assume v: "v < 1000000000"
  have 9: "9 = Suc 8" by simp
  have "v div 10 div 10 div 10 div 10 div 10 div 10 div 10 div 10 = v div 100000000" by (simp add: div_mult2_eq [symmetric])
  also have "\<dots> < 10" using v by (simp add: div_less_iff_less_mult)
  finally have top: "v div 10 div 10 div 10 div 10 div 10 div 10 div 10 div 10 mod 10 = v div 10 div 10 div 10 div 10 div 10 div 10 div 10 div 10" by simp
  show ?thesis by (simp only: 9 dec_digits.simps dec_digits_8 append.simps top)
qed

lemma to_nai_string_digits:
  "to_nai s = Inr nai \<Longrightarrow> nai < 1000000000 \<Longrightarrow>
    to_nai_string s = Inr (''@@'' @ map digit_char (dec_digits 9 nai))"
  by (simp add: to_nai_string_def Let_def dec_digits_9)

lemma from_nai_string_digits:
  assumes "nai < 1000000000"
  shows "from_nai_string (''@@'' @ map digit_char (dec_digits 9 nai)) p =
    (if nai \<le> SMT_MAX_NAI then asset_num_from_nai nai p else Inl Assert_Exception)"
proof -
  have "parse_nai_digits (map digit_char (dec_digits 9 nai)) 0 0 =
    (if nai \<le> SMT_MAX_NAI then Inr (nai, 9, []) else Inl Assert_Exception)"
    using assms by (subst parse_nai_digits_map) (auto simp: dec_value dest: dec_digits_less)
  then show ?thesis
    by (cases "asset_num_from_nai nai p") (simp_all add: from_nai_string_def is_space_def at_end_def)
qed

text \<open>
  C26: The text form of a symbol has eleven characters; parsing it gives the symbol back when its
  NAI, check digit included, is at most \<open>SMT_MAX_NAI\<close>, and throws for every larger NAI.
\<close>

theorem nai_string_roundtrip:
  assumes "asset_num_from_nai nai p = Inr s" "to_nai s = Inr nai"
  shows "\<exists>str. to_nai_string s = Inr str \<and> length str = 11 \<and>
    from_nai_string str p = (if nai \<le> SMT_MAX_NAI then Inr s else Inl Assert_Exception)"
proof -
  have "nai < 1000000000" by (rule nai_accepted(1) [OF assms(1)])
  with assms from_nai_string_digits [of nai p] show ?thesis by (simp add: to_nai_string_digits)
qed

theorem nai_string_roundtrip_witness:
  "to_nai DELTA_SYMBOL = Inr 21 \<and>
   (\<exists>str. to_nai_string DELTA_SYMBOL = Inr str \<and> length str = 11 \<and> from_nai_string str 3 = Inr DELTA_SYMBOL)"
  using nai_string_roundtrip [of 21 3 DELTA_SYMBOL] by (simp add: core_symbol_nai)

lemma damm_rejects_damaged:
  assumes "foldl damm_op 0 (dec_digits 9 nai) = foldl damm_op 0 (dec_digits 9 nai')"
    and "(\<exists>xs d e r. dec_digits 9 nai = xs @ d # r \<and> dec_digits 9 nai' = xs @ e # r) \<or>
      (\<exists>xs d e r. dec_digits 9 nai = xs @ d # e # r \<and> dec_digits 9 nai' = xs @ e # d # r)"
  shows "dec_digits 9 nai = dec_digits 9 nai'"
proof -
  have less: "x < 10" if "x \<in> set (dec_digits 9 nai) \<union> set (dec_digits 9 nai')" for x
    using that by (auto dest: dec_digits_less)
  from assms(2) show ?thesis
  proof (elim disjE exE conjE)
    fix xs d e r assume s: "dec_digits 9 nai = xs @ d # r" "dec_digits 9 nai' = xs @ e # r"
    have "d = e" by (rule damm_detects_substitution [of xs d r e]) (use assms(1) less s in auto)
    with s show ?thesis by simp
  next
    fix xs d e r assume s: "dec_digits 9 nai = xs @ d # e # r" "dec_digits 9 nai' = xs @ e # d # r"
    have "d = e" by (rule damm_detects_transposition [of xs d e r]) (use assms(1) less s in auto)
    with s show ?thesis by simp
  qed
qed

lemma asset_num_from_nai_errors: "asset_num_from_nai nai p = Inl e \<Longrightarrow> e = Assert_Exception"
  by (auto simp: asset_num_from_nai_def Let_def fc_assert_def damm_checksum_eq split: if_splits)

text \<open>
  C23: The check digit detects every single wrong digit and every swap of two neighbouring digits:
  a nine-digit number obtained in one of these ways from an accepted NAI is rejected.
\<close>

theorem nai_check_digit_detects_errors:
  assumes "asset_num_from_nai nai p = Inr s" and "nai' \<noteq> nai"
    and "(\<exists>xs d e r. dec_digits 9 nai = xs @ d # r \<and> dec_digits 9 nai' = xs @ e # r) \<or>
      (\<exists>xs d e r. dec_digits 9 nai = xs @ d # e # r \<and> dec_digits 9 nai' = xs @ e # d # r)"
  shows "asset_num_from_nai nai' p' = Inl Assert_Exception"
proof (cases "asset_num_from_nai nai' p'")
  case (Inr s')
  have "dec_digits 9 nai = dec_digits 9 nai'"
    using nai_accepted(4) [OF assms(1)] nai_accepted(4) [OF Inr] assms(3) by (intro damm_rejects_damaged) simp_all
  moreover have "nai < 10 ^ 9" "nai' < 10 ^ 9" using nai_accepted(1) [OF assms(1)] nai_accepted(1) [OF Inr] by simp_all
  ultimately have "nai = nai'" by (intro dec_digits_inject)
  with assms(2) show ?thesis by simp
qed (auto dest: asset_num_from_nai_errors)

theorem nai_check_digit_detects_errors_witness:
  "asset_num_from_nai 13 3 = Inr DBD_SYMBOL \<and>
   asset_num_from_nai 23 3 = Inl Assert_Exception \<and> asset_num_from_nai 31 3 = Inl Assert_Exception"
proof -
  have d: "dec_digits 9 13 = [0,0,0,0,0,0,0] @ 1 # [3]" "dec_digits 9 13 = [0,0,0,0,0,0,0] @ 1 # 3 # []"
    "dec_digits 9 23 = [0,0,0,0,0,0,0] @ 2 # [3]" "dec_digits 9 31 = [0,0,0,0,0,0,0] @ 3 # 1 # []"
    by (simp_all add: dec_digits_9)
  have "asset_num_from_nai 23 3 = Inl Assert_Exception"
    by (rule nai_check_digit_detects_errors [OF core_symbol_nai(2)]) (simp, use d(1,3) in blast)
  moreover have "asset_num_from_nai 31 3 = Inl Assert_Exception"
    by (rule nai_check_digit_detects_errors [OF core_symbol_nai(2)]) (simp, use d(2,4) in blast)
  ultimately show ?thesis using core_symbol_nai(2) by simp
qed

section \<open>The binary round trip\<close>

lemma le_bytes_uint32: "le_bytes (pack_uint32 w) = ucast w"
  apply (rule bit_word_eqI)
  apply (auto simp: pack_uint32_def bit_simps dest: bit_imp_le_length)
  subgoal for n by (cases "n < 24") auto
  done

lemma pack_uint64_value:
  "pack_uint64 DELTA_SYMBOL_SER = [0x03, 0x44, 0x45, 0x4C, 0x54, 0x41, 0, 0]"
  "pack_uint64 DBD_SYMBOL_SER = [0x03, 0x44, 0x42, 0x44, 0, 0, 0, 0]"
  "pack_uint64 VESTS_SYMBOL_SER = [0x06, 0x44, 0x58, 0, 0, 0, 0, 0]"
  by (simp_all add: pack_uint64_def DELTA_SYMBOL_SER_def DBD_SYMBOL_SER_def VESTS_SYMBOL_SER_def)

lemma symbol_validate_core: "symbol_validate DELTA_SYMBOL = Inr ()" "symbol_validate DBD_SYMBOL = Inr ()"
    "symbol_validate VESTS_SYMBOL = Inr ()"
  by (simp_all add: symbol_validate_def)

lemma length_pack [simp]: "length (pack_uint32 w) = 4" "length (pack_uint64 v) = 8"
  by (simp_all add: pack_uint32_def pack_uint64_def)

lemma pack_symbol_core:
  "pack_symbol DELTA_SYMBOL = [0x03, 0x44, 0x45, 0x4C, 0x54, 0x41, 0, 0]"
  "pack_symbol DBD_SYMBOL = [0x03, 0x44, 0x42, 0x44, 0, 0, 0, 0]"
  "pack_symbol VESTS_SYMBOL = [0x06, 0x44, 0x58, 0, 0, 0, 0, 0]"
  unfolding pack_symbol_def space_def by (simp_all add: pack_uint64_value) (simp_all add: asset_num_values)

lemma symbol_ser_values:
  "DELTA_SYMBOL_SER = 71830312666115" "DBD_SYMBOL_SER = 1145193475" "VESTS_SYMBOL_SER = 5784582"
  by (simp_all add: DELTA_SYMBOL_SER_def DBD_SYMBOL_SER_def VESTS_SYMBOL_SER_def)

lemma unpack_symbol_core:
  "space s = legacy_space \<Longrightarrow> unpack_symbol (pack_symbol s @ rest) = Inr (s, rest)"
  by (erule legacy_cases)
    (simp_all add: pack_symbol_core unpack_symbol_def read_bytes_def symbol_validate_core symbol_ser_values Let_def)

lemma legacy_ser_bit4:
  "\<not> bit (DELTA_SYMBOL_SER AND 0xFFFFFFFF) 4" "\<not> bit (DBD_SYMBOL_SER AND 0xFFFFFFFF) 4"
  "\<not> bit (VESTS_SYMBOL_SER AND 0xFFFFFFFF) 4"
  by (simp_all add: DELTA_SYMBOL_SER_def DBD_SYMBOL_SER_def VESTS_SYMBOL_SER_def)

text \<open>
  C22: Unpacking the serialized form of a valid symbol returns the symbol and leaves the rest of
  the stream, for the eight-byte core forms and the four-byte NAI form.
\<close>

theorem symbol_binary_roundtrip:
  assumes "symbol_validate s = Inr ()"
  shows "unpack_symbol (pack_symbol s @ rest) = Inr (s, rest)"
proof (cases "space s")
  case legacy_space
  then show ?thesis by (rule unpack_symbol_core)
next
  case smt_nai_space
  have "bit (s AND 0x10) 4" unfolding symbol_valid_smt(2) [OF assms smt_nai_space] by simp
  then have "bit (ucast s :: 64 word) 4" by (simp add: bit_simps)
  then have "(ucast s :: 64 word) \<noteq> DELTA_SYMBOL_SER AND 0xFFFFFFFF"
    "(ucast s :: 64 word) \<noteq> DBD_SYMBOL_SER AND 0xFFFFFFFF"
    "(ucast s :: 64 word) \<noteq> VESTS_SYMBOL_SER AND 0xFFFFFFFF"
    using legacy_ser_bit4 by metis+
  moreover have "(ucast (ucast s :: 64 word) :: 32 word) = s"
    by (rule bit_word_eqI) (simp add: bit_simps)
  ultimately show ?thesis using assms smt_nai_space
    by (simp add: unpack_symbol_def pack_symbol_def read_bytes_def le_bytes_uint32 Let_def)
qed

theorem symbol_binary_roundtrip_witness:
  "symbol_validate 0x90 = Inr () \<and> unpack_symbol (pack_symbol 0x90 @ [7]) = Inr (0x90, [7])"
proof -
  have v: "symbol_validate 0x90 = Inr ()" by (simp add: symbol_validate_def asset_num_values)
  with symbol_binary_roundtrip [OF v] show ?thesis by simp
qed

lemma xor_vesting_twice: "((s :: 32 word) XOR 0x20) XOR 0x20 = s"
  by (simp only: xor.assoc) simp

lemma paired_smt_legacy_iff:
  assumes "symbol_validate s = Inr ()" "space s = smt_nai_space"
  shows "space (s XOR 0x20) = legacy_space \<longleftrightarrow> s = 1600000051"
proof -
  have "bit (s AND 0x10) 4" unfolding symbol_valid_smt(2) [OF assms] by simp
  then have b: "bit s 4" by (simp add: bit_simps)
  then have "bit (s XOR 0x20) 4" by (simp add: bit_simps)
  then have "s XOR 0x20 \<noteq> DBD_SYMBOL" "s XOR 0x20 \<noteq> VESTS_SYMBOL" by (auto simp: asset_num_values)
  moreover have "s XOR 0x20 = DELTA_SYMBOL \<longleftrightarrow> s = DELTA_SYMBOL XOR 0x20" using xor_vesting_twice by metis
  ultimately show ?thesis by (simp add: space_def asset_num_values)
qed

lemma xor_vesting_bit: "(s XOR 0x20) AND 0x20 \<noteq> 0 \<longleftrightarrow> (s :: 32 word) AND 0x20 = 0"
proof -
  have w: "(w :: 32 word) AND 0x20 = 0 \<longleftrightarrow> \<not> bit w 5" for w
  proof
    assume "w AND 0x20 = 0"
    then have "\<not> bit (w AND 0x20) 5" by simp
    then show "\<not> bit w 5" by (simp add: bit_simps)
  next
    assume "\<not> bit w 5"
    then show "w AND 0x20 = 0" by (intro bit_word_eqI) (auto simp: bit_and_iff bit_field_masks)
  qed
  show ?thesis unfolding w by (simp add: bit_simps)
qed

text \<open>
  C27: Pairing a valid symbol twice gives it back for every symbol but number 1600000051, whose
  partner is the core token DELTA; pairing switches between the liquid and the vesting variant
  for every symbol but DBD.
\<close>

theorem paired_symbol_toggles:
  assumes "symbol_validate s = Inr ()"
  shows "(get_paired_symbol (get_paired_symbol s) = s \<longleftrightarrow> s \<noteq> 1600000051) \<and>
    (is_vesting (get_paired_symbol s) = (\<not> is_vesting s) \<longleftrightarrow> s \<noteq> DBD_SYMBOL)"
proof (cases "space s")
  case legacy_space
  then show ?thesis
    by (elim legacy_cases) (simp_all add: get_paired_symbol_def is_vesting_def space_def asset_num_values)
next
  case smt_nai_space
  note legacy = paired_smt_legacy_iff [OF assms smt_nai_space]
  have dbd: "s \<noteq> DBD_SYMBOL" using smt_nai_space by (auto simp: space_def)
  show ?thesis
  proof (cases "s = 1600000051")
    case True
    then show ?thesis by (simp add: get_paired_symbol_def is_vesting_def space_def asset_num_values)
  next
    case False
    with legacy have "space (s XOR 0x20) = smt_nai_space" using asset_symbol_space.exhaust by blast
    with False smt_nai_space dbd show ?thesis
      by (simp add: get_paired_symbol_def is_vesting_def xor_vesting_bit xor_vesting_twice)
  qed
qed

theorem paired_symbol_toggles_witness:
  "symbol_validate VESTS_SYMBOL = Inr () \<and> get_paired_symbol (get_paired_symbol VESTS_SYMBOL) = VESTS_SYMBOL"
  using paired_symbol_toggles [OF symbol_validate_core(3)]
  by (simp add: symbol_validate_core) (simp add: asset_num_values)

end
