(* ===== verification/Ordered_Index.thy ===== *)
theory Ordered_Index
  imports Delta_Prelude
begin

text \<open>
  What an ordered container index asks of its comparator: a strict weak order on the elements that
  may be stored. The chain keeps its objects in such indices (the order book by price, the
  authorities by key, the pending work by date); an index is a list in iteration order.
\<close>

text \<open>A new element goes behind the elements it ties with.\<close>

fun ordered_insert :: "('a \<Rightarrow> 'a \<Rightarrow> bool) \<Rightarrow> 'a \<Rightarrow> 'a list \<Rightarrow> 'a list" where
  "ordered_insert lt x [] = [x]"
| "ordered_insert lt x (y # ys) = (if lt x y then x # y # ys else y # ordered_insert lt x ys)"

lemma set_ordered_insert [simp]: "set (ordered_insert lt x xs) = insert x (set xs)"
  by (induction xs) auto

definition in_index_order :: "('a \<Rightarrow> 'a \<Rightarrow> bool) \<Rightarrow> 'a list \<Rightarrow> bool" where
  "in_index_order lt xs \<longleftrightarrow> sorted_wrt (\<lambda>x y. \<not> lt y x) xs"

locale strict_weak_order =
  fixes valid :: "'a \<Rightarrow> bool" and lt :: "'a \<Rightarrow> 'a \<Rightarrow> bool"
  assumes irreflexive: "valid a \<Longrightarrow> \<not> lt a a"
    and less_trans: "valid a \<Longrightarrow> valid b \<Longrightarrow> valid c \<Longrightarrow> lt a b \<Longrightarrow> lt b c \<Longrightarrow> lt a c"
    and less_cotrans: "valid a \<Longrightarrow> valid b \<Longrightarrow> valid c \<Longrightarrow> lt a c \<Longrightarrow> lt a b \<or> lt b c"
begin

lemma less_asym: "valid a \<Longrightarrow> valid b \<Longrightarrow> lt a b \<Longrightarrow> \<not> lt b a"
  using irreflexive less_trans by blast

lemma not_less_trans:
  "valid a \<Longrightarrow> valid b \<Longrightarrow> valid c \<Longrightarrow> \<not> lt b a \<Longrightarrow> \<not> lt c b \<Longrightarrow> \<not> lt c a"
  using less_cotrans by blast

lemma insert_keeps_order:
  assumes "valid x" "\<And>y. y \<in> set xs \<Longrightarrow> valid y" "in_index_order lt xs"
  shows "in_index_order lt (ordered_insert lt x xs)"
  using assms
proof (induction xs)
  case (Cons y ys)
  show ?case
  proof (cases "lt x y")
    case True
    have "\<not> lt z x" if "z \<in> set (y # ys)" for z
    proof -
      have "\<not> lt z y" using Cons.prems that irreflexive by (auto simp: in_index_order_def)
      moreover have "valid z" "valid y" using Cons.prems that by auto
      ultimately show ?thesis using True Cons.prems(1) less_trans by blast
    qed
    with Cons.prems True show ?thesis by (auto simp: in_index_order_def)
  next
    case False
    with Cons show ?thesis by (auto simp: in_index_order_def)
  qed
qed (simp add: in_index_order_def)

lemma first_is_best:
  "in_index_order lt (x # xs) \<Longrightarrow> y \<in> set xs \<Longrightarrow> \<not> lt y x"
  by (simp add: in_index_order_def)

lemma reverse_order: "strict_weak_order valid (\<lambda>a b. lt b a)"
  by unfold_locales (use irreflexive less_trans less_cotrans in blast)+

end

end
