(* ===== verification/Asset_Price.thy ===== *)
theory Asset_Price
  imports Fc_Uint128 Asset_Symbol Ordered_Index
begin

text \<open>
  Assets and prices (\<open>protocol/asset.hpp\<close>, \<open>protocol/asset.cpp\<close>, \<open>chain/util/asset.hpp\<close>): amounts
  with a symbol, checked arithmetic on them, prices as pairs of assets with their comparison by
  cross multiplication, and the conversion of an amount at a price. The 128-bit intermediate
  values are \<open>128 word\<close>s, which \<open>fc::uint128\<close> implements (theory \<open>Fc_Uint128\<close>).
\<close>

section \<open>Assets\<close>

abbreviation (input) DELTA_MAX_SHARE_SUPPLY :: int where "DELTA_MAX_SHARE_SUPPLY \<equiv> 1000000000000000"
abbreviation (input) DELTA_MAX_SATOSHIS :: int where "DELTA_MAX_SATOSHIS \<equiv> 4611686018427387903"

record asset =
  amount :: int
  symbol :: asset_symbol_type

definition mk_asset :: "int \<Rightarrow> asset_symbol_type \<Rightarrow> asset" where
  "mk_asset a s = \<lparr>amount = a, symbol = s\<rparr>"

definition default_asset :: asset where
  "default_asset = mk_asset 0 DELTA_SYMBOL"

definition asset_validate :: "asset \<Rightarrow> unit result" where
  "asset_validate a =
     res_bind (symbol_validate (symbol a)) (\<lambda>_.
     fc_assert (amount a \<ge> 0) (fc_assert (amount a \<le> DELTA_MAX_SATOSHIS) (Inr ())))"

definition asset_add :: "asset \<Rightarrow> asset \<Rightarrow> asset result" where
  "asset_add a b =
     fc_assert (symbol a = symbol b)
       (res_bind (safe_add (amount a) (amount b)) (\<lambda>v. Inr (mk_asset v (symbol a))))"

definition asset_sub :: "asset \<Rightarrow> asset \<Rightarrow> asset result" where
  "asset_sub a b =
     fc_assert (symbol a = symbol b)
       (res_bind (safe_sub (amount a) (amount b)) (\<lambda>v. Inr (mk_asset v (symbol a))))"

definition asset_mul :: "asset \<Rightarrow> asset \<Rightarrow> asset result" where
  "asset_mul a b =
     fc_assert (symbol a = symbol b)
       (res_bind (safe_mul (amount a) (amount b)) (\<lambda>v. Inr (mk_asset v (symbol a))))"

definition asset_neg :: "asset \<Rightarrow> asset result" where
  "asset_neg a = res_bind (safe_neg (amount a)) (\<lambda>v. Inr (mk_asset v (symbol a)))"

definition asset_eq :: "asset \<Rightarrow> asset \<Rightarrow> bool" where
  "asset_eq a b \<longleftrightarrow> symbol a = symbol b \<and> amount a = amount b"

definition asset_less :: "asset \<Rightarrow> asset \<Rightarrow> bool result" where
  "asset_less a b = fc_assert (symbol a = symbol b) (Inr (amount a < amount b))"

definition asset_le :: "asset \<Rightarrow> asset \<Rightarrow> bool result" where
  "asset_le a b = fc_assert (symbol a = symbol b) (Inr (amount a \<le> amount b))"

definition asset_ne :: "asset \<Rightarrow> asset \<Rightarrow> bool result" where
  "asset_ne a b = fc_assert (symbol a = symbol b) (Inr (amount a \<noteq> amount b))"

section \<open>Prices\<close>

record price =
  base :: asset
  quote :: asset

definition default_price :: price where
  "default_price = \<lparr>base = default_asset, quote = default_asset\<rparr>"

definition price_validate :: "price \<Rightarrow> unit result" where
  "price_validate p =
     fc_assert (amount (base p) > 0) (fc_assert (amount (quote p) > 0)
       (fc_assert (symbol (base p) \<noteq> symbol (quote p)) (Inr ())))"

text \<open>The two-argument constructor validates.\<close>

definition mk_price :: "asset \<Rightarrow> asset \<Rightarrow> price result" where
  "mk_price b q =
     (let p = \<lparr>base = b, quote = q\<rparr> in res_bind (price_validate p) (\<lambda>_. Inr p))"

definition asset_div :: "asset \<Rightarrow> asset \<Rightarrow> price result" where
  "asset_div b q = fc_assert (symbol b \<noteq> symbol q) (mk_price b q)"

definition price_inverse :: "price \<Rightarrow> price result" where
  "price_inverse p = mk_price (quote p) (base p)"

definition price_max :: "asset_symbol_type \<Rightarrow> asset_symbol_type \<Rightarrow> price result" where
  "price_max b q = asset_div (mk_asset DELTA_MAX_SATOSHIS b) (mk_asset 1 q)"

definition price_min :: "asset_symbol_type \<Rightarrow> asset_symbol_type \<Rightarrow> price result" where
  "price_min b q = asset_div (mk_asset 1 b) (mk_asset DELTA_MAX_SATOSHIS q)"

text \<open>
  The comparison macro: different symbol pairs compare lexicographically by symbol, equal pairs by
  the cross products as unsigned 128-bit numbers.
\<close>

definition cross :: "price \<Rightarrow> price \<Rightarrow> 128 word" where
  "cross a b = word_of_int (amount (quote b)) * word_of_int (amount (base a))"

definition same_market :: "price \<Rightarrow> price \<Rightarrow> bool" where
  "same_market a b \<longleftrightarrow> symbol (base a) = symbol (base b) \<and> symbol (quote a) = symbol (quote b)"

definition market_less :: "price \<Rightarrow> price \<Rightarrow> bool" where
  "market_less a b \<longleftrightarrow> symbol (base a) < symbol (base b) \<or>
     symbol (base a) = symbol (base b) \<and> symbol (quote a) < symbol (quote b)"

definition price_eq :: "price \<Rightarrow> price \<Rightarrow> bool" where
  "price_eq a b = (if \<not> same_market a b then False else cross a b = cross b a)"

definition price_less :: "price \<Rightarrow> price \<Rightarrow> bool" where
  "price_less a b = (if \<not> same_market a b then market_less a b else cross a b < cross b a)"

definition price_le :: "price \<Rightarrow> price \<Rightarrow> bool" where
  "price_le a b = (if \<not> same_market a b then market_less a b else cross a b \<le> cross b a)"

definition price_is_null :: "price \<Rightarrow> bool" where
  "price_is_null p = price_eq p default_price"

section \<open>Conversion at a price\<close>

text \<open>
  The two branches of \<open>operator *\<close>. The 128-bit quotient must fit 64 bits; the amount of the result
  is then constructed from a \<open>uint64_t\<close>, which reads it as \<open>int64_t\<close>.
\<close>

definition convert_at :: "int \<Rightarrow> int \<Rightarrow> int \<Rightarrow> asset_symbol_type \<Rightarrow> asset result" where
  "convert_at a num den s =
     fc_assert (den > 0)
       (let r = (word_of_int a * word_of_int num) div word_of_int den :: 128 word
        in fc_assert (drop_bit 64 r = 0) (Inr (mk_asset (to_int64 (uint r)) s)))"

definition asset_mul_price :: "asset \<Rightarrow> price \<Rightarrow> asset result" where
  "asset_mul_price a p =
     (if symbol a = symbol (base p) then
        convert_at (amount a) (amount (quote p)) (amount (base p)) (symbol (quote p))
      else if symbol a = symbol (quote p) then
        convert_at (amount a) (amount (base p)) (amount (quote p)) (symbol (base p))
      else Inl Assert_Exception)"

definition to_dbd :: "price \<Rightarrow> asset \<Rightarrow> asset result" where
  "to_dbd p delta =
     fc_assert (symbol delta = DELTA_SYMBOL)
       (if price_is_null p then Inr (mk_asset 0 DBD_SYMBOL) else asset_mul_price delta p)"

definition to_delta :: "price \<Rightarrow> asset \<Rightarrow> asset result" where
  "to_delta p dbd =
     fc_assert (symbol dbd = DBD_SYMBOL)
       (if price_is_null p then Inr (mk_asset 0 DELTA_SYMBOL) else asset_mul_price dbd p)"

section \<open>128-bit intermediate values\<close>

lemma asset_sel [simp]: "amount (mk_asset a s) = a" "symbol (mk_asset a s) = s"
  by (simp_all add: mk_asset_def)

lemma uint_word_of_int_128: "0 \<le> x \<Longrightarrow> x < 2 ^ 128 \<Longrightarrow> uint (word_of_int x :: 128 word) = x"
  by (simp add: uint_word_of_int)

lemma word_of_int_mult_128:
  fixes x y :: int
  assumes "0 \<le> x" "x \<le> int64_max" "0 \<le> y" "y \<le> int64_max"
  shows "uint (word_of_int x * word_of_int y :: 128 word) = x * y"
proof -
  have "x * y \<le> int64_max * int64_max" using assms by (intro mult_mono) auto
  then have "x * y < 2 ^ 128" by simp
  then have "uint (word_of_int (x * y) :: 128 word) = x * y" using assms by (intro uint_word_of_int_128) auto
  then show ?thesis by (simp add: wi_hom_syms)
qed

lemma drop_bit_64_eq_0: "drop_bit 64 (r :: 128 word) = 0 \<longleftrightarrow> uint r < 2 ^ 64"
proof -
  have t: "take_bit 128 (uint r) = uint r"
    using unsigned_less [of r] by (intro take_bit_int_eq_self) simp_all
  have "drop_bit 64 r = 0 \<longleftrightarrow> uint (drop_bit 64 r) = 0" by (simp add: uint_0_iff)
  also have "\<dots> \<longleftrightarrow> uint r div 2 ^ 64 = 0" by (simp only: unsigned_drop_bit_eq) (simp add: drop_bit_eq_div t)
  also have "\<dots> \<longleftrightarrow> uint r < 2 ^ 64" by (auto simp: zdiv_eq_0_iff)
  finally show ?thesis .
qed

lemma convert_at_nonneg:
  assumes "0 \<le> a" "a \<le> int64_max" "0 < num" "num \<le> int64_max" "0 < den" "den \<le> int64_max"
  shows "convert_at a num den s =
    (if a * num div den < 2 ^ 64 then Inr (mk_asset (to_int64 (a * num div den)) s) else Inl Assert_Exception)"
proof -
  have "uint (word_of_int a * word_of_int num :: 128 word) = a * num"
    using assms by (intro word_of_int_mult_128) auto
  moreover have "uint (word_of_int den :: 128 word) = den" using assms by (intro uint_word_of_int_128) auto
  ultimately have "uint ((word_of_int a * word_of_int num) div word_of_int den :: 128 word) = a * num div den"
    by (simp add: uint_div)
  then show ?thesis using assms(5) by (simp add: convert_at_def drop_bit_64_eq_0 fc_assert_def)
qed

lemma convert_at_negative:
  assumes "int64_min \<le> a" "a < 0" "0 < num" "num \<le> int64_max" "den \<le> int64_max"
  shows "convert_at a num den s = Inl Assert_Exception"
proof (cases "den > 0")
  case True
  let ?n = "word_of_int a * word_of_int num :: 128 word"
  have prod: "- (2 ^ 126) \<le> a * num" "a * num < 0"
  proof -
    have "- a * num \<le> (2 ^ 63) * int64_max" using assms by (intro mult_mono) simp_all
    then show "- (2 ^ 126) \<le> a * num" by simp
    show "a * num < 0" using assms by (simp add: mult_neg_pos)
  qed
  have "uint ?n = a * num + 2 ^ 128"
  proof -
    have "(word_of_int (a * num) :: 128 word) = word_of_int (a * num + 2 ^ 128)"
      unfolding word_of_int_eq_iff take_bit_eq_mod by simp
    then have "?n = word_of_int (a * num + 2 ^ 128)" by (simp only: wi_hom_mult)
    moreover have "uint (word_of_int (a * num + 2 ^ 128) :: 128 word) = a * num + 2 ^ 128"
      using prod by (intro uint_word_of_int_128) simp_all
    ultimately show ?thesis by (simp only:)
  qed
  moreover have "uint (word_of_int den :: 128 word) = den" using assms True by (intro uint_word_of_int_128) auto
  ultimately have r: "uint (?n div word_of_int den) = (a * num + 2 ^ 128) div den" by (simp add: uint_div)
  have "2 ^ 64 * den \<le> a * num + 2 ^ 128" using prod assms(5) by simp
  then have "2 ^ 64 * den div den \<le> (a * num + 2 ^ 128) div den" using True by (intro zdiv_mono1)
  then have "2 ^ 64 \<le> (a * num + 2 ^ 128) div den" using True by simp
  with r True show ?thesis by (simp add: convert_at_def drop_bit_64_eq_0)
qed (simp add: convert_at_def)

definition wf_price :: "price \<Rightarrow> bool" where
  "wf_price p \<longleftrightarrow> price_validate p = Inr () \<and> amount (base p) \<le> int64_max \<and> amount (quote p) \<le> int64_max"

lemma wf_priceD:
  assumes "wf_price p"
  shows "0 < amount (base p)" "amount (base p) \<le> int64_max" "0 < amount (quote p)" "amount (quote p) \<le> int64_max"
    "symbol (base p) \<noteq> symbol (quote p)"
  using assms by (auto simp: wf_price_def price_validate_def)

lemma uint_cross:
  "wf_price a \<Longrightarrow> wf_price b \<Longrightarrow> uint (cross a b) = amount (base a) * amount (quote b)"
  unfolding cross_def by (subst word_of_int_mult_128) (auto dest: wf_priceD simp: mult.commute)

lemma to_int64_uint64:
  "0 \<le> x \<Longrightarrow> x < 2 ^ 64 \<Longrightarrow> to_int64 x = (if x \<le> int64_max then x else x - 2 ^ 64)"
proof -
  assume x: "0 \<le> x" "x < 2 ^ 64"
  show ?thesis
  proof (cases "x \<le> int64_max")
    case True with x show ?thesis by (simp add: to_int64_id in_int64_def)
  next
    case False
    have "(word_of_int (x - 2 ^ 64) :: 64 word) = word_of_int x"
      unfolding word_of_int_eq_iff take_bit_eq_mod by simp
    then have "to_int64 x = to_int64 (x - 2 ^ 64)" by (simp only: to_int64_def)
    also have "\<dots> = x - 2 ^ 64" using x False by (intro to_int64_id) (simp add: in_int64_def)
    finally show ?thesis using False by simp
  qed
qed

lemma asset_mul_price_eq:
  assumes "wf_price p" "in_int64 (amount a)" "symbol a = symbol (base p)"
  shows "asset_mul_price a p =
    (let q = amount a * amount (quote p) div amount (base p)
     in if amount a < 0 \<or> 2 ^ 64 \<le> q then Inl Assert_Exception
        else if q \<le> int64_max then Inr (mk_asset q (symbol (quote p)))
        else Inr (mk_asset (q - 2 ^ 64) (symbol (quote p))))"
proof -
  note p = wf_priceD [OF assms(1)]
  have nonneg: "0 \<le> amount a * amount (quote p) div amount (base p)" if "0 \<le> amount a"
    using that p by (simp add: pos_imp_zdiv_nonneg_iff)
  show ?thesis
  proof (cases "amount a < 0")
    case True
    then show ?thesis using assms p by (simp add: asset_mul_price_def convert_at_negative in_int64_def)
  next
    case False
    then show ?thesis using assms p nonneg
      by (simp add: asset_mul_price_def convert_at_nonneg in_int64_def Let_def to_int64_uint64)
  qed
qed

text \<open>
  C15: Converting an amount at a valid price returns the product with the quote amount divided by
  the base amount, rounded down; it throws for negative amounts and for results of \<open>2 ^ 64\<close>
  and more. Results from \<open>2 ^ 63\<close> to \<open>2 ^ 64 - 1\<close> pass the check and come out negative.
\<close>

theorem asset_mul_price_floor:
  assumes "wf_price p" "in_int64 (amount a)" "symbol a = symbol (base p)"
  shows "asset_mul_price a p =
    (let q = amount a * amount (quote p) div amount (base p)
     in if amount a < 0 \<or> 2 ^ 64 \<le> q then Inl Assert_Exception
        else if q \<le> int64_max then Inr (mk_asset q (symbol (quote p)))
        else Inr (mk_asset (q - 2 ^ 64) (symbol (quote p))))"
  by (rule asset_mul_price_eq [OF assms])

theorem asset_mul_price_floor_witness:
  "asset_mul_price (mk_asset 10 DELTA_SYMBOL) \<lparr>base = mk_asset 3 DELTA_SYMBOL, quote = mk_asset 2 DBD_SYMBOL\<rparr>
    = Inr (mk_asset 6 DBD_SYMBOL)"
  using asset_mul_price_floor [of "\<lparr>base = mk_asset 3 DELTA_SYMBOL, quote = mk_asset 2 DBD_SYMBOL\<rparr>"
      "mk_asset 10 DELTA_SYMBOL"]
  by (simp add: wf_price_def price_validate_def in_int64_def asset_num_values)

lemma asset_mul_price_quote:
  "symbol (base p) \<noteq> symbol (quote p) \<Longrightarrow> symbol a = symbol (quote p) \<Longrightarrow>
    asset_mul_price a p = asset_mul_price a \<lparr>base = quote p, quote = base p\<rparr>"
  by (simp add: asset_mul_price_def)

lemma mul_div_no_gain:
  fixes a b c :: int
  assumes "0 \<le> a" "0 < b" "0 < c"
  shows "(a * b div c) * c div b \<le> a"
proof -
  have "(a * b div c) * c \<le> a * b"
    using assms(3) minus_mod_eq_div_mult [of "a * b" c, symmetric] by simp
  then have "(a * b div c) * c div b \<le> a * b div b" using assms by (intro zdiv_mono1)
  then show ?thesis using assms by simp
qed

lemma asset_mul_price_Inr:
  assumes "wf_price p" "in_int64 (amount a)" "symbol a = symbol (base p)" "asset_mul_price a p = Inr b"
  shows "0 \<le> amount a" "symbol b = symbol (quote p)" "in_int64 (amount b)"
    "0 \<le> amount b \<Longrightarrow> amount b = amount a * amount (quote p) div amount (base p)"
proof -
  let ?q = "amount a * amount (quote p) div amount (base p)"
  from assms(4) have r: "0 \<le> amount a" "?q < 2 ^ 64" "symbol b = symbol (quote p)"
    "amount b = (if ?q \<le> int64_max then ?q else ?q - 2 ^ 64)"
    unfolding asset_mul_price_eq [OF assms(1-3)] by (auto simp: Let_def split: if_splits)
  moreover have "0 \<le> ?q" using r(1) wf_priceD [OF assms(1)] by (simp add: pos_imp_zdiv_nonneg_iff)
  ultimately show "0 \<le> amount a" "symbol b = symbol (quote p)" "in_int64 (amount b)"
    "0 \<le> amount b \<Longrightarrow> amount b = ?q" by (auto simp: in_int64_def split: if_splits)
qed

lemma wf_price_flip: "wf_price p \<Longrightarrow> wf_price \<lparr>base = quote p, quote = base p\<rparr>"
  by (auto simp: wf_price_def price_validate_def)

lemma convert_back_no_gain:
  assumes "wf_price p" "in_int64 (amount a)" "symbol a = symbol (base p)"
    "asset_mul_price a p = Inr b" "asset_mul_price b p = Inr c"
  shows "symbol c = symbol a \<and> amount c \<le> amount a"
proof -
  let ?q = "\<lparr>base = quote p, quote = base p\<rparr>"
  note p = wf_priceD [OF assms(1)] and b = asset_mul_price_Inr [OF assms(1-4)]
  have "asset_mul_price b ?q = Inr c" using assms(5) b(2) p(5) asset_mul_price_quote by metis
  with b wf_price_flip [OF assms(1)] have c: "0 \<le> amount b" "symbol c = symbol (base p)"
    "0 \<le> amount c \<Longrightarrow> amount c = amount b * amount (base p) div amount (quote p)"
    using asset_mul_price_Inr [of ?q b c] by simp_all
  have "amount c \<le> amount a"
  proof (cases "0 \<le> amount c")
    case True
    then show ?thesis using b c p mul_div_no_gain [of "amount a" "amount (quote p)" "amount (base p)"] by simp
  qed (use b in simp)
  then show ?thesis using c assms(3) by simp
qed

text \<open>
  C16: Converting an amount at a valid price and converting the result back never gives more than
  the original amount, in either direction of the price.
\<close>

theorem conversion_round_trip_no_gain:
  assumes "wf_price p" "in_int64 (amount a)" "asset_mul_price a p = Inr b" "asset_mul_price b p = Inr c"
  shows "symbol c = symbol a \<and> amount c \<le> amount a"
proof (cases "symbol a = symbol (base p)")
  case True
  then show ?thesis using convert_back_no_gain assms by blast
next
  case False
  let ?q = "\<lparr>base = quote p, quote = base p\<rparr>"
  have q: "symbol a = symbol (quote p)" using assms(3) False by (auto simp: asset_mul_price_def split: if_splits)
  have flip: "asset_mul_price x ?q = asset_mul_price x p" for x
    using wf_priceD(5) [OF assms(1)] by (auto simp: asset_mul_price_def)
  show ?thesis
    by (rule convert_back_no_gain [OF wf_price_flip [OF assms(1)] assms(2)]) (use q flip assms in simp_all)
qed

theorem conversion_round_trip_no_gain_witness:
  "let p = \<lparr>base = mk_asset 3 DELTA_SYMBOL, quote = mk_asset 2 DBD_SYMBOL\<rparr>
   in asset_mul_price (mk_asset 10 DELTA_SYMBOL) p = Inr (mk_asset 6 DBD_SYMBOL) \<and>
      asset_mul_price (mk_asset 6 DBD_SYMBOL) p = Inr (mk_asset 9 DELTA_SYMBOL) \<and> (9 :: int) \<le> 10"
proof -
  let ?p = "\<lparr>base = mk_asset 3 DELTA_SYMBOL, quote = mk_asset 2 DBD_SYMBOL\<rparr>"
  have wf: "wf_price ?p" by (simp add: wf_price_def price_validate_def asset_num_values)
  have 1: "asset_mul_price (mk_asset 10 DELTA_SYMBOL) ?p = Inr (mk_asset 6 DBD_SYMBOL)"
    "asset_mul_price (mk_asset 6 DBD_SYMBOL) ?p = Inr (mk_asset 9 DELTA_SYMBOL)"
    by (simp_all add: asset_mul_price_def convert_at_def asset_num_values to_int64_id in_int64_def)
  show ?thesis
    using conversion_round_trip_no_gain [OF wf _ 1] 1 by (simp add: in_int64_def)
qed

lemma price_less_iff:
  assumes "wf_price a" "wf_price b" "same_market a b"
  shows "price_less a b \<longleftrightarrow> amount (base a) * amount (quote b) < amount (base b) * amount (quote a)"
    "price_le a b \<longleftrightarrow> amount (base a) * amount (quote b) \<le> amount (base b) * amount (quote a)"
    "price_eq a b \<longleftrightarrow> amount (base a) * amount (quote b) = amount (base b) * amount (quote a)"
  using assms by (auto simp: price_less_def price_le_def price_eq_def word_less_def word_le_def
    word_uint_eq_iff uint_cross)

lemma cross_trans:
  fixes a b c d e f :: int
  assumes "0 < a" "0 < b" "0 < c" "0 < d" "0 < e" "0 < f"
  shows "a * d < c * b \<Longrightarrow> c * f \<le> e * d \<Longrightarrow> a * f < e * b"
    and "a * d \<le> c * b \<Longrightarrow> c * f < e * d \<Longrightarrow> a * f < e * b"
    and "a * d \<le> c * b \<Longrightarrow> c * f \<le> e * d \<Longrightarrow> a * f \<le> e * b"
proof -
  have d: "x * d < y * d \<longleftrightarrow> x < y" "x * d \<le> y * d \<longleftrightarrow> x \<le> y" for x y using assms(4) by simp_all
  show "a * f < e * b" if "a * d < c * b" "c * f \<le> e * d"
  proof -
    have "(a * f) * d < (c * b) * f" using that(1) assms(6) by (simp add: ac_simps)
    also have "\<dots> \<le> (e * b) * d" using mult_right_mono [OF that(2), of b] assms(2) by (simp add: ac_simps)
    finally show ?thesis by (simp only: d)
  qed
  show "a * f < e * b" if "a * d \<le> c * b" "c * f < e * d"
  proof -
    have "(a * f) * d \<le> (c * b) * f" using mult_right_mono [OF that(1), of f] assms(6) by (simp add: ac_simps)
    also have "\<dots> < (e * b) * d" using mult_strict_right_mono [OF that(2) assms(2)] by (simp add: ac_simps)
    finally show ?thesis by (simp only: d)
  qed
  show "a * f \<le> e * b" if "a * d \<le> c * b" "c * f \<le> e * d"
  proof -
    have "(a * f) * d \<le> (c * b) * f" using mult_right_mono [OF that(1), of f] assms(6) by (simp add: ac_simps)
    also have "\<dots> \<le> (e * b) * d" using mult_right_mono [OF that(2), of b] assms(2) by (simp add: ac_simps)
    finally show ?thesis by (simp only: d)
  qed
qed

lemma price_less_cases:
  "price_less a b \<longleftrightarrow> market_less a b \<or> same_market a b \<and> cross a b < cross b a"
  by (auto simp: price_less_def same_market_def market_less_def)

lemma same_market_cross_trans:
  assumes wf: "wf_price a" "wf_price b" "wf_price c" and same: "same_market a b" "same_market b c"
  shows "price_less a b \<Longrightarrow> \<not> price_less c b \<Longrightarrow> price_less a c"
    and "\<not> price_less b a \<Longrightarrow> price_less b c \<Longrightarrow> price_less a c"
proof -
  have m: "same_market a c" "same_market c b" "same_market b a"
    using same by (simp_all add: same_market_def)
  note pos = wf_priceD(1,3) [OF wf(1)] wf_priceD(1,3) [OF wf(2)] wf_priceD(1,3) [OF wf(3)]
  show "price_less a b \<Longrightarrow> \<not> price_less c b \<Longrightarrow> price_less a c"
    unfolding price_less_iff(1) [OF wf(1,2) same(1)] price_less_iff(1) [OF wf(3,2) m(2)]
      price_less_iff(1) [OF wf(1,3) m(1)] not_less
    by (rule cross_trans(1) [OF pos])
  show "\<not> price_less b a \<Longrightarrow> price_less b c \<Longrightarrow> price_less a c"
    unfolding price_less_iff(1) [OF wf(2,1) m(3)] price_less_iff(1) [OF wf(2,3) same(2)]
      price_less_iff(1) [OF wf(1,3) m(1)] not_less
    by (rule cross_trans(2) [OF pos])
qed

interpretation price_order: strict_weak_order wf_price price_less
proof
  fix a b c
  show "\<not> price_less a a" by (simp add: price_less_def same_market_def)
  assume wf: "wf_price a" "wf_price b" "wf_price c"
  show "price_less a c" if "price_less a b" "price_less b c"
  proof (cases "same_market a b \<and> same_market b c")
    case True
    then have "\<not> price_less c b" using that(2) wf by (auto simp: price_less_iff same_market_def)
    with True show ?thesis using same_market_cross_trans(1) [OF wf] that(1) by blast
  next
    case False
    with that show ?thesis by (auto simp: price_less_cases same_market_def market_less_def)
  qed
  show "price_less a b \<or> price_less b c" if "price_less a c"
  proof (cases "same_market a b \<and> same_market b c")
    case True
    then have "same_market b a" "same_market a c" by (auto simp: same_market_def)
    with wf that show ?thesis using same_market_cross_trans(2) [of b a c] by blast
  next
    case False
    with that show ?thesis by (auto simp: price_less_cases same_market_def market_less_def)
  qed
qed



lemma is_null_iff: "price_is_null p \<longleftrightarrow> symbol (base p) = DELTA_SYMBOL \<and> symbol (quote p) = DELTA_SYMBOL"
  by (auto simp: price_is_null_def price_eq_def same_market_def cross_def default_price_def default_asset_def)

lemma wf_price_not_null: "wf_price p \<Longrightarrow> \<not> price_is_null p"
  by (auto simp: is_null_iff dest: wf_priceD(5))

lemma price_bounds:
  assumes "wf_price p" "amount (base p) \<le> DELTA_MAX_SATOSHIS" "amount (quote p) \<le> DELTA_MAX_SATOSHIS"
    "price_max (symbol (base p)) (symbol (quote p)) = Inr hi" "price_min (symbol (base p)) (symbol (quote p)) = Inr lo"
  shows "price_le lo p \<and> price_le p hi"
proof -
  have lo: "lo = \<lparr>base = mk_asset 1 (symbol (base p)), quote = mk_asset DELTA_MAX_SATOSHIS (symbol (quote p))\<rparr>"
   and hi: "hi = \<lparr>base = mk_asset DELTA_MAX_SATOSHIS (symbol (base p)), quote = mk_asset 1 (symbol (quote p))\<rparr>"
    using assms(4,5) by (auto simp: price_max_def price_min_def asset_div_def mk_price_def Let_def)
  have wf: "wf_price lo" "wf_price hi" "same_market lo p" "same_market p hi"
    using wf_priceD [OF assms(1)] by (simp_all add: lo hi wf_price_def price_validate_def same_market_def)
  note p = wf_priceD [OF assms(1)]
  have "amount (quote p) \<le> amount (base p) * DELTA_MAX_SATOSHIS" "amount (base p) \<le> DELTA_MAX_SATOSHIS * amount (quote p)"
    using assms(2,3) p(1,3) by simp_all
  then show ?thesis using wf assms(1) by (simp add: price_less_iff lo hi)
qed

end
