(* ===== verification/Operations.thy ===== *)
theory Operations
  imports Authority Utf8 Asset_Price
begin

text \<open>
  The operations of \<open>libraries/protocol\<close> (\<open>delta_operations.hpp\<close>, \<open>delta_operations.cpp\<close>,
  \<open>validation.hpp\<close>): one record per operation with the members of the struct, and its \<open>validate\<close>
  as the sequence of its assertions. Hashing, signatures, the equihash check and the JSON parser
  are members of the record \<open>crypto\<close>, which the definitions that use them take as an argument. The
  network is the live one, without smart media tokens.
\<close>

section \<open>Sequences of assertions\<close>

definition check :: "bool \<Rightarrow> unit result" where
  "check c = fc_assert c (Inr ())"

fun res_seq :: "unit result list \<Rightarrow> unit result" where
  "res_seq [] = Inr ()"
| "res_seq (r # rs) = res_bind r (\<lambda>_. res_seq rs)"

lemma check_iff [simp]: "check c = Inr u \<longleftrightarrow> c"
  by (simp add: check_def)

lemma res_seq_iff: "res_seq rs = Inr u \<longleftrightarrow> (\<forall>r \<in> set rs. r = Inr ())"
  by (induction rs) (auto simp: res_bind_eq_Inr)

definition only_if :: "bool \<Rightarrow> unit result \<Rightarrow> unit result" where
  "only_if c r = (if c then r else Inr ())"

lemma only_if_iff [simp]: "only_if c r = Inr u \<longleftrightarrow> (c \<longrightarrow> r = Inr ())"
  by (simp add: only_if_def)

section \<open>What the operations take from other libraries\<close>

type_synonym sha256 = "64 word list"
type_synonym signature_type = "byte list"
type_synonym block_id_type = "32 word list"
type_synonym time_point_sec = nat
type_synonym extensions_type = "unit list"

record pow2_input =
  pi_worker_account :: account_name_type
  pi_prev_block :: block_id_type
  pi_nonce :: "64 word"

record equihash_proof =
  ep_n :: "32 word"
  ep_k :: "32 word"
  ep_seed :: sha256
  ep_inputs :: "32 word list"

record signed_block_header =
  bh_previous :: block_id_type
  bh_timestamp :: time_point_sec
  bh_witness :: string
  bh_transaction_merkle_root :: "32 word list"
  bh_witness_signature :: signature_type

record 'k crypto =
  json_is_valid :: "string \<Rightarrow> bool"
  hash_block_id :: "block_id_type \<Rightarrow> sha256"
  hash_digest :: "sha256 \<Rightarrow> sha256"
  hash_signature :: "signature_type \<Rightarrow> sha256"
  hash_key :: "'k \<Rightarrow> sha256"
  hash_digest_key :: "sha256 \<Rightarrow> 'k \<Rightarrow> sha256"
  hash_pow2_input :: "pow2_input \<Rightarrow> sha256"
  hash_words :: "32 word list \<Rightarrow> sha256"
  approx_log_32 :: "sha256 \<Rightarrow> 32 word"
  sign_compact :: "sha256 \<Rightarrow> sha256 \<Rightarrow> signature_type"
  recover_key :: "bool \<Rightarrow> signature_type \<Rightarrow> sha256 \<Rightarrow> 'k result"
  proof_is_valid :: "equihash_proof \<Rightarrow> bool"
  header_signee :: "signed_block_header \<Rightarrow> 'k result"
  header_id :: "signed_block_header \<Rightarrow> block_id_type"
  unpack_key :: "byte list \<Rightarrow> 'k result"
  null_key :: 'k

section \<open>Common checks\<close>

abbreviation (input) DELTA_100_PERCENT :: nat where "DELTA_100_PERCENT \<equiv> 10000"
abbreviation (input) DELTA_MAX_MEMO_SIZE :: nat where "DELTA_MAX_MEMO_SIZE \<equiv> 2048"
abbreviation (input) DELTA_MAX_PERMLINK_LENGTH :: nat where "DELTA_MAX_PERMLINK_LENGTH \<equiv> 256"
abbreviation (input) DELTA_MAX_WITNESS_URL_LENGTH :: nat where "DELTA_MAX_WITNESS_URL_LENGTH \<equiv> 2048"
abbreviation (input) DELTA_MAX_AUTHORITY_MEMBERSHIP :: nat where "DELTA_MAX_AUTHORITY_MEMBERSHIP \<equiv> 40"
abbreviation (input) DELTA_MIN_ACCOUNT_CREATION_FEE :: int where "DELTA_MIN_ACCOUNT_CREATION_FEE \<equiv> 1"
abbreviation (input) DELTA_MAX_ACCOUNT_CREATION_FEE :: int where "DELTA_MAX_ACCOUNT_CREATION_FEE \<equiv> 1000000000"
abbreviation (input) DELTA_MIN_BLOCK_SIZE_LIMIT :: nat where "DELTA_MIN_BLOCK_SIZE_LIMIT \<equiv> 65536"
abbreviation (input) DELTA_RD_MIN_BUDGET :: int where "DELTA_RD_MIN_BUDGET \<equiv> 1"
abbreviation (input) DELTA_RD_MAX_BUDGET :: int where "DELTA_RD_MAX_BUDGET \<equiv> 268435455"
abbreviation (input) DELTA_RD_MIN_DECAY :: nat where "DELTA_RD_MIN_DECAY \<equiv> 64"
abbreviation (input) DELTA_RD_MAX_DECAY :: nat where "DELTA_RD_MAX_DECAY \<equiv> 4294967295"
abbreviation (input) DELTA_EQUIHASH_N :: "32 word" where "DELTA_EQUIHASH_N \<equiv> 140"
abbreviation (input) DELTA_EQUIHASH_K :: "32 word" where "DELTA_EQUIHASH_K \<equiv> 6"

definition is_asset_type :: "asset \<Rightarrow> asset_symbol_type \<Rightarrow> bool" where
  "is_asset_type a s \<longleftrightarrow> symbol a = s"

definition validate_account_name :: "account_name_type \<Rightarrow> unit result" where
  "validate_account_name name = check (is_valid_account_name name)"

definition validate_permlink :: "string \<Rightarrow> unit result" where
  "validate_permlink permlink = res_seq [check (length permlink < DELTA_MAX_PERMLINK_LENGTH), check (is_utf8 permlink)]"

definition validate_auth_size :: "'k authority \<Rightarrow> unit result" where
  "validate_auth_size a = check (length (account_auths a) + length (key_auths a) \<le> DELTA_MAX_AUTHORITY_MEMBERSHIP)"

text \<open>The block that guards a metadata member, and \<open>a >= asset( n, s )\<close>, which throws on other symbols.\<close>

definition validate_json :: "'k crypto \<Rightarrow> string \<Rightarrow> unit result" where
  "validate_json cr json = only_if (length json > 0) (res_seq [check (is_utf8 json), check (json_is_valid cr json)])"

definition check_asset_ge :: "asset \<Rightarrow> int \<Rightarrow> asset_symbol_type \<Rightarrow> unit result" where
  "check_asset_ge a n s = res_bind (asset_le (mk_asset n s) a) check"

definition check_asset_le :: "asset \<Rightarrow> int \<Rightarrow> asset_symbol_type \<Rightarrow> unit result" where
  "check_asset_le a n s = res_bind (asset_le a (mk_asset n s)) check"

lemma validate_account_name_iff [simp]: "validate_account_name n = Inr u \<longleftrightarrow> is_valid_account_name n"
  by (simp add: validate_account_name_def)

lemma check_asset_iff [simp]:
  "check_asset_ge a n s = Inr u \<longleftrightarrow> symbol a = s \<and> n \<le> amount a"
  "check_asset_le a n s = Inr u \<longleftrightarrow> symbol a = s \<and> amount a \<le> n"
  by (auto simp: check_asset_ge_def check_asset_le_def asset_le_def mk_asset_def res_bind_eq_Inr)

section \<open>Accounts\<close>

record 'k account_create_operation =
  ac_fee :: asset
  ac_creator :: account_name_type
  ac_new_account_name :: account_name_type
  ac_owner :: "'k authority"
  ac_active :: "'k authority"
  ac_posting :: "'k authority"
  ac_memo_key :: 'k
  ac_json_metadata :: string

definition account_create_validate :: "'k crypto \<Rightarrow> 'k account_create_operation \<Rightarrow> unit result" where
  "account_create_validate cr op = res_seq
     [validate_account_name (ac_new_account_name op),
      check (is_asset_type (ac_fee op) DELTA_SYMBOL),
      authority_validate (ac_owner op),
      authority_validate (ac_active op),
      validate_json cr (ac_json_metadata op),
      check_asset_ge (ac_fee op) 0 DELTA_SYMBOL]"

record 'k account_create_with_delegation_operation =
  ad_fee :: asset
  ad_delegation :: asset
  ad_creator :: account_name_type
  ad_new_account_name :: account_name_type
  ad_owner :: "'k authority"
  ad_active :: "'k authority"
  ad_posting :: "'k authority"
  ad_memo_key :: 'k
  ad_json_metadata :: string
  ad_extensions :: extensions_type

definition account_create_with_delegation_validate ::
  "'k crypto \<Rightarrow> 'k account_create_with_delegation_operation \<Rightarrow> unit result" where
  "account_create_with_delegation_validate cr op = res_seq
     [validate_account_name (ad_new_account_name op),
      validate_account_name (ad_creator op),
      check (is_asset_type (ad_fee op) DELTA_SYMBOL),
      check (is_asset_type (ad_delegation op) VESTS_SYMBOL),
      authority_validate (ad_owner op),
      authority_validate (ad_active op),
      authority_validate (ad_posting op),
      validate_json cr (ad_json_metadata op),
      check_asset_ge (ad_fee op) 0 DELTA_SYMBOL,
      check_asset_ge (ad_delegation op) 0 VESTS_SYMBOL]"

record 'k account_update_operation =
  au_account :: account_name_type
  au_owner :: "'k authority option"
  au_active :: "'k authority option"
  au_posting :: "'k authority option"
  au_memo_key :: 'k
  au_json_metadata :: string

definition account_update_validate :: "'k crypto \<Rightarrow> 'k account_update_operation \<Rightarrow> unit result" where
  "account_update_validate cr op = res_seq
     [validate_account_name (au_account op), validate_json cr (au_json_metadata op)]"

record claim_account_operation =
  ca_creator :: account_name_type
  ca_fee :: asset
  ca_extensions :: extensions_type

definition claim_account_validate :: "claim_account_operation \<Rightarrow> unit result" where
  "claim_account_validate op = res_seq
     [validate_account_name (ca_creator op),
      check (is_asset_type (ca_fee op) DELTA_SYMBOL),
      check_asset_ge (ca_fee op) 0 DELTA_SYMBOL,
      check_asset_le (ca_fee op) DELTA_MAX_ACCOUNT_CREATION_FEE DELTA_SYMBOL,
      check (length (ca_extensions op) = 0)]"

record 'k create_claimed_account_operation =
  cc_creator :: account_name_type
  cc_new_account_name :: account_name_type
  cc_owner :: "'k authority"
  cc_active :: "'k authority"
  cc_posting :: "'k authority"
  cc_memo_key :: 'k
  cc_json_metadata :: string
  cc_extensions :: extensions_type

definition create_claimed_account_validate :: "'k crypto \<Rightarrow> 'k create_claimed_account_operation \<Rightarrow> unit result" where
  "create_claimed_account_validate cr op = res_seq
     [validate_account_name (cc_creator op),
      validate_account_name (cc_new_account_name op),
      authority_validate (cc_owner op),
      authority_validate (cc_active op),
      authority_validate (cc_posting op),
      validate_auth_size (cc_owner op),
      validate_auth_size (cc_active op),
      validate_auth_size (cc_posting op),
      validate_json cr (cc_json_metadata op),
      check (length (cc_extensions op) = 0)]"

record 'k request_account_recovery_operation =
  rr_recovery_account :: account_name_type
  rr_account_to_recover :: account_name_type
  rr_new_owner_authority :: "'k authority"
  rr_extensions :: extensions_type

definition request_account_recovery_validate :: "'k request_account_recovery_operation \<Rightarrow> unit result" where
  "request_account_recovery_validate op = res_seq
     [validate_account_name (rr_recovery_account op),
      validate_account_name (rr_account_to_recover op),
      authority_validate (rr_new_owner_authority op)]"

record 'k recover_account_operation =
  ra_account_to_recover :: account_name_type
  ra_new_owner_authority :: "'k authority"
  ra_recent_owner_authority :: "'k authority"
  ra_extensions :: extensions_type

definition recover_account_validate :: "'k recover_account_operation \<Rightarrow> unit result" where
  "recover_account_validate op = res_seq
     [validate_account_name (ra_account_to_recover op),
      check (ra_new_owner_authority op \<noteq> ra_recent_owner_authority op),
      check (\<not> is_impossible (ra_new_owner_authority op)),
      check (\<not> is_impossible (ra_recent_owner_authority op)),
      check (weight_threshold (ra_new_owner_authority op) \<noteq> 0),
      authority_validate (ra_new_owner_authority op),
      authority_validate (ra_recent_owner_authority op)]"

record change_recovery_account_operation =
  cr_account_to_recover :: account_name_type
  cr_new_recovery_account :: account_name_type
  cr_extensions :: extensions_type

definition change_recovery_account_validate :: "change_recovery_account_operation \<Rightarrow> unit result" where
  "change_recovery_account_validate op = res_seq
     [validate_account_name (cr_account_to_recover op), validate_account_name (cr_new_recovery_account op)]"

record 'k reset_account_operation =
  rs_reset_account :: account_name_type
  rs_account_to_reset :: account_name_type
  rs_new_owner_authority :: "'k authority"

definition reset_account_validate :: "'k reset_account_operation \<Rightarrow> unit result" where
  "reset_account_validate op = res_seq
     [validate_account_name (rs_reset_account op),
      validate_account_name (rs_account_to_reset op),
      check (\<not> is_impossible (rs_new_owner_authority op)),
      check (weight_threshold (rs_new_owner_authority op) \<noteq> 0),
      authority_validate (rs_new_owner_authority op)]"

record set_reset_account_operation =
  sr_account :: account_name_type
  sr_current_reset_account :: account_name_type
  sr_reset_account :: account_name_type

definition set_reset_account_validate :: "set_reset_account_operation \<Rightarrow> unit result" where
  "set_reset_account_validate op = res_seq
     [validate_account_name (sr_account op),
      only_if (length (sr_current_reset_account op) \<noteq> 0) (validate_account_name (sr_current_reset_account op)),
      validate_account_name (sr_reset_account op),
      check (sr_current_reset_account op \<noteq> sr_reset_account op)]"

record decline_voting_rights_operation =
  dv_account :: account_name_type
  dv_decline :: bool

definition decline_voting_rights_validate :: "decline_voting_rights_operation \<Rightarrow> unit result" where
  "decline_voting_rights_validate op = validate_account_name (dv_account op)"

section \<open>Comments and votes\<close>

record comment_operation =
  co_parent_author :: account_name_type
  co_parent_permlink :: string
  co_author :: account_name_type
  co_permlink :: string
  co_title :: string
  co_body :: string
  co_json_metadata :: string

definition comment_validate :: "'k crypto \<Rightarrow> comment_operation \<Rightarrow> unit result" where
  "comment_validate cr op = res_seq
     [check (length (co_title op) < 256),
      check (is_utf8 (co_title op)),
      check (length (co_body op) > 0),
      check (is_utf8 (co_body op)),
      only_if (length (co_parent_author op) \<noteq> 0) (validate_account_name (co_parent_author op)),
      validate_account_name (co_author op),
      validate_permlink (co_parent_permlink op),
      validate_permlink (co_permlink op),
      only_if (length (co_json_metadata op) > 0) (check (json_is_valid cr (co_json_metadata op)))]"

record beneficiary_route_type =
  br_account :: account_name_type
  br_weight :: "16 word"

definition beneficiary_less :: "beneficiary_route_type \<Rightarrow> beneficiary_route_type \<Rightarrow> bool" where
  "beneficiary_less a b \<longleftrightarrow> br_account a < br_account b"

text \<open>The loop over the beneficiaries after the first, with the 32-bit running sum.\<close>

fun validate_beneficiaries_from :: "beneficiary_route_type \<Rightarrow> 32 word \<Rightarrow> beneficiary_route_type list \<Rightarrow> unit result" where
  "validate_beneficiaries_from prev acc [] = Inr ()"
| "validate_beneficiaries_from prev acc (b # bs) =
     res_bind (validate_account_name (br_account b)) (\<lambda>_.
     fc_assert (unat (br_weight b) \<le> DELTA_100_PERCENT)
       (let acc = acc + ucast (br_weight b)
        in fc_assert (unat acc \<le> DELTA_100_PERCENT)
             (fc_assert (beneficiary_less prev b) (validate_beneficiaries_from b acc bs))))"

definition comment_payout_beneficiaries_validate :: "beneficiary_route_type list \<Rightarrow> unit result" where
  "comment_payout_beneficiaries_validate beneficiaries =
     fc_assert (length beneficiaries \<noteq> 0)
      (fc_assert (length beneficiaries < 128)
       (let b0 = hd beneficiaries
        in res_bind (validate_account_name (br_account b0)) (\<lambda>_.
           fc_assert (unat (br_weight b0) \<le> DELTA_100_PERCENT)
            (let acc = ucast (br_weight b0) :: 32 word
             in fc_assert (unat acc \<le> DELTA_100_PERCENT)
                  (validate_beneficiaries_from b0 acc (tl beneficiaries))))))"

record comment_options_operation =
  cp_author :: account_name_type
  cp_permlink :: string
  cp_max_accepted_payout :: asset
  cp_percent_delta_dollars :: "16 word"
  cp_allow_votes :: bool
  cp_allow_curation_rewards :: bool
  cp_extensions :: "beneficiary_route_type list list"

definition comment_options_validate :: "comment_options_operation \<Rightarrow> unit result" where
  "comment_options_validate op = res_seq
     ([validate_account_name (cp_author op),
       check (unat (cp_percent_delta_dollars op) \<le> DELTA_100_PERCENT),
       check (symbol (cp_max_accepted_payout op) = DBD_SYMBOL),
       check (amount (cp_max_accepted_payout op) \<ge> 0),
       validate_permlink (cp_permlink op)] @
      map comment_payout_beneficiaries_validate (cp_extensions op))"

record delete_comment_operation =
  dc_author :: account_name_type
  dc_permlink :: string

definition delete_comment_validate :: "delete_comment_operation \<Rightarrow> unit result" where
  "delete_comment_validate op = res_seq [validate_permlink (dc_permlink op), validate_account_name (dc_author op)]"

record vote_operation =
  vo_voter :: account_name_type
  vo_author :: account_name_type
  vo_permlink :: string
  vo_weight :: "16 word"

definition vote_validate :: "vote_operation \<Rightarrow> unit result" where
  "vote_validate op = res_seq
     [validate_account_name (vo_voter op),
      validate_account_name (vo_author op),
      check (abs (sint (vo_weight op)) \<le> int DELTA_100_PERCENT),
      validate_permlink (vo_permlink op)]"

section \<open>Transfers, vesting and savings\<close>

record transfer_operation =
  tr_from :: account_name_type
  tr_to :: account_name_type
  tr_amount :: asset
  tr_memo :: string

definition transfer_validate :: "transfer_operation \<Rightarrow> unit result" where
  "transfer_validate op = res_seq
     [validate_account_name (tr_from op),
      validate_account_name (tr_to op),
      check (symbol (tr_amount op) \<noteq> VESTS_SYMBOL),
      check (amount (tr_amount op) > 0),
      check (length (tr_memo op) < DELTA_MAX_MEMO_SIZE),
      check (is_utf8 (tr_memo op))]"

record transfer_to_vesting_operation =
  tv_from :: account_name_type
  tv_to :: account_name_type
  tv_amount :: asset

definition transfer_to_vesting_validate :: "transfer_to_vesting_operation \<Rightarrow> unit result" where
  "transfer_to_vesting_validate op = res_seq
     [validate_account_name (tv_from op),
      check (symbol (tv_amount op) = DELTA_SYMBOL \<or>
             space (symbol (tv_amount op)) = smt_nai_space \<and> \<not> is_vesting (symbol (tv_amount op))),
      only_if (tv_to op \<noteq> '''') (validate_account_name (tv_to op)),
      check (amount (tv_amount op) > 0)]"

record withdraw_vesting_operation =
  wv_account :: account_name_type
  wv_vesting_shares :: asset

definition withdraw_vesting_validate :: "withdraw_vesting_operation \<Rightarrow> unit result" where
  "withdraw_vesting_validate op = res_seq
     [validate_account_name (wv_account op), check (is_asset_type (wv_vesting_shares op) VESTS_SYMBOL)]"

record set_withdraw_vesting_route_operation =
  sw_from_account :: account_name_type
  sw_to_account :: account_name_type
  sw_percent :: "16 word"
  sw_auto_vest :: bool

definition set_withdraw_vesting_route_validate :: "set_withdraw_vesting_route_operation \<Rightarrow> unit result" where
  "set_withdraw_vesting_route_validate op = res_seq
     [validate_account_name (sw_from_account op),
      validate_account_name (sw_to_account op),
      check (0 \<le> unat (sw_percent op) \<and> unat (sw_percent op) \<le> DELTA_100_PERCENT)]"

record transfer_to_savings_operation =
  ts_from :: account_name_type
  ts_to :: account_name_type
  ts_amount :: asset
  ts_memo :: string

definition transfer_to_savings_validate :: "transfer_to_savings_operation \<Rightarrow> unit result" where
  "transfer_to_savings_validate op = res_seq
     [validate_account_name (ts_from op),
      validate_account_name (ts_to op),
      check (amount (ts_amount op) > 0),
      check (symbol (ts_amount op) = DELTA_SYMBOL \<or> symbol (ts_amount op) = DBD_SYMBOL),
      check (length (ts_memo op) < DELTA_MAX_MEMO_SIZE),
      check (is_utf8 (ts_memo op))]"

record transfer_from_savings_operation =
  tf_from :: account_name_type
  tf_request_id :: "32 word"
  tf_to :: account_name_type
  tf_amount :: asset
  tf_memo :: string

definition transfer_from_savings_validate :: "transfer_from_savings_operation \<Rightarrow> unit result" where
  "transfer_from_savings_validate op = res_seq
     [validate_account_name (tf_from op),
      validate_account_name (tf_to op),
      check (amount (tf_amount op) > 0),
      check (symbol (tf_amount op) = DELTA_SYMBOL \<or> symbol (tf_amount op) = DBD_SYMBOL),
      check (length (tf_memo op) < DELTA_MAX_MEMO_SIZE),
      check (is_utf8 (tf_memo op))]"

record cancel_transfer_from_savings_operation =
  cs_from :: account_name_type
  cs_request_id :: "32 word"

definition cancel_transfer_from_savings_validate :: "cancel_transfer_from_savings_operation \<Rightarrow> unit result" where
  "cancel_transfer_from_savings_validate op = validate_account_name (cs_from op)"

record claim_reward_balance_operation =
  cb_account :: account_name_type
  cb_reward_delta :: asset
  cb_reward_dbd :: asset
  cb_reward_vests :: asset

definition claim_reward_balance_validate :: "claim_reward_balance_operation \<Rightarrow> unit result" where
  "claim_reward_balance_validate op = res_seq
     [validate_account_name (cb_account op),
      check (is_asset_type (cb_reward_delta op) DELTA_SYMBOL),
      check (is_asset_type (cb_reward_dbd op) DBD_SYMBOL),
      check (is_asset_type (cb_reward_vests op) VESTS_SYMBOL),
      check (amount (cb_reward_delta op) \<ge> 0),
      check (amount (cb_reward_dbd op) \<ge> 0),
      check (amount (cb_reward_vests op) \<ge> 0),
      check (amount (cb_reward_delta op) > 0 \<or> amount (cb_reward_dbd op) > 0 \<or> amount (cb_reward_vests op) > 0)]"

record delegate_vesting_shares_operation =
  dg_delegator :: account_name_type
  dg_delegatee :: account_name_type
  dg_vesting_shares :: asset

definition delegate_vesting_shares_validate :: "delegate_vesting_shares_operation \<Rightarrow> unit result" where
  "delegate_vesting_shares_validate op = res_seq
     [validate_account_name (dg_delegator op),
      validate_account_name (dg_delegatee op),
      check (dg_delegator op \<noteq> dg_delegatee op),
      check (is_asset_type (dg_vesting_shares op) VESTS_SYMBOL),
      check_asset_ge (dg_vesting_shares op) 0 VESTS_SYMBOL]"

section \<open>Escrow\<close>

record escrow_transfer_operation =
  et_from :: account_name_type
  et_to :: account_name_type
  et_agent :: account_name_type
  et_escrow_id :: "32 word"
  et_dbd_amount :: asset
  et_delta_amount :: asset
  et_fee :: asset
  et_ratification_deadline :: time_point_sec
  et_escrow_expiration :: time_point_sec
  et_json_meta :: string

definition escrow_transfer_validate :: "'k crypto \<Rightarrow> escrow_transfer_operation \<Rightarrow> unit result" where
  "escrow_transfer_validate cr op = res_seq
     [validate_account_name (et_from op),
      validate_account_name (et_to op),
      validate_account_name (et_agent op),
      check (amount (et_fee op) \<ge> 0),
      check (amount (et_dbd_amount op) \<ge> 0),
      check (amount (et_delta_amount op) \<ge> 0),
      check (amount (et_dbd_amount op) > 0 \<or> amount (et_delta_amount op) > 0),
      check (et_from op \<noteq> et_agent op \<and> et_to op \<noteq> et_agent op),
      check (symbol (et_fee op) = DELTA_SYMBOL \<or> symbol (et_fee op) = DBD_SYMBOL),
      check (symbol (et_dbd_amount op) = DBD_SYMBOL),
      check (symbol (et_delta_amount op) = DELTA_SYMBOL),
      check (et_ratification_deadline op < et_escrow_expiration op),
      validate_json cr (et_json_meta op)]"

record escrow_approve_operation =
  ea_from :: account_name_type
  ea_to :: account_name_type
  ea_agent :: account_name_type
  ea_who :: account_name_type
  ea_escrow_id :: "32 word"
  ea_approve :: bool

definition escrow_approve_validate :: "escrow_approve_operation \<Rightarrow> unit result" where
  "escrow_approve_validate op = res_seq
     [validate_account_name (ea_from op),
      validate_account_name (ea_to op),
      validate_account_name (ea_agent op),
      validate_account_name (ea_who op),
      check (ea_who op = ea_to op \<or> ea_who op = ea_agent op)]"

record escrow_dispute_operation =
  ed_from :: account_name_type
  ed_to :: account_name_type
  ed_agent :: account_name_type
  ed_who :: account_name_type
  ed_escrow_id :: "32 word"

definition escrow_dispute_validate :: "escrow_dispute_operation \<Rightarrow> unit result" where
  "escrow_dispute_validate op = res_seq
     [validate_account_name (ed_from op),
      validate_account_name (ed_to op),
      validate_account_name (ed_agent op),
      validate_account_name (ed_who op),
      check (ed_who op = ed_from op \<or> ed_who op = ed_to op)]"

record escrow_release_operation =
  er_from :: account_name_type
  er_to :: account_name_type
  er_agent :: account_name_type
  er_who :: account_name_type
  er_receiver :: account_name_type
  er_escrow_id :: "32 word"
  er_dbd_amount :: asset
  er_delta_amount :: asset

definition escrow_release_validate :: "escrow_release_operation \<Rightarrow> unit result" where
  "escrow_release_validate op = res_seq
     [validate_account_name (er_from op),
      validate_account_name (er_to op),
      validate_account_name (er_agent op),
      validate_account_name (er_who op),
      validate_account_name (er_receiver op),
      check (er_who op = er_from op \<or> er_who op = er_to op \<or> er_who op = er_agent op),
      check (er_receiver op = er_from op \<or> er_receiver op = er_to op),
      check (amount (er_dbd_amount op) \<ge> 0),
      check (amount (er_delta_amount op) \<ge> 0),
      check (amount (er_dbd_amount op) > 0 \<or> amount (er_delta_amount op) > 0),
      check (symbol (er_dbd_amount op) = DBD_SYMBOL),
      check (symbol (er_delta_amount op) = DELTA_SYMBOL)]"

section \<open>Markets\<close>

record limit_order_create_operation =
  lo_owner :: account_name_type
  lo_orderid :: "32 word"
  lo_amount_to_sell :: asset
  lo_min_to_receive :: asset
  lo_fill_or_kill :: bool
  lo_expiration :: time_point_sec

text \<open>The market condition both order operations assert.\<close>

definition valid_market :: "asset \<Rightarrow> asset \<Rightarrow> bool" where
  "valid_market sell receive \<longleftrightarrow>
     is_asset_type sell DELTA_SYMBOL \<and> is_asset_type receive DBD_SYMBOL \<or>
     is_asset_type sell DBD_SYMBOL \<and> is_asset_type receive DELTA_SYMBOL \<or>
     space (symbol sell) = smt_nai_space \<and> is_asset_type receive DELTA_SYMBOL \<or>
     is_asset_type sell DELTA_SYMBOL \<and> space (symbol receive) = smt_nai_space"

definition limit_order_create_validate :: "limit_order_create_operation \<Rightarrow> unit result" where
  "limit_order_create_validate op = res_seq
     [validate_account_name (lo_owner op),
      check (valid_market (lo_amount_to_sell op) (lo_min_to_receive op)),
      res_bind (asset_div (lo_amount_to_sell op) (lo_min_to_receive op)) price_validate]"

definition limit_order_create_get_price :: "limit_order_create_operation \<Rightarrow> price result" where
  "limit_order_create_get_price op = asset_div (lo_amount_to_sell op) (lo_min_to_receive op)"

definition market_pair :: "asset_symbol_type \<Rightarrow> asset_symbol_type \<Rightarrow> asset_symbol_type \<times> asset_symbol_type" where
  "market_pair a b = (if a < b then (a, b) else (b, a))"

definition limit_order_create_get_market :: "limit_order_create_operation \<Rightarrow> asset_symbol_type \<times> asset_symbol_type" where
  "limit_order_create_get_market op = market_pair (symbol (lo_amount_to_sell op)) (symbol (lo_min_to_receive op))"

record limit_order_create2_operation =
  l2_owner :: account_name_type
  l2_orderid :: "32 word"
  l2_amount_to_sell :: asset
  l2_fill_or_kill :: bool
  l2_exchange_rate :: price
  l2_expiration :: time_point_sec

definition limit_order_create2_validate :: "limit_order_create2_operation \<Rightarrow> unit result" where
  "limit_order_create2_validate op = res_seq
     [validate_account_name (l2_owner op),
      check (symbol (l2_amount_to_sell op) = symbol (base (l2_exchange_rate op))),
      price_validate (l2_exchange_rate op),
      check (valid_market (l2_amount_to_sell op) (quote (l2_exchange_rate op))),
      res_bind (asset_mul_price (l2_amount_to_sell op) (l2_exchange_rate op)) (\<lambda>a. check (amount a > 0))]"

definition limit_order_create2_get_market :: "limit_order_create2_operation \<Rightarrow> asset_symbol_type \<times> asset_symbol_type" where
  "limit_order_create2_get_market op =
     market_pair (symbol (base (l2_exchange_rate op))) (symbol (quote (l2_exchange_rate op)))"

record limit_order_cancel_operation =
  lc_owner :: account_name_type
  lc_orderid :: "32 word"

definition limit_order_cancel_validate :: "limit_order_cancel_operation \<Rightarrow> unit result" where
  "limit_order_cancel_validate op = validate_account_name (lc_owner op)"

record convert_operation =
  cv_owner :: account_name_type
  cv_requestid :: "32 word"
  cv_amount :: asset

definition convert_validate :: "convert_operation \<Rightarrow> unit result" where
  "convert_validate op = res_seq
     [validate_account_name (cv_owner op),
      check (is_asset_type (cv_amount op) DBD_SYMBOL),
      check (amount (cv_amount op) > 0)]"

record feed_publish_operation =
  fp_publisher :: account_name_type
  fp_exchange_rate :: price

definition feed_publish_validate :: "feed_publish_operation \<Rightarrow> unit result" where
  "feed_publish_validate op = res_seq
     [validate_account_name (fp_publisher op),
      check (is_asset_type (base (fp_exchange_rate op)) DELTA_SYMBOL \<and> is_asset_type (quote (fp_exchange_rate op)) DBD_SYMBOL \<or>
             is_asset_type (base (fp_exchange_rate op)) DBD_SYMBOL \<and> is_asset_type (quote (fp_exchange_rate op)) DELTA_SYMBOL),
      price_validate (fp_exchange_rate op)]"

section \<open>Witnesses\<close>

record legacy_chain_properties =
  lp_account_creation_fee :: int
  lp_account_creation_fee_ser :: "64 word"
  lp_maximum_block_size :: "32 word"
  lp_dbd_interest_rate :: "16 word"

definition legacy_chain_properties_validate :: "bool \<Rightarrow> legacy_chain_properties \<Rightarrow> unit result" where
  "legacy_chain_properties_validate force_canon p = res_seq
     [only_if force_canon (check (lp_account_creation_fee_ser p = DELTA_SYMBOL_SER)),
      check (lp_account_creation_fee p \<ge> DELTA_MIN_ACCOUNT_CREATION_FEE),
      check (unat (lp_maximum_block_size p) \<ge> DELTA_MIN_BLOCK_SIZE_LIMIT),
      check (unat (lp_dbd_interest_rate p) \<ge> 0),
      check (unat (lp_dbd_interest_rate p) \<le> DELTA_100_PERCENT)]"

record 'k witness_update_operation =
  wu_owner :: account_name_type
  wu_url :: string
  wu_block_signing_key :: 'k
  wu_props :: legacy_chain_properties
  wu_fee :: asset

definition witness_update_validate :: "'k witness_update_operation \<Rightarrow> unit result" where
  "witness_update_validate op = res_seq
     [validate_account_name (wu_owner op),
      check (length (wu_url op) \<le> DELTA_MAX_WITNESS_URL_LENGTH),
      check (length (wu_url op) > 0),
      check (is_utf8 (wu_url op)),
      check_asset_ge (wu_fee op) 0 DELTA_SYMBOL,
      legacy_chain_properties_validate False (wu_props op)]"

text \<open>
  Raw decoding of the property values (\<open>fc::raw::unpack\<close>): integers and the parts of assets and
  prices are read little endian one after the other, strings after a length in groups of seven bits.
  \<open>unpack_from_vector\<close> reads nothing from an empty vector and leaves its target as it was; an integer
  target is then uninitialised.
\<close>

definition unpack_uint16 :: "byte list \<Rightarrow> (16 word \<times> byte list) result" where
  "unpack_uint16 bs = res_bind (read_bytes 2 bs) (\<lambda>(b, rest). Inr (ucast (le_bytes b), rest))"

definition unpack_uint32 :: "byte list \<Rightarrow> (32 word \<times> byte list) result" where
  "unpack_uint32 bs = res_bind (read_bytes 4 bs) (\<lambda>(b, rest). Inr (ucast (le_bytes b), rest))"

definition unpack_uint64 :: "byte list \<Rightarrow> (64 word \<times> byte list) result" where
  "unpack_uint64 bs = res_bind (read_bytes 8 bs) (\<lambda>(b, rest). Inr (le_bytes b, rest))"

definition unpack_asset :: "byte list \<Rightarrow> (asset \<times> byte list) result" where
  "unpack_asset bs =
     res_bind (unpack_uint64 bs) (\<lambda>(a, rest).
     res_bind (unpack_symbol rest) (\<lambda>(s, rest). Inr (mk_asset (sint a) s, rest)))"

definition unpack_price :: "byte list \<Rightarrow> (price \<times> byte list) result" where
  "unpack_price bs =
     res_bind (unpack_asset bs) (\<lambda>(b, rest).
     res_bind (unpack_asset rest) (\<lambda>(q, rest). Inr (\<lparr>base = b, quote = q\<rparr>, rest)))"

text \<open>At most five groups; \<open>shift\<close> is the shift of the next one.\<close>

fun unpack_varint :: "nat \<Rightarrow> nat \<Rightarrow> 32 word \<Rightarrow> byte list \<Rightarrow> (32 word \<times> byte list) result" where
  "unpack_varint 0 shift v bs = Inr (v, bs)"
| "unpack_varint (Suc n) shift v [] = Inl Out_Of_Range"
| "unpack_varint (Suc n) shift v (b # bs) =
     (let v = v OR push_bit shift (ucast (b AND 0x7f))
      in if b AND 0x80 \<noteq> 0 then unpack_varint n (shift + 7) v bs else Inr (v, bs))"

definition unpack_string :: "byte list \<Rightarrow> (string \<times> byte list) result" where
  "unpack_string bs =
     res_bind (unpack_varint 5 0 0 bs) (\<lambda>(size, rest).
     fc_assert (unat size < 10485760)
       (res_bind (read_bytes (unat size) rest) (\<lambda>(cs, rest). Inr (map (char_of \<circ> unat) cs, rest))))"

definition unpack_from_vector :: "'a result \<Rightarrow> (byte list \<Rightarrow> ('a \<times> byte list) result) \<Rightarrow> byte list \<Rightarrow> 'a result" where
  "unpack_from_vector before unpack bs = (if length bs \<noteq> 0 then res_bind (unpack bs) (\<lambda>(x, _). Inr x) else before)"

record witness_set_properties_operation =
  wp_owner :: account_name_type
  wp_props :: "(string \<times> byte list) list"
  wp_extensions :: extensions_type

definition on_prop :: "witness_set_properties_operation \<Rightarrow> string \<Rightarrow> (byte list \<Rightarrow> unit result) \<Rightarrow> unit result" where
  "on_prop op name f = (case map_of (wp_props op) name of None \<Rightarrow> Inr () | Some v \<Rightarrow> f v)"

definition unpack_key_from_vector :: "'k crypto \<Rightarrow> byte list \<Rightarrow> 'k result" where
  "unpack_key_from_vector cr = unpack_from_vector (Inr (null_key cr)) (\<lambda>bs. res_bind (unpack_key cr bs) (\<lambda>k. Inr (k, [])))"

definition witness_set_properties_validate :: "'k crypto \<Rightarrow> witness_set_properties_operation \<Rightarrow> unit result" where
  "witness_set_properties_validate cr op = res_seq
     [validate_account_name (wp_owner op),
      check (map_of (wp_props op) ''key'' \<noteq> None),
      on_prop op ''account_creation_fee'' (\<lambda>v.
        res_bind (unpack_from_vector (Inr default_asset) unpack_asset v) (\<lambda>fee.
        res_seq [check (symbol fee = DELTA_SYMBOL), check (amount fee \<ge> DELTA_MIN_ACCOUNT_CREATION_FEE)])),
      on_prop op ''maximum_block_size'' (\<lambda>v.
        res_bind (unpack_from_vector (Inl Undefined_Behaviour) unpack_uint32 v) (\<lambda>n.
        check (unat n \<ge> DELTA_MIN_BLOCK_SIZE_LIMIT))),
      on_prop op ''dbd_interest_rate'' (\<lambda>v.
        res_bind (unpack_from_vector (Inl Undefined_Behaviour) unpack_uint16 v) (\<lambda>n.
        res_seq [check (unat n \<ge> 0), check (unat n \<le> DELTA_100_PERCENT)])),
      on_prop op ''new_signing_key'' (\<lambda>v. res_bind (unpack_key_from_vector cr v) (\<lambda>_. Inr ())),
      on_prop op ''dbd_exchange_rate'' (\<lambda>v.
        res_bind (unpack_from_vector (Inr default_price) unpack_price v) (\<lambda>p.
        res_seq [check (is_asset_type (base p) DBD_SYMBOL \<and> is_asset_type (quote p) DELTA_SYMBOL), price_validate p])),
      on_prop op ''url'' (\<lambda>v.
        res_bind (unpack_from_vector (Inr '''') unpack_string v) (\<lambda>url.
        res_seq [check (length url \<le> DELTA_MAX_WITNESS_URL_LENGTH), check (length url > 0), check (is_utf8 url)])),
      on_prop op ''account_subsidy_budget'' (\<lambda>v.
        res_bind (unpack_from_vector (Inl Undefined_Behaviour) unpack_uint32 v) (\<lambda>n.
        res_seq [check (sint n \<ge> DELTA_RD_MIN_BUDGET), check (sint n \<le> DELTA_RD_MAX_BUDGET)])),
      on_prop op ''account_subsidy_decay'' (\<lambda>v.
        res_bind (unpack_from_vector (Inl Undefined_Behaviour) unpack_uint32 v) (\<lambda>n.
        res_seq [check (unat n \<ge> DELTA_RD_MIN_DECAY), check (unat n \<le> DELTA_RD_MAX_DECAY)]))]"

record account_witness_vote_operation =
  aw_account :: account_name_type
  aw_witness :: account_name_type
  aw_approve :: bool

definition account_witness_vote_validate :: "account_witness_vote_operation \<Rightarrow> unit result" where
  "account_witness_vote_validate op = res_seq
     [validate_account_name (aw_account op), validate_account_name (aw_witness op)]"

record account_witness_proxy_operation =
  ap_account :: account_name_type
  ap_proxy :: account_name_type

definition account_witness_proxy_validate :: "account_witness_proxy_operation \<Rightarrow> unit result" where
  "account_witness_proxy_validate op = res_seq
     [validate_account_name (ap_account op),
      only_if (length (ap_proxy op) \<noteq> 0) (validate_account_name (ap_proxy op)),
      check (ap_proxy op \<noteq> ap_account op)]"

record report_over_production_operation =
  ro_reporter :: account_name_type
  ro_first_block :: signed_block_header
  ro_second_block :: signed_block_header

definition report_over_production_validate :: "'k crypto \<Rightarrow> report_over_production_operation \<Rightarrow> unit result" where
  "report_over_production_validate cr op =
     (let b1 = ro_first_block op; b2 = ro_second_block op
      in res_seq
           [validate_account_name (ro_reporter op),
            validate_account_name (bh_witness b1),
            check (bh_witness b1 = bh_witness b2),
            check (bh_timestamp b1 = bh_timestamp b2),
            res_bind (header_signee cr b1) (\<lambda>k1. res_bind (header_signee cr b2) (\<lambda>k2. check (k1 = k2))),
            check (header_id cr b1 \<noteq> header_id cr b2)])"

section \<open>Custom operations\<close>

record custom_operation =
  cu_required_auths :: "account_name_type list"
  cu_id :: "16 word"
  cu_data :: "byte list"

definition custom_validate :: "custom_operation \<Rightarrow> unit result" where
  "custom_validate op = check (length (cu_required_auths op) > 0)"

record custom_json_operation =
  cj_required_auths :: "account_name_type list"
  cj_required_posting_auths :: "account_name_type list"
  cj_id :: string
  cj_json :: string

definition custom_json_validate :: "'k crypto \<Rightarrow> custom_json_operation \<Rightarrow> unit result" where
  "custom_json_validate cr op = res_seq
     [check (length (cj_required_auths op) + length (cj_required_posting_auths op) > 0),
      check (length (cj_id op) \<le> 32),
      check (is_utf8 (cj_json op)),
      check (json_is_valid cr (cj_json op))]"

record 'k custom_binary_operation =
  cy_required_owner_auths :: "account_name_type list"
  cy_required_active_auths :: "account_name_type list"
  cy_required_posting_auths :: "account_name_type list"
  cy_required_auths :: "'k authority list"
  cy_id :: string
  cy_data :: "byte list"

definition custom_binary_validate :: "'k custom_binary_operation \<Rightarrow> unit result" where
  "custom_binary_validate op = res_seq
     ([check (length (cy_required_owner_auths op) + length (cy_required_active_auths op)
              + length (cy_required_posting_auths op) > 0),
       check (length (cy_id op) \<le> 32)] @
      map authority_validate (cy_required_auths op))"

section \<open>Proof of work\<close>

record 'k pow =
  po_worker :: 'k
  po_input :: sha256
  po_signature :: signature_type
  po_work :: sha256

definition pow_validate :: "'k crypto \<Rightarrow> 'k pow \<Rightarrow> unit result" where
  "pow_validate cr w = res_seq
     [check (po_work w \<noteq> [0, 0, 0, 0]),
      res_bind (recover_key cr False (po_signature w) (po_input w)) (\<lambda>k. check (k = po_worker w)),
      res_bind (recover_key cr False (po_signature w) (hash_signature cr (po_signature w))) (\<lambda>k.
        check (po_work w = hash_key cr k))]"

record 'k pow_operation =
  pw_worker_account :: account_name_type
  pw_block_id :: block_id_type
  pw_nonce :: "64 word"
  pw_work :: "'k pow"
  pw_props :: legacy_chain_properties

definition work_input :: "'k crypto \<Rightarrow> 'k pow_operation \<Rightarrow> sha256" where
  "work_input cr op = hash_digest cr ((hash_block_id cr (pw_block_id op))[0 := pw_nonce op])"

definition pow_operation_validate :: "'k crypto \<Rightarrow> 'k pow_operation \<Rightarrow> unit result" where
  "pow_operation_validate cr op = res_seq
     [legacy_chain_properties_validate True (pw_props op),
      validate_account_name (pw_worker_account op),
      check (work_input cr op = po_input (pw_work op)),
      pow_validate cr (pw_work op)]"

record pow2 =
  p2_input :: pow2_input
  p2_pow_summary :: "32 word"

text \<open>The private key is derived from the input, so anyone can redo the signature.\<close>

definition pow2_create :: "'k crypto \<Rightarrow> block_id_type \<Rightarrow> account_name_type \<Rightarrow> 64 word \<Rightarrow> pow2 result" where
  "pow2_create cr prev name n =
     (let inp = \<lparr>pi_worker_account = name, pi_prev_block = prev, pi_nonce = n\<rparr>;
          prv_key = hash_pow2_input cr inp;
          digest = hash_digest cr prv_key;
          sig = sign_compact cr prv_key digest
      in res_bind (recover_key cr True sig (hash_signature cr sig)) (\<lambda>k.
         Inr \<lparr>p2_input = inp, p2_pow_summary = approx_log_32 cr (hash_digest_key cr digest k)\<rparr>))"

definition pow2_validate :: "'k crypto \<Rightarrow> pow2 \<Rightarrow> unit result" where
  "pow2_validate cr w = res_seq
     [validate_account_name (pi_worker_account (p2_input w)),
      res_bind (pow2_create cr (pi_prev_block (p2_input w)) (pi_worker_account (p2_input w)) (pi_nonce (p2_input w))) (\<lambda>tmp.
        check (p2_pow_summary w = p2_pow_summary tmp))]"

record equihash_pow =
  eq_input :: pow2_input
  eq_proof :: equihash_proof
  eq_prev_block :: block_id_type
  eq_pow_summary :: "32 word"

definition equihash_pow_validate :: "'k crypto \<Rightarrow> equihash_pow \<Rightarrow> unit result" where
  "equihash_pow_validate cr w = res_seq
     [validate_account_name (pi_worker_account (eq_input w)),
      check (ep_n (eq_proof w) = DELTA_EQUIHASH_N),
      check (ep_k (eq_proof w) = DELTA_EQUIHASH_K),
      check (ep_seed (eq_proof w) = hash_pow2_input cr (eq_input w)),
      check (proof_is_valid cr (eq_proof w)),
      check (eq_pow_summary w = approx_log_32 cr (hash_words cr (ep_inputs (eq_proof w))))]"

datatype pow2_work = Pow2 pow2 | Equihash equihash_pow

record 'k pow2_operation =
  pp_work :: pow2_work
  pp_new_owner_key :: "'k option"
  pp_props :: legacy_chain_properties

definition pow2_operation_validate :: "'k crypto \<Rightarrow> 'k pow2_operation \<Rightarrow> unit result" where
  "pow2_operation_validate cr op = res_seq
     [legacy_chain_properties_validate True (pp_props op),
      (case pp_work op of Pow2 w \<Rightarrow> pow2_validate cr w | Equihash w \<Rightarrow> equihash_pow_validate cr w)]"

definition pow2_worker_account :: "pow2_work \<Rightarrow> account_name_type" where
  "pow2_worker_account w = (case w of Pow2 w \<Rightarrow> pi_worker_account (p2_input w) | Equihash w \<Rightarrow> pi_worker_account (eq_input w))"

end
