(* ===== verification/Operation_Dispatch.thy ===== *)
theory Operation_Dispatch
  imports Operations
begin

text \<open>
  The variant \<open>operation\<close> and the visitors over it (\<open>operations.hpp\<close>, \<open>operations.cpp\<close>,
  \<open>operation_util.hpp\<close>, \<open>delta_virtual_operations.hpp\<close>): validation and the authorities an operation
  requires.
\<close>

section \<open>Virtual operations\<close>

datatype virtual_operation =
    Author_Reward account_name_type string asset asset asset
  | Curation_Reward account_name_type asset account_name_type string
  | Comment_Reward account_name_type string asset
  | Liquidity_Reward account_name_type asset
  | Interest account_name_type asset
  | Fill_Convert_Request account_name_type "32 word" asset asset
  | Fill_Vesting_Withdraw account_name_type account_name_type asset asset
  | Shutdown_Witness account_name_type
  | Fill_Order account_name_type "32 word" asset account_name_type "32 word" asset
  | Fill_Transfer_From_Savings account_name_type account_name_type asset "32 word" string
  | Hardfork "32 word"
  | Comment_Payout_Update account_name_type string
  | Return_Vesting_Delegation account_name_type asset
  | Comment_Benefactor_Reward account_name_type account_name_type string asset asset asset
  | Producer_Reward account_name_type asset
  | Clear_Null_Account_Balance "asset list"

section \<open>Operations\<close>

datatype 'k operation =
    Vote vote_operation
  | Comment comment_operation
  | Transfer transfer_operation
  | Transfer_To_Vesting transfer_to_vesting_operation
  | Withdraw_Vesting withdraw_vesting_operation
  | Limit_Order_Create limit_order_create_operation
  | Limit_Order_Cancel limit_order_cancel_operation
  | Feed_Publish feed_publish_operation
  | Convert convert_operation
  | Account_Create "'k account_create_operation"
  | Account_Update "'k account_update_operation"
  | Witness_Update "'k witness_update_operation"
  | Account_Witness_Vote account_witness_vote_operation
  | Account_Witness_Proxy account_witness_proxy_operation
  | Pow_Op "'k pow_operation"
  | Custom custom_operation
  | Report_Over_Production report_over_production_operation
  | Delete_Comment delete_comment_operation
  | Custom_Json custom_json_operation
  | Comment_Options comment_options_operation
  | Set_Withdraw_Vesting_Route set_withdraw_vesting_route_operation
  | Limit_Order_Create2 limit_order_create2_operation
  | Claim_Account claim_account_operation
  | Create_Claimed_Account "'k create_claimed_account_operation"
  | Request_Account_Recovery "'k request_account_recovery_operation"
  | Recover_Account "'k recover_account_operation"
  | Change_Recovery_Account change_recovery_account_operation
  | Escrow_Transfer escrow_transfer_operation
  | Escrow_Dispute escrow_dispute_operation
  | Escrow_Release escrow_release_operation
  | Pow2_Op "'k pow2_operation"
  | Escrow_Approve escrow_approve_operation
  | Transfer_To_Savings transfer_to_savings_operation
  | Transfer_From_Savings transfer_from_savings_operation
  | Cancel_Transfer_From_Savings cancel_transfer_from_savings_operation
  | Custom_Binary "'k custom_binary_operation"
  | Decline_Voting_Rights decline_voting_rights_operation
  | Reset_Account "'k reset_account_operation"
  | Set_Reset_Account set_reset_account_operation
  | Claim_Reward_Balance claim_reward_balance_operation
  | Delegate_Vesting_Shares delegate_vesting_shares_operation
  | Account_Create_With_Delegation "'k account_create_with_delegation_operation"
  | Witness_Set_Properties witness_set_properties_operation
  | Virtual virtual_operation

fun is_virtual_operation :: "'k operation \<Rightarrow> bool" where
  "is_virtual_operation (Virtual _) = True"
| "is_virtual_operation _ = False"

fun is_market_operation :: "'k operation \<Rightarrow> bool" where
  "is_market_operation (Limit_Order_Create _) = True"
| "is_market_operation (Limit_Order_Cancel _) = True"
| "is_market_operation (Transfer _) = True"
| "is_market_operation (Transfer_To_Vesting _) = True"
| "is_market_operation _ = False"

primrec operation_validate :: "'k crypto \<Rightarrow> 'k operation \<Rightarrow> unit result" where
  "operation_validate cr (Vote op) = vote_validate op"
| "operation_validate cr (Comment op) = comment_validate cr op"
| "operation_validate cr (Transfer op) = transfer_validate op"
| "operation_validate cr (Transfer_To_Vesting op) = transfer_to_vesting_validate op"
| "operation_validate cr (Withdraw_Vesting op) = withdraw_vesting_validate op"
| "operation_validate cr (Limit_Order_Create op) = limit_order_create_validate op"
| "operation_validate cr (Limit_Order_Cancel op) = limit_order_cancel_validate op"
| "operation_validate cr (Feed_Publish op) = feed_publish_validate op"
| "operation_validate cr (Convert op) = convert_validate op"
| "operation_validate cr (Account_Create op) = account_create_validate cr op"
| "operation_validate cr (Account_Update op) = account_update_validate cr op"
| "operation_validate cr (Witness_Update op) = witness_update_validate op"
| "operation_validate cr (Account_Witness_Vote op) = account_witness_vote_validate op"
| "operation_validate cr (Account_Witness_Proxy op) = account_witness_proxy_validate op"
| "operation_validate cr (Pow_Op op) = pow_operation_validate cr op"
| "operation_validate cr (Custom op) = custom_validate op"
| "operation_validate cr (Report_Over_Production op) = report_over_production_validate cr op"
| "operation_validate cr (Delete_Comment op) = delete_comment_validate op"
| "operation_validate cr (Custom_Json op) = custom_json_validate cr op"
| "operation_validate cr (Comment_Options op) = comment_options_validate op"
| "operation_validate cr (Set_Withdraw_Vesting_Route op) = set_withdraw_vesting_route_validate op"
| "operation_validate cr (Limit_Order_Create2 op) = limit_order_create2_validate op"
| "operation_validate cr (Claim_Account op) = claim_account_validate op"
| "operation_validate cr (Create_Claimed_Account op) = create_claimed_account_validate cr op"
| "operation_validate cr (Request_Account_Recovery op) = request_account_recovery_validate op"
| "operation_validate cr (Recover_Account op) = recover_account_validate op"
| "operation_validate cr (Change_Recovery_Account op) = change_recovery_account_validate op"
| "operation_validate cr (Escrow_Transfer op) = escrow_transfer_validate cr op"
| "operation_validate cr (Escrow_Dispute op) = escrow_dispute_validate op"
| "operation_validate cr (Escrow_Release op) = escrow_release_validate op"
| "operation_validate cr (Pow2_Op op) = pow2_operation_validate cr op"
| "operation_validate cr (Escrow_Approve op) = escrow_approve_validate op"
| "operation_validate cr (Transfer_To_Savings op) = transfer_to_savings_validate op"
| "operation_validate cr (Transfer_From_Savings op) = transfer_from_savings_validate op"
| "operation_validate cr (Cancel_Transfer_From_Savings op) = cancel_transfer_from_savings_validate op"
| "operation_validate cr (Custom_Binary op) = custom_binary_validate op"
| "operation_validate cr (Decline_Voting_Rights op) = decline_voting_rights_validate op"
| "operation_validate cr (Reset_Account op) = reset_account_validate op"
| "operation_validate cr (Set_Reset_Account op) = set_reset_account_validate op"
| "operation_validate cr (Claim_Reward_Balance op) = claim_reward_balance_validate op"
| "operation_validate cr (Delegate_Vesting_Shares op) = delegate_vesting_shares_validate op"
| "operation_validate cr (Account_Create_With_Delegation op) = account_create_with_delegation_validate cr op"
| "operation_validate cr (Witness_Set_Properties op) = witness_set_properties_validate cr op"
| "operation_validate cr (Virtual v) = check False"

section \<open>Required authorities\<close>

fun required_active :: "'k operation \<Rightarrow> account_name_type set" where
  "required_active (Transfer op) = (if symbol (tr_amount op) \<noteq> VESTS_SYMBOL then {tr_from op} else {})"
| "required_active (Transfer_To_Vesting op) = {tv_from op}"
| "required_active (Withdraw_Vesting op) = {wv_account op}"
| "required_active (Limit_Order_Create op) = {lo_owner op}"
| "required_active (Limit_Order_Cancel op) = {lc_owner op}"
| "required_active (Feed_Publish op) = {fp_publisher op}"
| "required_active (Convert op) = {cv_owner op}"
| "required_active (Account_Create op) = {ac_creator op}"
| "required_active (Account_Update op) = (if au_owner op = None then {au_account op} else {})"
| "required_active (Witness_Update op) = {wu_owner op}"
| "required_active (Account_Witness_Vote op) = {aw_account op}"
| "required_active (Account_Witness_Proxy op) = {ap_account op}"
| "required_active (Custom op) = set (cu_required_auths op)"
| "required_active (Custom_Json op) = set (cj_required_auths op)"
| "required_active (Set_Withdraw_Vesting_Route op) = {sw_from_account op}"
| "required_active (Limit_Order_Create2 op) = {l2_owner op}"
| "required_active (Claim_Account op) = {ca_creator op}"
| "required_active (Create_Claimed_Account op) = {cc_creator op}"
| "required_active (Request_Account_Recovery op) = {rr_recovery_account op}"
| "required_active (Escrow_Transfer op) = {et_from op}"
| "required_active (Escrow_Dispute op) = {ed_who op}"
| "required_active (Escrow_Release op) = {er_who op}"
| "required_active (Pow2_Op op) = (if pp_new_owner_key op = None then {pow2_worker_account (pp_work op)} else {})"
| "required_active (Escrow_Approve op) = {ea_who op}"
| "required_active (Transfer_To_Savings op) = {ts_from op}"
| "required_active (Transfer_From_Savings op) = {tf_from op}"
| "required_active (Cancel_Transfer_From_Savings op) = {cs_from op}"
| "required_active (Custom_Binary op) = set (cy_required_active_auths op)"
| "required_active (Reset_Account op) = {rs_reset_account op}"
| "required_active (Delegate_Vesting_Shares op) = {dg_delegator op}"
| "required_active (Account_Create_With_Delegation op) = {ad_creator op}"
| "required_active _ = {}"

fun required_owner :: "'k operation \<Rightarrow> account_name_type set" where
  "required_owner (Transfer op) = (if symbol (tr_amount op) = VESTS_SYMBOL then {tr_from op} else {})"
| "required_owner (Account_Update op) = (if au_owner op \<noteq> None then {au_account op} else {})"
| "required_owner (Change_Recovery_Account op) = {cr_account_to_recover op}"
| "required_owner (Custom_Binary op) = set (cy_required_owner_auths op)"
| "required_owner (Decline_Voting_Rights op) = {dv_account op}"
| "required_owner (Set_Reset_Account op) = (if length (sr_current_reset_account op) \<noteq> 0 then {sr_account op} else {})"
| "required_owner _ = {}"

fun required_posting :: "'k operation \<Rightarrow> account_name_type set" where
  "required_posting (Vote op) = {vo_voter op}"
| "required_posting (Comment op) = {co_author op}"
| "required_posting (Comment_Options op) = {cp_author op}"
| "required_posting (Delete_Comment op) = {dc_author op}"
| "required_posting (Custom_Json op) = set (cj_required_posting_auths op)"
| "required_posting (Custom_Binary op) = set (cy_required_posting_auths op)"
| "required_posting (Claim_Reward_Balance op) = {cb_account op}"
| "required_posting (Set_Reset_Account op) = (if length (sr_current_reset_account op) = 0 then {sr_account op} else {})"
| "required_posting _ = {}"

text \<open>
  The authorities an operation names itself: those of the signing key a witness proves to hold, of
  the new owner key of a mined account, and both owner authorities of an account recovery.
\<close>

definition key_authority :: "'k \<Rightarrow> 'k authority" where
  "key_authority k = \<lparr>weight_threshold = 1, account_auths = [], key_auths = [(k, 1)]\<rparr>"

definition account_authority :: "account_name_type \<Rightarrow> 'k authority" where
  "account_authority n = \<lparr>weight_threshold = 1, account_auths = [(n, 1)], key_auths = []\<rparr>"

definition witness_set_properties_authority :: "'k crypto \<Rightarrow> witness_set_properties_operation \<Rightarrow> 'k authority result" where
  "witness_set_properties_authority cr op =
     (case map_of (wp_props op) ''key'' of
        Some v \<Rightarrow> res_bind (unpack_key_from_vector cr v) (\<lambda>k. Inr (key_authority k))
      | None \<Rightarrow> Inr (account_authority ''null''))"

fun required_other :: "'k crypto \<Rightarrow> 'k operation \<Rightarrow> 'k authority list result" where
  "required_other cr (Witness_Set_Properties op) = res_bind (witness_set_properties_authority cr op) (\<lambda>a. Inr [a])"
| "required_other cr (Custom_Binary op) = Inr (cy_required_auths op)"
| "required_other cr (Pow2_Op op) = Inr (case pp_new_owner_key op of None \<Rightarrow> [] | Some k \<Rightarrow> [key_authority k])"
| "required_other cr (Recover_Account op) = Inr [ra_new_owner_authority op, ra_recent_owner_authority op]"
| "required_other cr _ = Inr []"

section \<open>What validation guarantees\<close>

lemma unat_add_weight32:
  "unat (t :: 32 word) \<le> 10000 \<Longrightarrow> unat (t + ucast (w :: 16 word)) = unat t + unat w"
proof -
  assume a: "unat t \<le> 10000"
  have "unat w < 2 ^ LENGTH(16)" by (rule unsigned_less)
  with a show ?thesis by (intro unat_add_weight_exact) simp
qed

lemma beneficiaries_from_iff:
  "unat acc \<le> 10000 \<Longrightarrow> validate_beneficiaries_from prev acc bs = Inr () \<longleftrightarrow>
     list_all (\<lambda>b. is_valid_account_name (br_account b)) bs \<and> unat acc + sum_list (map (unat \<circ> br_weight) bs) \<le> 10000 \<and>
     sorted_wrt (<) (map br_account (prev # bs))"
proof (induction bs arbitrary: prev acc)
  case (Cons b bs)
  have e: "unat (acc + ucast (br_weight b)) = unat acc + unat (br_weight b)" by (rule unat_add_weight32 [OF Cons.prems])
  show ?case
  proof (cases "unat acc + unat (br_weight b) \<le> 10000")
    case True
    then have "unat (acc + ucast (br_weight b)) \<le> 10000" using e by simp
    note ih = Cons.IH [OF this, of b]
    have "(beneficiary_less prev b \<and> sorted_wrt (<) (map br_account (b # bs))) = sorted_wrt (<) (map br_account (prev # b # bs))"
      by (auto simp: beneficiary_less_def)
    then show ?thesis using True ih e by (auto simp: res_bind_eq_Inr Let_def)
  next
    case False
    then show ?thesis using e by (auto simp: res_bind_eq_Inr Let_def)
  qed
qed simp

text \<open>
  C36: The beneficiaries of a comment pass validation exactly when there are 1 to 127 of them with
  valid names in strictly ascending order, so without duplicates, whose weights sum to at most 100%.
\<close>

theorem beneficiaries_validated:
  "comment_payout_beneficiaries_validate bs = Inr () \<longleftrightarrow>
     0 < length bs \<and> length bs < 128 \<and> list_all (\<lambda>b. is_valid_account_name (br_account b)) bs \<and>
     sum_list (map (unat \<circ> br_weight) bs) \<le> 10000 \<and> sorted_wrt (<) (map br_account bs)"
proof (cases bs)
  case (Cons b rest)
  have e: "unat (ucast (br_weight b) :: 32 word) = unat (br_weight b)" using unat_add_weight32 [of 0 "br_weight b"] by simp
  show ?thesis
  proof (cases "unat (br_weight b) \<le> 10000")
    case True
    then have "unat (ucast (br_weight b) :: 32 word) \<le> 10000" using e by simp
    from beneficiaries_from_iff [OF this, of b rest] True show ?thesis
      by (auto simp: comment_payout_beneficiaries_validate_def Cons e res_bind_eq_Inr Let_def)
  next
    case False
    then show ?thesis by (auto simp: comment_payout_beneficiaries_validate_def Cons res_bind_eq_Inr Let_def)
  qed
qed (simp add: comment_payout_beneficiaries_validate_def)

lemmas account_validate_defs = account_create_with_delegation_validate_def account_update_validate_def claim_account_validate_def
  create_claimed_account_validate_def request_account_recovery_validate_def recover_account_validate_def
  change_recovery_account_validate_def reset_account_validate_def set_reset_account_validate_def decline_voting_rights_validate_def
lemmas content_validate_defs = comment_validate_def comment_options_validate_def delete_comment_validate_def vote_validate_def
lemmas transfer_validate_defs = transfer_validate_def transfer_to_vesting_validate_def withdraw_vesting_validate_def
  set_withdraw_vesting_route_validate_def transfer_to_savings_validate_def transfer_from_savings_validate_def
  cancel_transfer_from_savings_validate_def claim_reward_balance_validate_def delegate_vesting_shares_validate_def
  escrow_transfer_validate_def escrow_approve_validate_def escrow_dispute_validate_def escrow_release_validate_def
lemmas market_validate_defs = limit_order_create_validate_def limit_order_create2_validate_def limit_order_cancel_validate_def
  convert_validate_def feed_publish_validate_def
lemmas witness_validate_defs = witness_update_validate_def account_witness_vote_validate_def account_witness_proxy_validate_def
  pow2_operation_validate_def pow2_validate_def equihash_pow_validate_def pow2_worker_account_def

definition names_unchecked :: "'k operation \<Rightarrow> bool" where
  "names_unchecked op = (case op of Account_Create _ \<Rightarrow> True | Custom _ \<Rightarrow> True | Custom_Json _ \<Rightarrow> True | Custom_Binary _ \<Rightarrow> True | _ \<Rightarrow> False)"

text \<open>
  C35: The accounts whose authority a valid operation requires have valid names, except for account
  creation and the custom operations, whose validation leaves those names unchecked.
\<close>

theorem required_names_valid:
  assumes "operation_validate cr op = Inr ()" and "\<not> names_unchecked op"
    and "n \<in> required_active op \<union> required_owner op \<union> required_posting op"
  shows "is_valid_account_name n"
  using assms
  by (cases op)
    (auto simp: names_unchecked_def res_seq_iff account_validate_defs content_validate_defs transfer_validate_defs market_validate_defs
      witness_validate_defs split: if_splits pow2_work.splits)

text \<open>A transfer between two valid accounts is valid, and the sender has to authorise it.\<close>

theorem required_names_valid_witness:
  "is_valid_account_name ''alice''"
proof (rule required_names_valid)
  let ?op = "Transfer \<lparr>tr_from = ''alice'', tr_to = ''bob.smith'', tr_amount = mk_asset 1 DELTA_SYMBOL, tr_memo = []\<rparr> :: nat operation"
  have names: "is_valid_account_name ''alice''" "is_valid_account_name ''bob.smith''"
    by (simp_all add: is_valid_account_name_def DELTA_MIN_ACCOUNT_NAME_LENGTH_def DELTA_MAX_ACCOUNT_NAME_LENGTH_def
        valid_labels_from.simps valid_label_def lower_letters_def digits_def)
  show "operation_validate cr ?op = Inr ()" for cr
    by (simp add: transfer_validate_def validate_account_name_def check_def names mk_asset_def is_utf8_def is_valid_def DELTA_ASSET_NUM_DELTA_def DELTA_ASSET_NUM_VESTS_def)
  show "\<not> names_unchecked ?op" by (simp add: names_unchecked_def)
  show "''alice'' \<in> required_active ?op \<union> required_owner ?op \<union> required_posting ?op"
    by (simp add: mk_asset_def DELTA_ASSET_NUM_DELTA_def DELTA_ASSET_NUM_VESTS_def)
qed

text \<open>No operation but the custom ones mixes the posting authority with the active or owner authority.\<close>

definition names_own_authorities :: "'k operation \<Rightarrow> bool" where
  "names_own_authorities op = (case op of Custom_Json _ \<Rightarrow> True | Custom_Binary _ \<Rightarrow> True | _ \<Rightarrow> False)"

lemma posting_separate:
  "\<not> names_own_authorities op \<Longrightarrow> required_posting op \<noteq> {} \<Longrightarrow>
   required_active op = {} \<and> required_owner op = {} \<and> required_other cr op = Inr []"
  by (cases op) (simp_all add: names_own_authorities_def split: if_splits)

end
