(* ===== verification/Transaction.thy ===== *)
theory Transaction
  imports Operation_Dispatch
begin

text \<open>
  Transactions (\<open>transaction.hpp\<close>, \<open>transaction.cpp\<close>, \<open>transaction_util.hpp\<close> of \<open>libraries/protocol\<close>):
  validation, the authorities a transaction requires, their verification against the keys that
  signed, and the choice of signatures. The functions that yield the authorities of an account and
  the recovery of a key from a signature are arguments.
\<close>

section \<open>Collecting what a transaction requires\<close>

text \<open>A \<open>flat_set\<close> is visited in ascending order.\<close>

definition collect_names :: "('k operation \<Rightarrow> account_name_type set) \<Rightarrow> 'k operation list \<Rightarrow> account_name_type list" where
  "collect_names req ops = sorted_list_of_set (\<Union>op \<in> set ops. req op)"

fun collect_other :: "'k crypto \<Rightarrow> 'k operation list \<Rightarrow> 'k authority list result" where
  "collect_other cr [] = Inr []"
| "collect_other cr (op # ops) = res_bind (required_other cr op) (\<lambda>a. res_bind (collect_other cr ops) (\<lambda>as. Inr (a @ as)))"

definition transaction_validate :: "'k crypto \<Rightarrow> 'k operation list \<Rightarrow> unit result" where
  "transaction_validate cr ops = res_seq (check (length ops > 0) # map (operation_validate cr) ops)"

text \<open>The key of each signature over the digest; two signatures of one key are an error.\<close>

fun get_signature_keys :: "(signature_type \<Rightarrow> ('k :: linorder) result) \<Rightarrow> signature_type list \<Rightarrow> 'k set \<Rightarrow> 'k set result" where
  "get_signature_keys recover [] found = Inr found"
| "get_signature_keys recover (sig # sigs) found =
     res_bind (recover sig) (\<lambda>k. if k \<in> found then Inl Tx_Duplicate_Sig else get_signature_keys recover sigs (insert k found))"

section \<open>Verifying the authority of a transaction\<close>

record 'k authority_limits =
  al_max_recursion :: "32 word"
  al_max_membership :: "32 word"
  al_max_account_auths :: "32 word"

definition sign_context_of ::
  "(account_name_type \<Rightarrow> 'k authority) \<Rightarrow> 'k set \<Rightarrow> 'k authority_limits \<Rightarrow> 'k sign_context" where
  "sign_context_of getter avail lim =
     \<lparr>get_active = getter, available_keys = avail, max_recursion = al_max_recursion lim,
      max_membership = al_max_membership lim, max_account_auths = al_max_account_auths lim\<rparr>"

text \<open>\<open>||\<close> on checks that change the sign state, and the assertion of one of them.\<close>

definition sign_or ::
  "('s \<Rightarrow> bool \<times> 's) \<Rightarrow> ('s \<Rightarrow> bool \<times> 's) \<Rightarrow> 's \<Rightarrow> bool \<times> 's" where
  "sign_or f g s = (case f s of (ok, s1) \<Rightarrow> if ok then (True, s1) else g s1)"

definition sign_assert :: "fc_error \<Rightarrow> ('s \<Rightarrow> bool \<times> 's) \<Rightarrow> 's \<Rightarrow> 's result" where
  "sign_assert e f s = (case f s of (ok, s1) \<Rightarrow> if ok then Inr s1 else Inl e)"

definition assert_no_unused :: "'k sign_state \<Rightarrow> unit result" where
  "assert_no_unused s = (if fst (remove_unused_signatures s) then Inl Tx_Irrelevant_Sig else Inr ())"

definition verify_authority ::
  "('k :: linorder) crypto \<Rightarrow> 'k operation list \<Rightarrow> 'k set \<Rightarrow> (account_name_type \<Rightarrow> 'k authority) \<Rightarrow> (account_name_type \<Rightarrow> 'k authority) \<Rightarrow>
   (account_name_type \<Rightarrow> 'k authority) \<Rightarrow> 'k authority_limits \<Rightarrow> account_name_type set \<Rightarrow> account_name_type set \<Rightarrow> account_name_type set \<Rightarrow>
   unit result" where
  "verify_authority cr ops sigs get_act get_own get_post lim active_approvals owner_approvals posting_approvals =
     res_bind (collect_other cr ops) (\<lambda>other.
       let r_active = collect_names required_active ops;
           r_owner = collect_names required_owner ops;
           r_posting = collect_names required_posting ops;
           s = make_sign_state (sorted_list_of_set sigs)
       in if length r_posting \<noteq> 0 then
            fc_assert (length r_active = 0) (fc_assert (length r_owner = 0) (fc_assert (length other = 0)
              (let ctx = sign_context_of get_post {} lim;
                   s = s\<lparr>approved_by := approved_by s \<union> posting_approvals\<rparr>
               in res_bind (res_fold (\<lambda>n. sign_assert Tx_Missing_Posting_Auth
                     (sign_or (check_authority_of ctx n) (sign_or (check_authority ctx (get_act n)) (check_authority ctx (get_own n)))))
                     r_posting s)
                  assert_no_unused)))
          else
            (let ctx = sign_context_of get_act {} lim;
                 s = s\<lparr>approved_by := approved_by s \<union> active_approvals \<union> owner_approvals\<rparr>
             in res_bind (res_fold (\<lambda>auth. sign_assert Tx_Missing_Other_Auth (check_authority ctx auth)) other s) (\<lambda>s.
                res_bind (res_fold (\<lambda>n. sign_assert Tx_Missing_Active_Auth
                     (sign_or (check_authority_of ctx n) (check_authority ctx (get_own n)))) r_active s) (\<lambda>s.
                res_bind (res_fold (\<lambda>n. sign_assert Tx_Missing_Owner_Auth
                     (\<lambda>s. if n \<in> owner_approvals then (True, s) else check_authority ctx (get_own n) s)) r_owner s)
                  assert_no_unused))))"

definition signed_transaction_verify_authority ::
  "('k :: linorder) crypto \<Rightarrow> (signature_type \<Rightarrow> 'k result) \<Rightarrow> 'k operation list \<Rightarrow> signature_type list \<Rightarrow> (account_name_type \<Rightarrow> 'k authority) \<Rightarrow>
   (account_name_type \<Rightarrow> 'k authority) \<Rightarrow> (account_name_type \<Rightarrow> 'k authority) \<Rightarrow> 'k authority_limits \<Rightarrow> unit result" where
  "signed_transaction_verify_authority cr recover ops signatures get_act get_own get_post lim =
     res_bind (get_signature_keys recover signatures {}) (\<lambda>keys.
     verify_authority cr ops keys get_act get_own get_post lim {} {} {})"

section \<open>Choosing signatures\<close>

text \<open>The checks of \<open>get_required_signatures\<close> only mark the signatures they count.\<close>

definition mark :: "('s \<Rightarrow> bool \<times> 's) \<Rightarrow> 's \<Rightarrow> 's" where
  "mark f s = snd (f s)"

definition used_available :: "'k set \<Rightarrow> 'k sign_state \<Rightarrow> 'k set" where
  "used_available avail s = set (filter (\<lambda>k. k \<in> avail) (map fst (provided_signatures (snd (remove_unused_signatures s)))))"

definition get_required_signatures ::
  "('k :: linorder) crypto \<Rightarrow> 'k operation list \<Rightarrow> 'k set result \<Rightarrow> 'k set \<Rightarrow> (account_name_type \<Rightarrow> 'k authority) \<Rightarrow> (account_name_type \<Rightarrow> 'k authority) \<Rightarrow>
   (account_name_type \<Rightarrow> 'k authority) \<Rightarrow> 'k authority_limits \<Rightarrow> 'k set result" where
  "get_required_signatures cr ops sig_keys avail get_act get_own get_post lim =
     res_bind (collect_other cr ops) (\<lambda>other.
       let r_active = collect_names required_active ops;
           r_owner = collect_names required_owner ops;
           r_posting = collect_names required_posting ops
       in res_bind sig_keys (\<lambda>sigs.
          let s = make_sign_state (sorted_list_of_set sigs)
          in if length r_posting \<noteq> 0 then
               fc_assert (length r_owner = 0) (fc_assert (length r_active = 0)
                 (let ctx = sign_context_of get_post avail lim
                  in Inr (used_available avail (foldl (\<lambda>s n. mark (check_authority_of ctx n) s) s r_posting))))
             else
               (let ctx = sign_context_of get_act avail lim;
                    s = foldl (\<lambda>s auth. mark (check_authority ctx auth) s) s other;
                    s = foldl (\<lambda>s n. mark (check_authority ctx (get_own n)) s) s r_owner;
                    s = foldl (\<lambda>s n. mark (check_authority_of ctx n) s) s r_active
                in Inr (used_available avail s))))"

definition missing_auth :: "fc_error \<Rightarrow> bool" where
  "missing_auth e \<longleftrightarrow> e \<in> {Tx_Missing_Owner_Auth, Tx_Missing_Active_Auth, Tx_Missing_Posting_Auth, Tx_Missing_Other_Auth}"

definition minimize_required_signatures ::
  "('k :: linorder) crypto \<Rightarrow> 'k operation list \<Rightarrow> 'k set result \<Rightarrow> 'k set \<Rightarrow> (account_name_type \<Rightarrow> 'k authority) \<Rightarrow> (account_name_type \<Rightarrow> 'k authority) \<Rightarrow>
   (account_name_type \<Rightarrow> 'k authority) \<Rightarrow> 'k authority_limits \<Rightarrow> 'k set result" where
  "minimize_required_signatures cr ops sig_keys avail get_act get_own get_post lim =
     res_bind (get_required_signatures cr ops sig_keys avail get_act get_own get_post lim) (\<lambda>s.
       res_fold (\<lambda>k result.
         case verify_authority cr ops (result - {k}) get_act get_own get_post lim {} {} {} of
           Inr _ \<Rightarrow> Inr (result - {k})
         | Inl e \<Rightarrow> if missing_auth e then Inr (insert k (result - {k})) else Inl e)
       (sorted_list_of_set s) s)"

section \<open>A verified transaction is authorised\<close>

text \<open>
  Sequencing of checks: when every check of a fold keeps the run sound and succeeds only if a property
  of its item holds, a successful fold gives the property for all items.
\<close>

definition sound_check :: "('k :: linorder) sign_context \<Rightarrow> account_name_type set \<Rightarrow> 'k set \<Rightarrow> bool \<Rightarrow> ('k sign_state \<Rightarrow> bool \<times> 'k sign_state) \<Rightarrow> bool" where
  "sound_check ctx B K P f \<longleftrightarrow> (\<forall>s ok s'. sound_run ctx B s s \<longrightarrow> signing_keys ctx s = K \<longrightarrow> f s = (ok, s') \<longrightarrow>
     sound_run ctx B s s' \<and> (ok \<longrightarrow> P))"

lemma sound_check_step:
  assumes "sound_check ctx B K P f" "sound_run ctx B s s" "signing_keys ctx s = K" "f s = (ok, s')"
  shows "sound_run ctx B s' s'" "signing_keys ctx s' = K" "ok \<Longrightarrow> P"
proof -
  have "sound_run ctx B s s' \<and> (ok \<longrightarrow> P)" using assms unfolding sound_check_def by blast
  then show "sound_run ctx B s' s'" "signing_keys ctx s' = K" "ok \<Longrightarrow> P"
    using assms(3) by (auto simp: sound_run_def)
qed

lemma sound_check_or:
  assumes f: "sound_check ctx B K P f" and g: "sound_check ctx B K Q g"
  shows "sound_check ctx B K (P \<or> Q) (sign_or f g)"
  unfolding sound_check_def
proof (intro allI impI)
  fix s ok s'
  assume s: "sound_run ctx B s s" "signing_keys ctx s = K" and run: "sign_or f g s = (ok, s')"
  obtain ok1 s1 where f1: "f s = (ok1, s1)" by force
  have r1: "sound_run ctx B s s1" using f s f1 unfolding sound_check_def by blast
  note st = sound_check_step [OF f s f1]
  show "sound_run ctx B s s' \<and> (ok \<longrightarrow> P \<or> Q)"
  proof (cases ok1)
    case True
    with run f1 have "s' = s1" by (simp add: sign_or_def)
    with r1 True st(3) show ?thesis by simp
  next
    case False
    with run f1 have "g s1 = (ok, s')" by (simp add: sign_or_def)
    with g st(1,2) have "sound_run ctx B s1 s' \<and> (ok \<longrightarrow> Q)" unfolding sound_check_def by blast
    with sound_run_trans [OF r1] show ?thesis by blast
  qed
qed

lemma sound_check_authority:
  "sound_check ctx B K (authority_met K (Collect (approvable (get_active ctx) K B)) auth) (check_authority ctx auth)"
  unfolding sound_check_def using check_authority_sound [where B = B] by (fastforce simp: approvable_set_def)

lemma sound_check_authority_of: "sound_check ctx B K (approvable (get_active ctx) K B n) (check_authority_of ctx n)"
  unfolding sound_check_def using check_authority_of_sound [where B = B] by (fastforce simp: approvable_set_def)

lemma sound_fold:
  assumes "res_fold (\<lambda>x. sign_assert e (f x)) xs s = Inr s'" "\<And>x. sound_check ctx B K (P x) (f x)"
    "sound_run ctx B s s" "signing_keys ctx s = K"
  shows "sound_run ctx B s' s' \<and> signing_keys ctx s' = K \<and> (\<forall>x \<in> set xs. P x)"
  using assms(1,3,4)
proof (induction xs arbitrary: s)
  case (Cons x xs)
  obtain ok s1 where f: "f x s = (ok, s1)" by force
  have "sign_assert e (f x) s = (if ok then Inr s1 else Inl e)" by (simp add: sign_assert_def f)
  with Cons.prems(1) have ok and rest: "res_fold (\<lambda>x. sign_assert e (f x)) xs s1 = Inr s'"
    by (auto split: if_splits)
  note st = sound_check_step [OF assms(2) Cons.prems(2,3) f]
  from Cons.IH [OF rest st(1,2)] st(3) [OF \<open>ok\<close>] show ?case by simp
qed simp

lemma signing_keys_make:
  "finite sigs \<Longrightarrow> signing_keys (sign_context_of g {} lim) (make_sign_state (sorted_list_of_set sigs)\<lparr>approved_by := B\<rparr>) = sigs"
proof -
  have "fst ` set (foldl (\<lambda>m key. flat_map_set key False m) m ks) = fst ` set m \<union> set ks" for m :: "('a :: linorder \<times> bool) list" and ks
    by (induction ks arbitrary: m) (auto simp: set_flat_map_set)
  then show "finite sigs \<Longrightarrow> ?thesis" by (simp add: signing_keys_def sign_context_of_def make_sign_state_def)
qed

lemma sound_run_make: "sound_run ctx B (s\<lparr>approved_by := B\<rparr>) (s\<lparr>approved_by := B\<rparr>)"
  by (auto simp: sound_run_def intro: approvable.given)

lemma set_collect_names: "set (collect_names req ops) = (\<Union>op \<in> set ops. req op)" if "\<And>op. finite (req op)"
  unfolding collect_names_def using that by (intro set_sorted_list_of_set) auto

lemma finite_required [simp]: "finite (required_active op)" "finite (required_owner op)" "finite (required_posting op)"
  by (cases op; simp)+

lemma collect_names_Nil: "(\<And>op. finite (req op)) \<Longrightarrow> length (collect_names req ops) = 0 \<longleftrightarrow> (\<forall>op \<in> set ops. req op = {})"
  using set_collect_names [of req ops] by (auto simp: set_empty [symmetric] simp del: set_empty)

lemma collect_other_Nil: "collect_other cr ops = Inr [] \<Longrightarrow> op \<in> set ops \<Longrightarrow> required_other cr op = Inr []"
  by (induction ops) auto

lemma sound_check_owner: "sound_check ctx B K (n \<in> owner_ok \<or> P) (\<lambda>s. if n \<in> owner_ok then (True, s) else f s)"
  if "sound_check ctx B K P f"
  using that by (auto simp: sound_check_def)

lemma approved_by_make: "approved_by (make_sign_state ks) = {''temp''}"
  by (simp add: make_sign_state_def)

lemma get_active_context: "get_active (sign_context_of g avail lim) = g"
  by (simp add: sign_context_of_def)

lemma verified_posting:
  assumes v: "verify_authority cr ops sigs get_act get_own get_post lim active_ok owner_ok posting_ok = Inr ()" and fin: "finite sigs"
    and post: "\<exists>op \<in> set ops. required_posting op \<noteq> {}" and B: "B = {''temp''} \<union> posting_ok"
  shows "length (collect_names required_active ops) = 0 \<and> length (collect_names required_owner ops) = 0 \<and> collect_other cr ops = Inr [] \<and>
    (\<forall>n \<in> set (collect_names required_posting ops). approvable get_post sigs B n \<or>
       authority_met sigs (Collect (approvable get_post sigs B)) (get_act n) \<or> authority_met sigs (Collect (approvable get_post sigs B)) (get_own n))"
proof -
  let ?ctx = "sign_context_of get_post {} lim"
  let ?check = "\<lambda>n. sign_or (check_authority_of ?ctx n) (sign_or (check_authority ?ctx (get_act n)) (check_authority ?ctx (get_own n)))"
  have "length (collect_names required_posting ops) \<noteq> 0" using post collect_names_Nil [of required_posting ops] by auto
  with v obtain s1 where none: "length (collect_names required_active ops) = 0" "length (collect_names required_owner ops) = 0" "collect_other cr ops = Inr []"
    and fold: "res_fold (\<lambda>n. sign_assert Tx_Missing_Posting_Auth (?check n)) (collect_names required_posting ops)
      (make_sign_state (sorted_list_of_set sigs)\<lparr>approved_by := B\<rparr>) = Inr s1"
    by (auto simp: verify_authority_def Let_def approved_by_make B)
  note checked = sound_check_or [OF sound_check_authority_of sound_check_or [OF sound_check_authority sound_check_authority]]
  from sound_fold [OF fold checked sound_run_make signing_keys_make [OF fin]] none show ?thesis by (simp add: get_active_context)
qed

lemma verified_active:
  assumes v: "verify_authority cr ops sigs get_act get_own get_post lim active_ok owner_ok posting_ok = Inr ()" and fin: "finite sigs"
    and post: "\<not> (\<exists>op \<in> set ops. required_posting op \<noteq> {})" and B: "B = {''temp''} \<union> active_ok \<union> owner_ok"
    and ok: "ok = Collect (approvable get_act sigs B)"
  shows "(\<exists>other. collect_other cr ops = Inr other \<and> (\<forall>auth \<in> set other. authority_met sigs ok auth)) \<and>
    (\<forall>n \<in> set (collect_names required_active ops). approvable get_act sigs B n \<or> authority_met sigs ok (get_own n)) \<and>
    (\<forall>n \<in> set (collect_names required_owner ops). n \<in> owner_ok \<or> authority_met sigs ok (get_own n))"
proof -
  let ?ctx = "sign_context_of get_act {} lim"
  have "length (collect_names required_posting ops) = 0" using post collect_names_Nil [of required_posting ops] by auto
  with v obtain other s1 s2 s3 where other: "collect_other cr ops = Inr other"
    and f1: "res_fold (\<lambda>auth. sign_assert Tx_Missing_Other_Auth (check_authority ?ctx auth)) other
      (make_sign_state (sorted_list_of_set sigs)\<lparr>approved_by := B\<rparr>) = Inr s1"
    and f2: "res_fold (\<lambda>n. sign_assert Tx_Missing_Active_Auth (sign_or (check_authority_of ?ctx n) (check_authority ?ctx (get_own n))))
      (collect_names required_active ops) s1 = Inr s2"
    and f3: "res_fold (\<lambda>n. sign_assert Tx_Missing_Owner_Auth (\<lambda>s. if n \<in> owner_ok then (True, s) else check_authority ?ctx (get_own n) s))
      (collect_names required_owner ops) s2 = Inr s3"
    by (auto simp: verify_authority_def Let_def approved_by_make B)
  note r1 = sound_fold [OF f1 sound_check_authority sound_run_make signing_keys_make [OF fin]]
  note r2 = sound_fold [OF f2 sound_check_or [OF sound_check_authority_of sound_check_authority] r1 [THEN conjunct1] r1 [THEN conjunct2, THEN conjunct1]]
  note r3 = sound_fold [OF f3 sound_check_owner [OF sound_check_authority] r2 [THEN conjunct1] r2 [THEN conjunct2, THEN conjunct1]]
  from r1 r2 r3 other show ?thesis by (simp add: get_active_context ok)
qed

text \<open>
  C1: Soundness of the authority check. When \<open>verify_authority\<close> accepts the keys that signed a
  transaction, either it needs the posting authority of some accounts and no other, and every such
  account is approved through its posting, active or owner authority; or every account whose active
  authority is needed is approved through its active or owner authority, every account whose owner
  authority is needed meets that authority or is in the given owner approvals, and every authority an
  operation names itself is met. Approval is by the keys that signed and by accounts that are
  approved in turn.
\<close>

theorem verified_transaction_authorised:
  assumes "verify_authority cr ops sigs get_act get_own get_post lim active_ok owner_ok posting_ok = Inr ()" and "finite sigs"
  shows "if \<exists>op \<in> set ops. required_posting op \<noteq> {}
    then (\<forall>op \<in> set ops. required_active op = {} \<and> required_owner op = {} \<and> required_other cr op = Inr []) \<and>
      (let ok = Collect (approvable get_post sigs ({''temp''} \<union> posting_ok))
       in \<forall>op \<in> set ops. \<forall>n \<in> required_posting op. n \<in> ok \<or> authority_met sigs ok (get_act n) \<or> authority_met sigs ok (get_own n))
    else (let ok = Collect (approvable get_act sigs ({''temp''} \<union> active_ok \<union> owner_ok))
       in (\<forall>op \<in> set ops. \<forall>n \<in> required_active op. n \<in> ok \<or> authority_met sigs ok (get_own n)) \<and>
          (\<forall>op \<in> set ops. \<forall>n \<in> required_owner op. n \<in> owner_ok \<or> authority_met sigs ok (get_own n)) \<and>
          (\<exists>other. collect_other cr ops = Inr other \<and> (\<forall>auth \<in> set other. authority_met sigs ok auth)))"
proof (cases "\<exists>op \<in> set ops. required_posting op \<noteq> {}")
  case True
  note v = verified_posting [OF assms True refl]
  then have "\<forall>op \<in> set ops. required_active op = {} \<and> required_owner op = {} \<and> required_other cr op = Inr []"
    using collect_names_Nil [of required_active ops] collect_names_Nil [of required_owner ops] collect_other_Nil [of cr ops] by simp
  with v True show ?thesis by (simp add: set_collect_names Let_def)
next
  case False
  with verified_active [OF assms False refl refl] show ?thesis by (simp add: set_collect_names Let_def)
qed

theorem verified_transaction_authorised_witness:
  "let ok = Collect (approvable (\<lambda>_. key_authority 5) {5 :: nat} {''temp''})
   in ''alice'' \<in> ok \<or> authority_met {5 :: nat} ok (key_authority 6)"
proof -
  let ?lim = "\<lparr>al_max_recursion = 2, al_max_membership = 40, al_max_account_auths = 125\<rparr> :: nat authority_limits"
  let ?op = "Convert \<lparr>cv_owner = ''alice'', cv_requestid = 1, cv_amount = mk_asset 1 DBD_SYMBOL\<rparr> :: nat operation"
  have "verify_authority cr [?op] {5} (\<lambda>_. key_authority 5) (\<lambda>_. key_authority 6) (\<lambda>_. key_authority 7) ?lim {} {} {} = Inr ()" for cr
    unfolding verify_authority_def collect_names_def
    by (simp add: Let_def make_sign_state_def sign_context_of_def sign_assert_def sign_or_def check_authority_of_def
        check_authority_impl_def key_authority_def signed_by_def assert_no_unused_def remove_unused_signatures_def)
  from verified_transaction_authorised [OF this] show ?thesis by (simp add: key_authority_def)
qed

end
