(* ===== verification/Manabar.thy ===== *)
theory Manabar
  imports Asset_Price
begin

text \<open>
  The regenerating resource of \<open>libraries/chain\<close> (\<open>util/manabar.hpp\<close>): voting power and resource
  credits regenerate linearly up to a maximum. Mana is an \<open>int64_t\<close>, times are seconds in a
  \<open>uint32_t\<close>.
\<close>

record manabar_params =
  max_mana :: int
  regen_time :: nat

record manabar =
  current_mana :: int
  last_update_time :: nat

definition manabar_params_validate :: "manabar_params \<Rightarrow> unit result" where
  "manabar_params_validate p = fc_assert (max_mana p \<ge> 0) (Inr ())"

text \<open>The 128-bit product and quotient of one regeneration, read back as \<open>uint64_t\<close> and then as
  \<open>int64_t\<close>.\<close>

definition regenerated :: "manabar_params \<Rightarrow> nat \<Rightarrow> int result" where
  "regenerated params dt =
     (let max_mana_dt = word_of_int (if max_mana params \<ge> 0 then max_mana params else 0) * (of_nat dt :: 128 word)
      in if regen_time params = 0 then Inl Divide_By_Zero_Exception
         else
           (let u_regen = max_mana_dt div of_nat (regen_time params)
            in fc_assert (drop_bit 64 u_regen = 0) (fc_assert (uint u_regen \<le> int64_max) (Inr (uint u_regen)))))"

definition regenerate_mana :: "bool \<Rightarrow> manabar_params \<Rightarrow> nat \<Rightarrow> manabar \<Rightarrow> manabar result" where
  "regenerate_mana skip_cap_regen params now m =
     res_bind (manabar_params_validate params) (\<lambda>_.
     fc_assert (now \<ge> last_update_time m)
       (if current_mana m \<ge> max_mana params then Inr \<lparr>current_mana = max_mana params, last_update_time = now\<rparr>
        else
          (let dt = now - last_update_time m;
               dt' = (if \<not> skip_cap_regen then (if dt > regen_time params then regen_time params else dt) else dt)
           in res_bind (regenerated params dt') (\<lambda>u_regen.
              let new_current_mana = sint (signed_sat_add (word_of_int (current_mana m)) (word_of_int u_regen))
              in Inr \<lparr>current_mana = (if new_current_mana > max_mana params then max_mana params else new_current_mana),
                      last_update_time = now\<rparr>))))"

definition has_mana :: "int \<Rightarrow> manabar \<Rightarrow> bool" where
  "has_mana mana_needed m \<longleftrightarrow> mana_needed \<le> 0 \<or> current_mana m \<ge> mana_needed"

definition has_mana_unsigned :: "64 word \<Rightarrow> manabar \<Rightarrow> bool result" where
  "has_mana_unsigned mana_needed m = fc_assert (uint mana_needed \<le> int64_max) (Inr (has_mana (uint mana_needed) m))"

text \<open>The default lower limit \<open>min_mana\<close> of \<open>use_mana\<close> is 0.\<close>

definition use_mana :: "int \<Rightarrow> int \<Rightarrow> manabar \<Rightarrow> manabar" where
  "use_mana mana_used min_mana m =
     (let c = sint (signed_sat_sub (word_of_int (current_mana m)) (word_of_int mana_used))
      in m\<lparr>current_mana := (if c < min_mana then min_mana else c)\<rparr>)"

definition use_mana_unsigned :: "64 word \<Rightarrow> int \<Rightarrow> manabar \<Rightarrow> manabar result" where
  "use_mana_unsigned mana_used min_mana m =
     fc_assert (uint mana_used \<le> int64_max) (Inr (use_mana (uint mana_used) min_mana m))"

section \<open>Regeneration\<close>

lemma sint_word_of_int_64: "in_int64 x \<Longrightarrow> sint (word_of_int x :: 64 word) = x"
  using to_int64_id by (simp add: to_int64_def)

lemma use_mana_eq:
  "in_int64 (current_mana m) \<Longrightarrow> in_int64 u \<Longrightarrow> use_mana u lo m = m\<lparr>current_mana := max lo (clamp64 (current_mana m - u))\<rparr>"
  by (simp add: use_mana_def sint_signed_sat_sub sint_word_of_int_64 max_def)

text \<open>Parameters and times in the ranges of their types; the regeneration time is positive.\<close>

definition wf_mana :: "manabar_params \<Rightarrow> nat \<Rightarrow> manabar \<Rightarrow> bool" where
  "wf_mana p now m \<longleftrightarrow> 0 \<le> max_mana p \<and> max_mana p \<le> int64_max \<and> 0 < regen_time p \<and> regen_time p < 2 ^ 32 \<and>
     now < 2 ^ 32 \<and> last_update_time m \<le> now \<and> in_int64 (current_mana m)"

text \<open>What the regeneration is meant to give: the elapsed share of the maximum, rounded down.\<close>

definition regen_spec :: "manabar_params \<Rightarrow> nat \<Rightarrow> manabar \<Rightarrow> int" where
  "regen_spec p now m =
     min (max_mana p) (current_mana m + max_mana p * int (min (now - last_update_time m) (regen_time p)) div int (regen_time p))"

lemma regen_quotient:
  assumes "0 \<le> M" "M \<le> int64_max" "dt < 2 ^ 32" "r < 2 ^ 32"
  shows "uint ((word_of_int M * of_nat dt :: 128 word) div of_nat r) = M * int dt div int r"
proof -
  have u: "uint (word_of_int M :: 128 word) = M" using assms(1,2) by (simp add: uint_word_of_int)
  have d: "uint (of_nat dt :: 128 word) = int dt" "uint (of_nat r :: 128 word) = int r"
    using assms(3,4) by (simp_all add: unsigned_of_nat take_bit_nat_eq_self)
  have "M * int dt \<le> int64_max * 2 ^ 32" using assms by (intro mult_mono) auto
  then have "uint (word_of_int M * of_nat dt :: 128 word) = M * int dt"
    using assms(1) by (simp add: uint_word_ariths u d)
  then show ?thesis by (simp add: uint_div_distrib d)
qed

lemma share_le:
  assumes "0 \<le> (M :: int)" "n \<le> r" "0 < r"
  shows "M * int n div int r \<le> M" "0 \<le> M * int n div int r"
proof -
  have "M * int n div int r \<le> M * int r div int r"
    using assms by (intro zdiv_mono1 mult_left_mono) auto
  then show "M * int n div int r \<le> M" using assms(3) by simp
  show "0 \<le> M * int n div int r" using assms by (simp add: pos_imp_zdiv_nonneg_iff)
qed

lemma regenerated_eq:
  assumes "0 \<le> max_mana p" "max_mana p \<le> int64_max" "0 < regen_time p" "regen_time p < 2 ^ 32" "dt \<le> regen_time p"
  shows "regenerated p dt = Inr (max_mana p * int dt div int (regen_time p))"
proof -
  have u: "uint ((word_of_int (max_mana p) * of_nat dt :: 128 word) div of_nat (regen_time p))
      = max_mana p * int dt div int (regen_time p)"
    using assms by (intro regen_quotient) auto
  moreover have "max_mana p * int dt div int (regen_time p) \<le> max_mana p" using assms by (intro share_le)
  ultimately show ?thesis using assms by (simp add: regenerated_def Let_def drop_bit_64_eq_0)
qed

lemma clamp64_id: "in_int64 x \<Longrightarrow> clamp64 x = x"
  by (auto simp: clamp64_def in_int64_def)

lemma regenerate_mana_eq:
  assumes "wf_mana p now m"
  shows "regenerate_mana False p now m = Inr \<lparr>current_mana = regen_spec p now m, last_update_time = now\<rparr>"
proof (cases "current_mana m \<ge> max_mana p")
  case True
  have "0 \<le> max_mana p * int (min (now - last_update_time m) (regen_time p)) div int (regen_time p)"
    using assms by (intro share_le) (auto simp: wf_mana_def)
  with True assms show ?thesis
    by (simp add: regenerate_mana_def manabar_params_validate_def wf_mana_def regen_spec_def)
next
  case False
  define dt where "dt = min (now - last_update_time m) (regen_time p)"
  have g: "(if now - last_update_time m > regen_time p then regen_time p else now - last_update_time m) = dt"
    by (simp add: dt_def)
  define u where "u = max_mana p * int dt div int (regen_time p)"
  have r: "regenerated p dt = Inr u"
    unfolding u_def using assms by (intro regenerated_eq) (auto simp: wf_mana_def dt_def)
  have b: "0 \<le> u" "u \<le> max_mana p"
    unfolding u_def using assms by (intro share_le; simp add: wf_mana_def dt_def)+
  have "in_int64 u" using b assms by (auto simp: wf_mana_def in_int64_def)
  then have s: "sint (signed_sat_add (word_of_int (current_mana m)) (word_of_int u)) = clamp64 (current_mana m + u)"
    using assms by (simp add: sint_signed_sat_add sint_word_of_int_64 wf_mana_def)
  have "(if clamp64 (current_mana m + u) > max_mana p then max_mana p else clamp64 (current_mana m + u))
      = min (max_mana p) (current_mana m + u)"
    using b assms by (auto simp: clamp64_def wf_mana_def in_int64_def)
  with False r s g assms show ?thesis
    by (simp add: regenerate_mana_def manabar_params_validate_def wf_mana_def regen_spec_def dt_def [symmetric] u_def [symmetric])
qed

lemma div_add_le: "0 < (c :: int) \<Longrightarrow> a div c + b div c \<le> (a + b) div c"
  by (metis add_le_cancel_left div_add1_eq div_int_pos_iff le_add_same_cancel1 add_nonneg_nonneg pos_mod_sign less_imp_le)

text \<open>Refreshing in between never gives more than refreshing once at the end.\<close>

lemma regen_spec_split:
  assumes "wf_mana p t1 m" "t1 \<le> t2" "0 \<le> current_mana m"
  shows "regen_spec p t2 \<lparr>current_mana = regen_spec p t1 m, last_update_time = t1\<rparr> \<le> regen_spec p t2 m"
proof -
  define M r a b c where "M = max_mana p" and "r = regen_time p"
    and "a = min (t1 - last_update_time m) r" and "b = min (t2 - t1) r" and "c = min (t2 - last_update_time m) r"
  have w: "0 \<le> M" "0 < int r" "0 < r" using assms by (auto simp: wf_mana_def M_def r_def)
  have sp: "M * int a div int r + M * int b div int r \<le> (M * int a + M * int b) div int r"
    using w by (intro div_add_le)
  have cl: "c = min (a + b) r"
    using assms by (auto simp: a_def b_def c_def wf_mana_def min_def)
  have key: "min M (min M (x + M * int a div int r) + M * int b div int r) \<le> min M (x + M * int c div int r)" if "0 \<le> x" for x
  proof (cases "a + b \<le> r")
    case True
    then have "M * int c div int r = (M * int a + M * int b) div int r" by (simp add: cl algebra_simps)
    with sp show ?thesis by linarith
  next
    case False
    then have "M * int c div int r = M" using w by (simp add: cl)
    with that have "min M (x + M * int c div int r) = M" by simp
    then show ?thesis using min.cobounded1 [of M] by (simp only:)
  qed
  show ?thesis using key [OF assms(3)] by (simp only: regen_spec_def M_def r_def a_def b_def c_def manabar.simps)
qed




text \<open>
  C39: A bar that is not in debt is full again once the regeneration time has passed, however much
  of it was used: from a bar in range, using any amount and regenerating \<open>regen_time\<close> seconds later
  gives the maximum.
\<close>

theorem mana_recovers:
  assumes "wf_mana p t m" "in_int64 u" "t + regen_time p \<le> now" "now < 2 ^ 32"
  shows "\<exists>m'. regenerate_mana False p t m = Inr m' \<and>
    regenerate_mana False p now (use_mana u 0 m') = Inr \<lparr>current_mana = max_mana p, last_update_time = now\<rparr>"
proof -
  define m' where "m' = \<lparr>current_mana = regen_spec p t m, last_update_time = t\<rparr>"
  have r: "regenerate_mana False p t m = Inr m'" using regenerate_mana_eq [OF assms(1)] by (simp add: m'_def)
  have "int64_min \<le> regen_spec p t m" "regen_spec p t m \<le> int64_max"
    using assms(1) share_le(2) [of "max_mana p" "min (t - last_update_time m) (regen_time p)" "regen_time p"]
    by (auto simp: regen_spec_def wf_mana_def in_int64_def)
  then have b: "in_int64 (current_mana m')" by (simp add: in_int64_def m'_def)
  define v where "v = use_mana u 0 m'"
  have v: "0 \<le> current_mana v" "current_mana v \<le> int64_max" "last_update_time v = t"
    using b assms(2) by (auto simp: v_def use_mana_eq clamp64_def m'_def)
  then have w: "wf_mana p now v" using assms by (auto simp: wf_mana_def in_int64_def)
  have "regen_spec p now v = max_mana p"
  proof -
    have mn: "min (now - last_update_time v) (regen_time p) = regen_time p" using v(3) assms(3) by simp
    have "0 < regen_time p" using w by (simp add: wf_mana_def)
    then show ?thesis using v(1) by (simp add: regen_spec_def mn)
  qed
  then show ?thesis using r regenerate_mana_eq [OF w] by (auto simp: v_def)
qed

theorem mana_recovers_witness:
  "wf_mana \<lparr>max_mana = 1000, regen_time = 432000\<rparr> 5 \<lparr>current_mana = 700, last_update_time = 5\<rparr> \<and>
   (\<exists>m'. regenerate_mana False \<lparr>max_mana = 1000, regen_time = 432000\<rparr> 5 \<lparr>current_mana = 700, last_update_time = 5\<rparr> = Inr m' \<and>
     regenerate_mana False \<lparr>max_mana = 1000, regen_time = 432000\<rparr> 500000 (use_mana 900 0 m') =
       Inr \<lparr>current_mana = 1000, last_update_time = 500000\<rparr>)"
proof -
  have w: "wf_mana \<lparr>max_mana = 1000, regen_time = 432000\<rparr> 5 \<lparr>current_mana = 700, last_update_time = 5\<rparr>"
    by (simp add: wf_mana_def in_int64_def)
  show ?thesis using w mana_recovers [OF w, of 900 500000] by (simp add: in_int64_def)
qed



end
