(* ===== verification/Rd_Dynamics.thy ===== *)
theory Rd_Dynamics
  imports Asset_Price
begin

text \<open>
  The dynamics of a pool of resources (\<open>util/rd_dynamics.hpp\<close>, \<open>util/rd_setup.hpp\<close>,
  \<open>util/rd.cpp\<close>): a pool gets a budget in each unit of time and loses a share of what it holds. The
  parameters are set from values witnesses vote for.
\<close>

section \<open>Parameters and operations\<close>

record rd_decay_params =
  decay_per_time_unit :: nat
  decay_per_time_unit_denom_shift :: nat

record rd_dynamics_params =
  resource_unit :: nat
  budget_per_time_unit :: int
  pool_eq :: nat
  max_pool_size :: nat
  decay_params :: rd_decay_params
  min_decay :: int

record rd_user_params =
  user_budget_per_time_unit :: int
  user_decay_per_time_unit :: nat

record rd_system_params =
  sys_resource_unit :: nat
  sys_decay_per_time_unit_denom_shift :: nat

definition rd_validate_user_params :: "rd_user_params \<Rightarrow> unit result" where
  "rd_validate_user_params u =
     fc_assert (user_budget_per_time_unit u \<ge> 1)
     (fc_assert (user_budget_per_time_unit u \<le> 2 ^ 28 - 1)
     (fc_assert (user_decay_per_time_unit u \<ge> 2 ^ 6)
     (fc_assert (user_decay_per_time_unit u \<le> 0xFFFFFFFF) (Inr ()))))"

text \<open>The decay of a pool that is not negative.\<close>

definition pool_decay :: "rd_decay_params \<Rightarrow> int \<Rightarrow> nat \<Rightarrow> int result" where
  "pool_decay p current_pool dt =
     (let decay_amount = of_nat ((decay_per_time_unit p * dt) mod 2 ^ 64) * (word_of_int current_pool :: 128 word);
          decay_amount = drop_bit (decay_per_time_unit_denom_shift p) decay_amount
      in fc_assert (drop_bit 64 decay_amount = 0)
           (Inr (if uint decay_amount > current_pool then current_pool else uint decay_amount)))"

definition rd_compute_pool_decay :: "rd_decay_params \<Rightarrow> int \<Rightarrow> nat \<Rightarrow> int result" where
  "rd_compute_pool_decay p current_pool dt =
     (if current_pool = int64_min then Inl Undefined_Behaviour
      else if current_pool < 0 then res_bind (pool_decay p (- current_pool) dt) (\<lambda>r. Inr (- r))
      else pool_decay p current_pool dt)"

text \<open>The sum of the new pool is computed in \<open>int64_t\<close>, modelled as wrapping.\<close>

definition rd_apply :: "rd_dynamics_params \<Rightarrow> int \<Rightarrow> int result" where
  "rd_apply rd pool =
     res_bind (rd_compute_pool_decay (decay_params rd) pool 1) (\<lambda>decay.
     let decay = max decay (min_decay rd);
         new_pool = to_int64 (pool + budget_per_time_unit rd - decay);
         new_pool = min new_pool (to_int64 (int (max_pool_size rd)))
     in Inr (max new_pool 0))"

definition check_pool_eq :: "rd_dynamics_params \<Rightarrow> int \<Rightarrow> bool result" where
  "check_pool_eq d pool =
     res_bind (rd_compute_pool_decay (decay_params d) pool 1) (\<lambda>decay. Inr (decay \<ge> budget_per_time_unit d))"

definition rd_setup_dynamics_params :: "rd_user_params \<Rightarrow> rd_system_params \<Rightarrow> rd_dynamics_params \<Rightarrow> rd_dynamics_params result" where
  "rd_setup_dynamics_params u s dparams_out =
     (let d = user_decay_per_time_unit u; shift = sys_decay_per_time_unit_denom_shift s;
          dparams = dparams_out\<lparr>resource_unit := sys_resource_unit s, budget_per_time_unit := user_budget_per_time_unit u,
            decay_params := \<lparr>decay_per_time_unit = d, decay_per_time_unit_denom_shift = shift\<rparr>\<rparr>
      in fc_assert (shift = 36)
         (let temp = push_bit shift (word_of_int (user_budget_per_time_unit u) :: 128 word) + of_nat ((d + 0xFFFFFFFF) mod 2 ^ 32)
          in if d = 0 then Inl Divide_By_Zero_Exception
             else
               (let temp = temp div of_nat d
                in fc_assert (drop_bit 64 temp = 0)
                   (let dparams = dparams\<lparr>pool_eq := unat temp, max_pool_size := unat temp\<rparr>
                    in res_bind (check_pool_eq dparams (to_int64 (int (pool_eq dparams)))) (\<lambda>c.
                       fc_assert c
                       (res_bind (check_pool_eq dparams (to_int64 (int (pool_eq dparams) - 1))) (\<lambda>c'.
                       fc_assert (\<not> c') (Inr dparams))))))))"

section \<open>The decay\<close>

lemma uint_drop_bit_word: "uint (drop_bit k (w :: 'a :: len word)) = uint w div 2 ^ k"
  by (simp only: unsigned_drop_bit_eq) (simp add: drop_bit_eq_div take_bit_int_eq_self)

lemma le_div_int: "b \<le> a div c \<longleftrightarrow> b * c \<le> a" if "0 < c" for a b c :: int
proof
  assume "b \<le> a div c"
  then have "b * c \<le> a div c * c" using that by (intro mult_right_mono) auto
  then show "b * c \<le> a" using div_mult_mod_eq [of a c] pos_mod_sign [OF that, of a] by linarith
next
  assume "b * c \<le> a"
  then have "b * c div c \<le> a div c" using that by (rule zdiv_mono1)
  then show "b \<le> a div c" using that by simp
qed

lemma uint_product_128:
  assumes "n < 2 ^ 64" "0 \<le> x" "x \<le> int64_max"
  shows "uint (of_nat n * word_of_int x :: 128 word) = int n * x"
proof -
  have *: "of_nat n * word_of_int x = (word_of_int (int n * x) :: 128 word)" by simp
  have "int n * x \<le> 2 ^ 64 * 2 ^ 63" using assms by (intro mult_mono) auto
  then have "int n * x < 2 ^ 128" by simp
  then show ?thesis unfolding * uint_word_of_int using assms by (intro mod_pos_pos_trivial) simp_all
qed

text \<open>A share of at most the whole pool is the exact product, rounded down.\<close>

lemma pool_decay_value:
  assumes "decay_per_time_unit p \<le> 2 ^ decay_per_time_unit_denom_shift p" "decay_per_time_unit p < 2 ^ 64" "0 \<le> x" "x \<le> int64_max"
  shows "pool_decay p x 1 = Inr (int (decay_per_time_unit p) * x div 2 ^ decay_per_time_unit_denom_shift p)"
    and "int (decay_per_time_unit p) * x div 2 ^ decay_per_time_unit_denom_shift p \<le> x"
proof -
  let ?d = "decay_per_time_unit p" and ?k = "decay_per_time_unit_denom_shift p"
  define w where "w = drop_bit ?k (of_nat (?d * 1 mod 2 ^ 64) * word_of_int x :: 128 word)"
  have w: "uint w = int ?d * x div 2 ^ ?k"
    unfolding w_def uint_drop_bit_word using uint_product_128 [OF assms(2-4)] assms(2) by simp
  have "int ?d \<le> 2 ^ ?k" using assms(1) by (metis of_nat_le_iff of_nat_numeral of_nat_power)
  then have "int ?d * x \<le> 2 ^ ?k * x" using assms(3) by (rule mult_right_mono)
  then have "int ?d * x div 2 ^ ?k \<le> 2 ^ ?k * x div 2 ^ ?k" by (rule zdiv_mono1) simp
  then show le: "int ?d * x div 2 ^ ?k \<le> x" by simp
  have "drop_bit 64 w = 0" unfolding drop_bit_64_eq_0 w using le assms(4) by simp
  then show "pool_decay p x 1 = Inr (int ?d * x div 2 ^ ?k)"
    unfolding pool_decay_def Let_def w_def [symmetric] using le by (simp add: w)
qed

definition decay_of :: "nat \<Rightarrow> int \<Rightarrow> int" where
  "decay_of d x = int d * x div 2 ^ 36"

lemma compute_decay:
  assumes "decay_per_time_unit p = d" "decay_per_time_unit_denom_shift p = 36" "d \<le> 0xFFFFFFFF" "0 \<le> x" "x \<le> int64_max"
  shows "rd_compute_pool_decay p x 1 = Inr (decay_of d x)"
  using pool_decay_value [of p x] assms by (simp add: rd_compute_pool_decay_def decay_of_def)

text \<open>The smallest pool whose decay reaches the budget.\<close>

definition equilibrium :: "int \<Rightarrow> nat \<Rightarrow> int" where
  "equilibrium b d = (b * 2 ^ 36 + int d - 1) div int d"

lemma equilibrium_decay:
  assumes "0 < d"
  shows "b \<le> decay_of d x \<longleftrightarrow> equilibrium b d \<le> x"
proof -
  have "b \<le> decay_of d x \<longleftrightarrow> b * 2 ^ 36 \<le> int d * x" by (simp add: decay_of_def le_div_int)
  also have "\<dots> \<longleftrightarrow> \<not> (x + 1) * int d \<le> b * 2 ^ 36 + int d - 1" by (simp add: algebra_simps) linarith
  also have "\<dots> \<longleftrightarrow> \<not> x + 1 \<le> equilibrium b d" using assms by (simp add: equilibrium_def le_div_int)
  finally show ?thesis by linarith
qed

lemma equilibrium_bounds:
  assumes "1 \<le> b" "b < 2 ^ 29" "64 \<le> d" "d \<le> 0xFFFFFFFF"
  shows "1 \<le> equilibrium b d" "equilibrium b d \<le> 2 ^ 59 + 1"
proof -
  have d: "0 < int d" "64 \<le> int d" using assms by simp_all
  have "1 * int d \<le> b * 2 ^ 36 + int d - 1" using assms(1) by simp
  then show "1 \<le> equilibrium b d" unfolding equilibrium_def le_div_int [OF d(1)] .
  have "b * 2 ^ 36 + int d - 1 < (2 ^ 59 + 2) * int d"
  proof -
    have "b * 2 ^ 36 \<le> 2 ^ 29 * 2 ^ 36" using assms(2) by (intro mult_right_mono) auto
    also have "\<dots> = 2 ^ 59 * (64 :: int)" by simp
    also have "\<dots> \<le> 2 ^ 59 * int d" using d by (intro mult_left_mono) auto
    finally show ?thesis using d by (simp add: distrib_right)
  qed
  then have "\<not> 2 ^ 59 + 2 \<le> equilibrium b d" unfolding equilibrium_def le_div_int [OF d(1)] by linarith
  then show "equilibrium b d \<le> 2 ^ 59 + 1" by linarith
qed

lemma setup_quotient:
  assumes "1 \<le> b" "b < 2 ^ 29" "64 \<le> d" "d \<le> 0xFFFFFFFF"
  shows "uint ((push_bit 36 (word_of_int b :: 128 word) + of_nat ((d + 0xFFFFFFFF) mod 2 ^ 32)) div of_nat d) = equilibrium b d"
proof -
  have m: "(d + 0xFFFFFFFF) mod 2 ^ 32 = d - 1"
  proof -
    have "d + 0xFFFFFFFF = (d - 1) + 2 ^ 32" using assms(3) by simp
    then show ?thesis using assms(4) by (simp del: power_numeral)
  qed
  define n where "n = b * 2 ^ 36 + int d - 1"
  have n: "0 \<le> n" "n < 2 ^ 128" using assms by (auto simp: n_def)
  have "push_bit 36 (word_of_int b) + of_nat (d - 1) = (word_of_int n :: 128 word)"
    using assms(3) by (simp add: n_def push_bit_eq_mult of_nat_diff)
  moreover have "uint (word_of_int n :: 128 word) = n" using n by (simp add: uint_word_of_int)
  moreover have "uint (of_nat d :: 128 word) = int d" using assms(4) by (simp add: unsigned_of_nat take_bit_nat_eq_self)
  ultimately show ?thesis unfolding m uint_div by (simp only: n_def equilibrium_def)
qed

section \<open>The set-up\<close>

text \<open>The parameters in balance: what the set-up establishes.\<close>

definition balanced_params :: "rd_dynamics_params \<Rightarrow> bool" where
  "balanced_params p \<longleftrightarrow>
     1 \<le> budget_per_time_unit p \<and> budget_per_time_unit p < 2 ^ 29 \<and> 64 \<le> decay_per_time_unit (decay_params p) \<and>
     decay_per_time_unit (decay_params p) \<le> 0xFFFFFFFF \<and> decay_per_time_unit_denom_shift (decay_params p) = 36 \<and>
     int (pool_eq p) = equilibrium (budget_per_time_unit p) (decay_per_time_unit (decay_params p)) \<and> max_pool_size p = pool_eq p"

lemma balanced_check:
  assumes "balanced_params p" "0 \<le> x" "x \<le> int64_max"
  shows "check_pool_eq p x = Inr (int (pool_eq p) \<le> x)"
proof -
  have "rd_compute_pool_decay (decay_params p) x 1 = Inr (decay_of (decay_per_time_unit (decay_params p)) x)"
    by (rule compute_decay) (use assms in \<open>simp_all add: balanced_params_def\<close>)
  then show ?thesis using assms by (simp add: check_pool_eq_def equilibrium_decay balanced_params_def)
qed

lemma balanced_pool: "balanced_params p \<Longrightarrow> 1 \<le> int (pool_eq p) \<and> int (pool_eq p) \<le> 2 ^ 59 + 1"
  unfolding balanced_params_def using equilibrium_bounds by metis

lemma setup_balanced:
  assumes b: "1 \<le> user_budget_per_time_unit u" "user_budget_per_time_unit u < 2 ^ 29"
    and d: "64 \<le> user_decay_per_time_unit u" "user_decay_per_time_unit u \<le> 0xFFFFFFFF"
    and s: "sys_decay_per_time_unit_denom_shift s = 36"
  obtains p where "rd_setup_dynamics_params u s out = Inr p" "balanced_params p" "budget_per_time_unit p = user_budget_per_time_unit u"
    "decay_per_time_unit (decay_params p) = user_decay_per_time_unit u" "min_decay p = min_decay out" "resource_unit p = sys_resource_unit s"
proof -
  let ?b = "user_budget_per_time_unit u" and ?d = "user_decay_per_time_unit u"
  define t :: "128 word" where "t = (push_bit 36 (word_of_int ?b) + of_nat ((?d + 0xFFFFFFFF) mod 2 ^ 32)) div of_nat ?d"
  have t: "uint t = equilibrium ?b ?d" unfolding t_def by (rule setup_quotient [OF b d])
  define p where "p = out\<lparr>resource_unit := sys_resource_unit s, budget_per_time_unit := ?b,
    decay_params := \<lparr>decay_per_time_unit = ?d, decay_per_time_unit_denom_shift = 36\<rparr>, pool_eq := unat t, max_pool_size := unat t\<rparr>"
  have eq: "int (unat t) = equilibrium ?b ?d" unfolding t [symmetric] by simp
  have p: "balanced_params p" using assms eq by (simp add: balanced_params_def p_def)
  note bounds = equilibrium_bounds [OF b d]
  have "drop_bit 64 t = 0" unfolding drop_bit_64_eq_0 t using bounds by simp
  moreover have "check_pool_eq p (to_int64 (int (unat t))) = Inr True" "check_pool_eq p (to_int64 (int (unat t) - 1)) = Inr False"
    using bounds balanced_check [OF p] eq by (simp_all add: to_int64_id in_int64_def p_def)
  ultimately have "rd_setup_dynamics_params u s out = Inr p"
    using d s unfolding rd_setup_dynamics_params_def Let_def by (simp add: p_def t_def)
  then show thesis using p by (rule that) (simp_all add: p_def)
qed

lemma validated_params:
  "rd_validate_user_params u = Inr () \<longleftrightarrow> 1 \<le> user_budget_per_time_unit u \<and> user_budget_per_time_unit u \<le> 2 ^ 28 - 1 \<and>
     64 \<le> user_decay_per_time_unit u \<and> user_decay_per_time_unit u \<le> 0xFFFFFFFF"
  by (auto simp: rd_validate_user_params_def)

text \<open>
  C12: The assertions of \<open>rd_setup_dynamics_params\<close> about its own result never fail for parameters
  that \<open>rd_validate_user_params\<close> accepts, and the equilibrium it computes is the smallest pool whose
  decay in one unit of time reaches the budget.
\<close>
theorem setup_assertions_hold:
  assumes "rd_validate_user_params u = Inr ()" "sys_decay_per_time_unit_denom_shift s = 36"
  shows "\<exists>p. rd_setup_dynamics_params u s out = Inr p \<and> max_pool_size p = pool_eq p \<and>
    (\<forall>x. 0 \<le> x \<and> x \<le> int64_max \<longrightarrow>
      (\<exists>decay. rd_compute_pool_decay (decay_params p) x 1 = Inr decay \<and> decay \<le> x \<and>
         (user_budget_per_time_unit u \<le> decay \<longleftrightarrow> int (pool_eq p) \<le> x)))"
proof -
  note v = assms(1) [unfolded validated_params]
  obtain p where p: "rd_setup_dynamics_params u s out = Inr p" "balanced_params p" "budget_per_time_unit p = user_budget_per_time_unit u"
    "decay_per_time_unit (decay_params p) = user_decay_per_time_unit u"
    by (rule setup_balanced [of u s out]) (use v assms(2) in auto)
  have "\<exists>decay. rd_compute_pool_decay (decay_params p) x 1 = Inr decay \<and> decay \<le> x \<and>
         (user_budget_per_time_unit u \<le> decay \<longleftrightarrow> int (pool_eq p) \<le> x)" if x: "0 \<le> x" "x \<le> int64_max" for x
  proof (intro exI conjI)
    show "rd_compute_pool_decay (decay_params p) x 1 = Inr (decay_of (user_decay_per_time_unit u) x)"
      by (rule compute_decay) (use p v x in \<open>simp_all add: balanced_params_def\<close>)
    show "decay_of (user_decay_per_time_unit u) x \<le> x"
      using pool_decay_value(2) [of "decay_params p" x] p v x by (simp add: decay_of_def balanced_params_def)
    show "user_budget_per_time_unit u \<le> decay_of (user_decay_per_time_unit u) x \<longleftrightarrow> int (pool_eq p) \<le> x"
      using p v equilibrium_decay [of "user_decay_per_time_unit u"] by (simp add: balanced_params_def)
  qed
  then show ?thesis using p by (auto simp: balanced_params_def)
qed

text \<open>The default values of \<open>config.hpp\<close>.\<close>

definition sample_user :: rd_user_params where
  "sample_user = \<lparr>user_budget_per_time_unit = 797, user_decay_per_time_unit = 347321\<rparr>"

definition sample_system :: rd_system_params where
  "sample_system = \<lparr>sys_resource_unit = 10000, sys_decay_per_time_unit_denom_shift = 36\<rparr>"

definition sample_params :: rd_dynamics_params where
  "sample_params = \<lparr>resource_unit = 0, budget_per_time_unit = 0, pool_eq = 0, max_pool_size = 0,
     decay_params = \<lparr>decay_per_time_unit = 0, decay_per_time_unit_denom_shift = 0\<rparr>, min_decay = 0\<rparr>"

theorem setup_assertions_hold_witness:
  "rd_validate_user_params sample_user = Inr () \<and> is_ok (rd_setup_dynamics_params sample_user sample_system sample_params)"
proof
  show v: "rd_validate_user_params sample_user = Inr ()" by (simp add: validated_params sample_user_def)
  show "is_ok (rd_setup_dynamics_params sample_user sample_system sample_params)"
    using setup_assertions_hold [OF v, of sample_system sample_params] by (auto simp: sample_system_def is_ok_iff)
qed

section \<open>The dynamics\<close>

fun rd_steps :: "nat \<Rightarrow> rd_dynamics_params \<Rightarrow> int \<Rightarrow> int result" where
  "rd_steps 0 p pool = Inr pool"
| "rd_steps (Suc n) p pool = res_bind (rd_apply p pool) (rd_steps n p)"

lemma decay_mono_rest:
  assumes "d \<le> 2 ^ 36" "x \<le> y"
  shows "decay_of d y - decay_of d x \<le> y - x"
proof -
  have "int d * y = int d * x + int d * (y - x)" by (simp add: algebra_simps)
  moreover have "int d * (y - x) \<le> 2 ^ 36 * (y - x)" using assms by (intro mult_right_mono) auto
  ultimately have "int d * y \<le> int d * x + (y - x) * 2 ^ 36" by (simp add: mult.commute)
  then have "int d * y div 2 ^ 36 \<le> (int d * x + (y - x) * 2 ^ 36) div 2 ^ 36" by (rule zdiv_mono1) simp
  then show ?thesis by (simp add: decay_of_def)
qed

lemma decay_at_equilibrium:
  assumes "balanced_params p"
  shows "decay_of (decay_per_time_unit (decay_params p)) (int (pool_eq p)) = budget_per_time_unit p"
proof (rule antisym)
  let ?d = "decay_per_time_unit (decay_params p)" and ?b = "budget_per_time_unit p"
  show "?b \<le> decay_of ?d (int (pool_eq p))" using assms equilibrium_decay [of ?d ?b] by (simp add: balanced_params_def)
  have "\<not> ?b \<le> decay_of ?d (int (pool_eq p) - 1)" using assms equilibrium_decay [of ?d ?b] by (simp add: balanced_params_def)
  moreover have "decay_of ?d (int (pool_eq p)) - decay_of ?d (int (pool_eq p) - 1) \<le> 1"
    using decay_mono_rest [of ?d "int (pool_eq p) - 1" "int (pool_eq p)"] assms by (simp add: balanced_params_def)
  ultimately show "decay_of ?d (int (pool_eq p)) \<le> ?b" by linarith
qed

text \<open>One step: below the equilibrium the pool grows, at and above it the pool is there.\<close>

lemma rd_apply_step:
  assumes p: "balanced_params p" and m: "0 \<le> min_decay p" "min_decay p < budget_per_time_unit p" and x: "0 \<le> x" "x \<le> 2 ^ 62"
  obtains y where "rd_apply p x = Inr y" "y \<le> int (pool_eq p)" "x < int (pool_eq p) \<Longrightarrow> x < y" "int (pool_eq p) \<le> x \<Longrightarrow> y = int (pool_eq p)"
proof -
  let ?d = "decay_per_time_unit (decay_params p)" and ?b = "budget_per_time_unit p" and ?e = "int (pool_eq p)"
  have c: "rd_compute_pool_decay (decay_params p) x 1 = Inr (decay_of ?d x)"
    by (rule compute_decay) (use p x in \<open>simp_all add: balanced_params_def\<close>)
  have le: "decay_of ?d x \<le> x" "0 \<le> decay_of ?d x"
    using pool_decay_value(2) [of "decay_params p" x] p x by (simp_all add: decay_of_def balanced_params_def pos_imp_zdiv_nonneg_iff)
  have bal: "?b \<le> decay_of ?d x \<longleftrightarrow> ?e \<le> x" using p equilibrium_decay [of ?d ?b x] by (simp add: balanced_params_def)
  have b: "1 \<le> ?b" "?b < 2 ^ 29" "max_pool_size p = pool_eq p" using p by (simp_all add: balanced_params_def)
  define k where "k = max (decay_of ?d x) (min_decay p)"
  have "in_int64 (x + ?b - k)" "in_int64 ?e" using le b m x balanced_pool [OF p] by (auto simp: in_int64_def k_def)
  then have a: "rd_apply p x = Inr (max (min (x + ?b - k) ?e) 0)"
    unfolding rd_apply_def c Let_def by (simp add: k_def [symmetric] to_int64_id b(3))
  show thesis
  proof (rule that [OF a])
    show "max (min (x + ?b - k) ?e) 0 \<le> ?e" by simp
    show "x < ?e \<Longrightarrow> x < max (min (x + ?b - k) ?e) 0" using bal m(2) by (auto simp: k_def)
    show "max (min (x + ?b - k) ?e) 0 = ?e" if "?e \<le> x"
    proof -
      have "k = decay_of ?d x" using that bal m(2) by (auto simp: k_def)
      moreover have "decay_of ?d x - ?b \<le> x - ?e"
        using decay_mono_rest [OF _ that, of ?d] decay_at_equilibrium [OF p] p by (simp add: balanced_params_def)
      ultimately show ?thesis by simp
    qed
  qed
qed

lemma rd_steps_reach:
  assumes "balanced_params p" "0 \<le> min_decay p" "min_decay p < budget_per_time_unit p" "0 \<le> x" "x \<le> int (pool_eq p)" "int (pool_eq p) - x \<le> int n"
  shows "rd_steps n p x = Inr (int (pool_eq p))"
  using assms(4-6)
proof (induction n arbitrary: x)
  case (Suc n)
  obtain y where y: "rd_apply p x = Inr y" "y \<le> int (pool_eq p)" "x < int (pool_eq p) \<Longrightarrow> x < y" "int (pool_eq p) \<le> x \<Longrightarrow> y = int (pool_eq p)"
    by (rule rd_apply_step [OF assms(1-3), of x]) (use Suc.prems balanced_pool [OF assms(1)] in auto)
  have "rd_steps n p y = Inr (int (pool_eq p))"
    by (rule Suc.IH) (use y Suc.prems in \<open>cases "x < int (pool_eq p)"; auto\<close>)+
  then show ?case using y(1) by simp
qed simp



end
