(* ===== verification/Chain_State.thy ===== *)
theory Chain_State
  imports Transaction Manabar Rd_Dynamics
    "HOL-Library.Char_ord" "HOL-Library.List_Lexorder" "HOL-Library.Product_Lexorder"
begin

text \<open>
  The objects of the chain state (\<open>account_object.hpp\<close>, \<open>global_property_object.hpp\<close>,
  \<open>delta_objects.hpp\<close>, \<open>witness_objects.hpp\<close>) and the tables that hold them. A table is the list
  of its objects in the order of their ids, that is of their creation; a multi-index view is the
  stable sort of the table by the key of the index. An asset member whose symbol is fixed by the
  class is represented by its amount. A reference to an object is represented by its unique key.
\<close>

section \<open>Tables\<close>

definition find_by :: "('o \<Rightarrow> 'k) \<Rightarrow> 'k \<Rightarrow> 'o list \<Rightarrow> 'o option" where
  "find_by key k xs = find (\<lambda>x. key x = k) xs"

definition replace_by :: "('o \<Rightarrow> 'k) \<Rightarrow> 'k \<Rightarrow> 'o \<Rightarrow> 'o list \<Rightarrow> 'o list" where
  "replace_by key k y xs = map (\<lambda>x. if key x = k then y else x) xs"

definition remove_by :: "('o \<Rightarrow> 'k) \<Rightarrow> 'k \<Rightarrow> 'o list \<Rightarrow> 'o list" where
  "remove_by key k xs = filter (\<lambda>x. key x \<noteq> k) xs"

text \<open>Creation fails when the unique key is taken.\<close>

definition create_by :: "('o \<Rightarrow> 'k) \<Rightarrow> 'o \<Rightarrow> 'o list \<Rightarrow> 'o list result" where
  "create_by key x xs = (if key x \<in> key ` set xs then Inl Logic_Error else Inr (xs @ [x]))"

definition index_begin :: "('o \<Rightarrow> 'k :: linorder) \<Rightarrow> 'o list \<Rightarrow> 'o option" where
  "index_begin key xs = (case sort_key key xs of [] \<Rightarrow> None | x # _ \<Rightarrow> Some x)"

lemma find_by_Some: "find_by key k xs = Some x \<Longrightarrow> x \<in> set xs \<and> key x = k"
  by (auto simp: find_by_def find_Some_iff)

lemma find_by_None: "find_by key k xs = None \<longleftrightarrow> k \<notin> key ` set xs"
  by (auto simp: find_by_def find_None_iff)

lemma find_by_distinct:
  "distinct (map key xs) \<Longrightarrow> find_by key k xs = Some x \<longleftrightarrow> x \<in> set xs \<and> key x = k"
  by (induction xs) (auto simp: find_by_def)

lemma find_by_replace:
  "key y = k \<Longrightarrow> find_by key j (replace_by key k y xs) =
    (if j = k then (if k \<in> key ` set xs then Some y else None) else find_by key j xs)"
  by (induction xs) (auto simp: find_by_def replace_by_def)

lemma keys_replace [simp]: "key y = k \<Longrightarrow> map key (replace_by key k y xs) = map key xs"
  by (auto simp: replace_by_def)

lemma replace_by_twice [simp]: "key y = k \<Longrightarrow> replace_by key k z (replace_by key k y xs) = replace_by key k z xs"
  by (auto simp: replace_by_def)

lemma distinct_remove [simp]: "distinct (map key xs) \<Longrightarrow> distinct (map key (remove_by key k xs))"
  by (induction xs) (auto simp: remove_by_def)

lemma set_remove [simp]: "set (remove_by key k xs) = {x \<in> set xs. key x \<noteq> k}"
  by (auto simp: remove_by_def)

lemma create_byD: "create_by key x xs = Inr ys \<Longrightarrow> ys = xs @ [x] \<and> key x \<notin> key ` set xs"
  by (auto simp: create_by_def split: if_splits)

lemma distinct_create: "create_by key x xs = Inr ys \<Longrightarrow> distinct (map key xs) \<Longrightarrow> distinct (map key ys)"
  by (auto dest!: create_byD)

text \<open>How a sum over a table changes.\<close>

abbreviation table_sum :: "('o \<Rightarrow> int) \<Rightarrow> 'o list \<Rightarrow> int" where
  "table_sum g xs \<equiv> sum_list (map g xs)"

lemma replace_absent: "k \<notin> key ` set xs \<Longrightarrow> replace_by key k y xs = xs"
  by (induction xs) (auto simp: replace_by_def)

lemma remove_absent: "k \<notin> key ` set xs \<Longrightarrow> remove_by key k xs = xs"
  by (induction xs) (auto simp: remove_by_def)

lemma sum_replace:
  assumes "distinct (map key xs)" "find_by key k xs = Some x"
  shows "table_sum g (replace_by key k y xs) = table_sum g xs - g x + g y"
  using assms
proof (induction xs)
  case (Cons a xs)
  show ?case
  proof (cases "key a = k")
    case True
    with Cons.prems have "k \<notin> key ` set xs" "x = a" by (auto simp: find_by_def)
    then show ?thesis using True replace_absent [of k key xs y] by (simp add: replace_by_def)
  next
    case False
    with Cons.prems have "find_by key k xs = Some x" by (simp add: find_by_def)
    with Cons False show ?thesis by (simp add: replace_by_def)
  qed
qed (simp add: find_by_def)

lemma sum_remove:
  assumes "distinct (map key xs)" "find_by key k xs = Some x"
  shows "table_sum g (remove_by key k xs) = table_sum g xs - g x"
  using assms
proof (induction xs)
  case (Cons a xs)
  show ?case
  proof (cases "key a = k")
    case True
    with Cons.prems have "k \<notin> key ` set xs" "x = a" by (auto simp: find_by_def)
    then show ?thesis using True remove_absent [of k key xs] by (simp add: remove_by_def)
  next
    case False
    with Cons.prems have "find_by key k xs = Some x" by (simp add: find_by_def)
    with Cons False show ?thesis by (simp add: remove_by_def)
  qed
qed (simp add: find_by_def)

lemma sum_create: "create_by key x xs = Inr ys \<Longrightarrow> table_sum g ys = table_sum g xs + g x"
  by (auto dest!: create_byD)

lemma length_remove:
  "distinct (map key xs) \<Longrightarrow> find_by key k xs = Some x \<Longrightarrow> length (remove_by key k xs) < length xs"
  by (auto dest!: find_by_Some simp: remove_by_def intro: length_filter_less)

lemma index_begin_Some:
  assumes "index_begin key xs = Some x"
  shows "x \<in> set xs" "\<And>y. y \<in> set xs \<Longrightarrow> key x \<le> key y"
proof -
  from assms obtain ys where s: "sort_key key xs = x # ys" by (auto simp: index_begin_def split: list.splits)
  then have st: "set xs = insert x (set ys)" by (metis list.simps(15) set_sort)
  then show "x \<in> set xs" by simp
  have "sorted (map key (x # ys))" using sorted_sort_key [of key xs] s by simp
  then show "key x \<le> key y" if "y \<in> set xs" for y using that st by auto
qed

lemma index_begin_None: "index_begin key xs = None \<longleftrightarrow> xs = []"
proof -
  have "sort_key key xs = [] \<longleftrightarrow> xs = []" by (metis set_empty set_sort)
  then show ?thesis by (auto simp: index_begin_def split: list.splits)
qed

lemma index_begin_ex: "x \<in> set xs \<Longrightarrow> \<exists>y. index_begin key xs = Some y"
  using index_begin_None [of key xs] by (cases "index_begin key xs") auto

lemma find_of_member: "distinct (map key xs) \<Longrightarrow> x \<in> set xs \<Longrightarrow> find_by key (key x) xs = Some x"
  by (simp add: find_by_distinct)

section \<open>Objects\<close>

abbreviation (input) time_point_sec_maximum :: time_point_sec where "time_point_sec_maximum \<equiv> 0xFFFFFFFF"

text \<open>Addition of seconds to a \<open>time_point_sec\<close> wraps around at 32 bits.\<close>

definition add_seconds :: "time_point_sec \<Rightarrow> nat \<Rightarrow> time_point_sec" where
  "add_seconds t s = (t + s) mod 2 ^ 32"

text \<open>
  A public key is the array of its 33 bytes, the default one all zeros; a version is its number.
\<close>

type_synonym public_key_type = "byte list"
type_synonym version = nat

definition null_public_key :: public_key_type where
  "null_public_key = replicate 33 0"

record account_object =
  acc_name :: account_name_type
  acc_memo_key :: public_key_type
  acc_json_metadata :: string
  acc_last_account_update :: time_point_sec
  acc_created :: time_point_sec
  acc_last_account_recovery :: time_point_sec
  acc_pending_claimed_accounts :: int
  acc_proxy :: account_name_type
  acc_mined :: bool
  acc_recovery_account :: account_name_type
  acc_can_vote :: bool
  acc_voting_manabar :: manabar
  acc_balance :: int
  acc_savings_balance :: int
  acc_dbd_balance :: int
  acc_dbd_seconds :: "128 word"
  acc_dbd_seconds_last_update :: time_point_sec
  acc_dbd_last_interest_payment :: time_point_sec
  acc_savings_dbd_balance :: int
  acc_savings_dbd_seconds :: "128 word"
  acc_savings_dbd_seconds_last_update :: time_point_sec
  acc_savings_dbd_last_interest_payment :: time_point_sec
  acc_savings_withdraw_requests :: "8 word"
  acc_reward_dbd_balance :: int
  acc_reward_delta_balance :: int
  acc_reward_vesting_balance :: int
  acc_reward_vesting_delta :: int
  acc_vesting_shares :: int
  acc_delegated_vesting_shares :: int
  acc_received_vesting_shares :: int
  acc_vesting_withdraw_rate :: int
  acc_next_vesting_withdrawal :: time_point_sec
  acc_withdrawn :: int
  acc_to_withdraw :: int
  acc_withdraw_routes :: "16 word"
  acc_proxied_vsf_votes :: "int list"
  acc_witnesses_voted_for :: "16 word"

record account_authority_object =
  aao_account :: account_name_type
  aao_owner :: "public_key_type authority"
  aao_active :: "public_key_type authority"
  aao_posting :: "public_key_type authority"
  aao_last_owner_update :: time_point_sec

record owner_authority_history_object =
  oah_account :: account_name_type
  oah_previous_owner_authority :: "public_key_type authority"
  oah_last_valid_time :: time_point_sec

record account_recovery_request_object =
  arr_account_to_recover :: account_name_type
  arr_new_owner_authority :: "public_key_type authority"
  arr_expires :: time_point_sec

record change_recovery_account_request_object =
  cra_account_to_recover :: account_name_type
  cra_recovery_account :: account_name_type
  cra_effective_on :: time_point_sec

record dynamic_global_property_object =
  gpo_head_block_number :: nat
  gpo_head_block_id :: block_id_type
  gpo_time :: time_point_sec
  gpo_current_witness :: account_name_type
  gpo_virtual_supply :: int
  gpo_current_supply :: int
  gpo_current_dbd_supply :: int
  gpo_total_vesting_fund_delta :: int
  gpo_total_vesting_shares :: int
  gpo_total_reward_fund_delta :: int
  gpo_pending_rewarded_vesting_shares :: int
  gpo_pending_rewarded_vesting_delta :: int
  gpo_dbd_interest_rate :: nat
  gpo_dbd_print_rate :: nat
  gpo_delegation_return_period :: nat
  gpo_dbd_stop_percent :: nat
  gpo_dbd_start_percent :: nat
  gpo_num_pow_witnesses :: "32 word"
  gpo_maximum_block_size :: nat
  gpo_current_aslot :: "64 word"
  gpo_recent_slots_filled :: "128 word"
  gpo_participation_count :: "8 word"
  gpo_last_irreversible_block_num :: nat
  gpo_available_account_subsidies :: int

record convert_request_object =
  crq_owner :: account_name_type
  crq_requestid :: "32 word"
  crq_amount :: asset
  crq_conversion_date :: time_point_sec

record escrow_object =
  esc_escrow_id :: "32 word"
  esc_from :: account_name_type
  esc_to :: account_name_type
  esc_agent :: account_name_type
  esc_ratification_deadline :: time_point_sec
  esc_expiration :: time_point_sec
  esc_dbd_balance :: asset
  esc_delta_balance :: asset
  esc_pending_fee :: asset
  esc_to_approved :: bool
  esc_agent_approved :: bool
  esc_disputed :: bool

definition is_approved :: "escrow_object \<Rightarrow> bool" where
  "is_approved e \<longleftrightarrow> esc_to_approved e \<and> esc_agent_approved e"

record savings_withdraw_object =
  swo_from :: account_name_type
  swo_to :: account_name_type
  swo_memo :: string
  swo_request_id :: "32 word"
  swo_amount :: asset
  swo_complete :: time_point_sec

record liquidity_reward_balance_object =
  lrb_owner :: account_name_type
  lrb_delta_volume :: int
  lrb_dbd_volume :: int
  lrb_weight :: "128 word"
  lrb_last_update :: time_point_sec

record limit_order_object =
  lim_created :: time_point_sec
  lim_expiration :: time_point_sec
  lim_seller :: account_name_type
  lim_orderid :: "32 word"
  lim_for_sale :: int
  lim_sell_price :: price

definition get_market :: "limit_order_object \<Rightarrow> asset_symbol_type \<times> asset_symbol_type" where
  "get_market o' =
     (if symbol (base (lim_sell_price o')) < symbol (quote (lim_sell_price o'))
      then (symbol (base (lim_sell_price o')), symbol (quote (lim_sell_price o')))
      else (symbol (quote (lim_sell_price o')), symbol (base (lim_sell_price o'))))"

definition amount_for_sale :: "limit_order_object \<Rightarrow> asset" where
  "amount_for_sale o' = mk_asset (lim_for_sale o') (symbol (base (lim_sell_price o')))"

definition amount_to_receive :: "limit_order_object \<Rightarrow> asset result" where
  "amount_to_receive o' = asset_mul_price (amount_for_sale o') (lim_sell_price o')"

record withdraw_vesting_route_object =
  rt_from_account :: account_name_type
  rt_to_account :: account_name_type
  rt_percent :: "16 word"
  rt_auto_vest :: bool

record decline_voting_rights_request_object =
  dvr_account :: account_name_type
  dvr_effective_date :: time_point_sec

record vesting_delegation_object =
  vdo_delegator :: account_name_type
  vdo_delegatee :: account_name_type
  vdo_vesting_shares :: int
  vdo_min_delegation_time :: time_point_sec

record vesting_delegation_expiration_object =
  vde_delegator :: account_name_type
  vde_vesting_shares :: int
  vde_expiration :: time_point_sec

datatype witness_schedule_type = elected | timeshare | miner | none_schedule

record chain_properties =
  cp_account_creation_fee :: asset
  cp_maximum_block_size :: nat
  cp_dbd_interest_rate :: nat
  cp_account_subsidy_budget :: int
  cp_account_subsidy_decay :: nat

record witness_object =
  wit_owner :: account_name_type
  wit_created :: time_point_sec
  wit_url :: string
  wit_total_missed :: "32 word"
  wit_last_aslot :: "64 word"
  wit_last_confirmed_block_num :: nat
  wit_pow_worker :: nat
  wit_signing_key :: public_key_type
  wit_props :: chain_properties
  wit_dbd_exchange_rate :: price
  wit_last_dbd_exchange_update :: time_point_sec
  wit_votes :: int
  wit_schedule :: witness_schedule_type
  wit_virtual_last_update :: "128 word"
  wit_virtual_position :: "128 word"
  wit_virtual_scheduled_time :: "128 word"
  wit_running_version :: version
  wit_hardfork_version_vote :: version
  wit_hardfork_time_vote :: time_point_sec
  wit_available_witness_account_subsidies :: int

record witness_vote_object =
  wvo_witness :: account_name_type
  wvo_account :: account_name_type

record reward_fund_object =
  rf_name :: string
  rf_reward_balance :: int
  rf_percent_content_rewards :: nat

record witness_schedule_object =
  wso_current_virtual_time :: "128 word"
  wso_next_shuffle_block_num :: nat
  wso_current_shuffled_witnesses :: "account_name_type list"
  wso_num_scheduled_witnesses :: nat
  wso_median_props :: chain_properties
  wso_majority_version :: version
  wso_max_voted_witnesses :: nat
  wso_max_miner_witnesses :: nat
  wso_max_runner_witnesses :: nat
  wso_hardfork_required_witnesses :: nat
  wso_account_subsidy_rd :: rd_dynamics_params
  wso_account_subsidy_witness_rd :: rd_dynamics_params
  wso_timeshare_weight :: int
  wso_miner_weight :: int
  wso_elected_weight :: int
  wso_witness_pay_normalization_factor :: int

text \<open>The versions and times of hardforks; \<open>processed_hardforks\<close> is represented by its length in the database.\<close>

record hardfork_property_object =
  hfp_current_hardfork_version :: version
  hfp_next_hardfork :: version
  hfp_next_hardfork_time :: time_point_sec

text \<open>
  The database: one table for each class, the singletons, the number of applied hardforks and
  the virtual operations pushed so far, the newest first.
\<close>

record database =
  db_accounts :: "account_object list"
  db_dgpo :: dynamic_global_property_object
  db_median_history :: price
  db_price_history :: "price list"
  db_hardfork_property :: hardfork_property_object
  db_authorities :: "account_authority_object list"
  db_owner_histories :: "owner_authority_history_object list"
  db_recovery_requests :: "account_recovery_request_object list"
  db_change_recovery_requests :: "change_recovery_account_request_object list"
  db_hardforks :: nat
  db_converts :: "convert_request_object list"
  db_escrows :: "escrow_object list"
  db_savings_withdraws :: "savings_withdraw_object list"
  db_limit_orders :: "limit_order_object list"
  db_routes :: "withdraw_vesting_route_object list"
  db_declines :: "decline_voting_rights_request_object list"
  db_delegations :: "vesting_delegation_object list"
  db_delegation_expirations :: "vesting_delegation_expiration_object list"
  db_witnesses :: "witness_object list"
  db_witness_votes :: "witness_vote_object list"
  db_reward_funds :: "reward_fund_object list"
  db_wso :: witness_schedule_object
  db_liquidity :: "liquidity_reward_balance_object list"
  db_vops :: "virtual_operation list"

definition has_hardfork :: "nat \<Rightarrow> database \<Rightarrow> bool" where
  "has_hardfork h db \<longleftrightarrow> db_hardforks db > h"

definition head_block_time :: "database \<Rightarrow> time_point_sec" where
  "head_block_time db = gpo_time (db_dgpo db)"

definition push_virtual_operation :: "virtual_operation \<Rightarrow> database \<Rightarrow> database" where
  "push_virtual_operation v db = db\<lparr>db_vops := v # db_vops db\<rparr>"

definition get_account :: "account_name_type \<Rightarrow> database \<Rightarrow> account_object result" where
  "get_account n db = of_option Out_Of_Range (find_by acc_name n (db_accounts db))"

text \<open>\<open>modify\<close> on an account and on the global properties; the change may throw.\<close>

definition modify_account ::
  "account_name_type \<Rightarrow> (account_object \<Rightarrow> account_object result) \<Rightarrow> database \<Rightarrow> database result" where
  "modify_account n f db =
     res_bind (get_account n db) (\<lambda>a.
     res_bind (f a) (\<lambda>a'. Inr (db\<lparr>db_accounts := replace_by acc_name n a' (db_accounts db)\<rparr>)))"

definition modify_dgpo ::
  "(dynamic_global_property_object \<Rightarrow> dynamic_global_property_object result) \<Rightarrow> database \<Rightarrow> database result" where
  "modify_dgpo f db = res_bind (f (db_dgpo db)) (\<lambda>g. Inr (db\<lparr>db_dgpo := g\<rparr>))"

text \<open>\<open>+=\<close> and \<open>-=\<close> of an asset on a member of fixed symbol.\<close>

definition plus_asset :: "asset_symbol_type \<Rightarrow> int \<Rightarrow> asset \<Rightarrow> int result" where
  "plus_asset s x d = fc_assert (symbol d = s) (safe_add x (amount d))"

definition minus_asset :: "asset_symbol_type \<Rightarrow> int \<Rightarrow> asset \<Rightarrow> int result" where
  "minus_asset s x d = fc_assert (symbol d = s) (safe_sub x (amount d))"

definition get_vesting_share_price :: "dynamic_global_property_object \<Rightarrow> price result" where
  "get_vesting_share_price g =
     (if gpo_total_vesting_fund_delta g = 0 \<or> gpo_total_vesting_shares g = 0
      then mk_price (mk_asset 1000 DELTA_SYMBOL) (mk_asset 1000000 VESTS_SYMBOL)
      else mk_price (mk_asset (gpo_total_vesting_shares g) VESTS_SYMBOL) (mk_asset (gpo_total_vesting_fund_delta g) DELTA_SYMBOL))"

definition get_reward_vesting_share_price :: "dynamic_global_property_object \<Rightarrow> price result" where
  "get_reward_vesting_share_price g =
     res_bind (safe_add (gpo_total_vesting_shares g) (gpo_pending_rewarded_vesting_shares g)) (\<lambda>v.
     res_bind (safe_add (gpo_total_vesting_fund_delta g) (gpo_pending_rewarded_vesting_delta g)) (\<lambda>d.
     mk_price (mk_asset v VESTS_SYMBOL) (mk_asset d DELTA_SYMBOL)))"

text \<open>
  The effective vesting shares are computed in plain \<open>int64_t\<close>, which is modelled as wrapping.
\<close>

definition get_effective_vesting_shares :: "account_object \<Rightarrow> int" where
  "get_effective_vesting_shares a =
     to_int64 (acc_vesting_shares a + acc_received_vesting_shares a - acc_delegated_vesting_shares a
       - (if acc_next_vesting_withdrawal a \<noteq> time_point_sec_maximum
          then min (acc_vesting_withdraw_rate a) (to_int64 (acc_to_withdraw a - acc_withdrawn a)) else 0))"

fun safe_accumulate :: "int list \<Rightarrow> int \<Rightarrow> int result" where
  "safe_accumulate [] acc = Inr acc"
| "safe_accumulate (x # xs) acc = res_bind (safe_add acc x) (safe_accumulate xs)"

definition witness_vote_weight :: "account_object \<Rightarrow> int result" where
  "witness_vote_weight a = safe_accumulate (acc_proxied_vsf_votes a) (acc_vesting_shares a)"

definition proxied_vsf_votes_total :: "account_object \<Rightarrow> int result" where
  "proxied_vsf_votes_total a = safe_accumulate (acc_proxied_vsf_votes a) 0"

lemma plus_asset_Inr: "plus_asset s x d = Inr y \<Longrightarrow> symbol d = s \<and> y = x + amount d"
  by (auto simp: plus_asset_def dest: safe_add_Inr)

lemma minus_asset_Inr: "minus_asset s x d = Inr y \<Longrightarrow> symbol d = s \<and> y = x - amount d"
  by (auto simp: minus_asset_def dest: safe_sub_Inr)

lemma asset_neg_Inr: "asset_neg a = Inr b \<Longrightarrow> amount b = - amount a \<and> symbol b = symbol a"
  by (auto simp: asset_neg_def dest: safe_neg_Inr)

lemma safe_accumulate_Inr: "safe_accumulate xs acc = Inr r \<Longrightarrow> r = acc + sum_list xs"
proof (induction xs arbitrary: acc)
  case (Cons x xs)
  then obtain b where "safe_add acc x = Inr b" "safe_accumulate xs b = Inr r" by auto
  with Cons.IH [of b] show ?case by (auto dest!: safe_add_Inr)
qed simp


section \<open>Initial values\<close>

text \<open>The member initialisers of the account and of the global properties, and an empty state.\<close>

definition default_account :: "account_name_type \<Rightarrow> account_object" where
  "default_account n =
     \<lparr>acc_name = n, acc_memo_key = null_public_key, acc_json_metadata = [], acc_last_account_update = 0, acc_created = 0,
      acc_last_account_recovery = 0, acc_pending_claimed_accounts = 0, acc_proxy = [], acc_mined = True, acc_recovery_account = [], acc_can_vote = True,
      acc_voting_manabar = \<lparr>current_mana = 0, last_update_time = 0\<rparr>, acc_balance = 0, acc_savings_balance = 0,
      acc_dbd_balance = 0, acc_dbd_seconds = 0, acc_dbd_seconds_last_update = 0, acc_dbd_last_interest_payment = 0,
      acc_savings_dbd_balance = 0, acc_savings_dbd_seconds = 0, acc_savings_dbd_seconds_last_update = 0,
      acc_savings_dbd_last_interest_payment = 0, acc_savings_withdraw_requests = 0, acc_reward_dbd_balance = 0,
      acc_reward_delta_balance = 0, acc_reward_vesting_balance = 0, acc_reward_vesting_delta = 0,
      acc_vesting_shares = 0, acc_delegated_vesting_shares = 0, acc_received_vesting_shares = 0,
      acc_vesting_withdraw_rate = 0, acc_next_vesting_withdrawal = time_point_sec_maximum, acc_withdrawn = 0,
      acc_to_withdraw = 0, acc_withdraw_routes = 0, acc_proxied_vsf_votes = [0, 0, 0, 0], acc_witnesses_voted_for = 0\<rparr>"

definition default_dgpo :: dynamic_global_property_object where
  "default_dgpo =
     \<lparr>gpo_head_block_number = 0, gpo_head_block_id = replicate 5 0, gpo_time = 0, gpo_current_witness = [], gpo_virtual_supply = 0, gpo_current_supply = 0,
      gpo_current_dbd_supply = 0, gpo_total_vesting_fund_delta = 0, gpo_total_vesting_shares = 0,
      gpo_total_reward_fund_delta = 0, gpo_pending_rewarded_vesting_shares = 0, gpo_pending_rewarded_vesting_delta = 0,
      gpo_dbd_interest_rate = 0, gpo_dbd_print_rate = 10000, gpo_delegation_return_period = 3600,
      gpo_dbd_stop_percent = 0, gpo_dbd_start_percent = 0, gpo_num_pow_witnesses = 0, gpo_maximum_block_size = 0,
      gpo_current_aslot = 0, gpo_recent_slots_filled = 0, gpo_participation_count = 0, gpo_last_irreversible_block_num = 0,
      gpo_available_account_subsidies = 0\<rparr>"

definition default_chain_properties :: chain_properties where
  "default_chain_properties =
     \<lparr>cp_account_creation_fee = mk_asset 1 DELTA_SYMBOL, cp_maximum_block_size = 131072, cp_dbd_interest_rate = 1000,
      cp_account_subsidy_budget = 797, cp_account_subsidy_decay = 347321\<rparr>"

definition default_rd_dynamics_params :: rd_dynamics_params where
  "default_rd_dynamics_params =
     \<lparr>resource_unit = 0, budget_per_time_unit = 0, pool_eq = 0, max_pool_size = 0,
      decay_params = \<lparr>decay_per_time_unit = 0, decay_per_time_unit_denom_shift = 0\<rparr>, min_decay = 0\<rparr>"

definition default_witness :: "account_name_type \<Rightarrow> witness_object" where
  "default_witness n =
     \<lparr>wit_owner = n, wit_created = 0, wit_url = [], wit_total_missed = 0, wit_last_aslot = 0, wit_last_confirmed_block_num = 0,
      wit_pow_worker = 0, wit_signing_key = null_public_key, wit_props = default_chain_properties, wit_dbd_exchange_rate = default_price,
      wit_last_dbd_exchange_update = 0, wit_votes = 0, wit_schedule = none_schedule, wit_virtual_last_update = 0,
      wit_virtual_position = 0, wit_virtual_scheduled_time = - 1, wit_running_version = 0, wit_hardfork_version_vote = 0,
      wit_hardfork_time_vote = 1458835200, wit_available_witness_account_subsidies = 0\<rparr>"

definition empty_database :: database where
  "empty_database =
     \<lparr>db_accounts = [], db_dgpo = default_dgpo, db_median_history = default_price, db_price_history = [],
      db_hardfork_property = \<lparr>hfp_current_hardfork_version = 0, hfp_next_hardfork = 0, hfp_next_hardfork_time = 0\<rparr>,
      db_authorities = [], db_owner_histories = [], db_recovery_requests = [], db_change_recovery_requests = [], db_hardforks = 21, db_converts = [],
      db_escrows = [], db_savings_withdraws = [], db_limit_orders = [], db_routes = [], db_declines = [],
      db_delegations = [], db_delegation_expirations = [], db_witnesses = [], db_witness_votes = [], db_reward_funds = [],
      db_wso = \<lparr>wso_current_virtual_time = 0, wso_next_shuffle_block_num = 1, wso_current_shuffled_witnesses = replicate 21 [],
                wso_num_scheduled_witnesses = 1, wso_median_props = default_chain_properties, wso_majority_version = 0,
                wso_max_voted_witnesses = 19, wso_max_miner_witnesses = 1, wso_max_runner_witnesses = 1, wso_hardfork_required_witnesses = 17,
                wso_account_subsidy_rd = default_rd_dynamics_params, wso_account_subsidy_witness_rd = default_rd_dynamics_params,
                wso_timeshare_weight = 5,
                wso_miner_weight = 1, wso_elected_weight = 1, wso_witness_pay_normalization_factor = 25\<rparr>,
      db_liquidity = [], db_vops = []\<rparr>"

end
