(* ===== verification/Balances.thy ===== *)
theory Balances
  imports Chain_State
begin

text \<open>
  Balances and supply (\<open>libraries/chain/database.cpp\<close>: \<open>modify_balance\<close>, \<open>adjust_balance\<close>,
  \<open>adjust_savings_balance\<close>, \<open>adjust_reward_balance\<close>, \<open>adjust_supply\<close>, \<open>get_balance\<close>,
  \<open>update_virtual_supply\<close>) and the amounts of each token the state holds, as
  \<open>validate_invariants\<close> adds them up.
\<close>

section \<open>Interest\<close>

text \<open>
  The interest bookkeeping of \<open>modify_balance\<close> and \<open>adjust_savings_balance\<close>, which is the same for
  the liquid and the savings balance: balance, accumulated seconds, time of the last update, time
  of the last payment, and the interest that was paid.
\<close>

definition accrue_interest ::
  "time_point_sec \<Rightarrow> nat \<Rightarrow> int \<Rightarrow> 128 word \<Rightarrow> time_point_sec \<Rightarrow> time_point_sec \<Rightarrow>
   (int \<times> 128 word \<times> time_point_sec \<times> time_point_sec \<times> int option) result" where
  "accrue_interest now rate balance seconds last_update last_payment =
     (if last_update \<noteq> now then
        (let secs = seconds + word_of_int balance * word_of_int (int now - int last_update)
         in if secs > 0 \<and> int now - int last_payment > 2592000 then
              (let interest = (secs div 31536000 * of_nat rate) div 10000
               in fc_assert (drop_bit 64 interest = 0)
                   (let paid = to_int64 (uint interest)
                    in res_bind (safe_add balance paid) (\<lambda>b. Inr (b, 0, now, now, Some paid))))
            else Inr (balance, secs, now, last_payment, None))
      else Inr (balance, seconds, last_update, last_payment, None))"

text \<open>
  What follows a payment: the virtual operation, and the supply. The virtual operation is pushed
  when the 128-bit interest is positive, which is when the amount is not zero.
\<close>

definition pay_interest :: "account_name_type \<Rightarrow> int option \<Rightarrow> database \<Rightarrow> database result" where
  "pay_interest n paid db =
     (case paid of
        None \<Rightarrow> Inr db
      | Some p \<Rightarrow>
          (let db1 = (if p \<noteq> 0 then push_virtual_operation (Interest n (mk_asset p DBD_SYMBOL)) db else db)
           in modify_dgpo (\<lambda>g.
                res_bind (safe_add (gpo_current_dbd_supply g) p) (\<lambda>d.
                res_bind (asset_mul_price (mk_asset p DBD_SYMBOL) (db_median_history db)) (\<lambda>v.
                res_bind (plus_asset DELTA_SYMBOL (gpo_virtual_supply g) v) (\<lambda>vs.
                  Inr (g\<lparr>gpo_current_dbd_supply := d, gpo_virtual_supply := vs\<rparr>))))) db1))"

section \<open>Balances\<close>

definition modify_balance :: "account_name_type \<Rightarrow> asset \<Rightarrow> bool \<Rightarrow> database \<Rightarrow> database result" where
  "modify_balance n delta check_balance db =
     (if symbol delta = DELTA_SYMBOL then
        modify_account n (\<lambda>a.
          res_bind (safe_add (acc_balance a) (amount delta)) (\<lambda>b.
          fc_assert (check_balance \<longrightarrow> b \<ge> 0) (Inr (a\<lparr>acc_balance := b\<rparr>)))) db
      else if symbol delta = DBD_SYMBOL then
        res_bind (get_account n db) (\<lambda>a.
        res_bind (accrue_interest (head_block_time db) (gpo_dbd_interest_rate (db_dgpo db)) (acc_dbd_balance a)
            (acc_dbd_seconds a) (acc_dbd_seconds_last_update a) (acc_dbd_last_interest_payment a))
          (\<lambda>(balance, seconds, last_update, last_payment, paid).
        res_bind (pay_interest n paid db) (\<lambda>db1.
        modify_account n (\<lambda>a.
          res_bind (safe_add balance (amount delta)) (\<lambda>b.
          fc_assert (check_balance \<longrightarrow> b \<ge> 0)
            (Inr (a\<lparr>acc_dbd_balance := b, acc_dbd_seconds := seconds, acc_dbd_seconds_last_update := last_update,
                    acc_dbd_last_interest_payment := last_payment\<rparr>)))) db1)))
      else if symbol delta = VESTS_SYMBOL then
        modify_account n (\<lambda>a.
          res_bind (safe_add (acc_vesting_shares a) (amount delta)) (\<lambda>b.
          fc_assert (check_balance \<longrightarrow> b \<ge> 0) (Inr (a\<lparr>acc_vesting_shares := b\<rparr>)))) db
      else Inl Assert_Exception)"

definition modify_reward_balance ::
  "account_name_type \<Rightarrow> asset \<Rightarrow> asset \<Rightarrow> bool \<Rightarrow> database \<Rightarrow> database result" where
  "modify_reward_balance n value_delta share_delta check_balance db =
     modify_account n (\<lambda>a.
       if symbol value_delta = DELTA_SYMBOL then
         (if amount share_delta = 0 then
            res_bind (safe_add (acc_reward_delta_balance a) (amount value_delta)) (\<lambda>b.
            fc_assert (check_balance \<longrightarrow> b \<ge> 0) (Inr (a\<lparr>acc_reward_delta_balance := b\<rparr>)))
          else
            res_bind (safe_add (acc_reward_vesting_delta a) (amount value_delta)) (\<lambda>b.
            res_bind (plus_asset VESTS_SYMBOL (acc_reward_vesting_balance a) share_delta) (\<lambda>v.
            fc_assert (check_balance \<longrightarrow> v \<ge> 0)
              (Inr (a\<lparr>acc_reward_vesting_delta := b, acc_reward_vesting_balance := v\<rparr>)))))
       else if symbol value_delta = DBD_SYMBOL then
         fc_assert (amount share_delta = 0)
           (res_bind (safe_add (acc_reward_dbd_balance a) (amount value_delta)) (\<lambda>b.
            fc_assert (check_balance \<longrightarrow> b \<ge> 0) (Inr (a\<lparr>acc_reward_dbd_balance := b\<rparr>))))
       else Inl Assert_Exception) db"

definition adjust_balance :: "account_name_type \<Rightarrow> asset \<Rightarrow> database \<Rightarrow> database result" where
  "adjust_balance n delta db = modify_balance n delta (has_hardfork 20 db) db"

definition adjust_savings_balance :: "account_name_type \<Rightarrow> asset \<Rightarrow> database \<Rightarrow> database result" where
  "adjust_savings_balance n delta db =
     (let check_balance = has_hardfork 20 db
      in if symbol delta = DELTA_SYMBOL then
           modify_account n (\<lambda>a.
             res_bind (safe_add (acc_savings_balance a) (amount delta)) (\<lambda>b.
             fc_assert (check_balance \<longrightarrow> b \<ge> 0) (Inr (a\<lparr>acc_savings_balance := b\<rparr>)))) db
         else if symbol delta = DBD_SYMBOL then
           res_bind (get_account n db) (\<lambda>a.
           res_bind (accrue_interest (head_block_time db) (gpo_dbd_interest_rate (db_dgpo db)) (acc_savings_dbd_balance a)
               (acc_savings_dbd_seconds a) (acc_savings_dbd_seconds_last_update a) (acc_savings_dbd_last_interest_payment a))
             (\<lambda>(balance, seconds, last_update, last_payment, paid).
           res_bind (pay_interest n paid db) (\<lambda>db1.
           modify_account n (\<lambda>a.
             res_bind (safe_add balance (amount delta)) (\<lambda>b.
             fc_assert (check_balance \<longrightarrow> b \<ge> 0)
               (Inr (a\<lparr>acc_savings_dbd_balance := b, acc_savings_dbd_seconds := seconds,
                       acc_savings_dbd_seconds_last_update := last_update,
                       acc_savings_dbd_last_interest_payment := last_payment\<rparr>)))) db1)))
         else Inl Assert_Exception)"

definition adjust_reward_balance :: "account_name_type \<Rightarrow> asset \<Rightarrow> asset \<Rightarrow> database \<Rightarrow> database result" where
  "adjust_reward_balance n value_delta share_delta db =
     fc_assert (\<not> is_vesting (symbol value_delta) \<and> is_vesting (symbol share_delta))
       (modify_reward_balance n value_delta share_delta (has_hardfork 20 db) db)"

definition adjust_supply :: "asset \<Rightarrow> bool \<Rightarrow> database \<Rightarrow> database result" where
  "adjust_supply delta adjust_vesting db =
     (let check_supply = has_hardfork 20 db;
          adjust_vesting = (if gpo_head_block_number (db_dgpo db) < 28800 * 7 then False else adjust_vesting)
      in modify_dgpo (\<lambda>g.
           if symbol delta = DELTA_SYMBOL then
             res_bind (if adjust_vesting \<and> amount delta > 0 then safe_mul (amount delta) 9 else Inr 0) (\<lambda>new_vesting.
             res_bind (safe_add (amount delta) new_vesting) (\<lambda>d.
             res_bind (safe_add (gpo_current_supply g) d) (\<lambda>c.
             res_bind (safe_add (gpo_virtual_supply g) d) (\<lambda>v.
             res_bind (safe_add (gpo_total_vesting_fund_delta g) new_vesting) (\<lambda>f.
             fc_assert (check_supply \<longrightarrow> c \<ge> 0)
               (Inr (g\<lparr>gpo_current_supply := c, gpo_virtual_supply := v, gpo_total_vesting_fund_delta := f\<rparr>)))))))
           else if symbol delta = DBD_SYMBOL then
             res_bind (safe_add (gpo_current_dbd_supply g) (amount delta)) (\<lambda>c.
             res_bind (asset_mul_price (mk_asset c DBD_SYMBOL) (db_median_history db)) (\<lambda>p.
             res_bind (plus_asset DELTA_SYMBOL (gpo_current_supply g) p) (\<lambda>v.
             fc_assert (check_supply \<longrightarrow> c \<ge> 0)
               (Inr (g\<lparr>gpo_current_dbd_supply := c, gpo_virtual_supply := v\<rparr>)))))
           else Inl Assert_Exception) db)"

definition get_balance :: "account_object \<Rightarrow> asset_symbol_type \<Rightarrow> asset result" where
  "get_balance a s =
     (if s = DELTA_SYMBOL then Inr (mk_asset (acc_balance a) DELTA_SYMBOL)
      else if s = DBD_SYMBOL then Inr (mk_asset (acc_dbd_balance a) DBD_SYMBOL)
      else Inl Assert_Exception)"

definition get_savings_balance :: "account_object \<Rightarrow> asset_symbol_type \<Rightarrow> asset result" where
  "get_savings_balance a s =
     (if s = DELTA_SYMBOL then Inr (mk_asset (acc_savings_balance a) DELTA_SYMBOL)
      else if s = DBD_SYMBOL then Inr (mk_asset (acc_savings_dbd_balance a) DBD_SYMBOL)
      else Inl Assert_Exception)"

text \<open>The value of the DBD supply is computed twice, and the print rate in plain integers.\<close>

definition update_virtual_supply :: "database \<Rightarrow> database result" where
  "update_virtual_supply db =
     modify_dgpo (\<lambda>g.
       let median_price = db_median_history db
       in res_bind (if price_is_null median_price then Inr (mk_asset 0 DELTA_SYMBOL)
                    else asset_mul_price (mk_asset (gpo_current_dbd_supply g) DBD_SYMBOL) median_price) (\<lambda>dbd_value.
          res_bind (plus_asset DELTA_SYMBOL (gpo_current_supply g) dbd_value) (\<lambda>v.
          let g = g\<lparr>gpo_virtual_supply := v\<rparr>
          in if \<not> price_is_null median_price \<and> has_hardfork 14 db then
               (if v = 0 then Inl Divide_By_Zero_Exception
                else
                  (let q = word_of_int (amount dbd_value) * 10000 div word_of_int v :: 128 word
                   in fc_assert (drop_bit 64 q = 0)
                       (let percent_dbd = unat q mod 2 ^ 16
                        in Inr (g\<lparr>gpo_dbd_print_rate :=
                             (if percent_dbd \<le> gpo_dbd_start_percent g then 10000
                              else if percent_dbd \<ge> gpo_dbd_stop_percent g then 0
                              else (gpo_dbd_stop_percent g - percent_dbd) * 10000 div (gpo_dbd_stop_percent g - gpo_dbd_start_percent g))\<rparr>))))
             else Inr g))) db"

section \<open>What the state holds\<close>

text \<open>
  The amounts of the three tokens, added up as \<open>validate_invariants\<close> does it: in accounts, in the
  objects that lock funds, and in the global funds; and the supply they are compared with.
\<close>

definition coin :: "asset_symbol_type \<Rightarrow> asset \<Rightarrow> int" where
  "coin s a = (if symbol a = s then amount a else 0)"

definition account_holds :: "asset_symbol_type \<Rightarrow> account_object \<Rightarrow> int" where
  "account_holds s a =
     (if s = DELTA_SYMBOL then acc_balance a + acc_savings_balance a + acc_reward_delta_balance a
      else if s = DBD_SYMBOL then acc_dbd_balance a + acc_savings_dbd_balance a + acc_reward_dbd_balance a
      else if s = VESTS_SYMBOL then acc_vesting_shares a + acc_reward_vesting_balance a
      else 0)"

definition escrow_holds :: "asset_symbol_type \<Rightarrow> escrow_object \<Rightarrow> int" where
  "escrow_holds s e = coin s (esc_delta_balance e) + coin s (esc_dbd_balance e) + coin s (esc_pending_fee e)"

definition order_holds :: "asset_symbol_type \<Rightarrow> limit_order_object \<Rightarrow> int" where
  "order_holds s o' = coin s (amount_for_sale o')"

definition locked :: "asset_symbol_type \<Rightarrow> database \<Rightarrow> int" where
  "locked s db = table_sum (\<lambda>c. coin s (crq_amount c)) (db_converts db)
     + table_sum (order_holds s) (db_limit_orders db)
     + table_sum (escrow_holds s) (db_escrows db)
     + table_sum (\<lambda>w. coin s (swo_amount w)) (db_savings_withdraws db)
     + (if s = DELTA_SYMBOL then table_sum rf_reward_balance (db_reward_funds db) else 0)"

definition funds :: "asset_symbol_type \<Rightarrow> dynamic_global_property_object \<Rightarrow> int" where
  "funds s g = (if s = DELTA_SYMBOL
     then gpo_total_vesting_fund_delta g + gpo_total_reward_fund_delta g + gpo_pending_rewarded_vesting_delta g else 0)"

definition token_supply :: "asset_symbol_type \<Rightarrow> dynamic_global_property_object \<Rightarrow> int" where
  "token_supply s g =
     (if s = DELTA_SYMBOL then gpo_current_supply g
      else if s = DBD_SYMBOL then gpo_current_dbd_supply g
      else if s = VESTS_SYMBOL then gpo_total_vesting_shares g + gpo_pending_rewarded_vesting_shares g
      else 0)"

definition surplus :: "asset_symbol_type \<Rightarrow> database \<Rightarrow> int" where
  "surplus s db = table_sum (account_holds s) (db_accounts db) + locked s db + funds s (db_dgpo db) - token_supply s (db_dgpo db)"

text \<open>The votes of an account that reach witnesses, and the vesting value waiting to be claimed.\<close>

definition account_votes :: "account_object \<Rightarrow> int" where
  "account_votes a =
     (if acc_proxy a = [] then acc_vesting_shares a + sum_list (acc_proxied_vsf_votes a)
      else acc_proxied_vsf_votes a ! 3)"

definition vote_surplus :: "database \<Rightarrow> int" where
  "vote_surplus db = table_sum account_votes (db_accounts db) - gpo_total_vesting_shares (db_dgpo db)"

definition pending_surplus :: "database \<Rightarrow> int" where
  "pending_surplus db = table_sum acc_reward_vesting_delta (db_accounts db) - gpo_pending_rewarded_vesting_delta (db_dgpo db)"

text \<open>Account names are unique; every account has one slot for each level of proxies.\<close>

definition wf_accounts :: "database \<Rightarrow> bool" where
  "wf_accounts db \<longleftrightarrow> distinct (map acc_name (db_accounts db)) \<and>
     (\<forall>a \<in> set (db_accounts db). length (acc_proxied_vsf_votes a) = 4)"

text \<open>Nothing but accounts, amounts of the global properties, witnesses and virtual operations differs.\<close>

definition same_objects :: "database \<Rightarrow> database \<Rightarrow> bool" where
  "same_objects db db' \<longleftrightarrow>
     gpo_time (db_dgpo db') = gpo_time (db_dgpo db) \<and>
     db_median_history db' = db_median_history db \<and> db_hardforks db' = db_hardforks db \<and>
     db_converts db' = db_converts db \<and> db_escrows db' = db_escrows db \<and>
     db_savings_withdraws db' = db_savings_withdraws db \<and> db_limit_orders db' = db_limit_orders db \<and>
     db_routes db' = db_routes db \<and> db_declines db' = db_declines db \<and> db_delegations db' = db_delegations db \<and>
     db_delegation_expirations db' = db_delegation_expirations db \<and> db_witness_votes db' = db_witness_votes db \<and>
     db_reward_funds db' = db_reward_funds db \<and> db_wso db' = db_wso db \<and> db_liquidity db' = db_liquidity db"

lemma same_objects_refl [simp]: "same_objects db db"
  by (simp add: same_objects_def)

lemma same_objects_trans [trans]: "same_objects a b \<Longrightarrow> same_objects b c \<Longrightarrow> same_objects a c"
  by (simp add: same_objects_def)

lemma same_objectsD:
  assumes "same_objects db db'"
  shows "db_median_history db' = db_median_history db" "db_hardforks db' = db_hardforks db"
    "db_converts db' = db_converts db" "db_escrows db' = db_escrows db"
    "db_savings_withdraws db' = db_savings_withdraws db" "db_limit_orders db' = db_limit_orders db"
    "db_routes db' = db_routes db" "db_declines db' = db_declines db" "db_delegations db' = db_delegations db"
    "db_delegation_expirations db' = db_delegation_expirations db" "db_witness_votes db' = db_witness_votes db"
    "db_reward_funds db' = db_reward_funds db" "db_wso db' = db_wso db" "head_block_time db' = head_block_time db"
    "db_liquidity db' = db_liquidity db"
  using assms by (simp_all add: same_objects_def head_block_time_def)

lemma locked_same_objects: "same_objects db db' \<Longrightarrow> locked s db' = locked s db"
  by (simp add: locked_def same_objectsD)

lemma symbols_distinct [simp]:
  "DELTA_SYMBOL \<noteq> DBD_SYMBOL" "DELTA_SYMBOL \<noteq> VESTS_SYMBOL" "DBD_SYMBOL \<noteq> VESTS_SYMBOL"
  "DBD_SYMBOL \<noteq> DELTA_SYMBOL" "VESTS_SYMBOL \<noteq> DELTA_SYMBOL" "VESTS_SYMBOL \<noteq> DBD_SYMBOL"
  by (simp_all add: DELTA_ASSET_NUM_DELTA_def DELTA_ASSET_NUM_DBD_def DELTA_ASSET_NUM_VESTS_def)

section \<open>Single steps\<close>

lemma modify_account_Inr:
  assumes "modify_account n f db = Inr db'"
  obtains a a' where "find_by acc_name n (db_accounts db) = Some a" "f a = Inr a'"
    "db' = db\<lparr>db_accounts := replace_by acc_name n a' (db_accounts db)\<rparr>"
  using assms by (auto simp: modify_account_def get_account_def)

lemma modify_dgpo_Inr:
  assumes "modify_dgpo f db = Inr db'"
  obtains g where "f (db_dgpo db) = Inr g" "db' = db\<lparr>db_dgpo := g\<rparr>"
  using assms by (auto simp: modify_dgpo_def)

section \<open>Effects of steps\<close>

text \<open>
  The effect of a step on the accounting: the change of the surplus of each token and of the
  pending surplus. Steps compose by adding their effects. A ledger step is one that leaves every
  other object and everything that counts for votes as it is: names, proxies, vesting shares, their
  withdrawal and delegation and proxied votes of the accounts, the witnesses, the time and the total
  of vesting shares.
\<close>

definition step_effect :: "(asset_symbol_type \<Rightarrow> int) \<Rightarrow> int \<Rightarrow> database \<Rightarrow> database \<Rightarrow> bool" where
  "step_effect m p db db' \<longleftrightarrow>
     wf_accounts db' \<and> (\<forall>s. surplus s db' = surplus s db + m s) \<and> pending_surplus db' = pending_surplus db + p"

definition voter_view :: "account_object \<Rightarrow> account_name_type \<times> account_name_type \<times> int \<times> int list \<times> int \<times> int \<times>
    int \<times> time_point_sec \<times> int \<times> int" where
  "voter_view a = (acc_name a, acc_proxy a, acc_vesting_shares a, acc_proxied_vsf_votes a, acc_vesting_withdraw_rate a, acc_to_withdraw a,
     acc_withdrawn a, acc_next_vesting_withdrawal a, acc_delegated_vesting_shares a, acc_received_vesting_shares a)"

definition same_tallies :: "database \<Rightarrow> database \<Rightarrow> bool" where
  "same_tallies db db' \<longleftrightarrow>
     map voter_view (db_accounts db') = map voter_view (db_accounts db) \<and> db_witnesses db' = db_witnesses db \<and>
     db_witness_votes db' = db_witness_votes db \<and> db_delegations db' = db_delegations db \<and>
     db_delegation_expirations db' = db_delegation_expirations db \<and> gpo_time (db_dgpo db') = gpo_time (db_dgpo db) \<and>
     db_hardforks db' = db_hardforks db \<and>
     gpo_total_vesting_shares (db_dgpo db') = gpo_total_vesting_shares (db_dgpo db)"

definition ledger_step :: "(asset_symbol_type \<Rightarrow> int) \<Rightarrow> int \<Rightarrow> database \<Rightarrow> database \<Rightarrow> bool" where
  "ledger_step m p db db' \<longleftrightarrow> step_effect m p db db' \<and> same_objects db db' \<and> same_tallies db db'"

lemma step_effect_trans:
  "step_effect m p a b \<Longrightarrow> step_effect m' p' b c \<Longrightarrow> step_effect (\<lambda>s. m s + m' s) (p + p') a c"
  by (simp add: step_effect_def)

lemma same_tallies_refl [simp]: "same_tallies db db"
  by (simp add: same_tallies_def)

lemma same_tallies_trans: "same_tallies a b \<Longrightarrow> same_tallies b c \<Longrightarrow> same_tallies a c"
  by (simp add: same_tallies_def)

lemma ledger_step_trans:
  "ledger_step m p a b \<Longrightarrow> ledger_step m' p' b c \<Longrightarrow> ledger_step (\<lambda>s. m s + m' s) (p + p') a c"
  by (auto simp: ledger_step_def intro: step_effect_trans same_objects_trans same_tallies_trans)

lemma ledger_step_refl: "wf_accounts db \<Longrightarrow> ledger_step (\<lambda>_. 0) 0 db db"
  by (simp add: ledger_step_def step_effect_def)

lemma step_effect_cong:
  "step_effect m p a b \<Longrightarrow> (\<And>s. m s = m' s) \<Longrightarrow> p = p' \<Longrightarrow> step_effect m' p' a b"
  by (simp add: step_effect_def)

lemma ledger_step_cong:
  "ledger_step m p a b \<Longrightarrow> (\<And>s. m s = m' s) \<Longrightarrow> p = p' \<Longrightarrow> ledger_step m' p' a b"
  by (simp add: ledger_step_def step_effect_def)

lemma ledger_stepD:
  assumes "ledger_step m p db db'"
  shows "step_effect m p db db'" "same_objects db db'" "same_tallies db db'" "wf_accounts db'"
  using assms by (auto simp: ledger_step_def step_effect_def)

lemma map_replace_same:
  assumes "distinct (map key xs)" "find_by key k xs = Some x" "h y = h x"
  shows "map h (replace_by key k y xs) = map h xs"
  using assms by (auto simp: find_by_distinct replace_by_def) (metis eq_key_imp_eq_value inj_on_def distinct_map)

lemma step_effect_modify:
  assumes wf: "wf_accounts db" and m: "modify_account n f db = Inr db'"
    and f: "\<And>a a'. f a = Inr a' \<Longrightarrow> a \<in> set (db_accounts db) \<Longrightarrow> acc_name a = n \<Longrightarrow>
      acc_name a' = acc_name a \<and> length (acc_proxied_vsf_votes a') = length (acc_proxied_vsf_votes a) \<and>
      (\<forall>s. account_holds s a' = account_holds s a + d s) \<and>
      acc_reward_vesting_delta a' = acc_reward_vesting_delta a + p"
  shows "step_effect d p db db'"
proof -
  from m obtain a a' where a: "find_by acc_name n (db_accounts db) = Some a" "f a = Inr a'"
    and db': "db' = db\<lparr>db_accounts := replace_by acc_name n a' (db_accounts db)\<rparr>"
    by (rule modify_account_Inr)
  have dist: "distinct (map acc_name (db_accounts db))" using wf by (simp add: wf_accounts_def)
  have n: "a \<in> set (db_accounts db)" "acc_name a = n" using find_by_Some [OF a(1)] by auto
  note fa = f [OF a(2) n]
  have w: "wf_accounts db'"
  proof -
    have "map acc_name (db_accounts db') = map acc_name (db_accounts db)" using fa n by (simp add: db')
    moreover have "length (acc_proxied_vsf_votes x) = 4" if "x \<in> set (db_accounts db')" for x
      using that wf fa n by (auto simp: db' replace_by_def wf_accounts_def split: if_splits)
    ultimately show ?thesis using dist by (simp add: wf_accounts_def)
  qed
  note sums = sum_replace [OF dist a(1)]
  show ?thesis
    using w fa by (simp add: step_effect_def surplus_def pending_surplus_def db' sums locked_def)
qed

lemma ledger_step_modify:
  assumes wf: "wf_accounts db" and m: "modify_account n f db = Inr db'"
    and f: "\<And>a a'. f a = Inr a' \<Longrightarrow> a \<in> set (db_accounts db) \<Longrightarrow> acc_name a = n \<Longrightarrow>
      voter_view a' = voter_view a \<and> (\<forall>s. account_holds s a' = account_holds s a + d s) \<and>
      acc_reward_vesting_delta a' = acc_reward_vesting_delta a + p"
  shows "ledger_step d p db db'"
proof -
  from m obtain a a' where a: "find_by acc_name n (db_accounts db) = Some a" "f a = Inr a'"
    and db': "db' = db\<lparr>db_accounts := replace_by acc_name n a' (db_accounts db)\<rparr>"
    by (rule modify_account_Inr)
  have dist: "distinct (map acc_name (db_accounts db))" using wf by (simp add: wf_accounts_def)
  have "voter_view a' = voter_view a" using f [OF a(2)] find_by_Some [OF a(1)] by blast
  then have "same_tallies db db'" by (simp add: same_tallies_def db' map_replace_same [OF dist a(1)])
  moreover have "step_effect d p db db'"
    by (rule step_effect_modify [OF wf m]) (use f in \<open>auto simp: voter_view_def\<close>)
  ultimately show ?thesis by (simp add: ledger_step_def same_objects_def db')
qed

lemma step_effect_dgpo:
  assumes wf: "wf_accounts db" and m: "modify_dgpo f db = Inr db'"
    and f: "\<And>g'. f (db_dgpo db) = Inr g' \<Longrightarrow>
      (\<forall>s. funds s g' - token_supply s g' = funds s (db_dgpo db) - token_supply s (db_dgpo db) + d s) \<and>
      gpo_pending_rewarded_vesting_delta g' = gpo_pending_rewarded_vesting_delta (db_dgpo db) - p"
  shows "step_effect d p db db'"
proof -
  from m obtain g where g: "f (db_dgpo db) = Inr g" "db' = db\<lparr>db_dgpo := g\<rparr>" by (rule modify_dgpo_Inr)
  note fg = f [OF g(1)]
  have e: "funds s g - token_supply s g = funds s (db_dgpo db) - token_supply s (db_dgpo db) + d s" for s
    using fg by blast
  have "surplus s db' = surplus s db + d s" for s
    using e [of s] by (simp add: surplus_def g(2) locked_def)
  then show ?thesis
    using wf fg by (simp add: step_effect_def wf_accounts_def pending_surplus_def g(2))
qed

lemma ledger_step_dgpo:
  assumes wf: "wf_accounts db" and m: "modify_dgpo f db = Inr db'"
    and f: "\<And>g'. f (db_dgpo db) = Inr g' \<Longrightarrow> gpo_time g' = gpo_time (db_dgpo db) \<and>
      (\<forall>s. funds s g' - token_supply s g' = funds s (db_dgpo db) - token_supply s (db_dgpo db) + d s) \<and>
      gpo_total_vesting_shares g' = gpo_total_vesting_shares (db_dgpo db) \<and>
      gpo_pending_rewarded_vesting_delta g' = gpo_pending_rewarded_vesting_delta (db_dgpo db) - p"
  shows "ledger_step d p db db'"
proof -
  have "step_effect d p db db'" by (rule step_effect_dgpo [OF wf m]) (use f in blast)
  moreover from m obtain g where g: "f (db_dgpo db) = Inr g" "db' = db\<lparr>db_dgpo := g\<rparr>" by (rule modify_dgpo_Inr)
  ultimately show ?thesis using f [OF g(1)] by (simp add: ledger_step_def same_tallies_def same_objects_def)
qed

section \<open>Effects of the balance operations\<close>

definition paid_amount :: "int option \<Rightarrow> int" where
  "paid_amount paid = (case paid of None \<Rightarrow> 0 | Some p \<Rightarrow> p)"

lemma paid_amount_simps [simp]: "paid_amount None = 0" "paid_amount (Some p) = p"
  by (simp_all add: paid_amount_def)

lemma accrue_interest_Inr:
  assumes "accrue_interest now rate b secs lu lp = Inr (b', secs', lu', lp', paid)"
  shows "b' = b + paid_amount paid"
  using assms by (auto simp: accrue_interest_def Let_def split: if_splits dest!: safe_add_Inr)

lemma pay_interest_step:
  assumes "wf_accounts db" "pay_interest n paid db = Inr db'"
  shows "ledger_step (\<lambda>s. if s = DBD_SYMBOL then - paid_amount paid else 0) 0 db db' \<and>
    db_accounts db' = db_accounts db"
proof (cases paid)
  case None
  with assms ledger_step_refl [OF assms(1)] show ?thesis by (auto simp: pay_interest_def intro: ledger_step_cong)
next
  case (Some p)
  define db1 where "db1 = (if p \<noteq> 0 then push_virtual_operation (Interest n (mk_asset p DBD_SYMBOL)) db else db)"
  have e1: "ledger_step (\<lambda>_. 0) 0 db db1" and acc1: "db_accounts db1 = db_accounts db"
    using assms(1) by (auto simp: db1_def push_virtual_operation_def ledger_step_def step_effect_def same_objects_def
      same_tallies_def wf_accounts_def surplus_def vote_surplus_def pending_surplus_def locked_def)
  have m: "modify_dgpo (\<lambda>g.
                res_bind (safe_add (gpo_current_dbd_supply g) p) (\<lambda>d.
                res_bind (asset_mul_price (mk_asset p DBD_SYMBOL) (db_median_history db)) (\<lambda>v.
                res_bind (plus_asset DELTA_SYMBOL (gpo_virtual_supply g) v) (\<lambda>vs.
                  Inr (g\<lparr>gpo_current_dbd_supply := d, gpo_virtual_supply := vs\<rparr>))))) db1 = Inr db'"
    using assms(2) Some by (simp add: pay_interest_def db1_def Let_def)
  have "ledger_step (\<lambda>s. if s = DBD_SYMBOL then - p else 0) 0 db1 db'"
    by (rule ledger_step_dgpo [OF ledger_stepD(4) [OF e1] m])
      (auto simp: funds_def token_supply_def dest!: safe_add_Inr)
  from ledger_step_trans [OF e1 this] have "ledger_step (\<lambda>s. if s = DBD_SYMBOL then - p else 0) 0 db db'"
    by (rule ledger_step_cong) simp_all
  moreover have "db_accounts db' = db_accounts db" using m acc1 by (auto elim!: modify_dgpo_Inr)
  ultimately show ?thesis unfolding Some paid_amount_simps by simp
qed


text \<open>
  Adjusting the balance of an account by a liquid amount changes the surplus of that token by the
  amount, and nothing else: interest paid on the way is added to the balance and to the supply.
\<close>

lemma account_with_interest:
  assumes wf: "wf_accounts db" and p: "pay_interest n paid db = Inr db1" and m: "modify_account n f db1 = Inr db'"
    and f: "\<And>a a'. f a = Inr a' \<Longrightarrow> a \<in> set (db_accounts db) \<Longrightarrow> acc_name a = n \<Longrightarrow>
      voter_view a' = voter_view a \<and>
      (\<forall>s. account_holds s a' = account_holds s a + (if s = DBD_SYMBOL then paid_amount paid + d else 0)) \<and>
      acc_reward_vesting_delta a' = acc_reward_vesting_delta a"
  shows "ledger_step (\<lambda>s. if s = DBD_SYMBOL then d else 0) 0 db db'"
proof -
  note s1 = pay_interest_step [OF wf p]
  have w1: "wf_accounts db1" using s1 by (blast dest: ledger_stepD)
  have "ledger_step (\<lambda>s. if s = DBD_SYMBOL then paid_amount paid + d else 0) 0 db1 db'"
    by (rule ledger_step_modify [OF w1 m]) (use f s1 in auto)
  from ledger_step_trans [OF conjunct1 [OF s1] this] show ?thesis
    by (rule ledger_step_cong) simp_all
qed

lemma find_account_unique:
  assumes "wf_accounts db" "get_account n db = Inr a" "b \<in> set (db_accounts db)" "acc_name b = n"
  shows "b = a"
proof -
  have "find_by acc_name n (db_accounts db) = Some b"
    using assms(1,3,4) by (simp add: wf_accounts_def find_by_distinct)
  then show ?thesis using assms(2) by (simp add: get_account_def)
qed

lemma modify_balance_step:
  assumes wf: "wf_accounts db" and m: "modify_balance n d chk db = Inr db'" and s: "symbol d \<noteq> VESTS_SYMBOL"
  shows "ledger_step (\<lambda>s. coin s d) 0 db db'"
proof (cases "symbol d = DELTA_SYMBOL")
  case True
  have "modify_account n (\<lambda>a. res_bind (safe_add (acc_balance a) (amount d)) (\<lambda>b.
          fc_assert (chk \<longrightarrow> b \<ge> 0) (Inr (a\<lparr>acc_balance := b\<rparr>)))) db = Inr db'"
    using m True by (simp add: modify_balance_def)
  then show ?thesis
    by (rule ledger_step_modify [OF wf]) (use True in \<open>auto simp: account_holds_def voter_view_def coin_def dest!: safe_add_Inr\<close>)
next
  case False
  then have dbd: "symbol d = DBD_SYMBOL" using m s by (auto simp: modify_balance_def split: if_splits)
  with m False obtain a b secs lu lp paid db1 where a: "get_account n db = Inr a"
    and i: "accrue_interest (head_block_time db) (gpo_dbd_interest_rate (db_dgpo db)) (acc_dbd_balance a)
            (acc_dbd_seconds a) (acc_dbd_seconds_last_update a) (acc_dbd_last_interest_payment a) = Inr (b, secs, lu, lp, paid)"
    and p: "pay_interest n paid db = Inr db1"
    and m': "modify_account n (\<lambda>a. res_bind (safe_add b (amount d)) (\<lambda>b.
          fc_assert (chk \<longrightarrow> b \<ge> 0)
            (Inr (a\<lparr>acc_dbd_balance := b, acc_dbd_seconds := secs, acc_dbd_seconds_last_update := lu,
                    acc_dbd_last_interest_payment := lp\<rparr>)))) db1 = Inr db'"
    by (auto simp: modify_balance_def)
  have "ledger_step (\<lambda>s. if s = DBD_SYMBOL then amount d else 0) 0 db db'"
    by (rule account_with_interest [OF wf p m'])
      (auto simp: account_holds_def voter_view_def accrue_interest_Inr [OF i] dest!: safe_add_Inr
         find_account_unique [OF wf a])
  then show ?thesis by (rule ledger_step_cong) (simp_all add: coin_def dbd)
qed

lemma adjust_balance_step:
  "wf_accounts db \<Longrightarrow> adjust_balance n d db = Inr db' \<Longrightarrow> symbol d \<noteq> VESTS_SYMBOL \<Longrightarrow> ledger_step (\<lambda>s. coin s d) 0 db db'"
  unfolding adjust_balance_def by (rule modify_balance_step)

lemma adjust_savings_balance_step:
  assumes wf: "wf_accounts db" and m: "adjust_savings_balance n d db = Inr db'"
  shows "ledger_step (\<lambda>s. coin s d) 0 db db'"
proof (cases "symbol d = DELTA_SYMBOL")
  case True
  have "modify_account n (\<lambda>a. res_bind (safe_add (acc_savings_balance a) (amount d)) (\<lambda>b.
          fc_assert (has_hardfork 20 db \<longrightarrow> b \<ge> 0) (Inr (a\<lparr>acc_savings_balance := b\<rparr>)))) db = Inr db'"
    using m True by (simp add: adjust_savings_balance_def)
  then show ?thesis
    by (rule ledger_step_modify [OF wf]) (use True in \<open>auto simp: account_holds_def voter_view_def coin_def dest!: safe_add_Inr\<close>)
next
  case False
  then have dbd: "symbol d = DBD_SYMBOL" using m by (auto simp: adjust_savings_balance_def Let_def split: if_splits)
  with m False obtain a b secs lu lp paid db1 where a: "get_account n db = Inr a"
    and i: "accrue_interest (head_block_time db) (gpo_dbd_interest_rate (db_dgpo db)) (acc_savings_dbd_balance a)
            (acc_savings_dbd_seconds a) (acc_savings_dbd_seconds_last_update a) (acc_savings_dbd_last_interest_payment a) = Inr (b, secs, lu, lp, paid)"
    and p: "pay_interest n paid db = Inr db1"
    and m': "modify_account n (\<lambda>a. res_bind (safe_add b (amount d)) (\<lambda>b.
          fc_assert (has_hardfork 20 db \<longrightarrow> b \<ge> 0)
            (Inr (a\<lparr>acc_savings_dbd_balance := b, acc_savings_dbd_seconds := secs, acc_savings_dbd_seconds_last_update := lu,
                    acc_savings_dbd_last_interest_payment := lp\<rparr>)))) db1 = Inr db'"
    by (auto simp: adjust_savings_balance_def Let_def)
  have "ledger_step (\<lambda>s. if s = DBD_SYMBOL then amount d else 0) 0 db db'"
    by (rule account_with_interest [OF wf p m'])
      (auto simp: account_holds_def voter_view_def accrue_interest_Inr [OF i] dest!: safe_add_Inr
         find_account_unique [OF wf a])
  then show ?thesis by (rule ledger_step_cong) (simp_all add: coin_def dbd)
qed


text \<open>Rewards waiting to be claimed: liquid ones count for their token, vesting ones for the shares
  and for the pending value.\<close>

lemma adjust_reward_balance_step:
  assumes wf: "wf_accounts db" and m: "adjust_reward_balance n x sh db = Inr db'"
  shows "ledger_step (\<lambda>s. if amount sh = 0 then coin s x else coin s sh) (if amount sh = 0 then 0 else amount x) db db'"
proof -
  from m have "modify_reward_balance n x sh (has_hardfork 20 db) db = Inr db'"
    by (simp add: adjust_reward_balance_def)
  note m' = this [unfolded modify_reward_balance_def]
  consider "symbol x = DELTA_SYMBOL" "amount sh = 0" | "symbol x = DELTA_SYMBOL" "amount sh \<noteq> 0"
    | "symbol x = DBD_SYMBOL" "amount sh = 0"
    using m' by (auto elim!: modify_account_Inr split: if_splits)
  then show ?thesis
  proof cases
    case 1
    show ?thesis
      by (rule ledger_step_modify [OF wf m']) (use 1 in \<open>auto simp: account_holds_def voter_view_def coin_def dest!: safe_add_Inr\<close>)
  next
    case 2
    show ?thesis
      by (rule ledger_step_modify [OF wf m'])
        (use 2 in \<open>auto simp: account_holds_def voter_view_def coin_def dest!: safe_add_Inr plus_asset_Inr\<close>)
  next
    case 3
    show ?thesis
      by (rule ledger_step_modify [OF wf m']) (use 3 in \<open>auto simp: account_holds_def voter_view_def coin_def dest!: safe_add_Inr\<close>)
  qed
qed

lemma adjust_supply_step:
  assumes wf: "wf_accounts db" and m: "adjust_supply d adjv db = Inr db'"
  shows "ledger_step (\<lambda>s. - coin s d) 0 db db'"
  using m unfolding adjust_supply_def Let_def
  by (rule ledger_step_dgpo [OF wf])
    (auto simp: funds_def token_supply_def coin_def split: if_splits dest!: safe_add_Inr plus_asset_Inr)

lemma get_balance_Inr: "get_balance a s = Inr b \<Longrightarrow> s \<noteq> VESTS_SYMBOL \<and> symbol b = s"
  by (auto simp: get_balance_def split: if_splits)

lemma get_savings_balance_Inr: "get_savings_balance a s = Inr b \<Longrightarrow> s \<noteq> VESTS_SYMBOL \<and> symbol b = s"
  by (auto simp: get_savings_balance_def split: if_splits)

lemma update_virtual_supply_step:
  assumes wf: "wf_accounts db" and m: "update_virtual_supply db = Inr db'"
  shows "ledger_step (\<lambda>_. 0) 0 db db'"
  using m unfolding update_virtual_supply_def Let_def
  by (rule ledger_step_dgpo [OF wf]) (auto simp: funds_def token_supply_def split: if_splits)


text \<open>Which objects stay the same does not depend on the state being well formed.\<close>

lemma modify_account_same: "modify_account n f db = Inr db' \<Longrightarrow> same_objects db db'"
  by (auto elim!: modify_account_Inr simp: same_objects_def)

lemma pay_interest_same: "pay_interest n paid db = Inr db' \<Longrightarrow> same_objects db db'"
  by (auto simp: pay_interest_def push_virtual_operation_def same_objects_def Let_def elim!: modify_dgpo_Inr split: option.splits if_splits)

lemma adjust_balance_same:
  assumes "adjust_balance n d db = Inr db'"
  shows "same_objects db db'"
proof -
  from assms obtain f paid db1 where "modify_account n f db = Inr db' \<or> pay_interest n paid db = Inr db1 \<and> modify_account n f db1 = Inr db'"
    unfolding adjust_balance_def modify_balance_def by (auto split: if_splits)
  then show ?thesis using modify_account_same pay_interest_same same_objects_trans by blast
qed

end
