(* ===== verification/Locked_Funds.thy ===== *)
theory Locked_Funds
  imports Balances
begin

text \<open>
  Objects that lock funds (conversion requests, savings withdrawals, escrows, limit orders), their
  creation and removal, the well-formedness of the state and the effect of steps on it.
\<close>

section \<open>Objects that lock funds\<close>

definition convert_key :: "convert_request_object \<Rightarrow> account_name_type \<times> 32 word" where
  "convert_key c = (crq_owner c, crq_requestid c)"

definition savings_key :: "savings_withdraw_object \<Rightarrow> account_name_type \<times> 32 word" where
  "savings_key w = (swo_from w, swo_request_id w)"

definition escrow_key :: "escrow_object \<Rightarrow> account_name_type \<times> 32 word" where
  "escrow_key e = (esc_from e, esc_escrow_id e)"

definition order_key :: "limit_order_object \<Rightarrow> account_name_type \<times> 32 word" where
  "order_key o' = (lim_seller o', lim_orderid o')"

definition create_convert_request :: "convert_request_object \<Rightarrow> database \<Rightarrow> database result" where
  "create_convert_request c db =
     res_bind (create_by convert_key c (db_converts db)) (\<lambda>xs. Inr (db\<lparr>db_converts := xs\<rparr>))"

definition remove_convert_request :: "convert_request_object \<Rightarrow> database \<Rightarrow> database" where
  "remove_convert_request c db = db\<lparr>db_converts := remove_by convert_key (convert_key c) (db_converts db)\<rparr>"

definition get_savings_withdraw :: "account_name_type \<Rightarrow> 32 word \<Rightarrow> database \<Rightarrow> savings_withdraw_object result" where
  "get_savings_withdraw owner request_id db =
     of_option Out_Of_Range (find_by savings_key (owner, request_id) (db_savings_withdraws db))"

definition create_savings_withdraw :: "savings_withdraw_object \<Rightarrow> database \<Rightarrow> database result" where
  "create_savings_withdraw w db =
     res_bind (create_by savings_key w (db_savings_withdraws db)) (\<lambda>xs. Inr (db\<lparr>db_savings_withdraws := xs\<rparr>))"

definition remove_savings_withdraw :: "savings_withdraw_object \<Rightarrow> database \<Rightarrow> database" where
  "remove_savings_withdraw w db = db\<lparr>db_savings_withdraws := remove_by savings_key (savings_key w) (db_savings_withdraws db)\<rparr>"

text \<open>
  The well-formedness the operations keep: unique keys; locked amounts in liquid tokens; an
  escrow that both parties approved has paid its fee.
\<close>

definition wf_escrow :: "escrow_object \<Rightarrow> bool" where
  "wf_escrow e \<longleftrightarrow> symbol (esc_delta_balance e) = DELTA_SYMBOL \<and> symbol (esc_dbd_balance e) = DBD_SYMBOL \<and>
     symbol (esc_pending_fee e) \<in> {DELTA_SYMBOL, DBD_SYMBOL} \<and>
     (is_approved e \<longrightarrow> amount (esc_pending_fee e) = 0)"

text \<open>The routes of the withdrawals of an account take at most 100% of them.\<close>

definition route_key :: "withdraw_vesting_route_object \<Rightarrow> account_name_type \<times> account_name_type" where
  "route_key r = (rt_from_account r, rt_to_account r)"

definition route_total :: "account_name_type \<Rightarrow> withdraw_vesting_route_object list \<Rightarrow> nat" where
  "route_total n rs = sum_list (map (\<lambda>r. unat (rt_percent r)) (filter (\<lambda>r. rt_from_account r = n \<and> rt_to_account r \<noteq> []) rs))"

definition wf_routes :: "withdraw_vesting_route_object list \<Rightarrow> bool" where
  "wf_routes rs \<longleftrightarrow> distinct (map route_key rs) \<and> (\<forall>n. route_total n rs \<le> 10000)"

lemma wf_routes_Nil [simp]: "wf_routes []"
  by (simp add: wf_routes_def route_total_def)

definition wf_objects :: "database \<Rightarrow> bool" where
  "wf_objects db \<longleftrightarrow>
     distinct (map convert_key (db_converts db)) \<and> distinct (map savings_key (db_savings_withdraws db)) \<and>
     distinct (map escrow_key (db_escrows db)) \<and> distinct (map order_key (db_limit_orders db)) \<and>
     (\<forall>c \<in> set (db_converts db). symbol (crq_amount c) \<in> {DELTA_SYMBOL, DBD_SYMBOL}) \<and>
     (\<forall>w \<in> set (db_savings_withdraws db). symbol (swo_amount w) \<in> {DELTA_SYMBOL, DBD_SYMBOL}) \<and>
     (\<forall>e \<in> set (db_escrows db). wf_escrow e) \<and>
     (\<forall>o' \<in> set (db_limit_orders db). symbol (base (lim_sell_price o')) \<in> {DELTA_SYMBOL, DBD_SYMBOL}) \<and>
     wf_routes (db_routes db)"

definition wf_state :: "database \<Rightarrow> bool" where
  "wf_state db \<longleftrightarrow> wf_accounts db \<and> wf_objects db"

text \<open>A step that keeps the state well formed and everything that counts for votes as it is, and changes
  the surpluses by the given amounts.\<close>

definition state_step :: "(asset_symbol_type \<Rightarrow> int) \<Rightarrow> database \<Rightarrow> database \<Rightarrow> bool" where
  "state_step m db db' \<longleftrightarrow> wf_objects db' \<and> same_tallies db db' \<and> step_effect m 0 db db'"

lemma state_step_trans: "state_step m a b \<Longrightarrow> state_step m' b c \<Longrightarrow> state_step (\<lambda>s. m s + m' s) a c"
  unfolding state_step_def using step_effect_trans [of m 0 a b m' 0 c] same_tallies_trans by auto

lemma state_step_cong: "state_step m a b \<Longrightarrow> (\<And>s. m s = m' s) \<Longrightarrow> state_step m' a b"
  by (simp add: state_step_def step_effect_def)

lemma state_step_wf: "state_step m a b \<Longrightarrow> wf_state b"
  by (simp add: state_step_def step_effect_def wf_state_def)

lemma wf_objects_same: "same_objects db db' \<Longrightarrow> wf_objects db' \<longleftrightarrow> wf_objects db"
  by (simp add: wf_objects_def same_objectsD)

lemma state_step_ledger: "wf_state db \<Longrightarrow> ledger_step m 0 db db' \<Longrightarrow> state_step m db db'"
  using wf_objects_same by (auto simp: state_step_def wf_state_def dest: ledger_stepD)

lemma state_step_adjust:
  assumes "wf_state db" "adjust_balance n d db = Inr db'" "symbol d \<in> {DELTA_SYMBOL, DBD_SYMBOL}"
  shows "state_step (\<lambda>s. coin s d) db db'" "same_objects db db'" "same_tallies db db'"
proof -
  have "ledger_step (\<lambda>s. coin s d) 0 db db'"
    using assms by (intro adjust_balance_step) (auto simp: wf_state_def)
  with assms(1) show "state_step (\<lambda>s. coin s d) db db'" "same_objects db db'" "same_tallies db db'"
    by (simp_all add: state_step_ledger ledger_stepD)
qed

lemma state_step_adjust_savings:
  assumes "wf_state db" "adjust_savings_balance n d db = Inr db'"
  shows "state_step (\<lambda>s. coin s d) db db'" "same_objects db db'" "same_tallies db db'"
proof -
  have "ledger_step (\<lambda>s. coin s d) 0 db db'"
    using assms by (intro adjust_savings_balance_step) (auto simp: wf_state_def)
  with assms(1) show "state_step (\<lambda>s. coin s d) db db'" "same_objects db db'" "same_tallies db db'"
    by (simp_all add: state_step_ledger ledger_stepD)
qed

text \<open>A change of an account that touches none of the amounts.\<close>

definition neutral :: "(account_object \<Rightarrow> account_object result) \<Rightarrow> bool" where
  "neutral f \<longleftrightarrow> (\<forall>a a'. f a = Inr a' \<longrightarrow> acc_name a' = acc_name a \<and> acc_proxy a' = acc_proxy a \<and>
     acc_proxied_vsf_votes a' = acc_proxied_vsf_votes a \<and> (\<forall>s. account_holds s a' = account_holds s a) \<and>
     acc_vesting_shares a' = acc_vesting_shares a \<and> acc_vesting_withdraw_rate a' = acc_vesting_withdraw_rate a \<and>
     acc_to_withdraw a' = acc_to_withdraw a \<and> acc_withdrawn a' = acc_withdrawn a \<and>
     acc_next_vesting_withdrawal a' = acc_next_vesting_withdrawal a \<and>
     acc_delegated_vesting_shares a' = acc_delegated_vesting_shares a \<and>
     acc_received_vesting_shares a' = acc_received_vesting_shares a \<and>
     acc_reward_vesting_delta a' = acc_reward_vesting_delta a)"

lemma ledger_step_neutral:
  assumes "wf_accounts db" "modify_account n f db = Inr db'" "neutral f"
  shows "ledger_step (\<lambda>_. 0) 0 db db'"
  by (rule ledger_step_modify [OF assms(1,2)]) (use assms(3) in \<open>auto simp: neutral_def voter_view_def\<close>)

lemma state_step_neutral:
  assumes "wf_state db" "modify_account n f db = Inr db'" "neutral f"
  shows "state_step (\<lambda>_. 0) db db'" "same_objects db db'" "same_tallies db db'"
  using ledger_step_neutral [OF _ assms(2,3)] assms(1) by (simp_all add: state_step_ledger ledger_stepD wf_state_def)

lemma state_step_push:
  "wf_state db \<Longrightarrow> state_step (\<lambda>_. 0) db (push_virtual_operation v db)"
  by (simp add: state_step_def push_virtual_operation_def step_effect_def wf_state_def wf_objects_def wf_accounts_def
    same_tallies_def surplus_def pending_surplus_def locked_def)

lemma state_step_create_convert:
  assumes "wf_state db" "create_convert_request c db = Inr db'" "symbol (crq_amount c) \<in> {DELTA_SYMBOL, DBD_SYMBOL}"
  shows "state_step (\<lambda>s. coin s (crq_amount c)) db db'"
  using assms
  by (auto simp: create_convert_request_def state_step_def step_effect_def wf_state_def wf_objects_def wf_accounts_def
    same_tallies_def surplus_def pending_surplus_def locked_def dest!: create_byD)

lemma state_step_remove_convert:
  assumes "wf_state db" "c \<in> set (db_converts db)"
  shows "state_step (\<lambda>s. - coin s (crq_amount c)) db (remove_convert_request c db)"
proof -
  have d: "distinct (map convert_key (db_converts db))" using assms(1) by (simp add: wf_state_def wf_objects_def)
  then have "find_by convert_key (convert_key c) (db_converts db) = Some c" using assms(2) by (simp add: find_by_distinct)
  note sum_remove [OF d this]
  then show ?thesis
    using assms by (simp add: remove_convert_request_def state_step_def step_effect_def wf_state_def wf_objects_def
      wf_accounts_def same_tallies_def surplus_def pending_surplus_def locked_def)
qed

lemma state_step_create_savings:
  assumes "wf_state db" "create_savings_withdraw w db = Inr db'" "symbol (swo_amount w) \<in> {DELTA_SYMBOL, DBD_SYMBOL}"
  shows "state_step (\<lambda>s. coin s (swo_amount w)) db db'"
  using assms
  by (auto simp: create_savings_withdraw_def state_step_def step_effect_def wf_state_def wf_objects_def wf_accounts_def
    same_tallies_def surplus_def pending_surplus_def locked_def dest!: create_byD)

lemma state_step_remove_savings:
  assumes "wf_state db" "w \<in> set (db_savings_withdraws db)"
  shows "state_step (\<lambda>s. - coin s (swo_amount w)) db (remove_savings_withdraw w db)"
proof -
  have d: "distinct (map savings_key (db_savings_withdraws db))" using assms(1) by (simp add: wf_state_def wf_objects_def)
  then have "find_by savings_key (savings_key w) (db_savings_withdraws db) = Some w" using assms(2) by (simp add: find_by_distinct)
  note sum_remove [OF d this]
  then show ?thesis
    using assms by (simp add: remove_savings_withdraw_def state_step_def step_effect_def wf_state_def wf_objects_def
      wf_accounts_def same_tallies_def surplus_def pending_surplus_def locked_def)
qed

end
