(* ===== verification/Draining.thy ===== *)
theory Draining
  imports Delta_Prelude
begin

text \<open>
  The loop of the per-block processing in \<open>database.cpp\<close>: look at the first due object of an
  index, process and remove it, and start again at the beginning of the index
  (\<open>process_savings_withdraws\<close>, \<open>process_conversions\<close>, \<open>clear_expired_orders\<close>,
  \<open>expire_escrow_ratification\<close>, \<open>clear_expired_delegations\<close>, \<open>process_decline_voting_rights\<close>). The loop
  is a partial function: \<open>None\<close> means that it never ends.
\<close>

partial_function (option) drain ::
  "('s \<Rightarrow> 'o option) \<Rightarrow> ('o \<Rightarrow> 's \<Rightarrow> 's result) \<Rightarrow> 's \<Rightarrow> 's result option" where
  "drain due process s =
     (case due s of
        None \<Rightarrow> Some (Inr s)
      | Some x \<Rightarrow> (case process x s of Inl e \<Rightarrow> Some (Inl e) | Inr t \<Rightarrow> drain due process t))"

lemma drain_done: "due s = None \<Longrightarrow> drain due process s = Some (Inr s)"
  by (simp add: drain.simps)

lemma drain_step: "due s = Some x \<Longrightarrow> process x s = Inr t \<Longrightarrow> drain due process s = drain due process t"
  by (subst drain.simps) simp

lemma drain_error: "due s = Some x \<Longrightarrow> process x s = Inl e \<Longrightarrow> drain due process s = Some (Inl e)"
  by (subst drain.simps) simp

text \<open>Processing a due object of a well-formed state keeps it well formed and shortens the queue.\<close>

locale draining_loop =
  fixes due :: "'s \<Rightarrow> 'o option" and process :: "'o \<Rightarrow> 's \<Rightarrow> 's result"
    and wf :: "'s \<Rightarrow> bool" and queue :: "'s \<Rightarrow> nat"
  assumes process_wf: "wf s \<Longrightarrow> due s = Some x \<Longrightarrow> process x s = Inr t \<Longrightarrow> wf t"
    and process_shortens: "wf s \<Longrightarrow> due s = Some x \<Longrightarrow> process x s = Inr t \<Longrightarrow> queue t < queue s"
begin

lemma returns:
  assumes "wf s"
  shows "\<exists>r. drain due process s = Some r"
  using assms
proof (induction "queue s" arbitrary: s rule: less_induct)
  case less
  show ?case
  proof (cases "due s")
    case (Some x)
    show ?thesis
    proof (cases "process x s")
      case (Inr t)
      then have "\<exists>r. drain due process t = Some r"
        using less Some process_wf process_shortens by blast
      then show ?thesis using drain_step [of due s x process t] Some Inr by simp
    qed (use drain_error [of due s x process] Some in auto)
  qed (simp add: drain_done)
qed

text \<open>When the loop succeeds, nothing is due any more, and what every step keeps is kept.\<close>

lemma drained:
  assumes "wf s" "drain due process s = Some (Inr t)" "R s s"
    and "\<And>a x b. wf a \<Longrightarrow> R s a \<Longrightarrow> due a = Some x \<Longrightarrow> process x a = Inr b \<Longrightarrow> R s b"
  shows "due t = None \<and> wf t \<and> R s t"
proof -
  have "drain due process u = Some (Inr t) \<Longrightarrow> wf u \<Longrightarrow> R s u \<Longrightarrow> due t = None \<and> wf t \<and> R s t" for u
  proof (induction "queue u" arbitrary: u rule: less_induct)
    case less
    show ?case
    proof (cases "due u")
      case None
      with less.prems show ?thesis by (simp add: drain_done)
    next
      case (Some x)
      with less.prems(1) obtain v where v: "process x u = Inr v"
        by (cases "process x u") (auto simp: drain_error)
      have "drain due process v = Some (Inr t)" using less.prems(1) drain_step [of due u x process v] Some v by simp
      then show ?thesis
        using less.hyps [OF process_shortens [OF less.prems(2) Some v]] process_wf [OF less.prems(2) Some v]
          assms(4) [OF less.prems(2,3) Some v] by blast
    qed
  qed
  then show ?thesis using assms(1-3) by blast
qed

end

end
