(* ===== verification/Transfers.thy ===== *)
theory Transfers
  imports Locked_Funds Draining
begin

text \<open>
  Transfers, savings and conversion requests (\<open>delta_evaluator.cpp\<close>: \<open>transfer_evaluator\<close>,
  \<open>transfer_to_savings_evaluator\<close>, \<open>transfer_from_savings_evaluator\<close>,
  \<open>cancel_transfer_from_savings_evaluator\<close>, \<open>convert_evaluator\<close>; \<open>database.cpp\<close>:
  \<open>process_savings_withdraws\<close>, \<open>process_conversions\<close>).
\<close>

section \<open>Evaluators\<close>

definition assert_ge :: "asset \<Rightarrow> asset \<Rightarrow> 'a result \<Rightarrow> 'a result" where
  "assert_ge a b k = res_bind (asset_le b a) (\<lambda>c. fc_assert c k)"

definition transfer_evaluator :: "transfer_operation \<Rightarrow> database \<Rightarrow> database result" where
  "transfer_evaluator op db =
     res_bind (get_account (tr_from op) db) (\<lambda>from.
     res_bind (get_balance from (symbol (tr_amount op))) (\<lambda>b.
     assert_ge b (tr_amount op)
       (res_bind (asset_neg (tr_amount op)) (\<lambda>neg.
        res_bind (adjust_balance (tr_from op) neg db) (adjust_balance (tr_to op) (tr_amount op))))))"

definition transfer_to_savings_evaluator :: "transfer_to_savings_operation \<Rightarrow> database \<Rightarrow> database result" where
  "transfer_to_savings_evaluator op db =
     res_bind (get_account (ts_from op) db) (\<lambda>from.
     res_bind (get_account (ts_to op) db) (\<lambda>_.
     res_bind (get_balance from (symbol (ts_amount op))) (\<lambda>b.
     assert_ge b (ts_amount op)
       (res_bind (asset_neg (ts_amount op)) (\<lambda>neg.
        res_bind (adjust_balance (ts_from op) neg db) (adjust_savings_balance (ts_to op) (ts_amount op)))))))"

definition transfer_from_savings_evaluator :: "transfer_from_savings_operation \<Rightarrow> database \<Rightarrow> database result" where
  "transfer_from_savings_evaluator op db =
     res_bind (get_account (tf_from op) db) (\<lambda>from.
     res_bind (get_account (tf_to op) db) (\<lambda>_.
     fc_assert (acc_savings_withdraw_requests from < 100)
       (res_bind (get_savings_balance from (symbol (tf_amount op))) (\<lambda>b.
        assert_ge b (tf_amount op)
          (res_bind (asset_neg (tf_amount op)) (\<lambda>neg.
           res_bind (adjust_savings_balance (tf_from op) neg db) (\<lambda>db1.
           res_bind (create_savings_withdraw
               \<lparr>swo_from = tf_from op, swo_to = tf_to op, swo_memo = tf_memo op, swo_request_id = tf_request_id op,
                swo_amount = tf_amount op, swo_complete = add_seconds (head_block_time db1) 259200\<rparr> db1)
             (modify_account (tf_from op) (\<lambda>a.
                Inr (a\<lparr>acc_savings_withdraw_requests := acc_savings_withdraw_requests a + 1\<rparr>))))))))))"

definition cancel_transfer_from_savings_evaluator ::
  "cancel_transfer_from_savings_operation \<Rightarrow> database \<Rightarrow> database result" where
  "cancel_transfer_from_savings_evaluator op db =
     res_bind (get_savings_withdraw (cs_from op) (cs_request_id op) db) (\<lambda>swo.
     res_bind (adjust_savings_balance (swo_from swo) (swo_amount swo) db) (\<lambda>db1.
     modify_account (cs_from op) (\<lambda>a.
       Inr (a\<lparr>acc_savings_withdraw_requests := acc_savings_withdraw_requests a - 1\<rparr>)) (remove_savings_withdraw swo db1)))"

definition convert_evaluator :: "convert_operation \<Rightarrow> database \<Rightarrow> database result" where
  "convert_evaluator op db =
     res_bind (get_account (cv_owner op) db) (\<lambda>owner.
     res_bind (get_balance owner (symbol (cv_amount op))) (\<lambda>b.
     assert_ge b (cv_amount op)
       (res_bind (asset_neg (cv_amount op)) (\<lambda>neg.
        res_bind (adjust_balance (cv_owner op) neg db) (\<lambda>db1.
        fc_assert (\<not> price_is_null (db_median_history db1))
          (let delay = (if has_hardfork 16 db1 then 302400 else 604800)
           in create_convert_request
                \<lparr>crq_owner = cv_owner op, crq_requestid = cv_requestid op, crq_amount = cv_amount op,
                 crq_conversion_date = add_seconds (head_block_time db1) delay\<rparr> db1))))))"

section \<open>Per-block processing\<close>

definition due_savings_withdraw :: "database \<Rightarrow> savings_withdraw_object option" where
  "due_savings_withdraw db =
     (case index_begin (\<lambda>w. (swo_complete w, swo_from w, swo_request_id w)) (db_savings_withdraws db) of
        None \<Rightarrow> None
      | Some w \<Rightarrow> if swo_complete w > head_block_time db then None else Some w)"

definition fill_savings_withdraw :: "savings_withdraw_object \<Rightarrow> database \<Rightarrow> database result" where
  "fill_savings_withdraw w db =
     res_bind (adjust_balance (swo_to w) (swo_amount w) db) (\<lambda>db1.
     res_bind (modify_account (swo_from w) (\<lambda>a.
         Inr (a\<lparr>acc_savings_withdraw_requests := acc_savings_withdraw_requests a - 1\<rparr>)) db1) (\<lambda>db2.
     Inr (remove_savings_withdraw w (push_virtual_operation
       (Fill_Transfer_From_Savings (swo_from w) (swo_to w) (swo_amount w) (swo_request_id w) (swo_memo w)) db2))))"

definition process_savings_withdraws :: "database \<Rightarrow> database result option" where
  "process_savings_withdraws = drain due_savings_withdraw fill_savings_withdraw"

text \<open>
  The conversion loop carries the totals it adds to the supply at the end.
\<close>

definition due_conversion :: "database \<times> int \<times> int \<Rightarrow> convert_request_object option" where
  "due_conversion s =
     (case index_begin crq_conversion_date (db_converts (fst s)) of
        None \<Rightarrow> None
      | Some c \<Rightarrow> if crq_conversion_date c \<le> head_block_time (fst s) then Some c else None)"

definition fill_conversion :: "convert_request_object \<Rightarrow> database \<times> int \<times> int \<Rightarrow> (database \<times> int \<times> int) result" where
  "fill_conversion c s =
     (case s of (db, net_dbd, net_delta) \<Rightarrow>
       res_bind (asset_mul_price (crq_amount c) (db_median_history db)) (\<lambda>amount_to_issue.
       res_bind (adjust_balance (crq_owner c) amount_to_issue db) (\<lambda>db1.
       res_bind (plus_asset DBD_SYMBOL net_dbd (crq_amount c)) (\<lambda>net_dbd.
       res_bind (plus_asset DELTA_SYMBOL net_delta amount_to_issue) (\<lambda>net_delta.
         Inr (remove_convert_request c (push_virtual_operation
           (Fill_Convert_Request (crq_owner c) (crq_requestid c) (crq_amount c) amount_to_issue) db1), net_dbd, net_delta))))))"

definition settle_conversions :: "database \<times> int \<times> int \<Rightarrow> database result" where
  "settle_conversions s =
     (case s of (db, net_dbd, net_delta) \<Rightarrow>
       modify_dgpo (\<lambda>g.
         res_bind (safe_add (gpo_current_supply g) net_delta) (\<lambda>c.
         res_bind (safe_sub (gpo_current_dbd_supply g) net_dbd) (\<lambda>d.
         res_bind (safe_add (gpo_virtual_supply g) net_delta) (\<lambda>v.
         res_bind (asset_mul_price (mk_asset net_dbd DBD_SYMBOL) (db_median_history db)) (\<lambda>x.
         res_bind (minus_asset DELTA_SYMBOL v x) (\<lambda>v.
           Inr (g\<lparr>gpo_current_supply := c, gpo_current_dbd_supply := d, gpo_virtual_supply := v\<rparr>))))))) db)"

definition process_conversions :: "database \<Rightarrow> database result option" where
  "process_conversions db =
     (if price_is_null (db_median_history db) then Some (Inr db)
      else map_option (\<lambda>r. res_bind r settle_conversions) (drain due_conversion fill_conversion (db, 0, 0)))"

section \<open>Conservation\<close>

lemma assert_ge_Inr [simp]: "assert_ge a b k = Inr r \<longleftrightarrow> symbol a = symbol b \<and> amount b \<le> amount a \<and> k = Inr r"
  by (auto simp: assert_ge_def asset_le_def)

lemma coin_neg: "asset_neg a = Inr b \<Longrightarrow> coin s b = - coin s a"
  by (auto simp: coin_def dest!: asset_neg_Inr)

lemma get_balance_liquid: "get_balance a s = Inr b \<Longrightarrow> s \<in> {DELTA_SYMBOL, DBD_SYMBOL}"
  by (auto simp: get_balance_def split: if_splits)

lemma get_savings_balance_liquid: "get_savings_balance a s = Inr b \<Longrightarrow> s \<in> {DELTA_SYMBOL, DBD_SYMBOL}"
  by (auto simp: get_savings_balance_def split: if_splits)

lemma transfer_step:
  assumes "wf_state db" "transfer_evaluator op db = Inr db'"
  shows "state_step (\<lambda>_. 0) db db'"
proof -
  from assms(2) obtain a b neg db1 where b: "get_balance a (symbol (tr_amount op)) = Inr b"
    and n: "asset_neg (tr_amount op) = Inr neg" and s1: "adjust_balance (tr_from op) neg db = Inr db1"
    and s2: "adjust_balance (tr_to op) (tr_amount op) db1 = Inr db'"
    by (auto simp: transfer_evaluator_def)
  have l: "symbol (tr_amount op) \<in> {DELTA_SYMBOL, DBD_SYMBOL}" by (rule get_balance_liquid [OF b])
  have e1: "state_step (\<lambda>s. coin s neg) db db1"
    using state_step_adjust [OF assms(1) s1] l asset_neg_Inr [OF n] by simp
  have e2: "state_step (\<lambda>s. coin s (tr_amount op)) db1 db'"
    using state_step_adjust [OF state_step_wf [OF e1] s2 l] by simp
  show ?thesis by (rule state_step_cong [OF state_step_trans [OF e1 e2]]) (simp add: coin_neg [OF n])
qed

lemma transfer_to_savings_step:
  assumes "wf_state db" "transfer_to_savings_evaluator op db = Inr db'"
  shows "state_step (\<lambda>_. 0) db db'"
proof -
  from assms(2) obtain a b neg db1 where b: "get_balance a (symbol (ts_amount op)) = Inr b"
    and n: "asset_neg (ts_amount op) = Inr neg" and s1: "adjust_balance (ts_from op) neg db = Inr db1"
    and s2: "adjust_savings_balance (ts_to op) (ts_amount op) db1 = Inr db'"
    by (auto simp: transfer_to_savings_evaluator_def)
  have e1: "state_step (\<lambda>s. coin s neg) db db1"
    using state_step_adjust [OF assms(1) s1] get_balance_liquid [OF b] asset_neg_Inr [OF n] by simp
  have e2: "state_step (\<lambda>s. coin s (ts_amount op)) db1 db'"
    using state_step_adjust_savings [OF state_step_wf [OF e1] s2] by simp
  show ?thesis by (rule state_step_cong [OF state_step_trans [OF e1 e2]]) (simp add: coin_neg [OF n])
qed

lemma neutral_requests:
  "neutral (\<lambda>a. Inr (a\<lparr>acc_savings_withdraw_requests := f (acc_savings_withdraw_requests a)\<rparr>))"
  by (auto simp: neutral_def account_holds_def)

lemma transfer_from_savings_step:
  assumes "wf_state db" "transfer_from_savings_evaluator op db = Inr db'"
  shows "state_step (\<lambda>_. 0) db db'"
proof -
  from assms(2) obtain a b neg db1 db2 w where b: "get_savings_balance a (symbol (tf_amount op)) = Inr b"
    and n: "asset_neg (tf_amount op) = Inr neg" and s1: "adjust_savings_balance (tf_from op) neg db = Inr db1"
    and s2: "create_savings_withdraw w db1 = Inr db2" and w: "swo_amount w = tf_amount op"
    and s3: "modify_account (tf_from op) (\<lambda>a.
                Inr (a\<lparr>acc_savings_withdraw_requests := acc_savings_withdraw_requests a + 1\<rparr>)) db2 = Inr db'"
    by (auto simp: transfer_from_savings_evaluator_def)
  have e1: "state_step (\<lambda>s. coin s neg) db db1"
    using state_step_adjust_savings [OF assms(1) s1] by simp
  have e2: "state_step (\<lambda>s. coin s (swo_amount w)) db1 db2"
    using state_step_create_savings [OF state_step_wf [OF e1] s2] get_savings_balance_liquid [OF b] w by simp
  have e3: "state_step (\<lambda>_. 0) db2 db'"
    using state_step_neutral [OF state_step_wf [OF e2] s3 neutral_requests] by simp
  show ?thesis
    by (rule state_step_cong [OF state_step_trans [OF e1 state_step_trans [OF e2 e3]]]) (simp add: coin_neg [OF n] w)
qed

lemma cancel_transfer_from_savings_step:
  assumes "wf_state db" "cancel_transfer_from_savings_evaluator op db = Inr db'"
  shows "state_step (\<lambda>_. 0) db db'"
proof -
  from assms(2) obtain w db1 where w: "find_by savings_key (cs_from op, cs_request_id op) (db_savings_withdraws db) = Some w"
    and s1: "adjust_savings_balance (swo_from w) (swo_amount w) db = Inr db1"
    and s2: "modify_account (cs_from op) (\<lambda>a.
       Inr (a\<lparr>acc_savings_withdraw_requests := acc_savings_withdraw_requests a - 1\<rparr>)) (remove_savings_withdraw w db1) = Inr db'"
    by (auto simp: cancel_transfer_from_savings_evaluator_def get_savings_withdraw_def)
  note e1 = state_step_adjust_savings [OF assms(1) s1]
  have "w \<in> set (db_savings_withdraws db1)" using find_by_Some [OF w] by (simp add: same_objectsD [OF e1(2)])
  then have e2: "state_step (\<lambda>s. - coin s (swo_amount w)) db1 (remove_savings_withdraw w db1)"
    by (rule state_step_remove_savings [OF state_step_wf [OF e1(1)]])
  have e3: "state_step (\<lambda>_. 0) (remove_savings_withdraw w db1) db'"
    using state_step_neutral [OF state_step_wf [OF e2] s2 neutral_requests] by simp
  show ?thesis
    by (rule state_step_cong [OF state_step_trans [OF e1(1) state_step_trans [OF e2 e3]]]) simp
qed

lemma convert_step:
  assumes "wf_state db" "convert_evaluator op db = Inr db'"
  shows "state_step (\<lambda>_. 0) db db'"
proof -
  from assms(2) obtain a b neg db1 c where b: "get_balance a (symbol (cv_amount op)) = Inr b"
    and n: "asset_neg (cv_amount op) = Inr neg" and s1: "adjust_balance (cv_owner op) neg db = Inr db1"
    and s2: "create_convert_request c db1 = Inr db'" and c: "crq_amount c = cv_amount op"
    by (auto simp: convert_evaluator_def Let_def)
  have e1: "state_step (\<lambda>s. coin s neg) db db1"
    using state_step_adjust [OF assms(1) s1] get_balance_liquid [OF b] asset_neg_Inr [OF n] by simp
  have e2: "state_step (\<lambda>s. coin s (crq_amount c)) db1 db'"
    using state_step_create_convert [OF state_step_wf [OF e1] s2] get_balance_liquid [OF b] c by simp
  show ?thesis by (rule state_step_cong [OF state_step_trans [OF e1 e2]]) (simp add: coin_neg [OF n] c)
qed

section \<open>The loops\<close>

lemma due_savings_Some:
  assumes "due_savings_withdraw db = Some w"
  shows "w \<in> set (db_savings_withdraws db)" "swo_complete w \<le> head_block_time db"
  using assms index_begin_Some(1) by (fastforce simp: due_savings_withdraw_def split: option.splits if_splits)+

lemma due_savings_None:
  assumes "due_savings_withdraw db = None" "w \<in> set (db_savings_withdraws db)"
  shows "swo_complete w > head_block_time db"
proof -
  obtain x where x: "index_begin (\<lambda>w. (swo_complete w, swo_from w, swo_request_id w)) (db_savings_withdraws db) = Some x"
    using index_begin_ex [OF assms(2)] by blast
  then have "swo_complete x > head_block_time db" using assms(1) by (auto simp: due_savings_withdraw_def split: if_splits)
  moreover have "(swo_complete x, swo_from x, swo_request_id x) \<le> (swo_complete w, swo_from w, swo_request_id w)"
    using index_begin_Some(2) [OF x assms(2)] .
  ultimately show ?thesis by auto
qed

lemma fill_savings_withdraw_step:
  assumes "wf_state db" "w \<in> set (db_savings_withdraws db)" "fill_savings_withdraw w db = Inr db'"
  shows "state_step (\<lambda>_. 0) db db'" "db_savings_withdraws db' = remove_by savings_key (savings_key w) (db_savings_withdraws db)"
    "head_block_time db' = head_block_time db"
proof -
  from assms(3) obtain db1 db2 where s1: "adjust_balance (swo_to w) (swo_amount w) db = Inr db1"
    and s2: "modify_account (swo_from w) (\<lambda>a.
         Inr (a\<lparr>acc_savings_withdraw_requests := acc_savings_withdraw_requests a - 1\<rparr>)) db1 = Inr db2"
    and db': "db' = remove_savings_withdraw w (push_virtual_operation
       (Fill_Transfer_From_Savings (swo_from w) (swo_to w) (swo_amount w) (swo_request_id w) (swo_memo w)) db2)"
    by (auto simp: fill_savings_withdraw_def)
  have "symbol (swo_amount w) \<in> {DELTA_SYMBOL, DBD_SYMBOL}" using assms(1,2) by (auto simp: wf_state_def wf_objects_def)
  note e1 = state_step_adjust [OF assms(1) s1 this]
  note e2 = state_step_neutral [OF state_step_wf [OF e1(1)] s2 neutral_requests]
  note so = same_objects_trans [OF e1(2) e2(2)]
  note e3 = state_step_push [OF state_step_wf [OF e2(1)], of "Fill_Transfer_From_Savings (swo_from w) (swo_to w) (swo_amount w) (swo_request_id w) (swo_memo w)"]
  have e4: "state_step (\<lambda>s. - coin s (swo_amount w)) (push_virtual_operation
       (Fill_Transfer_From_Savings (swo_from w) (swo_to w) (swo_amount w) (swo_request_id w) (swo_memo w)) db2) db'"
    unfolding db' by (rule state_step_remove_savings [OF state_step_wf [OF e3]])
      (use assms(2) same_objectsD(5) [OF so] in \<open>simp add: push_virtual_operation_def\<close>)
  show "state_step (\<lambda>_. 0) db db'"
    by (rule state_step_cong [OF state_step_trans [OF e1(1) state_step_trans [OF e2(1) state_step_trans [OF e3 e4]]]]) simp
  show "db_savings_withdraws db' = remove_by savings_key (savings_key w) (db_savings_withdraws db)"
    using same_objectsD(5) [OF so] by (simp add: db' remove_savings_withdraw_def push_virtual_operation_def)
  show "head_block_time db' = head_block_time db"
    using same_objectsD(14) [OF so] by (simp add: db' remove_savings_withdraw_def push_virtual_operation_def head_block_time_def)
qed

interpretation savings_loop: draining_loop due_savings_withdraw fill_savings_withdraw wf_state "\<lambda>db. length (db_savings_withdraws db)"
proof
  fix db w db' assume a: "wf_state db" "due_savings_withdraw db = Some w" "fill_savings_withdraw w db = Inr db'"
  note f = fill_savings_withdraw_step [OF a(1) due_savings_Some(1) [OF a(2)] a(3)]
  show "wf_state db'" by (rule state_step_wf [OF f(1)])
  have d: "distinct (map savings_key (db_savings_withdraws db))" using a(1) by (simp add: wf_state_def wf_objects_def)
  show "length (db_savings_withdraws db') < length (db_savings_withdraws db)"
    unfolding f(2) by (rule length_remove [OF d find_of_member [OF d due_savings_Some(1) [OF a(2)]]])
qed


text \<open>Removing an object that is due does not change which objects are not due.\<close>

lemma filter_remove_by: "\<not> P x \<Longrightarrow> distinct (map key xs) \<Longrightarrow> x \<in> set xs \<Longrightarrow> filter P (remove_by key (key x) xs) = filter P xs"
  unfolding remove_by_def filter_filter by (rule filter_cong) (auto simp: distinct_map inj_on_def)

lemma state_step_refl: "wf_state db \<Longrightarrow> state_step (\<lambda>_. 0) db db"
  by (simp add: state_step_def step_effect_def wf_state_def)

lemma process_savings_withdraws_result:
  assumes "wf_state db" "process_savings_withdraws db = Some (Inr db')"
  shows "state_step (\<lambda>_. 0) db db' \<and>
    db_savings_withdraws db' = filter (\<lambda>w. swo_complete w > head_block_time db) (db_savings_withdraws db)"
proof -
  define R where "R = (\<lambda>a b. state_step (\<lambda>_. 0) a b \<and> head_block_time b = head_block_time a \<and>
    filter (\<lambda>w. swo_complete w > head_block_time a) (db_savings_withdraws b) =
    filter (\<lambda>w. swo_complete w > head_block_time a) (db_savings_withdraws a))"
  have "due_savings_withdraw db' = None \<and> wf_state db' \<and> R db db'"
  proof (rule savings_loop.drained [OF assms(1) assms(2) [unfolded process_savings_withdraws_def]])
    show "R db db" using assms(1) by (simp add: R_def state_step_refl)
    fix a w b assume a: "wf_state a" "R db a" "due_savings_withdraw a = Some w" "fill_savings_withdraw w a = Inr b"
    note w = due_savings_Some [OF a(3)]
    note f = fill_savings_withdraw_step [OF a(1) w(1) a(4)]
    have "distinct (map savings_key (db_savings_withdraws a))" using a(1) by (simp add: wf_state_def wf_objects_def)
    then show "R db b"
      using a(2) w f state_step_trans [of "\<lambda>_. 0" db a "\<lambda>_. 0" b]
      by (simp add: R_def filter_remove_by)
  qed
  then have d: "due_savings_withdraw db' = None" and r: "R db db'" by auto
  have "filter (\<lambda>w. swo_complete w > head_block_time db) (db_savings_withdraws db') = db_savings_withdraws db'"
    using due_savings_None [OF d] r by (auto simp: R_def intro: filter_True)
  with r show ?thesis by (simp add: R_def)
qed

section \<open>Conversions\<close>

lemma due_conversion_Some:
  assumes "due_conversion s = Some c"
  shows "c \<in> set (db_converts (fst s))" "crq_conversion_date c \<le> head_block_time (fst s)"
proof -
  from assms obtain x where x: "index_begin crq_conversion_date (db_converts (fst s)) = Some x" "x = c"
    and "crq_conversion_date c \<le> head_block_time (fst s)"
    by (auto simp: due_conversion_def split: option.splits if_splits)
  then show "c \<in> set (db_converts (fst s))" "crq_conversion_date c \<le> head_block_time (fst s)"
    using index_begin_Some(1) [OF x(1)] by auto
qed

lemma due_conversion_None:
  assumes "due_conversion s = None" "c \<in> set (db_converts (fst s))"
  shows "crq_conversion_date c > head_block_time (fst s)"
proof -
  obtain x where x: "index_begin crq_conversion_date (db_converts (fst s)) = Some x"
    using index_begin_ex [OF assms(2)] by blast
  then have "crq_conversion_date x > head_block_time (fst s)" using assms(1) by (auto simp: due_conversion_def split: if_splits)
  with index_begin_Some(2) [OF x assms(2)] show ?thesis by simp
qed

text \<open>The amounts issued and retired so far, which the supply does not yet know of.\<close>

definition issued :: "database \<times> int \<times> int \<Rightarrow> asset_symbol_type \<Rightarrow> int" where
  "issued s y = (if y = DELTA_SYMBOL then snd (snd s) else 0) - (if y = DBD_SYMBOL then fst (snd s) else 0)"

lemma fill_conversion_step:
  assumes "wf_state (fst s)" "c \<in> set (db_converts (fst s))" "fill_conversion c s = Inr t"
  shows "state_step (\<lambda>y. issued t y - issued s y) (fst s) (fst t)"
    "db_converts (fst t) = remove_by convert_key (convert_key c) (db_converts (fst s))"
    "head_block_time (fst t) = head_block_time (fst s)" "db_median_history (fst t) = db_median_history (fst s)"
proof -
  obtain db nd ns where s: "s = (db, nd, ns)" by (cases s) auto
  define vop where "vop = (\<lambda>i. Fill_Convert_Request (crq_owner c) (crq_requestid c) (crq_amount c) i)"
  from assms(3) s obtain i db1 where
    s1: "adjust_balance (crq_owner c) i db = Inr db1" and sy: "symbol (crq_amount c) = DBD_SYMBOL" "symbol i = DELTA_SYMBOL"
    and t: "t = (remove_convert_request c (push_virtual_operation (vop i) db1), nd + amount (crq_amount c), ns + amount i)"
    by (auto simp: fill_conversion_def vop_def dest!: plus_asset_Inr)
  have wf: "wf_state db" using assms(1) s by simp
  note e1 = state_step_adjust [OF wf s1, unfolded sy(2), simplified]
  note e2 = state_step_push [OF state_step_wf [OF e1(1)], of "vop i"]
  have e3: "state_step (\<lambda>y. - coin y (crq_amount c)) (push_virtual_operation (vop i) db1) (fst t)"
    unfolding t fst_conv by (rule state_step_remove_convert [OF state_step_wf [OF e2]])
      (use assms(2) s same_objectsD(3) [OF e1(2)] in \<open>simp add: push_virtual_operation_def\<close>)
  have "state_step (\<lambda>y. issued t y - issued s y) db (fst t)"
    by (rule state_step_cong [OF state_step_trans [OF e1(1) state_step_trans [OF e2 e3]]]) (simp add: issued_def s t coin_def sy)
  then show "state_step (\<lambda>y. issued t y - issued s y) (fst s) (fst t)" by (simp add: s)
  show "db_converts (fst t) = remove_by convert_key (convert_key c) (db_converts (fst s))"
    "head_block_time (fst t) = head_block_time (fst s)" "db_median_history (fst t) = db_median_history (fst s)"
    using same_objectsD [OF e1(2)] by (simp_all add: t s remove_convert_request_def push_virtual_operation_def head_block_time_def)
qed

interpretation conversion_loop: draining_loop due_conversion fill_conversion "\<lambda>s. wf_state (fst s)" "\<lambda>s. length (db_converts (fst s))"
proof
  fix s c t assume a: "wf_state (fst s)" "due_conversion s = Some c" "fill_conversion c s = Inr t"
  note f = fill_conversion_step [OF a(1) due_conversion_Some(1) [OF a(2)] a(3)]
  show "wf_state (fst t)" by (rule state_step_wf [OF f(1)])
  have d: "distinct (map convert_key (db_converts (fst s)))" using a(1) by (simp add: wf_state_def wf_objects_def)
  show "length (db_converts (fst t)) < length (db_converts (fst s))"
    unfolding f(2) by (rule length_remove [OF d find_of_member [OF d due_conversion_Some(1) [OF a(2)]]])
qed

lemma settle_conversions_step:
  assumes "wf_state (fst s)" "settle_conversions s = Inr db'"
  shows "state_step (\<lambda>y. - issued s y) (fst s) db'" "same_objects (fst s) db'"
proof -
  obtain db nd ns where s: "s = (db, nd, ns)" by (cases s) auto
  have w: "wf_accounts db" using assms(1) s by (simp add: wf_state_def)
  have m: "settle_conversions (db, nd, ns) = Inr db'" using assms(2) s by simp
  have "ledger_step (\<lambda>y. - issued s y) 0 db db'"
    using m unfolding settle_conversions_def prod.case
    by (rule ledger_step_dgpo [OF w])
      (auto simp: s issued_def funds_def token_supply_def dest!: safe_add_Inr safe_sub_Inr minus_asset_Inr)
  then show "state_step (\<lambda>y. - issued s y) (fst s) db'" "same_objects (fst s) db'"
    using assms(1) by (simp_all add: s state_step_ledger ledger_stepD)
qed

lemma process_conversions_result:
  assumes "wf_state db" "process_conversions db = Some (Inr db')" "\<not> price_is_null (db_median_history db)"
  shows "state_step (\<lambda>_. 0) db db' \<and>
    db_converts db' = filter (\<lambda>c. crq_conversion_date c > head_block_time db) (db_converts db)"
proof -
  from assms(2,3) obtain t where t: "drain due_conversion fill_conversion (db, 0, 0) = Some (Inr t)"
    and st: "settle_conversions t = Inr db'"
    by (auto simp: process_conversions_def)
  define R where "R = (\<lambda>a b. state_step (\<lambda>y. issued b y - issued a y) (fst a) (fst b) \<and> head_block_time (fst b) = head_block_time (fst a) \<and>
    filter (\<lambda>w. crq_conversion_date w > head_block_time (fst a)) (db_converts (fst b)) =
    filter (\<lambda>w. crq_conversion_date w > head_block_time (fst a)) (db_converts (fst a)))"
  have "due_conversion t = None \<and> wf_state (fst t) \<and> R (db, 0, 0) t"
  proof (rule conversion_loop.drained [OF _ t])
    show "wf_state (fst (db, 0, 0))" "R (db, 0, 0) (db, 0, 0)" using assms(1) by (simp_all add: R_def state_step_refl)
    fix a c b assume a: "wf_state (fst a)" "R (db, 0, 0) a" "due_conversion a = Some c" "fill_conversion c a = Inr b"
    note w = due_conversion_Some [OF a(3)]
    note f = fill_conversion_step [OF a(1) w(1) a(4)]
    have d: "distinct (map convert_key (db_converts (fst a)))" using a(1) by (simp add: wf_state_def wf_objects_def)
    have "state_step (\<lambda>y. issued b y - issued (db, 0, 0) y) db (fst b)"
      using a(2) by (intro state_step_cong [OF state_step_trans [OF _ f(1), of "\<lambda>y. issued a y - issued (db, 0, 0) y" db]])
        (simp_all add: R_def)
    then show "R (db, 0, 0) b" using a(2) w f d by (simp add: R_def filter_remove_by)
  qed
  then have d: "due_conversion t = None" and wt: "wf_state (fst t)" and r: "R (db, 0, 0) t" by auto
  note se = settle_conversions_step [OF wt st]
  have "state_step (\<lambda>_. 0) db db'"
    using r by (intro state_step_cong [OF state_step_trans [OF _ se(1), of "\<lambda>y. issued t y - issued (db, 0, 0) y" db]])
      (simp_all add: R_def issued_def)
  moreover have "filter (\<lambda>c. crq_conversion_date c > head_block_time db) (db_converts (fst t)) = db_converts (fst t)"
    using due_conversion_None [OF d] r by (auto simp: R_def intro: filter_True)
  ultimately show ?thesis using r same_objectsD(3) [OF se(2)] by (simp add: R_def)
qed

end
