(* ===== verification/Witness_Votes.thy ===== *)
theory Witness_Votes
  imports Transfers
begin

text \<open>
  Votes for witnesses (\<open>database.cpp\<close>: \<open>adjust_proxied_witness_votes\<close>, \<open>adjust_witness_votes\<close>,
  \<open>adjust_witness_vote\<close>, \<open>clear_witness_votes\<close>, \<open>process_decline_voting_rights\<close>;
  \<open>delta_evaluator.cpp\<close>: \<open>account_witness_proxy_evaluator\<close>, \<open>account_witness_vote_evaluator\<close>,
  \<open>decline_voting_rights_evaluator\<close>) and the invariant they keep: every account and every witness
  has exactly the votes its voters have.
\<close>

lemma res_bind_cong [fundef_cong]:
  "x = x' \<Longrightarrow> (\<And>y. x' = Inr y \<Longrightarrow> f y = f' y) \<Longrightarrow> res_bind x f = res_bind x' f'"
  by (cases x') auto

lemma fc_assert_cong [fundef_cong]: "c = c' \<Longrightarrow> (c' \<Longrightarrow> k = k') \<Longrightarrow> fc_assert c k = fc_assert c' k'"
  by (simp add: fc_assert_def)

fun res_map :: "('a \<Rightarrow> 'b result) \<Rightarrow> 'a list \<Rightarrow> 'b list result" where
  "res_map f [] = Inr []"
| "res_map f (x # xs) = res_bind (f x) (\<lambda>y. res_bind (res_map f xs) (\<lambda>ys. Inr (y # ys)))"

section \<open>Votes of a witness\<close>

definition get_witness :: "account_name_type \<Rightarrow> database \<Rightarrow> witness_object result" where
  "get_witness n db = of_option Out_Of_Range (find_by wit_owner n (db_witnesses db))"

definition modify_witness ::
  "account_name_type \<Rightarrow> (witness_object \<Rightarrow> witness_object result) \<Rightarrow> database \<Rightarrow> database result" where
  "modify_witness n f db =
     res_bind (get_witness n db) (\<lambda>w.
     res_bind (f w) (\<lambda>w'. Inr (db\<lparr>db_witnesses := replace_by wit_owner n w' (db_witnesses db)\<rparr>)))"

definition adjust_witness_vote :: "account_name_type \<Rightarrow> int \<Rightarrow> database \<Rightarrow> database result" where
  "adjust_witness_vote n delta db =
     modify_witness n (\<lambda>w.
       let now = wso_current_virtual_time (db_wso db);
           pos = wit_virtual_position w + word_of_int (wit_votes w) * (now - wit_virtual_last_update w);
           lap = (if has_hardfork 2 db then - 1 else 0xFFFFFFFFFFFFFFFF)
       in res_bind (safe_add (wit_votes w) delta) (\<lambda>votes.
          fc_assert (votes \<le> gpo_total_vesting_shares (db_dgpo db))
            (if to_int64 (votes + 1) = 0 then Inl Divide_By_Zero_Exception
             else
               (let scheduled = now + (lap - pos) div word_of_int (to_int64 (votes + 1))
                in Inr (w\<lparr>wit_virtual_position := pos, wit_virtual_last_update := now, wit_votes := votes,
                     wit_virtual_scheduled_time :=
                       (if has_hardfork 4 db \<and> scheduled < now then - 1 else scheduled)\<rparr>))))) db"

text \<open>The vote records of an account, in the order of the index by account and witness.\<close>

definition votes_of :: "account_name_type \<Rightarrow> database \<Rightarrow> witness_vote_object list" where
  "votes_of n db = sort_key wvo_witness (filter (\<lambda>v. wvo_account v = n) (db_witness_votes db))"

definition adjust_witness_votes :: "account_name_type \<Rightarrow> int \<Rightarrow> database \<Rightarrow> database result" where
  "adjust_witness_votes n delta db = res_fold (\<lambda>v. adjust_witness_vote (wvo_witness v) delta) (votes_of n db) db"

section \<open>Proxies\<close>

text \<open>The array and the share version; slot \<open>i + depth\<close> of the proxy takes level \<open>i\<close> of the change.\<close>

definition add_proxied_votes :: "int list \<Rightarrow> nat \<Rightarrow> account_object \<Rightarrow> account_object result" where
  "add_proxied_votes delta depth a =
     res_fold (\<lambda>i a.
       res_bind (safe_add (acc_proxied_vsf_votes a ! (i + depth)) (delta ! i)) (\<lambda>v.
       Inr (a\<lparr>acc_proxied_vsf_votes := (acc_proxied_vsf_votes a)[i + depth := v]\<rparr>)))
     (rev [0..<4 - depth]) a"

function adjust_proxied_witness_votes :: "int list \<Rightarrow> nat \<Rightarrow> account_name_type \<Rightarrow> database \<Rightarrow> database result" where
  "adjust_proxied_witness_votes delta depth n db =
     res_bind (get_account n db) (\<lambda>a.
     if acc_proxy a \<noteq> [] then
       (if depth \<ge> 4 then Inr db
        else res_bind (modify_account (acc_proxy a) (add_proxied_votes delta depth) db)
               (adjust_proxied_witness_votes delta (depth + 1) (acc_proxy a)))
     else
       res_bind (safe_accumulate (rev (take (5 - depth) delta)) 0) (\<lambda>total_delta.
       adjust_witness_votes n total_delta db))"
  by pat_completeness auto

termination
  by (relation "measure (\<lambda>(delta, depth, n, db). 5 - depth)") auto

function adjust_proxied_witness_votes_share :: "int \<Rightarrow> nat \<Rightarrow> account_name_type \<Rightarrow> database \<Rightarrow> database result" where
  "adjust_proxied_witness_votes_share delta depth n db =
     res_bind (get_account n db) (\<lambda>a.
     if acc_proxy a \<noteq> [] then
       (if depth \<ge> 4 then Inr db
        else res_bind (modify_account (acc_proxy a) (\<lambda>p.
                 res_bind (safe_add (acc_proxied_vsf_votes p ! depth) delta) (\<lambda>v.
                 Inr (p\<lparr>acc_proxied_vsf_votes := (acc_proxied_vsf_votes p)[depth := v]\<rparr>))) db)
               (adjust_proxied_witness_votes_share delta (depth + 1) (acc_proxy a)))
     else adjust_witness_votes n delta db)"
  by pat_completeness auto

termination
  by (relation "measure (\<lambda>(delta, depth, n, db). 5 - depth)") auto

declare adjust_proxied_witness_votes.simps [simp del] adjust_proxied_witness_votes_share.simps [simp del]

definition clear_witness_votes :: "account_name_type \<Rightarrow> database \<Rightarrow> database result" where
  "clear_witness_votes n db =
     (let db1 = db\<lparr>db_witness_votes := filter (\<lambda>v. wvo_account v \<noteq> n) (db_witness_votes db)\<rparr>
      in if has_hardfork 6 db1 then modify_account n (\<lambda>a. Inr (a\<lparr>acc_witnesses_voted_for := 0\<rparr>)) db1 else Inr db1)"

text \<open>
  The chain of proxies is followed until an account without a proxy. The source keeps a pointer to
  the local copy of the account in the loop body and reads it after the body; the model reads the
  copy.
\<close>

function check_proxy_chain :: "account_object \<Rightarrow> account_name_type list \<Rightarrow> database \<Rightarrow> unit result" where
  "check_proxy_chain cprox chain db =
     (if acc_proxy cprox = [] then Inr ()
      else res_bind (get_account (acc_proxy cprox) db) (\<lambda>next_proxy.
           fc_assert (acc_name next_proxy \<notin> set chain)
           (fc_assert (length (acc_name next_proxy # chain) \<le> 4)
             (check_proxy_chain next_proxy (acc_name next_proxy # chain) db))))"
  by pat_completeness auto

termination
  by (relation "measure (\<lambda>(cprox, chain, db). 5 - length chain)") auto

declare check_proxy_chain.simps [simp del]

section \<open>Evaluators\<close>

definition account_witness_proxy_evaluator :: "account_witness_proxy_operation \<Rightarrow> database \<Rightarrow> database result" where
  "account_witness_proxy_evaluator op db =
     res_bind (get_account (ap_account op) db) (\<lambda>account.
     fc_assert (acc_proxy account \<noteq> ap_proxy op)
     (fc_assert (acc_can_vote account)
       (res_bind (res_map safe_neg (acc_vesting_shares account # acc_proxied_vsf_votes account)) (\<lambda>delta.
        res_bind (adjust_proxied_witness_votes delta 0 (ap_account op) db) (\<lambda>db1.
        if ap_proxy op \<noteq> [] then
          res_bind (get_account (ap_proxy op) db1) (\<lambda>new_proxy.
          res_bind (check_proxy_chain new_proxy (remdups [ap_account op, acc_name new_proxy]) db1) (\<lambda>_.
          res_bind (clear_witness_votes (ap_account op) db1) (\<lambda>db2.
          res_bind (modify_account (ap_account op) (\<lambda>a. Inr (a\<lparr>acc_proxy := ap_proxy op\<rparr>)) db2) (\<lambda>db3.
          res_bind (res_map safe_neg delta) (\<lambda>delta.
          adjust_proxied_witness_votes delta 0 (ap_account op) db3)))))
        else modify_account (ap_account op) (\<lambda>a. Inr (a\<lparr>acc_proxy := ap_proxy op\<rparr>)) db1)))))"

definition vote_key :: "witness_vote_object \<Rightarrow> account_name_type \<times> account_name_type" where
  "vote_key v = (wvo_account v, wvo_witness v)"

definition create_witness_vote :: "witness_vote_object \<Rightarrow> database \<Rightarrow> database result" where
  "create_witness_vote v db =
     res_bind (create_by vote_key v (db_witness_votes db)) (\<lambda>xs. Inr (db\<lparr>db_witness_votes := xs\<rparr>))"

definition account_witness_vote_evaluator :: "account_witness_vote_operation \<Rightarrow> database \<Rightarrow> database result" where
  "account_witness_vote_evaluator op db =
     res_bind (get_account (aw_account op) db) (\<lambda>voter.
     fc_assert (acc_proxy voter = [])
     (fc_assert (aw_approve op \<longrightarrow> acc_can_vote voter)
       (res_bind (get_witness (aw_witness op) db) (\<lambda>witness.
        let vote = \<lparr>wvo_witness = wit_owner witness, wvo_account = acc_name voter\<rparr>
        in case find_by vote_key (vote_key vote) (db_witness_votes db) of
             None \<Rightarrow>
               fc_assert (aw_approve op)
               (fc_assert (has_hardfork 2 db \<longrightarrow> acc_witnesses_voted_for voter < 30)
                 (res_bind (create_witness_vote vote db) (\<lambda>db1.
                  res_bind (witness_vote_weight voter) (\<lambda>weight.
                  res_bind (if has_hardfork 2 db then
                              (if has_hardfork 3 db then adjust_witness_vote (wit_owner witness) weight db1
                               else adjust_proxied_witness_votes_share weight 0 (acc_name voter) db1)
                            else modify_witness (wit_owner witness) (\<lambda>w.
                                   res_bind (safe_add (wit_votes w) weight) (\<lambda>v. Inr (w\<lparr>wit_votes := v\<rparr>))) db1)
                    (modify_account (acc_name voter) (\<lambda>a.
                       Inr (a\<lparr>acc_witnesses_voted_for := acc_witnesses_voted_for a + 1\<rparr>)))))))
           | Some old \<Rightarrow>
               fc_assert (\<not> aw_approve op)
                 (res_bind (witness_vote_weight voter) (\<lambda>weight.
                  res_bind (if has_hardfork 2 db then
                              res_bind (safe_neg weight) (\<lambda>neg.
                                if has_hardfork 3 db then adjust_witness_vote (wit_owner witness) neg db
                                else adjust_proxied_witness_votes_share neg 0 (acc_name voter) db)
                            else modify_witness (wit_owner witness) (\<lambda>w.
                                   res_bind (safe_sub (wit_votes w) weight) (\<lambda>v. Inr (w\<lparr>wit_votes := v\<rparr>))) db) (\<lambda>db1.
                  res_bind (modify_account (acc_name voter) (\<lambda>a.
                       Inr (a\<lparr>acc_witnesses_voted_for := acc_witnesses_voted_for a - 1\<rparr>)) db1) (\<lambda>db2.
                  Inr (db2\<lparr>db_witness_votes := remove_by vote_key (vote_key old) (db_witness_votes db2)\<rparr>)))))))))"

definition decline_voting_rights_evaluator :: "decline_voting_rights_operation \<Rightarrow> database \<Rightarrow> database result" where
  "decline_voting_rights_evaluator op db =
     fc_assert (has_hardfork 14 db)
       (res_bind (get_account (dv_account op) db) (\<lambda>account.
        let request = find_by dvr_account (acc_name account) (db_declines db)
        in if dv_decline op then
             fc_assert (request = None)
               (res_bind (create_by dvr_account
                    \<lparr>dvr_account = acc_name account, dvr_effective_date = add_seconds (head_block_time db) 2592000\<rparr>
                    (db_declines db)) (\<lambda>xs. Inr (db\<lparr>db_declines := xs\<rparr>)))
           else
             fc_assert (request \<noteq> None)
               (Inr (db\<lparr>db_declines := remove_by dvr_account (acc_name account) (db_declines db)\<rparr>))))"

section \<open>Per-block processing\<close>

definition due_decline :: "database \<Rightarrow> decline_voting_rights_request_object option" where
  "due_decline db =
     (case index_begin (\<lambda>d. (dvr_effective_date d, dvr_account d)) (db_declines db) of
        None \<Rightarrow> None
      | Some d \<Rightarrow> if dvr_effective_date d \<le> head_block_time db then Some d else None)"

definition decline_voting_rights :: "decline_voting_rights_request_object \<Rightarrow> database \<Rightarrow> database result" where
  "decline_voting_rights d db =
     res_bind (get_account (dvr_account d) db) (\<lambda>account.
     res_bind (res_map safe_neg (acc_vesting_shares account # acc_proxied_vsf_votes account)) (\<lambda>delta.
     res_bind (adjust_proxied_witness_votes delta 0 (dvr_account d) db) (\<lambda>db1.
     res_bind (clear_witness_votes (dvr_account d) db1) (\<lambda>db2.
     res_bind (modify_account (dvr_account d) (\<lambda>a. Inr (a\<lparr>acc_can_vote := False, acc_proxy := []\<rparr>)) db2) (\<lambda>db3.
     Inr (db3\<lparr>db_declines := remove_by dvr_account (dvr_account d) (db_declines db3)\<rparr>))))))"

definition process_decline_voting_rights :: "database \<Rightarrow> database result option" where
  "process_decline_voting_rights = drain due_decline decline_voting_rights"

section \<open>Tallies\<close>

text \<open>
  Level 0 of an account are its own vesting shares, level \<open>i + 1\<close> the votes proxied to it over
  \<open>i + 1\<close> steps. The tallies are right up to a lag when every slot holds what the accounts with that
  proxy have one level below, less their lag, and every witness what its voters have on all levels,
  less their lag.
\<close>

fun level :: "account_object \<Rightarrow> nat \<Rightarrow> int" where
  "level a 0 = acc_vesting_shares a"
| "level a (Suc i) = acc_proxied_vsf_votes a ! i"

definition vote_pairs :: "database \<Rightarrow> (account_name_type \<times> account_name_type) set" where
  "vote_pairs db = vote_key ` set (db_witness_votes db)"

definition slot_sum :: "(account_name_type \<Rightarrow> nat \<Rightarrow> int) \<Rightarrow> account_name_type \<Rightarrow> nat \<Rightarrow> account_object list \<Rightarrow> int" where
  "slot_sum lag n i xs = table_sum (\<lambda>a. if acc_proxy a = n then level a i - lag (acc_name a) i else 0) xs"

definition voter_sum :: "(account_name_type \<Rightarrow> nat \<Rightarrow> int) \<Rightarrow> account_name_type set \<Rightarrow> account_object list \<Rightarrow> int" where
  "voter_sum lag vs xs = table_sum (\<lambda>a. if acc_name a \<in> vs then \<Sum>l<5. level a l - lag (acc_name a) l else 0) xs"

definition voters :: "account_name_type \<Rightarrow> database \<Rightarrow> account_name_type set" where
  "voters w db = {n. (n, w) \<in> vote_pairs db}"

definition tallied :: "(account_name_type \<Rightarrow> nat \<Rightarrow> int) \<Rightarrow> database \<Rightarrow> bool" where
  "tallied lag db \<longleftrightarrow>
     (\<forall>b \<in> set (db_accounts db). \<forall>i<4. level b (Suc i) = slot_sum lag (acc_name b) i (db_accounts db)) \<and>
     (\<forall>w \<in> set (db_witnesses db). wit_votes w = voter_sum lag (voters (wit_owner w) db) (db_accounts db))"

text \<open>
  Unique names of accounts and witnesses and unique vote records; only accounts without a proxy
  have vote records; proxies and the witnesses that records vote for exist.
\<close>

definition voted_exist :: "database \<Rightarrow> bool" where
  "voted_exist db \<longleftrightarrow> (\<forall>k \<in> vote_key ` set (db_witness_votes db). snd k \<in> set (map wit_owner (db_witnesses db)))"

lemma voted_exist_mono:
  assumes "voted_exist db" "set (db_witness_votes db') \<subseteq> set (db_witness_votes db)"
    "map wit_owner (db_witnesses db') = map wit_owner (db_witnesses db)"
  shows "voted_exist db'"
  using assms unfolding voted_exist_def assms(3) by blast

definition wf_voting :: "database \<Rightarrow> bool" where
  "wf_voting db \<longleftrightarrow> wf_accounts db \<and> distinct (map wit_owner (db_witnesses db)) \<and>
     distinct (map vote_key (db_witness_votes db)) \<and> voted_exist db \<and>
     (\<forall>a \<in> set (db_accounts db). acc_name a \<noteq> [] \<and> (acc_proxy a \<noteq> [] \<longrightarrow>
        acc_proxy a \<in> acc_name ` set (db_accounts db) \<and> (\<forall>v \<in> set (db_witness_votes db). wvo_account v \<noteq> acc_name a)))"

lemma sum_single:
  assumes "distinct (map key xs)" "find_by key k xs = Some x"
  shows "table_sum (\<lambda>a. if key a = k then f a else 0) xs = f x"
  using assms
proof (induction xs)
  case (Cons a xs)
  show ?case
  proof (cases "key a = k")
    case True
    with Cons.prems have "k \<notin> key ` set xs" "x = a" by (auto simp: find_by_def)
    then have "map (\<lambda>a. if key a = k then f a else 0) xs = map (\<lambda>_. 0) xs" by auto
    then show ?thesis using True \<open>x = a\<close> by (simp add: map_replicate_const sum_list_replicate)
  next
    case False
    with Cons show ?thesis by (simp add: find_by_def)
  qed
qed (simp add: find_by_def)

text \<open>Adding \<open>d\<close> to the lag of one account takes what it adds from the sums it counts in.\<close>

lemma slot_sum_lag:
  assumes "distinct (map acc_name xs)" "find_by acc_name n xs = Some a"
  shows "slot_sum (\<lambda>m l. lag m l + (if m = n then d l else 0)) b i xs
    = slot_sum lag b i xs - (if acc_proxy a = b then d i else 0)"
proof -
  have "slot_sum (\<lambda>m l. lag m l + (if m = n then d l else 0)) b i xs
      = table_sum (\<lambda>x. (if acc_proxy x = b then level x i - lag (acc_name x) i else 0)
          + (if acc_name x = n then - (if acc_proxy x = b then d i else 0) else 0)) xs"
    unfolding slot_sum_def by (rule arg_cong [where f = sum_list]) auto
  also have "\<dots> = slot_sum lag b i xs + - (if acc_proxy a = b then d i else 0)"
    unfolding slot_sum_def sum_list_addf sum_single [OF assms] by simp
  finally show ?thesis by simp
qed

lemma voter_sum_lag:
  assumes "distinct (map acc_name xs)" "find_by acc_name n xs = Some a"
  shows "voter_sum (\<lambda>m l. lag m l + (if m = n then d l else 0)) vs xs
    = voter_sum lag vs xs - (if n \<in> vs then \<Sum>l<5. d l else 0)"
proof -
  have "voter_sum (\<lambda>m l. lag m l + (if m = n then d l else 0)) vs xs
      = table_sum (\<lambda>x. (if acc_name x \<in> vs then \<Sum>l<5. level x l - lag (acc_name x) l else 0)
          + (if acc_name x = n then - (if n \<in> vs then \<Sum>l<5. d l else 0) else 0)) xs"
    unfolding voter_sum_def by (rule arg_cong [where f = sum_list]) (auto simp: sum_subtractf algebra_simps sum.distrib)
  also have "\<dots> = voter_sum lag vs xs + - (if n \<in> vs then \<Sum>l<5. d l else 0)"
    unfolding voter_sum_def sum_list_addf sum_single [OF assms] by simp
  finally show ?thesis by simp
qed

text \<open>Replacing an account whose levels changed by \<open>d\<close> adds \<open>d\<close> to the sums it counts in.\<close>

lemma slot_sum_replace:
  assumes "distinct (map acc_name xs)" "find_by acc_name n xs = Some a"
    and "acc_name a' = acc_name a" "acc_proxy a' = acc_proxy a" "level a' i = level a i + d i"
  shows "slot_sum lag b i (replace_by acc_name n a' xs) = slot_sum lag b i xs + (if acc_proxy a = b then d i else 0)"
  unfolding slot_sum_def sum_replace [OF assms(1,2)] using assms(3-5) by simp

lemma voter_sum_replace:
  assumes "distinct (map acc_name xs)" "find_by acc_name n xs = Some a"
    and "acc_name a' = acc_name a" "\<And>l. l < 5 \<Longrightarrow> level a' l = level a l + d l"
  shows "voter_sum lag vs (replace_by acc_name n a' xs) = voter_sum lag vs xs + (if n \<in> vs then \<Sum>l<5. d l else 0)"
proof -
  have n: "acc_name a = n" using find_by_Some [OF assms(2)] by simp
  have "(\<Sum>l<5. level a' l - lag n l) = (\<Sum>l<5. level a l - lag n l) + (\<Sum>l<5. d l)"
    by (simp add: assms(4) sum.distrib [symmetric] algebra_simps)
  then show ?thesis
    unfolding voter_sum_def sum_replace [OF assms(1,2)] using assms(3) n by simp
qed

section \<open>Steps of the propagation\<close>

definition strip :: "account_object \<Rightarrow> account_object" where
  "strip a = a\<lparr>acc_proxied_vsf_votes := replicate (length (acc_proxied_vsf_votes a)) 0\<rparr>"

text \<open>Only votes of witnesses and votes proxied to accounts change.\<close>

definition vote_frame :: "database \<Rightarrow> database \<Rightarrow> bool" where
  "vote_frame db db' \<longleftrightarrow> db' = db\<lparr>db_accounts := db_accounts db', db_witnesses := db_witnesses db'\<rparr> \<and>
     map strip (db_accounts db') = map strip (db_accounts db) \<and>
     map wit_owner (db_witnesses db') = map wit_owner (db_witnesses db)"

text \<open>Composition of updates of the accounts and the witnesses.\<close>

lemma update_both_trans:
  assumes "c = b\<lparr>db_accounts := C, db_witnesses := W\<rparr>" "b = a\<lparr>db_accounts := B, db_witnesses := V\<rparr>"
  shows "c = a\<lparr>db_accounts := C, db_witnesses := W\<rparr>"
  using assms by simp

lemma update_witnesses_trans:
  assumes "c = b\<lparr>db_witnesses := W\<rparr>" "b = a\<lparr>db_witnesses := V\<rparr>"
  shows "c = a\<lparr>db_witnesses := W\<rparr>"
  using assms by simp

lemma update_witnesses_accounts: "db' = db\<lparr>db_witnesses := W\<rparr> \<Longrightarrow> db_accounts db' = db_accounts db"
  by simp

lemma vote_frame_refl [simp]: "vote_frame db db"
  by (simp add: vote_frame_def)

lemma vote_frame_trans:
  assumes "vote_frame a b" "vote_frame b c"
  shows "vote_frame a c"
proof -
  have "c = b\<lparr>db_accounts := db_accounts c, db_witnesses := db_witnesses c\<rparr>" using assms(2) by (simp add: vote_frame_def)
  moreover have "b = a\<lparr>db_accounts := db_accounts b, db_witnesses := db_witnesses b\<rparr>" using assms(1) by (simp add: vote_frame_def)
  ultimately have "c = a\<lparr>db_accounts := db_accounts c, db_witnesses := db_witnesses c\<rparr>" by (rule update_both_trans)
  then show ?thesis using assms by (simp add: vote_frame_def)
qed

lemma vote_frameD:
  assumes "vote_frame db db'"
  shows "db_witness_votes db' = db_witness_votes db" "db_dgpo db' = db_dgpo db" "db_hardforks db' = db_hardforks db"
    "db_declines db' = db_declines db" "same_objects db db'" "voters w db' = voters w db"
    "map acc_name (db_accounts db') = map acc_name (db_accounts db)"
    "map acc_proxy (db_accounts db') = map acc_proxy (db_accounts db)"
proof -
  have e: "db' = db\<lparr>db_accounts := db_accounts db', db_witnesses := db_witnesses db'\<rparr>" using assms by (simp add: vote_frame_def)
  show v: "db_witness_votes db' = db_witness_votes db" "db_dgpo db' = db_dgpo db" "db_hardforks db' = db_hardforks db"
    "db_declines db' = db_declines db" by (subst e, simp)+
  show "same_objects db db'" unfolding same_objects_def by (subst (1 2 3 4 5 6 7 8 9 10 11 12 13 14 15) e) simp
  show "voters w db' = voters w db" by (simp add: voters_def vote_pairs_def v(1))
  have "map acc_name (map strip (db_accounts db')) = map acc_name (map strip (db_accounts db))"
    "map acc_proxy (map strip (db_accounts db')) = map acc_proxy (map strip (db_accounts db))"
    using assms by (simp_all add: vote_frame_def)
  then show "map acc_name (db_accounts db') = map acc_name (db_accounts db)"
    "map acc_proxy (db_accounts db') = map acc_proxy (db_accounts db)" by (simp_all add: strip_def comp_def)
qed

lemma ball_strip: "(\<And>a. P (strip a) = P a) \<Longrightarrow> (\<forall>a \<in> set (map strip xs). P a) \<longleftrightarrow> (\<forall>a \<in> set xs. P a)"
  by auto

lemma wf_voting_frame:
  assumes "vote_frame db db'" "wf_voting db"
  shows "wf_voting db'"
proof -
  have st: "map strip (db_accounts db') = map strip (db_accounts db)"
    and ow: "map wit_owner (db_witnesses db') = map wit_owner (db_witnesses db)" using assms(1) by (auto simp: vote_frame_def)
  have nm: "acc_name ` set (db_accounts db') = acc_name ` set (db_accounts db)"
    using vote_frameD(7) [OF assms(1)] by (metis list.set_map)
  define P where "P a \<longleftrightarrow> length (acc_proxied_vsf_votes a) = 4 \<and> acc_name a \<noteq> [] \<and> (acc_proxy a \<noteq> [] \<longrightarrow>
    acc_proxy a \<in> acc_name ` set (db_accounts db) \<and> (\<forall>v \<in> set (db_witness_votes db). wvo_account v \<noteq> acc_name a))" for a :: account_object
  have "P (strip a) = P a" for a by (simp add: P_def strip_def)
  moreover have "\<forall>a \<in> set (db_accounts db). P a" using assms(2) by (auto simp: P_def wf_voting_def wf_accounts_def)
  ultimately have "\<forall>a \<in> set (db_accounts db'). P a" using ball_strip [of P] st by metis
  then show ?thesis
    using assms(2) vote_frameD(1,7) [OF assms(1)] voted_exist_mono [of db db']
    by (simp add: wf_voting_def wf_accounts_def P_def nm ow)
qed

lemma account_holds_strip [simp]: "account_holds s (strip a) = account_holds s a"
  by (simp add: account_holds_def strip_def)

text \<open>A step that moves no funds and no shares.\<close>

definition share_view :: "account_object \<Rightarrow> account_name_type \<times> int \<times> int \<times> int \<times> int \<times> time_point_sec \<times> int \<times> int" where
  "share_view a = (acc_name a, acc_vesting_shares a, acc_vesting_withdraw_rate a, acc_to_withdraw a, acc_withdrawn a,
     acc_next_vesting_withdrawal a, acc_delegated_vesting_shares a, acc_received_vesting_shares a)"

lemma share_view_strip [simp]: "share_view (strip a) = share_view a"
  by (simp add: share_view_def strip_def)

definition unmoved :: "database \<Rightarrow> database \<Rightarrow> bool" where
  "unmoved db db' \<longleftrightarrow> step_effect (\<lambda>_. 0) 0 db db' \<and> map share_view (db_accounts db') = map share_view (db_accounts db) \<and>
     db_delegations db' = db_delegations db \<and> db_delegation_expirations db' = db_delegation_expirations db \<and>
     gpo_time (db_dgpo db') = gpo_time (db_dgpo db) \<and> db_hardforks db' = db_hardforks db \<and> gpo_total_vesting_shares (db_dgpo db') = gpo_total_vesting_shares (db_dgpo db)"

lemma unmoved_trans: "unmoved a b \<Longrightarrow> unmoved b c \<Longrightarrow> unmoved a c"
  by (simp add: unmoved_def step_effect_def)

lemma unmoved_frame:
  assumes "vote_frame db db'" "wf_voting db"
  shows "unmoved db db'"
proof -
  have st: "map strip (db_accounts db') = map strip (db_accounts db)" using assms(1) by (simp add: vote_frame_def)
  have "map (account_holds s) (map strip (db_accounts db')) = map (account_holds s) (map strip (db_accounts db))" for s
    by (simp only: st)
  then have "map (account_holds s) (db_accounts db') = map (account_holds s) (db_accounts db)" for s by (simp add: comp_def)
  moreover have "map acc_reward_vesting_delta (map strip (db_accounts db')) = map acc_reward_vesting_delta (map strip (db_accounts db))"
    by (simp only: st)
  then have "map acc_reward_vesting_delta (db_accounts db') = map acc_reward_vesting_delta (db_accounts db)"
    by (simp add: comp_def strip_def)
  moreover have "map share_view (map strip (db_accounts db')) = map share_view (map strip (db_accounts db))"
    by (simp only: st)
  then have "map share_view (db_accounts db') = map share_view (db_accounts db)"
    by (simp add: comp_def)
  moreover have "wf_accounts db'" using wf_voting_frame [OF assms] by (simp add: wf_voting_def)
  ultimately show ?thesis
    using locked_same_objects [OF vote_frameD(5) [OF assms(1)]]
      same_objectsD(2,9,10) [OF vote_frameD(5) [OF assms(1)]]
    by (simp add: unmoved_def step_effect_def surplus_def pending_surplus_def vote_frameD(2) [OF assms(1)])
qed

lemma wf_votingD:
  assumes "wf_voting db" "find_by acc_name n (db_accounts db) = Some a"
  shows "distinct (map acc_name (db_accounts db))" "acc_name a = n" "a \<in> set (db_accounts db)" "n \<noteq> []"
    "length (acc_proxied_vsf_votes a) = 4" "acc_proxy a \<noteq> [] \<Longrightarrow> n \<notin> voters w db"
proof -
  show a: "acc_name a = n" "a \<in> set (db_accounts db)" using find_by_Some [OF assms(2)] by auto
  show "distinct (map acc_name (db_accounts db))" "n \<noteq> []" "length (acc_proxied_vsf_votes a) = 4"
    using a assms(1) by (auto simp: wf_voting_def wf_accounts_def)
  show "n \<notin> voters w db" if "acc_proxy a \<noteq> []"
  proof -
    have "\<forall>v \<in> set (db_witness_votes db). wvo_account v \<noteq> n" using that a assms(1) by (auto simp: wf_voting_def)
    then show ?thesis by (auto simp: voters_def vote_pairs_def vote_key_def)
  qed
qed

text \<open>The change of one account's lag, without a change of the tallies.\<close>

lemma tallied_lag_irrelevant:
  assumes wf: "wf_voting db" and t: "tallied lag db" and a: "find_by acc_name n (db_accounts db) = Some a"
    and "acc_proxy a \<noteq> [] \<Longrightarrow> \<forall>i<4. d i = 0" "acc_proxy a = [] \<Longrightarrow> \<forall>w \<in> set (db_witnesses db). n \<notin> voters (wit_owner w) db"
  shows "tallied (\<lambda>m l. lag m l + (if m = n then d l else 0)) db"
proof -
  note w = wf_votingD [OF wf a]
  have "acc_proxy a \<noteq> acc_name b \<or> d i = 0" if "b \<in> set (db_accounts db)" "i < 4" for b i
  proof (cases "acc_proxy a = []")
    case True
    moreover have "acc_name b \<noteq> []" using wf that by (auto simp: wf_voting_def)
    ultimately show ?thesis by simp
  qed (use assms(4) that in auto)
  moreover have "n \<notin> voters (wit_owner x) db" if "x \<in> set (db_witnesses db)" for x
    using assms(5) w(6) that by (cases "acc_proxy a = []") auto
  ultimately show ?thesis
    using t unfolding tallied_def slot_sum_lag [OF w(1) a] voter_sum_lag [OF w(1) a] by force
qed

text \<open>The proxy of an account takes the change of the levels of the account.\<close>

lemma tallied_slots:
  assumes wf: "wf_voting db" and t: "tallied lag db"
    and a: "find_by acc_name n (db_accounts db) = Some a" "acc_proxy a = P" "P \<noteq> []"
    and p: "find_by acc_name P (db_accounts db) = Some p" "p' = p\<lparr>acc_proxied_vsf_votes := vs\<rparr>" "length vs = 4"
      "\<And>i. i < 4 \<Longrightarrow> vs ! i = acc_proxied_vsf_votes p ! i + d i"
    and db': "db' = db\<lparr>db_accounts := replace_by acc_name P p' (db_accounts db)\<rparr>"
  shows "tallied (\<lambda>m l. (lag m l + (if m = P then (if l = 0 then 0 else d (l - 1)) else 0)) + (if m = n then - d l else 0)) db'"
    "vote_frame db db'"
proof -
  note w = wf_votingD [OF wf a(1)] and wp = wf_votingD [OF wf p(1)]
  let ?xs = "db_accounts db" and ?xs' = "replace_by acc_name P p' (db_accounts db)" and ?sh = "\<lambda>l. if l = 0 then 0 else d (l - 1)"
  let ?lag1 = "\<lambda>m l. lag m l + (if m = P then ?sh l else 0)"
  have p': "acc_name p' = P" "acc_proxy p' = acc_proxy p" using wp(2) p(2) by auto
  have lev: "level p' l = level p l + ?sh l" if "l < 5" for l using that p(2,4) by (cases l) auto
  have d': "distinct (map acc_name ?xs')" using w(1) p' by simp
  have "P \<in> acc_name ` set ?xs" using wp(2,3) by force
  then have fp: "find_by acc_name P ?xs' = Some p'" using p(1) p' by (simp add: find_by_replace)
  obtain a' where fa: "find_by acc_name n ?xs' = Some a'" and pa: "acc_proxy a' = P"
  proof (cases "n = P")
    case True
    then show ?thesis using that fp p' a p(1) by simp
  next
    case False
    then show ?thesis using that [of a] a p' by (simp add: find_by_replace)
  qed
  have s1: "slot_sum (\<lambda>m l. ?lag1 m l + (if m = n then - d l else 0)) b i ?xs' = slot_sum lag b i ?xs + (if P = b then d i else 0)"
    if "i < 4" for b i
    unfolding slot_sum_lag [OF d' fa] slot_sum_lag [OF d' fp]
    using slot_sum_replace [OF w(1) p(1), of p' i ?sh lag b] p' lev [of i] pa that wp(2) by simp
  have s2: "voter_sum (\<lambda>m l. ?lag1 m l + (if m = n then - d l else 0)) vs ?xs' = voter_sum lag vs ?xs"
    if "n \<notin> vs" for vs
    unfolding voter_sum_lag [OF d' fa] voter_sum_lag [OF d' fp]
    using voter_sum_replace [OF w(1) p(1), of p' ?sh lag vs] p' lev wp(2) that by simp
  show fr: "vote_frame db db'"
  proof -
    have "strip p' = strip p" using wp(5) p(2,3) by (simp add: strip_def)
    then show ?thesis using map_replace_same [OF w(1) p(1), of strip p'] by (simp add: vote_frame_def db')
  qed
  have "level b (Suc i) = slot_sum lag (acc_name b) i ?xs + (if P = acc_name b then d i else 0)" if "b \<in> set ?xs'" "i < 4" for b i
  proof (cases "acc_name b = P")
    case True
    then have "b = p'" using find_of_member [OF d' that(1)] fp by simp
    moreover have "level p (Suc i) = slot_sum lag P i ?xs" using t wp(2,3) that(2) by (auto simp: tallied_def)
    ultimately show ?thesis using lev [of "Suc i"] that(2) p'(1) by simp
  next
    case False
    then have "b \<in> set ?xs" using that(1) p' by (auto simp: replace_by_def split: if_splits)
    then show ?thesis using t that(2) False by (auto simp: tallied_def)
  qed
  moreover have "wit_votes x = voter_sum lag (voters (wit_owner x) db) ?xs" if "x \<in> set (db_witnesses db')" for x
    using t that by (simp add: db' tallied_def)
  ultimately show "tallied (\<lambda>m l. ?lag1 m l + (if m = n then - d l else 0)) db'"
    using w(6) a(2,3) unfolding tallied_def vote_frameD(6) [OF fr] by (simp add: db' s1 s2)
qed

lemma adjust_witness_vote_Inr:
  assumes "adjust_witness_vote n x db = Inr db'"
  obtains w w' where "find_by wit_owner n (db_witnesses db) = Some w" "wit_owner w' = wit_owner w"
    "wit_votes w' = wit_votes w + x" "db' = db\<lparr>db_witnesses := replace_by wit_owner n w' (db_witnesses db)\<rparr>"
proof -
  from assms obtain w w' where "find_by wit_owner n (db_witnesses db) = Some w"
    "db' = db\<lparr>db_witnesses := replace_by wit_owner n w' (db_witnesses db)\<rparr>"
    "wit_owner w' = wit_owner w" "wit_votes w' = wit_votes w + x"
    unfolding adjust_witness_vote_def modify_witness_def get_witness_def Let_def
    by (fastforce dest: safe_add_Inr split: if_splits)
  then show ?thesis using that by blast
qed

definition votes_added :: "account_name_type set \<Rightarrow> int \<Rightarrow> witness_object list \<Rightarrow> witness_object list \<Rightarrow> bool" where
  "votes_added ns x ws ws' \<longleftrightarrow> map (\<lambda>w. (wit_owner w, wit_votes w)) ws'
     = map (\<lambda>w. (wit_owner w, wit_votes w + (if wit_owner w \<in> ns then x else 0))) ws"

lemma adjust_witness_vote_added:
  assumes "adjust_witness_vote n x db = Inr db'" "distinct (map wit_owner (db_witnesses db))"
  shows "votes_added {n} x (db_witnesses db) (db_witnesses db') \<and> db' = db\<lparr>db_witnesses := db_witnesses db'\<rparr>"
  using assms(1)
proof (rule adjust_witness_vote_Inr)
  fix w w' assume w: "find_by wit_owner n (db_witnesses db) = Some w" "wit_owner w' = wit_owner w"
    "wit_votes w' = wit_votes w + x" "db' = db\<lparr>db_witnesses := replace_by wit_owner n w' (db_witnesses db)\<rparr>"
  then have "u = w" if "u \<in> set (db_witnesses db)" "wit_owner u = n" for u
    using that find_of_member [OF assms(2) that(1)] by simp
  then show ?thesis using w find_by_Some [OF w(1)] by (auto simp: votes_added_def replace_by_def)
qed

lemma votes_added_owners:
  assumes "votes_added ns x ws ws'"
  shows "map wit_owner ws' = map wit_owner ws"
proof -
  have "map fst (map (\<lambda>w. (wit_owner w, wit_votes w)) ws') = map fst (map (\<lambda>w. (wit_owner w, wit_votes w + (if wit_owner w \<in> ns then x else 0))) ws)"
    using assms by (simp only: votes_added_def)
  then show ?thesis by (simp add: comp_def)
qed

lemma votes_added_trans:
  assumes "votes_added {n} x ws ws1" "votes_added ns x ws1 ws2" "n \<notin> ns"
  shows "votes_added (insert n ns) x ws ws2"
proof -
  let ?f = "\<lambda>(o', v). (o', v + (if o' \<in> ns then x else 0))"
  have "map (\<lambda>w. (wit_owner w, wit_votes w)) ws2 = map ?f (map (\<lambda>w. (wit_owner w, wit_votes w)) ws1)"
    using assms(2) by (simp add: votes_added_def comp_def)
  also have "\<dots> = map ?f (map (\<lambda>w. (wit_owner w, wit_votes w + (if wit_owner w \<in> {n} then x else 0))) ws)"
    using assms(1) by (simp add: votes_added_def)
  also have "\<dots> = map (\<lambda>w. (wit_owner w, wit_votes w + (if wit_owner w \<in> insert n ns then x else 0))) ws"
    using assms(3) by auto
  finally show ?thesis by (simp add: votes_added_def)
qed

lemma adjust_witness_votes_fold:
  assumes "res_fold (\<lambda>v. adjust_witness_vote (wvo_witness v) x) vs db = Inr db'" "distinct (map wvo_witness vs)"
    "distinct (map wit_owner (db_witnesses db))"
  shows "votes_added (wvo_witness ` set vs) x (db_witnesses db) (db_witnesses db') \<and> db' = db\<lparr>db_witnesses := db_witnesses db'\<rparr>"
  using assms
proof (induction vs arbitrary: db)
  case Nil
  then show ?case by (simp add: votes_added_def)
next
  case (Cons v vs)
  from Cons.prems(1) obtain db1 where s: "adjust_witness_vote (wvo_witness v) x db = Inr db1"
    and rest: "res_fold (\<lambda>v. adjust_witness_vote (wvo_witness v) x) vs db1 = Inr db'" by auto
  note a = adjust_witness_vote_added [OF s Cons.prems(3)]
  have "distinct (map wit_owner (db_witnesses db1))" using a votes_added_owners Cons.prems(3) by metis
  note b = Cons.IH [OF rest _ this]
  have d: "wvo_witness v \<notin> wvo_witness ` set vs" "distinct (map wvo_witness vs)" using Cons.prems(2) by auto
  have "db' = db\<lparr>db_witnesses := db_witnesses db'\<rparr>" using a b d(2)
    by (blast intro: update_witnesses_trans)
  moreover have "votes_added (insert (wvo_witness v) (wvo_witness ` set vs)) x (db_witnesses db) (db_witnesses db')"
    using votes_added_trans a b d by blast
  ultimately show ?case by simp
qed

lemma distinct_votes_of:
  assumes "distinct (map vote_key (db_witness_votes db))"
  shows "distinct (map wvo_witness (votes_of n db))" "wvo_witness ` set (votes_of n db) = {w. n \<in> voters w db}"
proof -
  let ?xs = "filter (\<lambda>v. wvo_account v = n) (db_witness_votes db)"
  have "distinct (map vote_key ?xs)" using assms by (rule distinct_map_filter)
  then have "inj_on vote_key (set ?xs)" "distinct ?xs" by (auto simp: distinct_map)
  then have "inj_on wvo_witness (set ?xs)" "distinct ?xs" by (auto simp: inj_on_def vote_key_def)
  then have "distinct (map wvo_witness (sort_key wvo_witness ?xs))" by (simp add: distinct_map)
  then show "distinct (map wvo_witness (votes_of n db))" by (simp add: votes_of_def)
  show "wvo_witness ` set (votes_of n db) = {w. n \<in> voters w db}"
    by (force simp: votes_of_def voters_def vote_pairs_def vote_key_def image_iff)
qed

text \<open>The witnesses an account votes for take the change of its levels.\<close>

lemma tallied_votes_added:
  assumes wf: "wf_voting db" and t: "tallied lag db"
    and a: "find_by acc_name n (db_accounts db) = Some a" "acc_proxy a = []"
    and v: "votes_added {w. n \<in> voters w db} x (db_witnesses db) ws'" and x: "x = (\<Sum>l<5. d l)"
    and db': "db' = db\<lparr>db_witnesses := ws'\<rparr>"
  shows "tallied (\<lambda>m l. lag m l + (if m = n then - d l else 0)) db'"
proof -
  note w = wf_votingD [OF wf a(1)]
  have vd: "voters u db' = voters u db" for u by (simp add: voters_def vote_pairs_def db')
  have "wit_votes u' = voter_sum lag (voters (wit_owner u') db) (db_accounts db) + (if n \<in> voters (wit_owner u') db then x else 0)"
    if "u' \<in> set ws'" for u'
  proof -
    have "(wit_owner u', wit_votes u') \<in> set (map (\<lambda>w. (wit_owner w, wit_votes w)) ws')" using that by auto
    from this [unfolded v [unfolded votes_added_def]] obtain u where "u \<in> set (db_witnesses db)" "wit_owner u' = wit_owner u"
      "wit_votes u' = wit_votes u + (if n \<in> voters (wit_owner u) db then x else 0)"
      by auto
    then show ?thesis using t by (auto simp: tallied_def)
  qed
  moreover have "[] \<noteq> acc_name b" if "b \<in> set (db_accounts db)" for b using wf that by (auto simp: wf_voting_def)
  ultimately show ?thesis
    using t a(2) unfolding tallied_def vd by (auto simp: db' slot_sum_lag [OF w(1) a(1)] voter_sum_lag [OF w(1) a(1)] x sum_negf)
qed

lemma adjust_witness_votes_tallied:
  assumes wf: "wf_voting db" and t: "tallied lag db"
    and a: "find_by acc_name n (db_accounts db) = Some a" "acc_proxy a = []"
    and v: "adjust_witness_votes n x db = Inr db'" and x: "x = (\<Sum>l<5. d l)"
  shows "tallied (\<lambda>m l. lag m l + (if m = n then - d l else 0)) db'" "vote_frame db db'" "db_accounts db' = db_accounts db"
proof -
  have d: "distinct (map vote_key (db_witness_votes db))" "distinct (map wit_owner (db_witnesses db))" using wf by (auto simp: wf_voting_def)
  note f = adjust_witness_votes_fold [OF v [unfolded adjust_witness_votes_def] distinct_votes_of(1) [OF d(1)] d(2)]
  note f' = f [unfolded distinct_votes_of(2) [OF d(1)]]
  show "tallied (\<lambda>m l. lag m l + (if m = n then - d l else 0)) db'"
    using tallied_votes_added [OF wf t a conjunct1 [OF f'] x conjunct2 [OF f']] .
  show "db_accounts db' = db_accounts db" by (subst conjunct2 [OF f]) simp
  then show "vote_frame db db'"
    using votes_added_owners [OF conjunct1 [OF f]] conjunct2 [OF f] by (simp add: vote_frame_def)
qed

section \<open>The propagation\<close>

text \<open>The change of level \<open>l\<close> of the account reached after \<open>depth\<close> proxies.\<close>

definition shifted :: "int list \<Rightarrow> nat \<Rightarrow> nat \<Rightarrow> int" where
  "shifted delta depth l = (if depth \<le> l \<and> l < depth + 5 then delta ! (l - depth) else 0)"

lemma shifted_Suc: "(if l = 0 then 0 else shifted delta depth (l - 1)) = shifted delta (depth + 1) l"
  by (cases l) (auto simp: shifted_def Suc_diff_le)

lemma add_proxied_votes_fold:
  assumes "res_fold (\<lambda>i a.
       res_bind (safe_add (acc_proxied_vsf_votes a ! (i + depth)) (delta ! i)) (\<lambda>v.
       Inr (a\<lparr>acc_proxied_vsf_votes := (acc_proxied_vsf_votes a)[i + depth := v]\<rparr>))) is a = Inr a'" "distinct is"
    "\<forall>i \<in> set is. i + depth < length (acc_proxied_vsf_votes a)"
  shows "\<exists>vs. a' = a\<lparr>acc_proxied_vsf_votes := vs\<rparr> \<and> length vs = length (acc_proxied_vsf_votes a) \<and>
    (\<forall>j < length vs. vs ! j = acc_proxied_vsf_votes a ! j + (if depth \<le> j \<and> j - depth \<in> set is then delta ! (j - depth) else 0))"
  using assms
proof (induction "is" arbitrary: a)
  case Nil
  then show ?case by (intro exI [of _ "acc_proxied_vsf_votes a"]) simp
next
  case (Cons i "is")
  from Cons.prems(1) obtain v where v: "safe_add (acc_proxied_vsf_votes a ! (i + depth)) (delta ! i) = Inr v"
    and rest: "res_fold (\<lambda>i a.
       res_bind (safe_add (acc_proxied_vsf_votes a ! (i + depth)) (delta ! i)) (\<lambda>v.
       Inr (a\<lparr>acc_proxied_vsf_votes := (acc_proxied_vsf_votes a)[i + depth := v]\<rparr>))) is
       (a\<lparr>acc_proxied_vsf_votes := (acc_proxied_vsf_votes a)[i + depth := v]\<rparr>) = Inr a'" by auto
  from Cons.IH [OF rest] Cons.prems(2,3) obtain vs where vs: "a' = a\<lparr>acc_proxied_vsf_votes := vs\<rparr>"
    "length vs = length (acc_proxied_vsf_votes a)"
    "\<forall>j < length vs. vs ! j = (acc_proxied_vsf_votes a)[i + depth := v] ! j
       + (if depth \<le> j \<and> j - depth \<in> set is then delta ! (j - depth) else 0)" by auto
  then show ?case using Cons.prems(2,3) safe_add_Inr [OF v]
    by (intro exI [of _ vs]) (auto simp: nth_list_update)
qed

lemma add_proxied_votes_Inr:
  assumes "add_proxied_votes delta depth a = Inr a'" "length (acc_proxied_vsf_votes a) = 4" "depth < 4"
  obtains vs where "a' = a\<lparr>acc_proxied_vsf_votes := vs\<rparr>" "length vs = 4"
    "\<And>i. i < 4 \<Longrightarrow> vs ! i = acc_proxied_vsf_votes a ! i + shifted delta depth i"
proof -
  have "\<forall>i \<in> set (rev [0..<4 - depth]). i + depth < length (acc_proxied_vsf_votes a)" using assms(2) by auto
  from add_proxied_votes_fold [OF assms(1) [unfolded add_proxied_votes_def] _ this] assms(2)
  obtain vs where "a' = a\<lparr>acc_proxied_vsf_votes := vs\<rparr>" "length vs = 4"
    "\<forall>j<4. vs ! j = acc_proxied_vsf_votes a ! j + (if depth \<le> j \<and> j - depth < 4 - depth then delta ! (j - depth) else 0)"
    by auto
  moreover have "(if depth \<le> j \<and> j - depth < 4 - depth then delta ! (j - depth) else 0) = shifted delta depth j" if "j < 4" for j
    using that by (auto simp: shifted_def)
  ultimately show ?thesis using that [of vs] by simp
qed

lemma sum_shifted:
  assumes "length delta = 5" "depth \<le> 4"
  shows "sum_list (rev (take (5 - depth) delta)) = (\<Sum>l<5. shifted delta depth l)"
proof -
  have "(\<Sum>l<5. shifted delta depth l) = (\<Sum>l\<in>{depth..<5}. delta ! (l - depth))"
    using assms(2) by (intro sum.mono_neutral_cong_right) (auto simp: shifted_def)
  also have "\<dots> = (\<Sum>i\<in>{0..<5 - depth}. delta ! i)"
    using assms(2) by (intro sum.reindex_bij_witness [where i = "\<lambda>i. i + depth" and j = "\<lambda>l. l - depth"]) auto
  also have "\<dots> = sum_list (take (5 - depth) delta)"
    using assms by (simp add: sum_list_sum_nth min_absorb2)
  finally show ?thesis by (simp add: sum_list_rev)
qed

text \<open>The array version gives all accounts and witnesses the change of the levels of one account.\<close>

lemma adjust_proxied_tallied:
  assumes "adjust_proxied_witness_votes delta depth n db = Inr db'" "wf_voting db" "tallied lag db" "length delta = 5" "depth \<le> 4"
  shows "tallied (\<lambda>m l. lag m l + (if m = n then - shifted delta depth l else 0)) db' \<and> vote_frame db db'"
  using assms
proof (induction delta depth n db arbitrary: lag rule: adjust_proxied_witness_votes.induct)
  case (1 delta depth n db)
  from "1.prems"(1) obtain a where ga: "get_account n db = Inr a"
    by (subst (asm) adjust_proxied_witness_votes.simps) auto
  then have a: "find_by acc_name n (db_accounts db) = Some a" by (simp add: get_account_def)
  note eq = "1.prems"(1) [unfolded adjust_proxied_witness_votes.simps [of delta depth n db] ga res_bind_simps]
  consider "acc_proxy a = []" | "acc_proxy a \<noteq> []" "depth \<ge> 4" | "acc_proxy a \<noteq> []" "depth < 4" by linarith
  then show ?case
  proof cases
    case 1
    with eq obtain x where "safe_accumulate (rev (take (5 - depth) delta)) 0 = Inr x" and v: "adjust_witness_votes n x db = Inr db'" by auto
    then have "x = (\<Sum>l<5. shifted delta depth l)" using safe_accumulate_Inr sum_shifted "1.prems"(4,5) by fastforce
    note adjust_witness_votes_tallied [OF "1.prems"(2,3) a 1 v this]
    then show ?thesis by simp
  next
    case 2
    then have "db' = db" using eq by simp
    moreover have "tallied (\<lambda>m l. lag m l + (if m = n then - shifted delta depth l else 0)) db"
      by (rule tallied_lag_irrelevant [OF "1.prems"(2,3) a]) (use 2 in \<open>auto simp: shifted_def\<close>)
    ultimately show ?thesis by simp
  next
    case 3
    with eq obtain db1 where m: "modify_account (acc_proxy a) (add_proxied_votes delta depth) db = Inr db1"
      and rest: "adjust_proxied_witness_votes delta (depth + 1) (acc_proxy a) db1 = Inr db'" by auto
    from m obtain p p' where p: "find_by acc_name (acc_proxy a) (db_accounts db) = Some p" "add_proxied_votes delta depth p = Inr p'"
      and db1: "db1 = db\<lparr>db_accounts := replace_by acc_name (acc_proxy a) p' (db_accounts db)\<rparr>" by (rule modify_account_Inr)
    from p(2) wf_votingD(5) [OF "1.prems"(2) p(1)] 3(2) obtain vs where vs: "p' = p\<lparr>acc_proxied_vsf_votes := vs\<rparr>" "length vs = 4"
      "\<And>i. i < 4 \<Longrightarrow> vs ! i = acc_proxied_vsf_votes p ! i + shifted delta depth i" by (rule add_proxied_votes_Inr) blast
    note s = tallied_slots [OF "1.prems"(2,3) a refl 3(1) p(1) vs db1, unfolded shifted_Suc]
    have "\<not> depth \<ge> 4" using 3(2) by simp
    from "1.IH" [OF ga 3(1) this m rest wf_voting_frame [OF s(2) "1.prems"(2)] s(1) "1.prems"(4)] 3(2)
    have "tallied (\<lambda>m l. lag m l + (if m = acc_proxy a then shifted delta (depth + 1) l else 0) + (if m = n then - shifted delta depth l else 0)
        + (if m = acc_proxy a then - shifted delta (depth + 1) l else 0)) db'" "vote_frame db1 db'" by simp_all
    moreover have "(\<lambda>m l. lag m l + (if m = acc_proxy a then shifted delta (depth + 1) l else 0) + (if m = n then - shifted delta depth l else 0)
        + (if m = acc_proxy a then - shifted delta (depth + 1) l else 0)) = (\<lambda>m l. lag m l + (if m = n then - shifted delta depth l else 0))"
      by (intro ext) auto
    ultimately show ?thesis using vote_frame_trans [OF s(2)] by simp
  qed
qed

lemma safe_add_0 [simp]: "safe_add x 0 = Inr x"
  by (simp add: safe_add_def)

lemma res_bind_fold_Nil [simp]: "res_bind r (res_fold f []) = r"
  by (cases r) auto

lemma add_proxied_votes_single:
  assumes "depth < 4"
  shows "add_proxied_votes [x, 0, 0, 0, 0] depth p =
    res_bind (safe_add (acc_proxied_vsf_votes p ! depth) x) (\<lambda>v.
      Inr (p\<lparr>acc_proxied_vsf_votes := (acc_proxied_vsf_votes p)[depth := v]\<rparr>))"
proof -
  have "depth = 0 \<or> depth = 1 \<or> depth = 2 \<or> depth = 3" using assms by linarith
  then show ?thesis by (auto simp: add_proxied_votes_def upt_conv_Cons numeral_eq_Suc)
qed

lemma safe_accumulate_single:
  assumes "in_int64 x" "depth \<le> 4"
  shows "safe_accumulate (rev (take (5 - depth) [x, 0, 0, 0, 0])) 0 = Inr x"
proof -
  have "depth = 0 \<or> depth = 1 \<or> depth = 2 \<or> depth = 3 \<or> depth = 4" using assms(2) by linarith
  moreover have "safe_add 0 x = Inr x" using assms(1) by (auto simp: safe_add_def in_int64_def)
  ultimately show ?thesis by (auto simp: numeral_eq_Suc)
qed

text \<open>
  C32: The two overloads of \<open>adjust_proxied_witness_votes\<close> agree: passing on one 64-bit amount is the same
  as passing on the array with that amount on the first level and zeros, at every depth, with the
  same resulting state and the same errors.
\<close>

theorem share_is_array:
  assumes "in_int64 x" "depth \<le> 4"
  shows "adjust_proxied_witness_votes_share x depth n db = adjust_proxied_witness_votes [x, 0, 0, 0, 0] depth n db"
  using assms
proof (induction x depth n db rule: adjust_proxied_witness_votes_share.induct)
  case (1 x depth n db)
  show ?case
    unfolding adjust_proxied_witness_votes_share.simps [of x depth n db] adjust_proxied_witness_votes.simps [of _ depth n db]
  proof (rule res_bind_cong [OF refl])
    fix a assume a: "get_account n db = Inr a"
    consider "acc_proxy a = []" | "acc_proxy a \<noteq> []" "depth \<ge> 4" | "acc_proxy a \<noteq> []" "depth < 4" by linarith
    then show "(if acc_proxy a \<noteq> [] then
       (if depth \<ge> 4 then Inr db
        else res_bind (modify_account (acc_proxy a) (\<lambda>p.
                 res_bind (safe_add (acc_proxied_vsf_votes p ! depth) x) (\<lambda>v.
                 Inr (p\<lparr>acc_proxied_vsf_votes := (acc_proxied_vsf_votes p)[depth := v]\<rparr>))) db)
               (adjust_proxied_witness_votes_share x (depth + 1) (acc_proxy a)))
      else adjust_witness_votes n x db) =
      (if acc_proxy a \<noteq> [] then
       (if depth \<ge> 4 then Inr db
        else res_bind (modify_account (acc_proxy a) (add_proxied_votes [x, 0, 0, 0, 0] depth) db)
               (adjust_proxied_witness_votes [x, 0, 0, 0, 0] (depth + 1) (acc_proxy a)))
      else res_bind (safe_accumulate (rev (take (5 - depth) [x, 0, 0, 0, 0])) 0) (\<lambda>total_delta. adjust_witness_votes n total_delta db))"
    proof cases
      case 1
      then show ?thesis using safe_accumulate_single [OF "1.prems"] by simp
    next
      case 3
      then have nd: "\<not> depth \<ge> 4" by simp
      show ?thesis
        unfolding if_P [OF 3(1)] if_not_P [OF nd] ext [OF add_proxied_votes_single [OF 3(2)]]
        using "1.IH" [OF a 3(1) nd] "1.prems" 3(2) by (intro res_bind_cong) auto
    qed simp
  qed
qed

theorem share_is_array_witness:
  "in_int64 5 \<and> adjust_proxied_witness_votes_share 5 0 ''alice'' empty_database
    = adjust_proxied_witness_votes [5, 0, 0, 0, 0] 0 ''alice'' empty_database"
  using share_is_array [of 5 0 "''alice''" empty_database] by (simp add: in_int64_def)

section \<open>Loops of proxies\<close>

definition proxy_rel :: "database \<Rightarrow> (account_name_type \<times> account_name_type) set" where
  "proxy_rel db = {x \<in> set (map (\<lambda>a. (acc_name a, acc_proxy a)) (db_accounts db)). snd x \<noteq> []}"

lemma proxy_rel_frame:
  assumes "vote_frame db db'"
  shows "proxy_rel db' = proxy_rel db"
proof -
  have "map (\<lambda>a. (acc_name a, acc_proxy a)) (map strip (db_accounts db')) = map (\<lambda>a. (acc_name a, acc_proxy a)) (map strip (db_accounts db))"
    using assms by (simp add: vote_frame_def)
  then have "map (\<lambda>a. (acc_name a, acc_proxy a)) (db_accounts db') = map (\<lambda>a. (acc_name a, acc_proxy a)) (db_accounts db)"
    by (simp add: strip_def comp_def)
  then show ?thesis by (simp only: proxy_rel_def)
qed

text \<open>Accounts that are not above the account in the chain of proxies are not touched.\<close>

lemma adjust_proxied_unreached:
  assumes "adjust_proxied_witness_votes delta depth n db = Inr db'" "wf_voting db" "(n, m) \<notin> (proxy_rel db)\<^sup>+"
  shows "find_by acc_name m (db_accounts db') = find_by acc_name m (db_accounts db)"
  using assms
proof (induction delta depth n db rule: adjust_proxied_witness_votes.induct)
  case (1 delta depth n db)
  from "1.prems"(1) obtain a where ga: "get_account n db = Inr a"
    by (subst (asm) adjust_proxied_witness_votes.simps) auto
  then have a: "find_by acc_name n (db_accounts db) = Some a" by (simp add: get_account_def)
  note eq = "1.prems"(1) [unfolded adjust_proxied_witness_votes.simps [of delta depth n db] ga res_bind_simps]
  consider "acc_proxy a = []" | "acc_proxy a \<noteq> []" "depth \<ge> 4" | "acc_proxy a \<noteq> []" "depth < 4" by linarith
  then show ?case
  proof cases
    case 1
    with eq obtain x where v: "adjust_witness_votes n x db = Inr db'" by auto
    have d: "distinct (map vote_key (db_witness_votes db))" "distinct (map wit_owner (db_witnesses db))"
      using "1.prems"(2) by (auto simp: wf_voting_def)
    from adjust_witness_votes_fold [OF v [unfolded adjust_witness_votes_def] distinct_votes_of(1) [OF d(1)] d(2)]
    have "db' = db\<lparr>db_witnesses := db_witnesses db'\<rparr>" by blast
    then show ?thesis by (simp only: update_witnesses_accounts)
  next
    case 2
    then show ?thesis using eq by simp
  next
    case 3
    with eq obtain db1 where mo: "modify_account (acc_proxy a) (add_proxied_votes delta depth) db = Inr db1"
      and rest: "adjust_proxied_witness_votes delta (depth + 1) (acc_proxy a) db1 = Inr db'" by auto
    from mo obtain p p' where p: "find_by acc_name (acc_proxy a) (db_accounts db) = Some p" "add_proxied_votes delta depth p = Inr p'"
      and db1: "db1 = db\<lparr>db_accounts := replace_by acc_name (acc_proxy a) p' (db_accounts db)\<rparr>" by (rule modify_account_Inr)
    from p(2) wf_votingD(5) [OF "1.prems"(2) p(1)] 3(2) obtain vs where vs: "p' = p\<lparr>acc_proxied_vsf_votes := vs\<rparr>" "length vs = 4"
      by (rule add_proxied_votes_Inr) blast
    note wp = wf_votingD [OF "1.prems"(2) p(1)]
    have "strip p' = strip p" using wp(5) vs by (simp add: strip_def)
    then have fr: "vote_frame db db1" using map_replace_same [OF wp(1) p(1), of strip p'] by (simp add: vote_frame_def db1)
    have na: "(n, acc_proxy a) \<in> proxy_rel db" using wf_votingD(2,3) [OF "1.prems"(2) a] 3(1) by (auto simp: proxy_rel_def)
    then have "m \<noteq> acc_proxy a" "(acc_proxy a, m) \<notin> (proxy_rel db1)\<^sup>+"
      using "1.prems"(3) by (auto simp: proxy_rel_frame [OF fr] dest: trancl_into_trancl2)
    moreover have "\<not> depth \<ge> 4" using 3(2) by simp
    ultimately have "find_by acc_name m (db_accounts db') = find_by acc_name m (db_accounts db1)"
      using "1.IH" [OF ga 3(1) _ mo rest wf_voting_frame [OF fr "1.prems"(2)]] by blast
    also have "\<dots> = find_by acc_name m (db_accounts db)"
      using \<open>m \<noteq> acc_proxy a\<close> vs(1) wp(2) by (simp add: db1 find_by_replace)
    finally show ?thesis .
  qed
qed

section \<open>The evaluators keep the tallies\<close>

definition votes_ok :: "database \<Rightarrow> bool" where
  "votes_ok db \<longleftrightarrow> wf_voting db \<and> tallied (\<lambda>_ _. 0) db \<and> acyclic (proxy_rel db)"

lemma res_map_neg: "res_map safe_neg xs = Inr ys \<Longrightarrow> ys = map uminus xs"
  by (induction xs arbitrary: ys) (auto dest: safe_neg_Inr)

lemma shifted_neg: "length delta = 5 \<Longrightarrow> shifted (map uminus delta) 0 l = - shifted delta 0 l"
  by (simp add: shifted_def)

lemma shifted_levels:
  assumes "length (acc_proxied_vsf_votes a) = 4" "l < 5"
  shows "shifted (map uminus (acc_vesting_shares a # acc_proxied_vsf_votes a)) 0 l = - level a l"
  using assms by (cases l) (auto simp: shifted_def)

text \<open>Taking all votes of an account away: its levels are now its lag.\<close>

lemma detach_votes:
  assumes ok: "votes_ok db" and a: "find_by acc_name n (db_accounts db) = Some a"
    and "res_map safe_neg (acc_vesting_shares a # acc_proxied_vsf_votes a) = Inr delta"
    and adj: "adjust_proxied_witness_votes delta 0 n db = Inr db1"
  shows "tallied (\<lambda>m l. 0 + (if m = n then - shifted delta 0 l else 0)) db1" "vote_frame db db1"
    "find_by acc_name n (db_accounts db1) = Some a" "length delta = 5" "\<And>l. l < 5 \<Longrightarrow> - shifted delta 0 l = level a l"
proof -
  have wf: "wf_voting db" using ok by (simp add: votes_ok_def)
  note len = wf_votingD(5) [OF wf a]
  have d: "delta = map uminus (acc_vesting_shares a # acc_proxied_vsf_votes a)" using assms(3) by (rule res_map_neg)
  show l5: "length delta = 5" using d len by simp
  show "- shifted delta 0 l = level a l" if "l < 5" for l using shifted_levels [OF len that] d by simp
  have "tallied (\<lambda>_ _. 0) db" using ok by (simp add: votes_ok_def)
  from adjust_proxied_tallied [OF adj wf this l5]
  show "tallied (\<lambda>m l. 0 + (if m = n then - shifted delta 0 l else 0)) db1" "vote_frame db db1" by auto
  have "(n, n) \<notin> (proxy_rel db)\<^sup>+" using ok by (simp add: votes_ok_def acyclic_def)
  from adjust_proxied_unreached [OF adj wf this] show "find_by acc_name n (db_accounts db1) = Some a" using a by simp
qed

text \<open>An account whose lag is all it has counts nowhere: its proxy and its vote records may change.\<close>

lemma voter_sum_silent:
  assumes "distinct (map acc_name xs)" "find_by acc_name n xs = Some a" "\<And>l. l < 5 \<Longrightarrow> lag n l = level a l" "us - {n} = vs - {n}"
  shows "voter_sum lag us xs = voter_sum lag vs xs"
proof -
  have "(if acc_name x \<in> us then \<Sum>l<5. level x l - lag (acc_name x) l else 0)
      = (if acc_name x \<in> vs then \<Sum>l<5. level x l - lag (acc_name x) l else 0)" if "x \<in> set xs" for x
  proof (cases "acc_name x = n")
    case True
    then have "x = a" using find_of_member [OF assms(1) that] assms(2) by simp
    then show ?thesis using assms(3) True by simp
  qed (use assms(4) in auto)
  then show ?thesis unfolding voter_sum_def by (intro arg_cong [where f = sum_list] map_cong refl)
qed

lemma tallied_silent:
  assumes dist: "distinct (map acc_name (db_accounts db))" and t: "tallied lag db"
    and a: "find_by acc_name n (db_accounts db) = Some a" and lag: "\<And>l. l < 5 \<Longrightarrow> lag n l = level a l"
    and a': "acc_name a' = n" "\<And>l. l < 5 \<Longrightarrow> level a' l = level a l"
    and db': "db_accounts db' = replace_by acc_name n a' (db_accounts db)" "db_witnesses db' = db_witnesses db"
    and v: "\<And>w. voters w db' - {n} = voters w db - {n}"
  shows "tallied lag db'"
proof -
  let ?xs = "db_accounts db" and ?xs' = "replace_by acc_name n a' (db_accounts db)"
  have n: "acc_name a = n" "a \<in> set ?xs" using find_by_Some [OF a] by auto
  have s: "slot_sum lag b i ?xs' = slot_sum lag b i ?xs" if "i < 4" for b i
    unfolding slot_sum_def sum_replace [OF dist a] using n a' lag that by simp
  have r: "voter_sum lag vs ?xs' = voter_sum lag vs ?xs" for vs
    unfolding voter_sum_def sum_replace [OF dist a] using n a' lag by simp
  have "level b (Suc i) = slot_sum lag (acc_name b) i ?xs" if "b \<in> set ?xs'" "i < 4" for b i
  proof (cases "b \<in> set ?xs")
    case False
    then have "b = a'" using that(1) by (auto simp: replace_by_def split: if_splits)
    then show ?thesis using t n a'(1) a'(2) [of "Suc i"] that(2) by (auto simp: tallied_def)
  qed (use t that(2) in \<open>auto simp: tallied_def\<close>)
  moreover have "voter_sum lag (voters w db') ?xs = voter_sum lag (voters w db) ?xs" for w
    by (rule voter_sum_silent [OF dist a]) (use lag v in auto)
  ultimately show ?thesis using t unfolding tallied_def db' by (simp add: s r)
qed

lemma tallied_forget:
  assumes wf: "wf_voting db" and t: "tallied (\<lambda>m l. lag m l + (if m = n then d l else 0)) db"
    and a: "find_by acc_name n (db_accounts db) = Some a" "acc_proxy a = []" "\<And>w. n \<notin> voters w db"
  shows "tallied lag db"
proof -
  have "tallied (\<lambda>m l. (lag m l + (if m = n then d l else 0)) + (if m = n then - d l else 0)) db"
    by (rule tallied_lag_irrelevant [OF wf t a(1)]) (use a in auto)
  moreover have "(\<lambda>m l. (lag m l + (if m = n then d l else 0)) + (if m = n then - d l else 0)) = lag" by (intro ext) auto
  ultimately show ?thesis by simp
qed

lemma wf_voting_reset:
  assumes wf: "wf_voting db" and a: "find_by acc_name n (db_accounts db) = Some a"
    and a': "acc_name a' = n" "length (acc_proxied_vsf_votes a') = length (acc_proxied_vsf_votes a)"
    and p: "acc_proxy a' \<noteq> [] \<Longrightarrow> acc_proxy a' \<in> acc_name ` set (db_accounts db) \<and> (\<forall>v \<in> set (filter Q (db_witness_votes db)). wvo_account v \<noteq> n)"
    and db': "db_accounts db' = replace_by acc_name n a' (db_accounts db)" "db_witnesses db' = db_witnesses db"
      "db_witness_votes db' = filter Q (db_witness_votes db)"
  shows "wf_voting db'"
proof -
  note w = wf_votingD [OF wf a]
  have nm: "map acc_name (db_accounts db') = map acc_name (db_accounts db)" using a' w(2) by (simp add: db'(1))
  then have ns: "acc_name ` set (db_accounts db') = acc_name ` set (db_accounts db)" by (metis list.set_map)
  have "distinct (map vote_key (db_witness_votes db'))" using wf by (simp add: db'(3) wf_voting_def distinct_map_filter)
  moreover have "length (acc_proxied_vsf_votes b) = 4 \<and> acc_name b \<noteq> [] \<and> (acc_proxy b \<noteq> [] \<longrightarrow>
      acc_proxy b \<in> acc_name ` set (db_accounts db) \<and> (\<forall>v \<in> set (filter Q (db_witness_votes db)). wvo_account v \<noteq> acc_name b))"
    if "b \<in> set (db_accounts db')" for b
  proof (cases "b \<in> set (db_accounts db)")
    case True
    then show ?thesis using wf by (auto simp: wf_voting_def wf_accounts_def)
  next
    case False
    then have "b = a'" using that by (auto simp: db'(1) replace_by_def split: if_splits)
    then show ?thesis using a' w(4,5) p by simp
  qed
  ultimately show ?thesis
    using wf w(1) voted_exist_mono [of db db'] unfolding wf_voting_def wf_accounts_def nm ns db'(2)
    by (simp add: db'(3) subset_iff)
qed

lemma check_proxy_chain_Inr:
  assumes "check_proxy_chain c chain db = Inr ()" "distinct (map acc_name (db_accounts db))" "c \<in> set (db_accounts db)"
    "(acc_name c, m) \<in> (proxy_rel db)\<^sup>+"
  shows "m \<notin> set chain"
  using assms
proof (induction c chain db rule: check_proxy_chain.induct)
  case (1 c chain db)
  from tranclD [OF "1.prems"(4)] obtain z where z: "(acc_name c, z) \<in> proxy_rel db" "(z, m) \<in> (proxy_rel db)\<^sup>*" by blast
  then obtain c' where "c' \<in> set (db_accounts db)" "acc_name c' = acc_name c" and zc: "z = acc_proxy c'" "z \<noteq> []"
    by (auto simp: proxy_rel_def)
  then have "c' = c" using find_of_member [OF "1.prems"(2)] "1.prems"(3) by (metis option.inject)
  then have ne: "acc_proxy c \<noteq> []" and zc: "z = acc_proxy c" using zc by auto
  from "1.prems"(1) ne obtain c1 where c1: "get_account (acc_proxy c) db = Inr c1" "acc_name c1 \<notin> set chain"
    "length (acc_name c1 # chain) \<le> 4" and rest: "check_proxy_chain c1 (acc_name c1 # chain) db = Inr ()"
    by (subst (asm) check_proxy_chain.simps) auto
  have c1m: "c1 \<in> set (db_accounts db)" "acc_name c1 = z" using c1(1) zc by (auto simp: get_account_def dest: find_by_Some)
  show ?case
  proof (cases "m = z")
    case True
    then show ?thesis using c1(2) c1m by simp
  next
    case False
    then have "(acc_name c1, m) \<in> (proxy_rel db)\<^sup>+" using z(2) c1m(2) by (metis rtranclD)
    from "1.IH" [OF ne c1 rest "1.prems"(2) c1m(1) this] show ?thesis by simp
  qed
qed

text \<open>A step that moves no funds and keeps the tallies right.\<close>

definition vote_step :: "database \<Rightarrow> database \<Rightarrow> bool" where
  "vote_step db db' \<longleftrightarrow> unmoved db db' \<and> wf_objects db' \<and> votes_ok db'"

lemma unmoved_records:
  "wf_accounts db \<Longrightarrow> unmoved db (db\<lparr>db_declines := ds, db_witnesses := ws, db_witness_votes := vs\<rparr>)"
  by (simp add: unmoved_def step_effect_def wf_accounts_def surplus_def pending_surplus_def locked_def)

lemma reset_effect:
  assumes wf: "wf_accounts db" and a: "find_by acc_name n (db_accounts db) = Some a"
    and a': "acc_name a' = n" "length (acc_proxied_vsf_votes a') = length (acc_proxied_vsf_votes a)"
      "\<And>s. account_holds s a' = account_holds s a" "acc_reward_vesting_delta a' = acc_reward_vesting_delta a"
      "share_view a' = share_view a"
    and db': "db' = db\<lparr>db_accounts := replace_by acc_name n a' (db_accounts db), db_declines := ds, db_witnesses := ws, db_witness_votes := vs\<rparr>"
  shows "unmoved db db'" "wf_objects db' = wf_objects db"
proof -
  have n: "acc_name a = n" "a \<in> set (db_accounts db)" using find_by_Some [OF a] by auto
  have m: "modify_account n (\<lambda>_. Inr a') db = Inr (db\<lparr>db_accounts := replace_by acc_name n a' (db_accounts db)\<rparr>)"
    using a by (simp add: modify_account_def get_account_def)
  have "step_effect (\<lambda>_. 0) 0 db (db\<lparr>db_accounts := replace_by acc_name n a' (db_accounts db)\<rparr>)"
  proof (rule step_effect_modify [OF wf m])
    fix b b' assume b: "Inr a' = (Inr b' :: account_object result)" "b \<in> set (db_accounts db)" "acc_name b = n"
    then have "b = a" using find_of_member [of acc_name "db_accounts db" b] wf a by (simp add: wf_accounts_def)
    with b a' n show "acc_name b' = acc_name b \<and> length (acc_proxied_vsf_votes b') = length (acc_proxied_vsf_votes b) \<and>
      (\<forall>s. account_holds s b' = account_holds s b + 0) \<and> acc_reward_vesting_delta b' = acc_reward_vesting_delta b + 0" by simp
  qed
  moreover have "distinct (map acc_name (db_accounts db))" using wf by (simp add: wf_accounts_def)
  ultimately have e: "unmoved db (db\<lparr>db_accounts := replace_by acc_name n a' (db_accounts db)\<rparr>)"
    using map_replace_same [OF _ a, of share_view a'] a'(5) by (simp add: unmoved_def)
  then have "wf_accounts (db\<lparr>db_accounts := replace_by acc_name n a' (db_accounts db)\<rparr>)" by (simp add: unmoved_def step_effect_def)
  from unmoved_trans [OF e unmoved_records [OF this, where ds = ds and ws = ws and vs = vs]] show "unmoved db db'"
    by (simp add: db')
  show "wf_objects db' = wf_objects db" by (simp add: db' wf_objects_def)
qed

lemma clear_witness_votes_Inr:
  assumes "clear_witness_votes n db = Inr db'" "find_by acc_name n (db_accounts db) = Some a" "distinct (map acc_name (db_accounts db))"
  obtains k where "db' = db\<lparr>db_accounts := replace_by acc_name n (a\<lparr>acc_witnesses_voted_for := k\<rparr>) (db_accounts db),
    db_witness_votes := filter (\<lambda>v. wvo_account v \<noteq> n) (db_witness_votes db)\<rparr>"
proof (cases "has_hardfork 6 db")
  case True
  then show ?thesis using assms(1,2) that [of 0]
    by (auto simp: clear_witness_votes_def has_hardfork_def modify_account_def get_account_def)
next
  case False
  have "replace_by acc_name n a (db_accounts db) = map id (db_accounts db)"
    using map_replace_same [OF assms(3,2), of id a] by simp
  then show ?thesis using assms(1) False that [of "acc_witnesses_voted_for a"]
    by (auto simp: clear_witness_votes_def has_hardfork_def)
qed

lemma votes_okD: "votes_ok db \<Longrightarrow> wf_voting db \<and> wf_accounts db \<and> distinct (map acc_name (db_accounts db))"
  by (auto simp: votes_ok_def wf_voting_def wf_accounts_def)

lemma level_update [simp]:
  "level (a\<lparr>acc_proxy := p\<rparr>) l = level a l" "level (a\<lparr>acc_witnesses_voted_for := k\<rparr>) l = level a l"
  "level (a\<lparr>acc_can_vote := c\<rparr>) l = level a l"
  by (cases l; simp)+

text \<open>
  Taking the votes of an account away and giving it another proxy, or none, with its vote records
  removed, leaves the tallies right up to a lag of all it has.
\<close>

lemma reset_votes:
  assumes wf: "wf_objects db" "votes_ok db" and a: "find_by acc_name n (db_accounts db) = Some a"
    and neg: "res_map safe_neg (acc_vesting_shares a # acc_proxied_vsf_votes a) = Inr delta"
    and adj: "adjust_proxied_witness_votes delta 0 n db = Inr db1"
    and a': "a' = a\<lparr>acc_witnesses_voted_for := k, acc_can_vote := c, acc_proxy := p\<rparr>"
    and p: "p \<noteq> [] \<Longrightarrow> p \<in> acc_name ` set (db_accounts db1) \<and> (\<forall>v \<in> set (filter Q (db_witness_votes db1)). wvo_account v \<noteq> n)"
    and Q: "\<And>v. wvo_account v \<noteq> n \<Longrightarrow> Q v"
    and db2: "db2 = db1\<lparr>db_accounts := replace_by acc_name n a' (db_accounts db1), db_witness_votes := filter Q (db_witness_votes db1), db_declines := ds\<rparr>"
  shows "unmoved db db2" "wf_objects db2" "wf_voting db2" "find_by acc_name n (db_accounts db2) = Some a'"
    "tallied (\<lambda>m l. 0 + (if m = n then - shifted delta 0 l else 0)) db2" "length delta = 5"
    "proxy_rel db2 \<subseteq> (if p = [] then {} else {(n, p)}) \<union> proxy_rel db"
proof -
  note d = detach_votes [OF wf(2) a neg adj]
  have wv: "wf_voting db" using wf(2) by (simp add: votes_ok_def)
  have w1: "wf_voting db1" by (rule wf_voting_frame [OF d(2) wv])
  note x = wf_votingD [OF w1 d(3)]
  have wa: "wf_accounts db1" using w1 by (simp add: wf_voting_def)
  have n: "acc_name a' = n" "length (acc_proxied_vsf_votes a') = length (acc_proxied_vsf_votes a)"
    "account_holds s a' = account_holds s a" "acc_reward_vesting_delta a' = acc_reward_vesting_delta a"
    "share_view a' = share_view a" "level a' l = level a l" for s l
    using x(2) by (auto simp: a' account_holds_def share_view_def)
  have "db2 = db1\<lparr>db_accounts := replace_by acc_name n a' (db_accounts db1), db_declines := ds, db_witnesses := db_witnesses db1,
    db_witness_votes := filter Q (db_witness_votes db1)\<rparr>" by (simp add: db2)
  note r = reset_effect [OF wa d(3) n(1,2,3,4,5) this]
  show "unmoved db db2" using unmoved_trans [OF unmoved_frame [OF d(2) wv] r(1)] .
  show "wf_objects db2" using r(2) wf(1) wf_objects_same [OF vote_frameD(5) [OF d(2)]] by simp
  show "wf_voting db2" by (rule wf_voting_reset [OF w1 d(3) n(1,2), of Q]) (use p in \<open>auto simp: db2 a'\<close>)
  have "n \<in> acc_name ` set (db_accounts db1)" using x(2,3) by force
  then show "find_by acc_name n (db_accounts db2) = Some a'" using n(1) by (simp add: db2 find_by_replace)
  show "tallied (\<lambda>m l. 0 + (if m = n then - shifted delta 0 l else 0)) db2"
    by (rule tallied_silent [OF x(1) d(1,3), of a'])
      (use n d(5) Q in \<open>auto simp: db2 voters_def vote_pairs_def vote_key_def\<close>)
  show "length delta = 5" by (rule d(4))
  have "proxy_rel db2 \<subseteq> (if p = [] then {} else {(n, p)}) \<union> proxy_rel db1"
    using n(1) by (auto simp: proxy_rel_def db2 replace_by_def a')
  then show "proxy_rel db2 \<subseteq> (if p = [] then {} else {(n, p)}) \<union> proxy_rel db" by (simp add: proxy_rel_frame [OF d(2)])
qed

lemma account_witness_proxy_step:
  assumes wf: "wf_objects db" "votes_ok db" and v: "account_witness_proxy_validate op = Inr ()"
    and r: "account_witness_proxy_evaluator op db = Inr db'"
  shows "vote_step db db'"
proof -
  let ?n = "ap_account op"
  have ne: "ap_proxy op \<noteq> ?n" using v by (auto simp: account_witness_proxy_validate_def check_def)
  from r obtain a delta db1 where a: "get_account ?n db = Inr a"
    and neg: "res_map safe_neg (acc_vesting_shares a # acc_proxied_vsf_votes a) = Inr delta"
    and adj: "adjust_proxied_witness_votes delta 0 ?n db = Inr db1"
    and rest: "(if ap_proxy op \<noteq> [] then
          res_bind (get_account (ap_proxy op) db1) (\<lambda>new_proxy.
          res_bind (check_proxy_chain new_proxy (remdups [ap_account op, acc_name new_proxy]) db1) (\<lambda>_.
          res_bind (clear_witness_votes (ap_account op) db1) (\<lambda>db2.
          res_bind (modify_account (ap_account op) (\<lambda>a. Inr (a\<lparr>acc_proxy := ap_proxy op\<rparr>)) db2) (\<lambda>db3.
          res_bind (res_map safe_neg delta) (\<lambda>delta.
          adjust_proxied_witness_votes delta 0 (ap_account op) db3)))))
        else modify_account (ap_account op) (\<lambda>a. Inr (a\<lparr>acc_proxy := ap_proxy op\<rparr>)) db1) = Inr db'"
    unfolding account_witness_proxy_evaluator_def by (auto simp del: res_map.simps)
  have fa: "find_by acc_name ?n (db_accounts db) = Some a" using a by (simp add: get_account_def)
  note d = detach_votes [OF wf(2) fa neg adj]
  have w1: "wf_voting db1" using wf_voting_frame [OF d(2)] wf(2) by (simp add: votes_ok_def)
  note x = wf_votingD [OF w1 d(3)]
  show ?thesis
  proof (cases "ap_proxy op = []")
    case True
    define a' where "a' = a\<lparr>acc_witnesses_voted_for := acc_witnesses_voted_for a, acc_can_vote := acc_can_vote a, acc_proxy := []\<rparr>"
    have db': "db' = db1\<lparr>db_accounts := replace_by acc_name ?n a' (db_accounts db1),
        db_witness_votes := filter (\<lambda>_. True) (db_witness_votes db1), db_declines := db_declines db1\<rparr>"
      using rest True d(3) by (auto simp: modify_account_def get_account_def a'_def)
    note s = reset_votes [OF wf fa neg adj a'_def _ _ db', simplified]
    have "voters w db1 = voters w db'" for w by (simp add: db' voters_def vote_pairs_def)
    moreover have "acc_proxy a \<noteq> []" using r a True by (auto simp: account_witness_proxy_evaluator_def)
    ultimately have "tallied (\<lambda>_ _. 0) db'"
      using tallied_forget [OF s(3), of "\<lambda>_ _. 0" ?n "\<lambda>l. - shifted delta 0 l" a'] s(4,5) x(6) by (simp add: a'_def)
    moreover have "acyclic (proxy_rel db')" using s(7) wf(2) by (auto simp: votes_ok_def intro: acyclic_subset)
    ultimately show ?thesis using s(1,2,3) by (simp add: vote_step_def votes_ok_def)
  next
    case False
    with rest obtain q db2 db3 delta' where q: "get_account (ap_proxy op) db1 = Inr q"
      and chk: "check_proxy_chain q (remdups [?n, acc_name q]) db1 = Inr ()"
      and cl: "clear_witness_votes ?n db1 = Inr db2"
      and m: "modify_account ?n (\<lambda>a. Inr (a\<lparr>acc_proxy := ap_proxy op\<rparr>)) db2 = Inr db3"
      and neg': "res_map safe_neg delta = Inr delta'" and adj': "adjust_proxied_witness_votes delta' 0 ?n db3 = Inr db'"
      by (auto simp del: remdups.simps)
    have q': "q \<in> set (db_accounts db1)" "acc_name q = ap_proxy op" using q by (auto simp: get_account_def dest: find_by_Some)
    obtain k where db2: "db2 = db1\<lparr>db_accounts := replace_by acc_name ?n (a\<lparr>acc_witnesses_voted_for := k\<rparr>) (db_accounts db1),
      db_witness_votes := filter (\<lambda>v. wvo_account v \<noteq> ?n) (db_witness_votes db1)\<rparr>"
      using clear_witness_votes_Inr [OF cl d(3) x(1)] by blast
    define a' where "a' = a\<lparr>acc_witnesses_voted_for := k, acc_can_vote := acc_can_vote a, acc_proxy := ap_proxy op\<rparr>"
    have "?n \<in> acc_name ` set (db_accounts db1)" using x(2,3) by force
    then have db3: "db3 = db1\<lparr>db_accounts := replace_by acc_name ?n a' (db_accounts db1),
        db_witness_votes := filter (\<lambda>v. wvo_account v \<noteq> ?n) (db_witness_votes db1), db_declines := db_declines db1\<rparr>"
      using m x(2) by (auto simp: db2 modify_account_def get_account_def find_by_replace a'_def replace_by_twice)
    have "ap_proxy op \<in> acc_name ` set (db_accounts db1)" using q' by force
    note s = reset_votes [OF wf fa neg adj a'_def _ _ db3, simplified, OF this]
    have d': "delta' = map uminus delta" "length delta' = 5" using res_map_neg [OF neg'] s(6) by auto
    note f = adjust_proxied_tallied [OF adj' s(3,5) d'(2)]
    have "(\<lambda>m l. 0 + (if m = ?n then - shifted delta 0 l else 0) + (if m = ?n then - shifted delta' 0 l else 0)) = (\<lambda>_ _. 0)"
      using shifted_neg [OF s(6)] d'(1) by (intro ext) auto
    then have t: "tallied (\<lambda>_ _. 0) db'" using f by simp
    have "(ap_proxy op, ?n) \<notin> (proxy_rel db1)\<^sup>+"
      using check_proxy_chain_Inr [OF chk x(1) q'(1), of ?n] q'(2) by (auto simp del: remdups.simps)
    then have "(ap_proxy op, ?n) \<notin> (proxy_rel db)\<^sup>*" using ne by (auto simp: proxy_rel_frame [OF d(2)] dest: rtranclD)
    then have "acyclic (insert (?n, ap_proxy op) (proxy_rel db))" using wf(2) by (simp add: acyclic_insert votes_ok_def)
    then have "acyclic (proxy_rel db3)" using s(7) False by (auto intro: acyclic_subset)
    then have "acyclic (proxy_rel db')" using conjunct2 [OF f] by (simp add: proxy_rel_frame)
    moreover have "unmoved db db'" using unmoved_trans [OF s(1)] unmoved_frame [OF _ s(3)] f by blast
    moreover have "wf_objects db'" using f s(2) wf_objects_same vote_frameD(5) by blast
    moreover have "wf_voting db'" using f wf_voting_frame s(3) by blast
    ultimately show ?thesis using t by (simp add: vote_step_def votes_ok_def)
  qed
qed

text \<open>A vote record that comes or goes with the weight of its account.\<close>

lemma sum_levels: "length (acc_proxied_vsf_votes a) = 4 \<Longrightarrow> (\<Sum>l<5. level a l) = acc_vesting_shares a + sum_list (acc_proxied_vsf_votes a)"
  by (simp add: numeral_eq_Suc lessThan_Suc sum_list_sum_nth atLeast0_lessThan_Suc)

lemma voter_sum_insert:
  assumes "distinct (map acc_name xs)" "find_by acc_name n xs = Some a" "n \<notin> vs"
  shows "voter_sum lag (insert n vs) xs = voter_sum lag vs xs + (\<Sum>l<5. level a l - lag n l)"
proof -
  have "voter_sum lag (insert n vs) xs
      = table_sum (\<lambda>x. (if acc_name x \<in> vs then \<Sum>l<5. level x l - lag (acc_name x) l else 0)
          + (if acc_name x = n then \<Sum>l<5. level x l - lag n l else 0)) xs"
    unfolding voter_sum_def using assms(3) by (intro arg_cong [where f = sum_list]) auto
  also have "\<dots> = voter_sum lag vs xs + (\<Sum>l<5. level a l - lag n l)"
    unfolding voter_sum_def sum_list_addf sum_single [OF assms(1,2)] ..
  finally show ?thesis .
qed

lemma tallied_vote:
  assumes wf: "wf_voting db" and t: "tallied (\<lambda>_ _. 0) db" and a: "find_by acc_name n (db_accounts db) = Some a"
    and a': "a' = a\<lparr>acc_witnesses_voted_for := k\<rparr>" and acc: "db_accounts db' = replace_by acc_name n a' (db_accounts db)"
    and ws: "votes_added {W} x (db_witnesses db) (db_witnesses db')"
    and vo: "\<And>w. w \<noteq> W \<Longrightarrow> voters w db' = voters w db"
      "n \<notin> voters W db \<and> voters W db' = insert n (voters W db) \<and> x = (\<Sum>l<5. level a l) \<or>
       n \<notin> voters W db' \<and> voters W db = insert n (voters W db') \<and> x = - (\<Sum>l<5. level a l)"
  shows "tallied (\<lambda>_ _. 0) db'"
proof -
  note w = wf_votingD [OF wf a]
  let ?xs = "db_accounts db" and ?xs' = "replace_by acc_name n a' (db_accounts db)" and ?z = "\<lambda>_ _. 0 :: int"
  have n: "acc_name a' = acc_name a" "acc_proxy a' = acc_proxy a" "\<And>l. level a' l = level a l" by (auto simp: a')
  have s: "slot_sum ?z b i ?xs' = slot_sum ?z b i ?xs" for b i
    using slot_sum_replace [OF w(1) a n(1,2), of i "\<lambda>_. 0"] n(3) by simp
  have v: "voter_sum ?z vs ?xs' = voter_sum ?z vs ?xs" for vs
    using voter_sum_replace [OF w(1) a n(1), of "\<lambda>_. 0"] n(3) by simp
  have V: "voter_sum ?z (voters u db') ?xs = voter_sum ?z (voters u db) ?xs + (if u = W then x else 0)" for u
    using vo(1) [of u] vo(2) voter_sum_insert [OF w(1) a, of "voters W db" ?z] voter_sum_insert [OF w(1) a, of "voters W db'" ?z]
    by auto
  have "wit_votes u' = voter_sum ?z (voters (wit_owner u') db') ?xs" if "u' \<in> set (db_witnesses db')" for u'
  proof -
    have "(wit_owner u', wit_votes u') \<in> set (map (\<lambda>w. (wit_owner w, wit_votes w)) (db_witnesses db'))" using that by auto
    from this [unfolded ws [unfolded votes_added_def]] obtain u where "u \<in> set (db_witnesses db)" "wit_owner u' = wit_owner u"
      "wit_votes u' = wit_votes u + (if wit_owner u \<in> {W} then x else 0)" by auto
    then show ?thesis using t V [of "wit_owner u'"] by (auto simp: tallied_def)
  qed
  moreover have "level b (Suc i) = slot_sum ?z (acc_name b) i ?xs" if "b \<in> set ?xs'" "i < 4" for b i
  proof (cases "b \<in> set ?xs")
    case False
    then have "b = a'" using that(1) by (auto simp: replace_by_def split: if_splits)
    then show ?thesis using t w(3) n(1) n(3) [of "Suc i"] that(2) by (auto simp: tallied_def)
  qed (use t that(2) in \<open>auto simp: tallied_def\<close>)
  ultimately show ?thesis unfolding tallied_def acc by (simp add: s v)
qed

lemma keys_grow: "\<forall>k \<in> K. snd k \<in> S \<Longrightarrow> w \<in> S \<Longrightarrow> K' = insert (n, w) K \<or> K = insert (n, w) K' \<Longrightarrow> \<forall>k \<in> K'. snd k \<in> S"
  by auto

lemma vote_change_step:
  assumes wf: "wf_objects db" "votes_ok db" and a: "find_by acc_name n (db_accounts db) = Some a" "acc_proxy a = []"
    and wt: "witness_vote_weight a = Inr weight"
    and ws: "votes_added {W} x (db_witnesses db) ws'" "W \<in> set (map wit_owner (db_witnesses db))"
    and vs: "distinct (map vote_key vs)" "\<forall>v \<in> set vs. v \<in> set (db_witness_votes db) \<or> wvo_account v = n"
    and key: "(n, W) \<notin> vote_key ` set (db_witness_votes db) \<and> vote_key ` set vs = insert (n, W) (vote_key ` set (db_witness_votes db)) \<and> x = weight \<or>
       (n, W) \<notin> vote_key ` set vs \<and> vote_key ` set (db_witness_votes db) = insert (n, W) (vote_key ` set vs) \<and> x = - weight"
    and db': "db' = db\<lparr>db_accounts := replace_by acc_name n (a\<lparr>acc_witnesses_voted_for := k\<rparr>) (db_accounts db), db_witnesses := ws', db_witness_votes := vs\<rparr>"
  shows "vote_step db db'"
proof -
  have wv: "wf_voting db" and t: "tallied (\<lambda>_ _. 0) db" and ac: "acyclic (proxy_rel db)" using wf(2) by (auto simp: votes_ok_def)
  note y = wf_votingD [OF wv a(1)]
  let ?a = "a\<lparr>acc_witnesses_voted_for := k\<rparr>"
  have wgt: "weight = (\<Sum>l<5. level a l)"
    using wt y(5) safe_accumulate_Inr by (fastforce simp: witness_vote_weight_def sum_levels)
  have "tallied (\<lambda>_ _. 0) db'"
  proof (rule tallied_vote [OF wv t a(1) refl, of db' k W x])
    show "db_accounts db' = replace_by acc_name n ?a (db_accounts db)" "votes_added {W} x (db_witnesses db) (db_witnesses db')"
      using ws(1) by (simp_all add: db')
    have iff: "(m, w) \<in> vote_key ` set vs \<longleftrightarrow> (m, w) \<in> vote_key ` set (db_witness_votes db)" if "(m, w) \<noteq> (n, W)" for m w
      using key that by auto
    show "voters w db' = voters w db" if "w \<noteq> W" for w using iff that by (auto simp: voters_def vote_pairs_def db')
    show "n \<notin> voters W db \<and> voters W db' = insert n (voters W db) \<and> x = (\<Sum>l<5. level a l) \<or>
       n \<notin> voters W db' \<and> voters W db = insert n (voters W db') \<and> x = - (\<Sum>l<5. level a l)"
      using key by (auto simp: voters_def vote_pairs_def db' wgt)
  qed
  moreover have eff: "unmoved db db' \<and> wf_objects db' = wf_objects db"
  proof -
    have wa: "wf_accounts db" using wv by (simp add: wf_voting_def)
    have "db' = db\<lparr>db_accounts := replace_by acc_name n ?a (db_accounts db), db_declines := db_declines db, db_witnesses := ws', db_witness_votes := vs\<rparr>"
      by (simp add: db')
    from reset_effect [OF wa a(1) _ _ _ _ _ this] show ?thesis using y(2) by (simp add: account_holds_def share_view_def)
  qed
  moreover have "wf_voting db'"
  proof -
    have nm: "map acc_name (db_accounts db') = map acc_name (db_accounts db)" using y(2) by (simp add: db')
    then have ns: "acc_name ` set (db_accounts db') = acc_name ` set (db_accounts db)" by (metis list.set_map)
    have "length (acc_proxied_vsf_votes b) = 4 \<and> acc_name b \<noteq> [] \<and> (acc_proxy b \<noteq> [] \<longrightarrow>
        acc_proxy b \<in> acc_name ` set (db_accounts db) \<and> (\<forall>v \<in> set vs. wvo_account v \<noteq> acc_name b))"
      if "b \<in> set (db_accounts db')" for b
    proof (cases "acc_name b = n")
      case True
      then have "b = ?a \<or> b = a" using that find_of_member [OF y(1)] a(1) by (auto simp: db' replace_by_def split: if_splits)
      then show ?thesis using a(2) y(2,4,5) by auto
    next
      case False
      then have "b \<in> set (db_accounts db)" using that y(2) by (auto simp: db' replace_by_def split: if_splits)
      then show ?thesis using wv vs(2) False by (auto simp: wf_voting_def wf_accounts_def)
    qed
    moreover have "voted_exist db'"
    proof -
      have "voted_exist db" using wv by (simp add: wf_voting_def)
      moreover have "vote_key ` set vs = insert (n, W) (vote_key ` set (db_witness_votes db)) \<or>
        vote_key ` set (db_witness_votes db) = insert (n, W) (vote_key ` set vs)" using key by (elim disjE conjE) simp_all
      ultimately have "\<forall>k \<in> vote_key ` set vs. snd k \<in> set (map wit_owner (db_witnesses db))"
        unfolding voted_exist_def by (rule keys_grow [OF _ ws(2)])
      then show ?thesis unfolding voted_exist_def db' using votes_added_owners [OF ws(1)] by simp
    qed
    ultimately show ?thesis
      using wv vs(1) y(1) votes_added_owners [OF ws(1)] unfolding wf_voting_def wf_accounts_def nm ns by (simp add: db')
  qed
  moreover have "proxy_rel db' = proxy_rel db"
  proof -
    have "map (\<lambda>a. (acc_name a, acc_proxy a)) (db_accounts db') = map (\<lambda>a. (acc_name a, acc_proxy a)) (db_accounts db)"
      using map_replace_same [OF y(1) a(1), of "\<lambda>a. (acc_name a, acc_proxy a)" ?a] by (simp add: db')
    then show ?thesis by (simp only: proxy_rel_def)
  qed
  ultimately show ?thesis using wf(1) ac by (simp add: vote_step_def votes_ok_def)
qed

lemma account_witness_vote_step:
  assumes wf: "wf_objects db" "votes_ok db" and h: "has_hardfork 3 db" and r: "account_witness_vote_evaluator op db = Inr db'"
  shows "vote_step db db'"
proof -
  have h2: "has_hardfork 2 db" using h by (simp add: has_hardfork_def)
  have wv: "wf_voting db" using wf(2) by (simp add: votes_ok_def)
  define n where "n = aw_account op"
  from r obtain a w where ga: "get_account n db = Inr a" and px: "acc_proxy a = []" and gw: "get_witness (aw_witness op) db = Inr w"
    unfolding account_witness_vote_evaluator_def n_def by auto
  define vote where "vote = \<lparr>wvo_witness = wit_owner w, wvo_account = acc_name a\<rparr>"
  have a: "find_by acc_name n (db_accounts db) = Some a" using ga by (simp add: get_account_def)
  note x = wf_votingD [OF wv a]
  have key: "vote_key vote = (n, wit_owner w)" by (simp add: vote_def vote_key_def x(2))
  have dw: "distinct (map wit_owner (db_witnesses db))" and dv: "distinct (map vote_key (db_witness_votes db))" using wv by (auto simp: wf_voting_def)
  have mem: "wit_owner w \<in> set (map wit_owner (db_witnesses db))" using gw by (auto simp: get_witness_def dest: find_by_Some)
  note r' = r [unfolded account_witness_vote_evaluator_def n_def [symmetric], unfolded ga gw res_bind_simps fc_assert_eq_Inr Let_def, folded vote_def]
  show ?thesis
  proof (cases "find_by vote_key (vote_key vote) (db_witness_votes db)")
    case None
    with r' h h2 obtain db1 weight db2 where db1: "create_witness_vote vote db = Inr db1" and wt: "witness_vote_weight a = Inr weight"
      and adj: "adjust_witness_vote (wit_owner w) weight db1 = Inr db2"
      and m: "modify_account n (\<lambda>a. Inr (a\<lparr>acc_witnesses_voted_for := acc_witnesses_voted_for a + 1\<rparr>)) db2 = Inr db'"
      using x(2) by auto
    from db1 have c: "vote_key vote \<notin> vote_key ` set (db_witness_votes db)" "db1 = db\<lparr>db_witness_votes := db_witness_votes db @ [vote]\<rparr>"
      by (auto simp: create_witness_vote_def dest!: create_byD)
    note v = adjust_witness_vote_added [OF adj]
    have v1: "votes_added {wit_owner w} weight (db_witnesses db) (db_witnesses db2)" "db2 = db1\<lparr>db_witnesses := db_witnesses db2\<rparr>"
      using v dw c(2) by auto
    have e: "db' = db\<lparr>db_accounts := replace_by acc_name n (a\<lparr>acc_witnesses_voted_for := acc_witnesses_voted_for a + 1\<rparr>) (db_accounts db),
      db_witnesses := db_witnesses db2, db_witness_votes := db_witness_votes db @ [vote]\<rparr>"
      using m a by (subst (asm) v1(2)) (auto simp: c(2) modify_account_def get_account_def)
    show ?thesis
      by (rule vote_change_step [OF wf a px wt v1(1) mem _ _ _ e]) (use dv c(1) key in \<open>auto simp: vote_def x(2)\<close>)
  next
    case (Some old)
    with r' h h2 obtain weight neg db1 db2 where wt: "witness_vote_weight a = Inr weight" and neg: "safe_neg weight = Inr neg"
      and adj: "adjust_witness_vote (wit_owner w) neg db = Inr db1"
      and m: "modify_account n (\<lambda>a. Inr (a\<lparr>acc_witnesses_voted_for := acc_witnesses_voted_for a - 1\<rparr>)) db1 = Inr db2"
      and db2: "db' = db2\<lparr>db_witness_votes := remove_by vote_key (vote_key old) (db_witness_votes db2)\<rparr>"
      using x(2) by auto
    have o: "vote_key old = (n, wit_owner w)" "old \<in> set (db_witness_votes db)" using find_by_Some [OF Some] key by auto
    note v = adjust_witness_vote_added [OF adj dw]
    then have v1: "votes_added {wit_owner w} neg (db_witnesses db) (db_witnesses db1)" "db1 = db\<lparr>db_witnesses := db_witnesses db1\<rparr>" by auto
    have e: "db' = db\<lparr>db_accounts := replace_by acc_name n (a\<lparr>acc_witnesses_voted_for := acc_witnesses_voted_for a - 1\<rparr>) (db_accounts db),
      db_witnesses := db_witnesses db1, db_witness_votes := remove_by vote_key (n, wit_owner w) (db_witness_votes db)\<rparr>"
      using m a o(1) unfolding db2 by (subst (asm) v1(2)) (auto simp: modify_account_def get_account_def)
    have im: "vote_key ` set (remove_by vote_key (n, wit_owner w) (db_witness_votes db)) = vote_key ` set (db_witness_votes db) - {(n, wit_owner w)}"
      by (auto simp: remove_by_def)
    have "(n, wit_owner w) \<in> vote_key ` set (db_witness_votes db)" using o by force
    then have k: "(n, wit_owner w) \<notin> vote_key ` set (remove_by vote_key (n, wit_owner w) (db_witness_votes db)) \<and>
      vote_key ` set (db_witness_votes db) = insert (n, wit_owner w) (vote_key ` set (remove_by vote_key (n, wit_owner w) (db_witness_votes db))) \<and>
      neg = - weight" unfolding im using safe_neg_Inr [OF neg] by blast
    have "distinct (map vote_key (remove_by vote_key (n, wit_owner w) (db_witness_votes db)))" using dv by simp
    from vote_change_step [OF wf a px wt v1(1) mem this _ disjI2 [OF k] e] show ?thesis by (auto simp: remove_by_def)
  qed
qed

lemma decline_voting_rights_evaluator_step:
  assumes wf: "wf_objects db" "votes_ok db" and r: "decline_voting_rights_evaluator op db = Inr db'"
  shows "vote_step db db'"
proof -
  from r obtain ds where db': "db' = db\<lparr>db_declines := ds\<rparr>"
    by (auto simp: decline_voting_rights_evaluator_def Let_def split: if_splits)
  have "wf_accounts db" using wf(2) by (simp add: votes_ok_def wf_voting_def)
  from unmoved_records [OF this, where ds = ds and ws = "db_witnesses db" and vs = "db_witness_votes db"]
  have "unmoved db db'" by (simp add: db')
  then show ?thesis
    using wf by (simp add: vote_step_def db' wf_objects_def votes_ok_def wf_voting_def wf_accounts_def tallied_def proxy_rel_def voters_def vote_pairs_def voted_exist_def)
qed

lemma decline_voting_rights_step:
  assumes wf: "wf_objects db" "votes_ok db" and r: "decline_voting_rights d db = Inr db'"
  shows "vote_step db db'" "db_declines db' = remove_by dvr_account (dvr_account d) (db_declines db)"
    "head_block_time db' = head_block_time db"
proof -
  let ?n = "dvr_account d"
  from r obtain a delta db1 db2 db3 where a: "get_account ?n db = Inr a"
    and neg: "res_map safe_neg (acc_vesting_shares a # acc_proxied_vsf_votes a) = Inr delta"
    and adj: "adjust_proxied_witness_votes delta 0 ?n db = Inr db1"
    and cl: "clear_witness_votes ?n db1 = Inr db2"
    and m: "modify_account ?n (\<lambda>a. Inr (a\<lparr>acc_can_vote := False, acc_proxy := []\<rparr>)) db2 = Inr db3"
    and db': "db' = db3\<lparr>db_declines := remove_by dvr_account ?n (db_declines db3)\<rparr>"
    unfolding decline_voting_rights_def by (auto simp del: res_map.simps)
  have fa: "find_by acc_name ?n (db_accounts db) = Some a" using a by (simp add: get_account_def)
  note dv = detach_votes [OF wf(2) fa neg adj]
  have w1: "wf_voting db1" using wf_voting_frame [OF dv(2)] wf(2) by (simp add: votes_ok_def)
  note x = wf_votingD [OF w1 dv(3)]
  obtain k where db2: "db2 = db1\<lparr>db_accounts := replace_by acc_name ?n (a\<lparr>acc_witnesses_voted_for := k\<rparr>) (db_accounts db1),
      db_witness_votes := filter (\<lambda>v. wvo_account v \<noteq> ?n) (db_witness_votes db1)\<rparr>"
    using clear_witness_votes_Inr [OF cl dv(3) x(1)] by blast
  define a' where "a' = a\<lparr>acc_witnesses_voted_for := k, acc_can_vote := False, acc_proxy := []\<rparr>"
  have "?n \<in> acc_name ` set (db_accounts db1)" using x(2,3) by force
  then have e: "db' = db1\<lparr>db_accounts := replace_by acc_name ?n a' (db_accounts db1),
      db_witness_votes := filter (\<lambda>v. wvo_account v \<noteq> ?n) (db_witness_votes db1),
      db_declines := remove_by dvr_account ?n (db_declines db1)\<rparr>"
    using m x(2) by (auto simp: db' db2 modify_account_def get_account_def find_by_replace a'_def replace_by_twice)
  note s = reset_votes [OF wf fa neg adj a'_def _ _ e, simplified]
  have "?n \<notin> voters w db'" for w by (auto simp: e voters_def vote_pairs_def vote_key_def)
  then have "tallied (\<lambda>_ _. 0) db'"
    using tallied_forget [OF s(3), of "\<lambda>_ _. 0" ?n "\<lambda>l. - shifted delta 0 l" a'] s(4,5) by (simp add: a'_def)
  moreover have "acyclic (proxy_rel db')" using s(7) wf(2) by (auto simp: votes_ok_def intro: acyclic_subset)
  ultimately show "vote_step db db'" using s(1,2,3) by (simp add: vote_step_def votes_ok_def)
  show "db_declines db' = remove_by dvr_account ?n (db_declines db)" using vote_frameD(4) [OF dv(2)] by (simp add: e)
  show "head_block_time db' = head_block_time db" using vote_frameD(2) [OF dv(2)] by (simp add: e head_block_time_def)
qed

lemma due_decline_Some:
  assumes "due_decline db = Some d"
  shows "d \<in> set (db_declines db)" "dvr_effective_date d \<le> head_block_time db"
  using assms by (auto simp: due_decline_def split: option.splits if_splits dest: index_begin_Some(1))

lemma due_decline_None:
  assumes "due_decline db = None" "d \<in> set (db_declines db)"
  shows "dvr_effective_date d > head_block_time db"
proof -
  obtain y where y: "index_begin (\<lambda>d. (dvr_effective_date d, dvr_account d)) (db_declines db) = Some y"
    using index_begin_ex [OF assms(2)] by blast
  then have "dvr_effective_date y > head_block_time db" using assms(1) by (auto simp: due_decline_def split: if_splits)
  moreover have "dvr_effective_date y \<le> dvr_effective_date d" using index_begin_Some(2) [OF y assms(2)] by (auto simp: less_eq_prod_def)
  ultimately show ?thesis by simp
qed

interpretation decline_loop: draining_loop due_decline decline_voting_rights
  "\<lambda>db. wf_objects db \<and> votes_ok db" "\<lambda>db. length (db_declines db)"
proof unfold_locales
  fix db d db' assume a: "wf_objects db \<and> votes_ok db" "due_decline db = Some d" "decline_voting_rights d db = Inr db'"
  note s = decline_voting_rights_step [OF conjunct1 [OF a(1)] conjunct2 [OF a(1)] a(3)]
  show "wf_objects db' \<and> votes_ok db'" using s(1) by (simp add: vote_step_def)
  show "length (db_declines db') < length (db_declines db)"
    using due_decline_Some(1) [OF a(2)] by (auto simp: s(2) remove_by_def intro: length_filter_less)
qed

lemma process_decline_voting_rights_result:
  assumes wf: "wf_objects db" "votes_ok db" and r: "process_decline_voting_rights db = Some (Inr db')"
  shows "vote_step db db'" "\<forall>d \<in> set (db_declines db'). dvr_effective_date d > head_block_time db'"
proof -
  define R where "R = unmoved"
  have "due_decline db' = None \<and> (wf_objects db' \<and> votes_ok db') \<and> R db db'"
  proof (rule decline_loop.drained [OF _ r [unfolded process_decline_voting_rights_def]])
    show "wf_objects db \<and> votes_ok db" using wf by simp
    show "R db db" using votes_okD [OF wf(2)] by (simp add: R_def unmoved_def step_effect_def)
    fix a d b assume a: "wf_objects a \<and> votes_ok a" "R db a" "due_decline a = Some d" "decline_voting_rights d a = Inr b"
    then show "R db b"
      using decline_voting_rights_step(1) [of a d b] by (auto simp: R_def vote_step_def intro: unmoved_trans)
  qed
  then show "vote_step db db'" "\<forall>d \<in> set (db_declines db'). dvr_effective_date d > head_block_time db'"
    using due_decline_None by (auto simp: vote_step_def R_def)
qed

section \<open>Changes of vesting shares\<close>

lemma adjust_share_tallied:
  assumes "adjust_proxied_witness_votes_share x depth n db = Inr db'" "wf_voting db" "tallied lag db" "depth \<le> 4"
  shows "tallied (\<lambda>m l. lag m l + (if m = n then - (if l = depth then x else 0) else 0)) db' \<and> vote_frame db db'"
  using assms
proof (induction x depth n db arbitrary: lag rule: adjust_proxied_witness_votes_share.induct)
  case (1 x depth n db)
  from "1.prems"(1) obtain a where ga: "get_account n db = Inr a"
    by (subst (asm) adjust_proxied_witness_votes_share.simps) auto
  then have a: "find_by acc_name n (db_accounts db) = Some a" by (simp add: get_account_def)
  note eq = "1.prems"(1) [unfolded adjust_proxied_witness_votes_share.simps [of x depth n db] ga res_bind_simps]
  let ?d = "\<lambda>k l. if l = k then x else 0"
  consider "acc_proxy a = []" | "acc_proxy a \<noteq> []" "depth \<ge> 4" | "acc_proxy a \<noteq> []" "depth < 4" by linarith
  then show ?case
  proof cases
    case 1
    have "x = (\<Sum>l<5. ?d depth l)" using "1.prems"(4) by simp
    from adjust_witness_votes_tallied [OF "1.prems"(2,3) a 1 _ this, of db'] eq 1 show ?thesis by simp
  next
    case 2
    have "tallied (\<lambda>m l. lag m l + (if m = n then - ?d depth l else 0)) db"
      by (rule tallied_lag_irrelevant [OF "1.prems"(2,3) a]) (use 2 in auto)
    then show ?thesis using eq 2 by simp
  next
    case 3
    with eq obtain db1 where m: "modify_account (acc_proxy a) (\<lambda>p.
                 res_bind (safe_add (acc_proxied_vsf_votes p ! depth) x) (\<lambda>v.
                 Inr (p\<lparr>acc_proxied_vsf_votes := (acc_proxied_vsf_votes p)[depth := v]\<rparr>))) db = Inr db1"
      and rest: "adjust_proxied_witness_votes_share x (depth + 1) (acc_proxy a) db1 = Inr db'" by auto
    from m obtain p v where p: "find_by acc_name (acc_proxy a) (db_accounts db) = Some p" and v: "safe_add (acc_proxied_vsf_votes p ! depth) x = Inr v"
      and db1: "db1 = db\<lparr>db_accounts := replace_by acc_name (acc_proxy a) (p\<lparr>acc_proxied_vsf_votes := (acc_proxied_vsf_votes p)[depth := v]\<rparr>) (db_accounts db)\<rparr>"
      by (auto elim!: modify_account_Inr)
    note len = wf_votingD(5) [OF "1.prems"(2) p]
    have sh: "(if l = 0 then 0 else ?d depth (l - 1)) = ?d (depth + 1) l" for l by auto
    have vs: "length ((acc_proxied_vsf_votes p)[depth := v]) = 4"
      "\<And>i. i < 4 \<Longrightarrow> (acc_proxied_vsf_votes p)[depth := v] ! i = acc_proxied_vsf_votes p ! i + ?d depth i"
      using len 3(2) safe_add_Inr [OF v] by (auto simp: nth_list_update)
    note s = tallied_slots [OF "1.prems"(2,3) a refl 3(1) p refl vs db1, unfolded sh]
    have "\<not> depth \<ge> 4" using 3(2) by simp
    from "1.IH" [OF ga 3(1) this m rest wf_voting_frame [OF s(2) "1.prems"(2)] s(1)] 3(2)
    have "tallied (\<lambda>m l. lag m l + (if m = acc_proxy a then ?d (depth + 1) l else 0) + (if m = n then - ?d depth l else 0)
        + (if m = acc_proxy a then - ?d (depth + 1) l else 0)) db'" "vote_frame db1 db'" by simp_all
    moreover have "(\<lambda>m l. lag m l + (if m = acc_proxy a then ?d (depth + 1) l else 0) + (if m = n then - ?d depth l else 0)
        + (if m = acc_proxy a then - ?d (depth + 1) l else 0)) = (\<lambda>m l. lag m l + (if m = n then - ?d depth l else 0))"
      by (intro ext) auto
    ultimately show ?thesis using vote_frame_trans [OF s(2)] by simp
  qed
qed

text \<open>New vesting shares of an account, passed on to its proxies and witnesses, leave the tallies right.\<close>

lemma vests_changed:
  assumes ok: "votes_ok db" and a: "find_by acc_name n (db_accounts db) = Some a"
    and a': "acc_name a' = acc_name a" "acc_proxy a' = acc_proxy a" "acc_proxied_vsf_votes a' = acc_proxied_vsf_votes a"
      "acc_vesting_shares a' = acc_vesting_shares a + x"
    and db1: "db_accounts db1 = replace_by acc_name n a' (db_accounts db)" "db_witnesses db1 = db_witnesses db" "db_witness_votes db1 = db_witness_votes db"
    and adj: "adjust_proxied_witness_votes_share x 0 n db1 = Inr db2"
  shows "votes_ok db2" "vote_frame db1 db2" "wf_voting db1"
proof -
  have wv: "wf_voting db" and t: "tallied (\<lambda>_ _. 0) db" and ac: "acyclic (proxy_rel db)" using ok by (auto simp: votes_ok_def)
  note y = wf_votingD [OF wv a]
  let ?d = "\<lambda>l::nat. if l = 0 then x else 0" and ?xs = "db_accounts db" and ?z = "\<lambda>_ _. 0 :: int"
  have lev: "level a' l = level a l + ?d l" for l using a' by (cases l) auto
  have nm: "map acc_name (db_accounts db1) = map acc_name ?xs" using a' y(2) by (simp add: db1)
  then have d1: "distinct (map acc_name (db_accounts db1))" using y(1) by simp
  have "n \<in> acc_name ` set ?xs" using y(2,3) by force
  then have fa: "find_by acc_name n (db_accounts db1) = Some a'" using a'(1) y(2) by (simp add: db1 find_by_replace)
  have px: "map (\<lambda>a. (acc_name a, acc_proxy a)) (db_accounts db1) = map (\<lambda>a. (acc_name a, acc_proxy a)) ?xs"
    using map_replace_same [OF y(1) a, of "\<lambda>a. (acc_name a, acc_proxy a)" a'] a' by (simp add: db1)
  show w1: "wf_voting db1"
    by (rule wf_voting_reset [OF wv a, of a' "\<lambda>_. True"]) (use a' y wv in \<open>auto simp: db1 wf_voting_def\<close>)
  have "tallied (\<lambda>m l. 0 + (if m = n then ?d l else 0)) db1"
  proof -
    have s: "slot_sum (\<lambda>m l. 0 + (if m = n then ?d l else 0)) b i (db_accounts db1) = slot_sum ?z b i ?xs" for b i
      using slot_sum_lag [OF d1 fa, of ?z ?d b i] slot_sum_replace [OF y(1) a a'(1,2), where d = ?d and lag = ?z and b = b] lev a'(2) by (simp add: db1)
    have v: "voter_sum (\<lambda>m l. 0 + (if m = n then ?d l else 0)) vs (db_accounts db1) = voter_sum ?z vs ?xs" for vs
      using voter_sum_lag [OF d1 fa, of ?z ?d vs] voter_sum_replace [OF y(1) a a'(1), where d = ?d and lag = ?z and vs = vs] lev by (simp add: db1)
    have "level b (Suc i) = slot_sum ?z (acc_name b) i ?xs" if "b \<in> set (db_accounts db1)" "i < 4" for b i
    proof (cases "b \<in> set ?xs")
      case False
      then have "b = a'" using that(1) by (auto simp: db1 replace_by_def split: if_splits)
      then show ?thesis using t y(3) a'(1) lev [of "Suc i"] that(2) by (auto simp: tallied_def)
    qed (use t that(2) in \<open>auto simp: tallied_def\<close>)
    then show ?thesis using t unfolding tallied_def s v by (simp add: db1 voters_def vote_pairs_def)
  qed
  note f = adjust_share_tallied [OF adj w1 this]
  have "(\<lambda>m l. 0 + (if m = n then ?d l else 0) + (if m = n then - ?d l else 0)) = ?z" by (intro ext) auto
  then have "tallied ?z db2" using f by simp
  moreover show fr: "vote_frame db1 db2" using f by simp
  moreover have "proxy_rel db1 = proxy_rel db" by (simp only: proxy_rel_def px)
  ultimately show "votes_ok db2" using wf_voting_frame [OF fr w1] proxy_rel_frame [OF fr] ac by (simp add: votes_ok_def)
qed

section \<open>What right tallies mean\<close>

definition tally_view :: "account_object \<Rightarrow> account_name_type \<times> account_name_type \<times> int \<times> int list" where
  "tally_view a = (acc_name a, acc_proxy a, acc_vesting_shares a, acc_proxied_vsf_votes a)"

lemma level_case: "level a l = (case l of 0 \<Rightarrow> acc_vesting_shares a | Suc j \<Rightarrow> acc_proxied_vsf_votes a ! j)"
  by (cases l) auto

lemma slot_sum_view:
  assumes "map tally_view xs' = map tally_view xs"
  shows "slot_sum lag b i xs' = slot_sum lag b i xs"
proof -
  have e: "slot_sum lag b i ys = sum_list (map (\<lambda>(n, p, v, vs). if p = b then (case i of 0 \<Rightarrow> v | Suc j \<Rightarrow> vs ! j) - lag n i else 0) (map tally_view ys))" for ys
    unfolding slot_sum_def level_case by (simp add: comp_def tally_view_def)
  show ?thesis unfolding e assms ..
qed

lemma voter_sum_view:
  assumes "map tally_view xs' = map tally_view xs"
  shows "voter_sum lag us xs' = voter_sum lag us xs"
proof -
  have e: "voter_sum lag us ys = sum_list (map (\<lambda>(n, p, v, vs). if n \<in> us then \<Sum>l<5. (case l of 0 \<Rightarrow> v | Suc j \<Rightarrow> vs ! j) - lag n l else 0) (map tally_view ys))" for ys
    unfolding voter_sum_def level_case by (simp add: comp_def tally_view_def)
  show ?thesis unfolding e assms ..
qed

lemma slot_sum_0: "slot_sum (\<lambda>_ _. 0) b i xs = table_sum (\<lambda>a. if acc_proxy a = b then level a i else 0) xs"
  unfolding slot_sum_def diff_0_right ..

lemma voter_sum_0: "voter_sum (\<lambda>_ _. 0) us xs = table_sum (\<lambda>a. if acc_name a \<in> us then \<Sum>l<5. level a l else 0) xs"
  unfolding voter_sum_def diff_0_right ..

lemma voter_view_members:
  assumes "map tally_view xs' = map tally_view xs" "b \<in> set xs'"
  obtains a where "a \<in> set xs" "tally_view a = tally_view b"
  using assms by (metis (no_types, lifting) image_eqI image_iff list.set_map)

lemma level_view: "tally_view a = tally_view b \<Longrightarrow> level a l = level b l"
  by (cases l) (auto simp: tally_view_def)

lemma votes_ok_view:
  assumes v: "map tally_view (db_accounts db') = map tally_view (db_accounts db)" and ok: "votes_ok db"
    and eq: "db_witnesses db' = db_witnesses db" "db_witness_votes db' = db_witness_votes db"
  shows "votes_ok db'"
proof -
  let ?xs = "db_accounts db" and ?xs' = "db_accounts db'"
  have "map fst (map tally_view ?xs') = map fst (map tally_view ?xs)"
    "map (\<lambda>(n, p, _). (n, p)) (map tally_view ?xs') = map (\<lambda>(n, p, _). (n, p)) (map tally_view ?xs)" by (simp_all only: v)
  then have nm: "map acc_name ?xs' = map acc_name ?xs"
    and px: "map (\<lambda>a. (acc_name a, acc_proxy a)) ?xs' = map (\<lambda>a. (acc_name a, acc_proxy a)) ?xs" by (simp_all add: tally_view_def comp_def)
  have ns: "acc_name ` set ?xs' = acc_name ` set ?xs" using nm by (metis list.set_map)
  have "length (acc_proxied_vsf_votes b) = 4 \<and> acc_name b \<noteq> [] \<and> (acc_proxy b \<noteq> [] \<longrightarrow>
      acc_proxy b \<in> acc_name ` set ?xs \<and> (\<forall>v \<in> set (db_witness_votes db). wvo_account v \<noteq> acc_name b)) \<and>
      (\<forall>i<4. level b (Suc i) = slot_sum (\<lambda>_ _. 0) (acc_name b) i ?xs)" if "b \<in> set ?xs'" for b
  proof -
    from voter_view_members [OF v that] obtain a where a: "a \<in> set ?xs" "tally_view a = tally_view b" by blast
    then have e: "acc_name b = acc_name a" "acc_proxy b = acc_proxy a" "acc_proxied_vsf_votes b = acc_proxied_vsf_votes a" by (auto simp: tally_view_def)
    show ?thesis using a(1) ok by (simp add: e votes_ok_def wf_voting_def wf_accounts_def tallied_def)
  qed
  then have "wf_voting db'" "tallied (\<lambda>_ _. 0) db'"
    using ok unfolding votes_ok_def wf_voting_def wf_accounts_def tallied_def nm ns eq slot_sum_view [OF v] voter_sum_view [OF v]
    by (auto simp: voters_def vote_pairs_def eq voted_exist_def)
  moreover have "proxy_rel db' = proxy_rel db" by (simp only: proxy_rel_def px)
  ultimately show ?thesis using ok by (simp add: votes_ok_def)
qed

lemma votes_ok_same_tallies:
  assumes "same_tallies db db'" "votes_ok db"
  shows "votes_ok db'"
proof (rule votes_ok_view [OF _ assms(2)])
  let ?k = "\<lambda>(n, p, v, vs, _). (n, p, v, vs)"
  have "map tally_view xs = map ?k (map voter_view xs)" for xs by (simp add: tally_view_def voter_view_def)
  then show "map tally_view (db_accounts db') = map tally_view (db_accounts db)" using assms(1) by (simp only: same_tallies_def)
qed (use assms(1) in \<open>simp_all add: same_tallies_def\<close>)

lemma table_sum_swap: "table_sum (\<lambda>b. table_sum (\<lambda>a. f a b) xs) ys = table_sum (\<lambda>a. table_sum (f a) ys) xs"
  by (induction ys) (simp_all add: sum_list_addf)

lemma account_votes_levels:
  assumes "length (acc_proxied_vsf_votes a) = 4"
  shows "account_votes a = (\<Sum>l<5. level a l) - (if acc_proxy a = [] then 0 else \<Sum>l<4. level a l)"
  using sum_levels [OF assms] sum.lessThan_Suc [of "level a" 4] by (auto simp: account_votes_def numeral_eq_Suc)

lemma table_sum_levels: "table_sum (\<lambda>a. \<Sum>l<(k::nat). f a l) xs = (\<Sum>l<k. table_sum (\<lambda>a. f a l) xs)"
  by (induction k) (simp_all add: sum_list_addf)

text \<open>All shares reach witnesses or the end of a chain of proxies.\<close>

lemma votes_ok_total:
  assumes "votes_ok db"
  shows "table_sum account_votes (db_accounts db) = table_sum acc_vesting_shares (db_accounts db)"
proof -
  let ?xs = "db_accounts db" and ?L = "\<lambda>l. table_sum (\<lambda>a. if acc_proxy a = [] then 0 else level a l) (db_accounts db)"
  have wf: "wf_voting db" and t: "tallied (\<lambda>_ _. 0) db" using assms by (auto simp: votes_ok_def)
  have d: "distinct (map acc_name ?xs)" using wf by (simp add: wf_voting_def wf_accounts_def)
  have one: "table_sum (\<lambda>b. if acc_proxy a = acc_name b then c else 0) ?xs = (if acc_proxy a = [] then 0 else c)" if a: "a \<in> set ?xs" for a c
  proof (cases "acc_proxy a = []")
    case True
    then have "map (\<lambda>b. if acc_proxy a = acc_name b then c else 0) ?xs = map (\<lambda>_. 0) ?xs" using wf by (auto simp: wf_voting_def)
    then show ?thesis using True by (simp add: map_replicate_const sum_list_replicate)
  next
    case False
    then obtain b where "b \<in> set ?xs" "acc_name b = acc_proxy a" using wf a by (auto simp: wf_voting_def)
    then have "find_by acc_name (acc_proxy a) ?xs = Some b" using find_of_member [OF d] by metis
    from sum_single [OF d this, of "\<lambda>_. c"] show ?thesis using False by (simp add: eq_commute)
  qed
  have S: "table_sum (\<lambda>b. level b (Suc i)) ?xs = ?L i" if "i < 4" for i
  proof -
    have "table_sum (\<lambda>b. level b (Suc i)) ?xs = table_sum (\<lambda>b. table_sum (\<lambda>a. if acc_proxy a = acc_name b then level a i else 0) ?xs) ?xs"
      using t that by (intro arg_cong [where f = sum_list] map_cong refl) (auto simp: tallied_def slot_sum_0)
    also have "\<dots> = table_sum (\<lambda>a. table_sum (\<lambda>b. if acc_proxy a = acc_name b then level a i else 0) ?xs) ?xs"
      by (rule table_sum_swap)
    also have "\<dots> = ?L i" by (intro arg_cong [where f = sum_list] map_cong refl one)
    finally show ?thesis .
  qed
  have "table_sum account_votes ?xs = table_sum (\<lambda>a. (\<Sum>l<5. level a l) + - (\<Sum>l<4. if acc_proxy a = [] then 0 else level a l)) ?xs"
    using wf by (intro arg_cong [where f = sum_list] map_cong refl) (auto simp: account_votes_levels wf_voting_def wf_accounts_def)
  also have "\<dots> = (\<Sum>l<5. table_sum (\<lambda>a. level a l) ?xs) - (\<Sum>l<4. ?L l)"
    by (simp add: sum_list_addf table_sum_levels sum_list_subtractf)
  also have "(\<Sum>l<5. table_sum (\<lambda>a. level a l) ?xs) = table_sum (\<lambda>a. level a 0) ?xs + (\<Sum>i<4. table_sum (\<lambda>a. level a (Suc i)) ?xs)"
    using sum.lessThan_Suc_shift [of "\<lambda>l. table_sum (\<lambda>a. level a l) ?xs" 4] by (simp add: numeral_eq_Suc)
  also have "(\<Sum>i<4. table_sum (\<lambda>a. level a (Suc i)) ?xs) = (\<Sum>l<4. ?L l)" by (intro sum.cong refl S) simp
  finally show ?thesis by simp
qed

lemma level_nonneg:
  assumes "votes_ok db" "\<forall>a \<in> set (db_accounts db). 0 \<le> acc_vesting_shares a" "a \<in> set (db_accounts db)" "l < 5"
  shows "0 \<le> level a l"
  using assms(3,4)
proof (induction l arbitrary: a)
  case (Suc i)
  then have "level a (Suc i) = slot_sum (\<lambda>_ _. 0) (acc_name a) i (db_accounts db)" using assms(1) by (auto simp: votes_ok_def tallied_def)
  then show ?case using Suc.IH Suc.prems(2) by (auto simp: slot_sum_0 intro!: sum_list_nonneg)
qed (use assms(2) in simp)

lemma tallied_votes_bounds:
  assumes "votes_ok db" "\<forall>a \<in> set (db_accounts db). 0 \<le> acc_vesting_shares a"
  shows "(\<forall>w \<in> set (db_witnesses db). 0 \<le> wit_votes w \<and> wit_votes w \<le> table_sum acc_vesting_shares (db_accounts db)) \<and>
    vote_surplus db = table_sum acc_vesting_shares (db_accounts db) - gpo_total_vesting_shares (db_dgpo db)"
proof -
  let ?xs = "db_accounts db"
  have wf: "wf_voting db" and t: "tallied (\<lambda>_ _. 0) db" using assms(1) by (auto simp: votes_ok_def)
  have "0 \<le> wit_votes w \<and> wit_votes w \<le> table_sum account_votes ?xs" if "w \<in> set (db_witnesses db)" for w
  proof -
    have v: "wit_votes w = table_sum (\<lambda>a. if acc_name a \<in> voters (wit_owner w) db then \<Sum>l<5. level a l else 0) ?xs"
      using t that by (simp add: tallied_def voter_sum_0)
    have "0 \<le> (\<Sum>l<5. level a l)" "0 \<le> account_votes a" if "a \<in> set ?xs" for a
    proof -
      show "0 \<le> (\<Sum>l<5. level a l)" using level_nonneg [OF assms that] by (intro sum_nonneg) auto
      moreover have "0 \<le> level a 4" using level_nonneg [OF assms that] by simp
      moreover have "(\<Sum>l<5. level a l) = (\<Sum>l<4. level a l) + level a 4" using sum.lessThan_Suc [of "level a" 4] by (simp add: numeral_eq_Suc)
      ultimately show "0 \<le> account_votes a" using wf that by (auto simp: account_votes_levels wf_voting_def wf_accounts_def)
    qed
    moreover have "acc_proxy a = []" if "a \<in> set ?xs" "acc_name a \<in> voters u db" for a u
    proof -
      have "distinct (map acc_name ?xs)" using wf by (simp add: wf_voting_def wf_accounts_def)
      from wf_votingD(6) [OF wf find_of_member [OF this that(1)]] that(2) show ?thesis by blast
    qed
    ultimately show ?thesis unfolding v using wf
      by (intro conjI sum_list_nonneg sum_list_mono) (auto simp: account_votes_levels wf_voting_def wf_accounts_def)
  qed
  then show ?thesis using votes_ok_total [OF assms(1)] by (simp add: vote_surplus_def)
qed


definition sample_voters :: database where
  "sample_voters = empty_database\<lparr>
     db_accounts := [(default_account ''alice'')\<lparr>acc_vesting_shares := 10, acc_proxy := ''bob''\<rparr>,
       (default_account ''bob'')\<lparr>acc_vesting_shares := 5, acc_proxied_vsf_votes := [10, 0, 0, 0]\<rparr>],
     db_witnesses := [(default_witness ''carol'')\<lparr>wit_votes := 15\<rparr>],
     db_witness_votes := [\<lparr>wvo_witness = ''carol'', wvo_account = ''bob''\<rparr>]\<rparr>"

lemma sample_votes_ok: "votes_ok sample_voters"
proof -
  have four: "(\<forall>i<4. P i) \<longleftrightarrow> P 0 \<and> P (Suc 0) \<and> P (Suc (Suc 0)) \<and> P (Suc (Suc (Suc 0)))" for P
    by (auto simp: numeral_eq_Suc less_Suc_eq)
  have one: "acyclic {(x, y)}" if "x \<noteq> y" for x y :: account_name_type
    using that by (simp add: acyclic_insert wf_acyclic)
  have "proxy_rel sample_voters = {(''alice'', ''bob'')}" by (auto simp: proxy_rel_def sample_voters_def default_account_def)
  then have "acyclic (proxy_rel sample_voters)" using one [of "''alice''" "''bob''"] by simp
  moreover have "wf_voting sample_voters"
    by (simp add: sample_voters_def default_account_def default_witness_def wf_voting_def wf_accounts_def voted_exist_def vote_key_def)
  moreover have "tallied (\<lambda>_ _. 0) sample_voters"
    unfolding tallied_def slot_sum_0 voter_sum_0 four
    by (simp add: sample_voters_def default_account_def default_witness_def voters_def vote_pairs_def vote_key_def sum_levels)
  ultimately show ?thesis by (simp add: votes_ok_def)
qed


end
