(* ===== verification/Vesting.thy ===== *)
theory Vesting
  imports Witness_Votes
begin

text \<open>
  Vesting (\<open>database.cpp\<close>: \<open>create_dbd\<close>, \<open>create_vesting2\<close>, \<open>process_vesting_withdrawals\<close>;
  \<open>delta_evaluator.cpp\<close>: \<open>transfer_to_vesting_evaluator\<close>, \<open>withdraw_vesting_evaluator\<close>,
  \<open>set_withdraw_vesting_route_evaluator\<close>, \<open>claim_reward_balance_evaluator\<close>): buying vesting shares,
  withdrawing them over the intervals and along the routes, and claiming rewards.
\<close>

section \<open>New shares\<close>

text \<open>The regeneration of the voting mana to its present value.\<close>

definition regenerate_voting_mana :: "time_point_sec \<Rightarrow> account_object \<Rightarrow> account_object result" where
  "regenerate_voting_mana now a =
     res_bind (regenerate_mana False \<lparr>max_mana = get_effective_vesting_shares a, regen_time = 432000\<rparr> now (acc_voting_manabar a)) (\<lambda>m.
     Inr (a\<lparr>acc_voting_manabar := m\<rparr>))"

definition spend_voting_mana :: "int \<Rightarrow> account_object \<Rightarrow> account_object" where
  "spend_voting_mana x a = a\<lparr>acc_voting_manabar := use_mana x 0 (acc_voting_manabar a)\<rparr>"

definition create_vesting :: "account_name_type \<Rightarrow> asset \<Rightarrow> bool \<Rightarrow> database \<Rightarrow> (asset \<times> database) result" where
  "create_vesting to_account liquid to_reward_balance db =
     fc_assert (symbol liquid = DELTA_SYMBOL)
       (res_bind (if to_reward_balance then get_reward_vesting_share_price (db_dgpo db) else get_vesting_share_price (db_dgpo db))
         (\<lambda>vesting_share_price.
        res_bind (asset_mul_price liquid vesting_share_price) (\<lambda>new_vesting.
        res_bind (if to_reward_balance then adjust_reward_balance to_account liquid new_vesting db
                  else
                    res_bind (if has_hardfork 20 db then
                                modify_account to_account (\<lambda>a.
                                  res_bind (regenerate_voting_mana (head_block_time db) a) (\<lambda>a.
                                  Inr (spend_voting_mana (- amount new_vesting) a))) db
                              else Inr db)
                      (adjust_balance to_account new_vesting)) (\<lambda>db1.
        res_bind (modify_dgpo (\<lambda>g.
            if to_reward_balance then
              res_bind (plus_asset VESTS_SYMBOL (gpo_pending_rewarded_vesting_shares g) new_vesting) (\<lambda>v.
              res_bind (plus_asset DELTA_SYMBOL (gpo_pending_rewarded_vesting_delta g) liquid) (\<lambda>d.
              Inr (g\<lparr>gpo_pending_rewarded_vesting_shares := v, gpo_pending_rewarded_vesting_delta := d\<rparr>)))
            else
              res_bind (plus_asset DELTA_SYMBOL (gpo_total_vesting_fund_delta g) liquid) (\<lambda>d.
              res_bind (plus_asset VESTS_SYMBOL (gpo_total_vesting_shares g) new_vesting) (\<lambda>v.
              Inr (g\<lparr>gpo_total_vesting_fund_delta := d, gpo_total_vesting_shares := v\<rparr>)))) db1) (\<lambda>db2.
        res_bind (if \<not> to_reward_balance then adjust_proxied_witness_votes_share (amount new_vesting) 0 to_account db2
                  else Inr db2) (\<lambda>db3.
        Inr (new_vesting, db3)))))))"

text \<open>Part of a reward paid in DBD, at the print rate.\<close>

definition create_dbd :: "account_name_type \<Rightarrow> asset \<Rightarrow> bool \<Rightarrow> database \<Rightarrow> ((asset \<times> asset) \<times> database) result" where
  "create_dbd to_account delta to_reward_balance db =
     (if amount delta = 0 then Inr ((mk_asset 0 DBD_SYMBOL, mk_asset 0 DELTA_SYMBOL), db)
      else if \<not> price_is_null (db_median_history db) then
        res_bind (safe_mul (int (gpo_dbd_print_rate (db_dgpo db))) (amount delta)) (\<lambda>p.
        res_bind (safe_div p 10000) (\<lambda>to_dbd.
        res_bind (safe_sub (amount delta) to_dbd) (\<lambda>to_delta.
        res_bind (asset_mul_price (mk_asset to_dbd DELTA_SYMBOL) (db_median_history db)) (\<lambda>dbd.
        res_bind (if to_reward_balance then
                    res_bind (adjust_reward_balance to_account dbd (mk_asset 0 VESTS_SYMBOL) db)
                      (adjust_reward_balance to_account (mk_asset to_delta DELTA_SYMBOL) (mk_asset 0 VESTS_SYMBOL))
                  else
                    res_bind (adjust_balance to_account dbd db)
                      (adjust_balance to_account (mk_asset to_delta DELTA_SYMBOL))) (\<lambda>db1.
        res_bind (safe_neg to_dbd) (\<lambda>neg.
        res_bind (adjust_supply (mk_asset neg DELTA_SYMBOL) False db1) (\<lambda>db2.
        res_bind (adjust_supply dbd False db2) (\<lambda>db3.
        Inr ((dbd, mk_asset to_delta DELTA_SYMBOL), db3)))))))))
      else
        res_bind (adjust_balance to_account delta db) (\<lambda>db1. Inr ((mk_asset 0 DBD_SYMBOL, delta), db1)))"

section \<open>Evaluators\<close>

definition transfer_to_vesting_evaluator :: "transfer_to_vesting_operation \<Rightarrow> database \<Rightarrow> database result" where
  "transfer_to_vesting_evaluator op db =
     res_bind (get_account (tv_from op) db) (\<lambda>from_account.
     res_bind (if tv_to op \<noteq> [] then get_account (tv_to op) db else Inr from_account) (\<lambda>to_account.
     res_bind (get_balance from_account (symbol (tv_amount op))) (\<lambda>b.
     assert_ge b (tv_amount op)
       (res_bind (asset_neg (tv_amount op)) (\<lambda>neg.
        res_bind (adjust_balance (acc_name from_account) neg db) (\<lambda>db1.
        res_bind (create_vesting (acc_name to_account) (tv_amount op) False db1) (\<lambda>(_, db2). Inr db2)))))))"

definition withdraw_vesting_evaluator :: "withdraw_vesting_operation \<Rightarrow> database \<Rightarrow> database result" where
  "withdraw_vesting_evaluator op db =
     res_bind (get_account (wv_account op) db) (\<lambda>account.
     if amount (wv_vesting_shares op) < 0 then
       fc_assert (\<not> gpo_head_block_number (db_dgpo db) > 23847548) (Inr db)
     else
       fc_assert (acc_vesting_shares account \<ge> 0)
       (res_bind (safe_sub (acc_vesting_shares account) (acc_delegated_vesting_shares account)) (\<lambda>own.
        assert_ge (mk_asset own VESTS_SYMBOL) (wv_vesting_shares op)
        (res_bind (if \<not> has_hardfork 20 db \<and> \<not> acc_mined account \<and> has_hardfork 1 db then
                     res_bind (get_vesting_share_price (db_dgpo db)) (\<lambda>p.
                     res_bind (asset_mul_price (cp_account_creation_fee (wso_median_props (db_wso db))) p) (\<lambda>fee.
                     let min_vests = fee\<lparr>amount := to_int64 (amount fee * 10)\<rparr>
                     in res_bind (asset_less min_vests (mk_asset (acc_vesting_shares account) VESTS_SYMBOL)) (\<lambda>c.
                        check (c \<or> has_hardfork 16 db \<and> amount (wv_vesting_shares op) = 0))))
                   else Inr ()) (\<lambda>_.
         if amount (wv_vesting_shares op) = 0 then
           fc_assert (has_hardfork 5 db \<longrightarrow> acc_vesting_withdraw_rate account \<noteq> 0)
             (modify_account (wv_account op) (\<lambda>a.
                Inr (a\<lparr>acc_vesting_withdraw_rate := 0, acc_next_vesting_withdrawal := time_point_sec_maximum,
                       acc_to_withdraw := 0, acc_withdrawn := 0\<rparr>)) db)
         else
           modify_account (wv_account op) (\<lambda>a.
             res_bind (safe_div (amount (wv_vesting_shares op)) (if has_hardfork 16 db then 13 else 104)) (\<lambda>rate.
             let rate = (if rate = 0 then 1 else rate)
             in fc_assert (has_hardfork 5 db \<longrightarrow> acc_vesting_withdraw_rate account \<noteq> rate)
                  (Inr (a\<lparr>acc_vesting_withdraw_rate := rate,
                          acc_next_vesting_withdrawal := add_seconds (head_block_time db) 604800,
                          acc_to_withdraw := amount (wv_vesting_shares op), acc_withdrawn := 0\<rparr>)))) db)))))"

text \<open>The routes of an account, in the order of the index by source and destination.\<close>

definition routes_of :: "account_name_type \<Rightarrow> database \<Rightarrow> withdraw_vesting_route_object list" where
  "routes_of n db = sort_key rt_to_account (filter (\<lambda>r. rt_from_account r = n \<and> rt_to_account r \<noteq> []) (db_routes db))"

definition set_withdraw_vesting_route_evaluator :: "set_withdraw_vesting_route_operation \<Rightarrow> database \<Rightarrow> database result" where
  "set_withdraw_vesting_route_evaluator op db =
     res_bind (get_account (sw_from_account op) db) (\<lambda>from_account.
     res_bind (get_account (sw_to_account op) db) (\<lambda>to_account.
     let route = \<lparr>rt_from_account = acc_name from_account, rt_to_account = acc_name to_account,
                  rt_percent = sw_percent op, rt_auto_vest = sw_auto_vest op\<rparr>
     in res_bind
          (case find_by route_key (route_key route) (db_routes db) of
             None \<Rightarrow>
               fc_assert (sw_percent op \<noteq> 0)
               (fc_assert (acc_withdraw_routes from_account < 10)
                 (res_bind (create_by route_key route (db_routes db)) (\<lambda>xs.
                  modify_account (acc_name from_account) (\<lambda>a.
                    Inr (a\<lparr>acc_withdraw_routes := acc_withdraw_routes a + 1\<rparr>)) (db\<lparr>db_routes := xs\<rparr>))))
           | Some _ \<Rightarrow>
               if sw_percent op = 0 then
                 modify_account (acc_name from_account) (\<lambda>a.
                   Inr (a\<lparr>acc_withdraw_routes := acc_withdraw_routes a - 1\<rparr>))
                   (db\<lparr>db_routes := remove_by route_key (route_key route) (db_routes db)\<rparr>)
               else Inr (db\<lparr>db_routes := replace_by route_key (route_key route) route (db_routes db)\<rparr>)) (\<lambda>db1.
        fc_assert (sum_list (map rt_percent (routes_of (acc_name from_account) db1)) \<le> 10000) (Inr db1))))"

definition claim_reward_balance_evaluator :: "claim_reward_balance_operation \<Rightarrow> database \<Rightarrow> database result" where
  "claim_reward_balance_evaluator op db =
     res_bind (get_account (cb_account op) db) (\<lambda>acnt.
     assert_ge (mk_asset (acc_reward_delta_balance acnt) DELTA_SYMBOL) (cb_reward_delta op)
     (assert_ge (mk_asset (acc_reward_dbd_balance acnt) DBD_SYMBOL) (cb_reward_dbd op)
     (assert_ge (mk_asset (acc_reward_vesting_balance acnt) VESTS_SYMBOL) (cb_reward_vests op)
      (res_bind
        (if amount (cb_reward_vests op) = acc_reward_vesting_balance acnt then Inr (acc_reward_vesting_delta acnt)
         else if acc_reward_vesting_balance acnt = 0 then Inl Divide_By_Zero_Exception
         else
           (let q = (word_of_int (amount (cb_reward_vests op)) * word_of_int (acc_reward_vesting_delta acnt) :: 128 word)
                    div word_of_int (acc_reward_vesting_balance acnt)
            in fc_assert (drop_bit 64 q = 0) (Inr (to_int64 (uint q))))) (\<lambda>to_move.
       res_bind (asset_neg (cb_reward_delta op)) (\<lambda>neg_delta.
       res_bind (adjust_reward_balance (cb_account op) neg_delta (mk_asset 0 VESTS_SYMBOL) db) (\<lambda>db1.
       res_bind (asset_neg (cb_reward_dbd op)) (\<lambda>neg_dbd.
       res_bind (adjust_reward_balance (cb_account op) neg_dbd (mk_asset 0 VESTS_SYMBOL) db1) (\<lambda>db2.
       res_bind (adjust_balance (cb_account op) (cb_reward_delta op) db2) (\<lambda>db3.
       res_bind (adjust_balance (cb_account op) (cb_reward_dbd op) db3) (\<lambda>db4.
       res_bind (modify_account (cb_account op) (\<lambda>a.
           res_bind (if has_hardfork 20 db then
                       res_bind (regenerate_voting_mana (head_block_time db) a) (\<lambda>a.
                       Inr (spend_voting_mana (- amount (cb_reward_vests op)) a))
                     else Inr a) (\<lambda>a.
           res_bind (plus_asset VESTS_SYMBOL (acc_vesting_shares a) (cb_reward_vests op)) (\<lambda>v.
           res_bind (minus_asset VESTS_SYMBOL (acc_reward_vesting_balance a) (cb_reward_vests op)) (\<lambda>r.
           res_bind (safe_sub (acc_reward_vesting_delta a) to_move) (\<lambda>d.
           Inr (a\<lparr>acc_vesting_shares := v, acc_reward_vesting_balance := r, acc_reward_vesting_delta := d\<rparr>)))))) db4) (\<lambda>db5.
       res_bind (modify_dgpo (\<lambda>g.
           res_bind (plus_asset VESTS_SYMBOL (gpo_total_vesting_shares g) (cb_reward_vests op)) (\<lambda>v.
           res_bind (safe_add (gpo_total_vesting_fund_delta g) to_move) (\<lambda>f.
           res_bind (minus_asset VESTS_SYMBOL (gpo_pending_rewarded_vesting_shares g) (cb_reward_vests op)) (\<lambda>pv.
           res_bind (safe_sub (gpo_pending_rewarded_vesting_delta g) to_move) (\<lambda>pd.
           Inr (g\<lparr>gpo_total_vesting_shares := v, gpo_total_vesting_fund_delta := f,
                  gpo_pending_rewarded_vesting_shares := pv, gpo_pending_rewarded_vesting_delta := pd\<rparr>)))))) db5)
         (adjust_proxied_witness_votes_share (amount (cb_reward_vests op)) 0 (cb_account op))))))))))))))"

section \<open>Withdrawals\<close>

text \<open>The amount of one interval, and the share of a route in it.\<close>

definition interval_amount :: "account_object \<Rightarrow> int result" where
  "interval_amount a =
     res_bind (safe_sub (acc_to_withdraw a) (acc_withdrawn a)) (\<lambda>rest.
     if rest < acc_vesting_withdraw_rate a then
       res_bind (safe_mod (acc_to_withdraw a) (acc_vesting_withdraw_rate a)) (\<lambda>m. Inr (min (acc_vesting_shares a) m))
     else Inr (min (acc_vesting_shares a) (acc_vesting_withdraw_rate a)))"

definition route_share :: "int \<Rightarrow> withdraw_vesting_route_object \<Rightarrow> int result" where
  "route_share to_withdraw r =
     (let q = (word_of_int to_withdraw * ucast (rt_percent r) :: 128 word) div 10000
      in fc_assert (drop_bit 64 q = 0) (Inr (to_int64 (uint q))))"

definition deposit_vests ::
  "account_name_type \<Rightarrow> int \<Rightarrow> withdraw_vesting_route_object \<Rightarrow> int \<times> database \<Rightarrow> (int \<times> database) result" where
  "deposit_vests from to_withdraw r s =
     (case s of (deposited, db) \<Rightarrow>
       if rt_auto_vest r then
         res_bind (route_share to_withdraw r) (\<lambda>to_deposit.
         res_bind (safe_add deposited to_deposit) (\<lambda>deposited.
         if to_deposit > 0 then
           res_bind (get_account (rt_to_account r) db) (\<lambda>_.
           res_bind (modify_account (rt_to_account r) (\<lambda>a.
               res_bind (safe_add (acc_vesting_shares a) to_deposit) (\<lambda>v. Inr (a\<lparr>acc_vesting_shares := v\<rparr>)))
             (push_virtual_operation (Fill_Vesting_Withdraw from (rt_to_account r)
                (mk_asset to_deposit VESTS_SYMBOL) (mk_asset to_deposit VESTS_SYMBOL)) db)) (\<lambda>db1.
           res_bind (adjust_proxied_witness_votes_share to_deposit 0 (rt_to_account r) db1) (\<lambda>db2.
           Inr (deposited, db2))))
         else Inr (deposited, db)))
       else Inr s)"

definition leave_fund :: "asset \<Rightarrow> int \<Rightarrow> dynamic_global_property_object \<Rightarrow> dynamic_global_property_object result" where
  "leave_fund converted_delta shares g =
     res_bind (minus_asset DELTA_SYMBOL (gpo_total_vesting_fund_delta g) converted_delta) (\<lambda>f.
     res_bind (safe_sub (gpo_total_vesting_shares g) shares) (\<lambda>v.
     Inr (g\<lparr>gpo_total_vesting_fund_delta := f, gpo_total_vesting_shares := v\<rparr>)))"

definition deposit_delta ::
  "account_name_type \<Rightarrow> int \<Rightarrow> withdraw_vesting_route_object \<Rightarrow> int \<times> int \<times> database \<Rightarrow> (int \<times> int \<times> database) result" where
  "deposit_delta from to_withdraw r s =
     (case s of (deposited, converted, db) \<Rightarrow>
       if \<not> rt_auto_vest r then
         res_bind (get_account (rt_to_account r) db) (\<lambda>_.
         res_bind (route_share to_withdraw r) (\<lambda>to_deposit.
         res_bind (safe_add deposited to_deposit) (\<lambda>deposited.
         res_bind (get_vesting_share_price (db_dgpo db)) (\<lambda>p.
         res_bind (asset_mul_price (mk_asset to_deposit VESTS_SYMBOL) p) (\<lambda>converted_delta.
         res_bind (plus_asset DELTA_SYMBOL converted converted_delta) (\<lambda>converted.
         if to_deposit > 0 then
           res_bind (modify_account (rt_to_account r) (\<lambda>a.
               res_bind (plus_asset DELTA_SYMBOL (acc_balance a) converted_delta) (\<lambda>b. Inr (a\<lparr>acc_balance := b\<rparr>)))
             (push_virtual_operation (Fill_Vesting_Withdraw from (rt_to_account r)
                (mk_asset to_deposit VESTS_SYMBOL) converted_delta) db)) (\<lambda>db1.
           res_bind (modify_dgpo (leave_fund converted_delta to_deposit) db1) (\<lambda>db2.
           Inr (deposited, converted, db2)))
         else Inr (deposited, converted, db)))))))
       else Inr s)"

definition pay_out :: "int \<Rightarrow> asset \<Rightarrow> account_object \<Rightarrow> account_object result" where
  "pay_out to_withdraw converted_delta a =
     res_bind (safe_sub (acc_vesting_shares a) to_withdraw) (\<lambda>v.
     res_bind (plus_asset DELTA_SYMBOL (acc_balance a) converted_delta) (\<lambda>b.
     res_bind (safe_add (acc_withdrawn a) to_withdraw) (\<lambda>w.
     let a = a\<lparr>acc_vesting_shares := v, acc_balance := b, acc_withdrawn := w\<rparr>
     in if w \<ge> acc_to_withdraw a \<or> v = 0
        then Inr (a\<lparr>acc_vesting_withdraw_rate := 0, acc_next_vesting_withdrawal := time_point_sec_maximum\<rparr>)
        else Inr (a\<lparr>acc_next_vesting_withdrawal := add_seconds (acc_next_vesting_withdrawal a) 604800\<rparr>))))"

definition finish_withdrawal :: "account_name_type \<Rightarrow> int \<Rightarrow> int \<Rightarrow> database \<Rightarrow> database result" where
  "finish_withdrawal n to_withdraw to_convert db =
     fc_assert (to_convert \<ge> 0)
       (res_bind (get_vesting_share_price (db_dgpo db)) (\<lambda>p.
        res_bind (asset_mul_price (mk_asset to_convert VESTS_SYMBOL) p) (\<lambda>converted_delta.
        res_bind (modify_account n (pay_out to_withdraw converted_delta)
          (push_virtual_operation (Fill_Vesting_Withdraw n n (mk_asset to_convert VESTS_SYMBOL) converted_delta) db)) (\<lambda>db1.
        res_bind (modify_dgpo (leave_fund converted_delta to_convert) db1) (\<lambda>db2.
        if to_withdraw > 0
        then res_bind (safe_neg to_withdraw) (\<lambda>neg. adjust_proxied_witness_votes_share neg 0 n db2)
        else Inr db2)))))"

definition withdraw_interval :: "account_object \<Rightarrow> database \<Rightarrow> database result" where
  "withdraw_interval from_account db =
     (let n = acc_name from_account
      in res_bind (interval_amount from_account) (\<lambda>to_withdraw.
         res_bind (res_fold (deposit_vests n to_withdraw) (routes_of n db) (0, db)) (\<lambda>(as_vests, db1).
         res_bind (res_fold (deposit_delta n to_withdraw) (routes_of n db1) (0, 0, db1)) (\<lambda>(as_delta, _, db2).
         res_bind (safe_sub to_withdraw as_delta) (\<lambda>x.
         res_bind (safe_sub x as_vests) (\<lambda>to_convert.
         finish_withdrawal n to_withdraw to_convert db2))))))"

text \<open>
  The loop over the accounts in the order of their next withdrawal. The iterator moves on before
  the account is processed, so the state holds the account it points to; \<open>None\<close> is the end of the
  index.
\<close>

definition withdrawal_key :: "account_object \<Rightarrow> time_point_sec \<times> account_name_type" where
  "withdrawal_key a = (acc_next_vesting_withdrawal a, acc_name a)"

definition next_in_index :: "account_object \<Rightarrow> database \<Rightarrow> account_name_type option" where
  "next_in_index a db = map_option acc_name (index_begin withdrawal_key (filter (\<lambda>b. withdrawal_key a < withdrawal_key b) (db_accounts db)))"

definition due_withdrawal :: "account_name_type option \<times> database \<Rightarrow> account_object option" where
  "due_withdrawal s =
     (case s of (current, db) \<Rightarrow>
       (case current of
          None \<Rightarrow> None
        | Some n \<Rightarrow>
            (case find_by acc_name n (db_accounts db) of
               None \<Rightarrow> None
             | Some a \<Rightarrow> if acc_next_vesting_withdrawal a \<le> head_block_time db then Some a else None)))"

definition process_withdrawal ::
  "account_object \<Rightarrow> account_name_type option \<times> database \<Rightarrow> (account_name_type option \<times> database) result" where
  "process_withdrawal a s = res_bind (withdraw_interval a (snd s)) (\<lambda>db. Inr (next_in_index a (snd s), db))"

definition process_vesting_withdrawals :: "database \<Rightarrow> database result option" where
  "process_vesting_withdrawals db =
     map_option (\<lambda>r. res_bind r (\<lambda>s. Inr (snd s)))
       (drain due_withdrawal process_withdrawal (map_option acc_name (index_begin withdrawal_key (db_accounts db)), db))"

section \<open>Flows\<close>

text \<open>
  An account is covered when the shares it has delegated and those it still has to withdraw are
  its own. While it withdraws, whole intervals have been paid; when it does not, nothing is left.
\<close>

definition vest_gap :: "database \<Rightarrow> int" where
  "vest_gap db = table_sum acc_vesting_shares (db_accounts db) - gpo_total_vesting_shares (db_dgpo db)"

definition covered :: "account_object \<Rightarrow> bool" where
  "covered a \<longleftrightarrow> 0 \<le> acc_delegated_vesting_shares a \<and> 0 \<le> acc_withdrawn a \<and> acc_withdrawn a \<le> acc_to_withdraw a \<and>
     acc_delegated_vesting_shares a + (acc_to_withdraw a - acc_withdrawn a) \<le> acc_vesting_shares a \<and>
     acc_vesting_shares a \<le> int64_max \<and> acc_next_vesting_withdrawal a \<le> time_point_sec_maximum \<and>
     (if acc_next_vesting_withdrawal a = time_point_sec_maximum then acc_withdrawn a = acc_to_withdraw a
      else 0 < acc_vesting_withdraw_rate a \<and> acc_vesting_withdraw_rate a dvd acc_withdrawn a)"

definition schedule :: "account_object \<Rightarrow> time_point_sec \<times> int \<times> int \<times> int" where
  "schedule a = (acc_next_vesting_withdrawal a, acc_vesting_withdraw_rate a, acc_to_withdraw a, acc_withdrawn a)"

lemma covered_le: "covered a \<Longrightarrow> acc_vesting_shares a \<le> int64_max"
  by (simp add: covered_def)

lemma covered_simps:
  "covered (a\<lparr>acc_balance := x\<rparr>) = covered a"
  "covered (a\<lparr>acc_voting_manabar := m\<rparr>) = covered a"
  "covered (a\<lparr>acc_reward_vesting_balance := x\<rparr>) = covered a"
  "covered (a\<lparr>acc_reward_vesting_delta := x\<rparr>) = covered a"
  "covered a \<Longrightarrow> acc_vesting_shares a \<le> x \<Longrightarrow> x \<le> int64_max \<Longrightarrow> covered (a\<lparr>acc_vesting_shares := x\<rparr>)"
  by (simp_all add: covered_def)

lemma safe_add_le: "safe_add a b = Inr c \<Longrightarrow> c = a + b \<and> (0 \<le> b \<longrightarrow> a \<le> int64_max \<longrightarrow> a + b \<le> int64_max)"
  by (auto simp: safe_add_def split: if_splits)

lemma plus_asset_le:
  "plus_asset y a b = Inr c \<Longrightarrow> symbol b = y \<and> c = a + amount b \<and> (0 \<le> amount b \<longrightarrow> a \<le> int64_max \<longrightarrow> a + amount b \<le> int64_max)"
  by (auto simp: plus_asset_def dest!: safe_add_le)

definition delegation_key :: "vesting_delegation_object \<Rightarrow> account_name_type \<times> account_name_type" where
  "delegation_key d = (vdo_delegator d, vdo_delegatee d)"

text \<open>What an account has delegated: its delegations, and those it took back that have not returned.\<close>

definition delegated_by :: "account_name_type \<Rightarrow> database \<Rightarrow> int" where
  "delegated_by n db = table_sum (\<lambda>d. if vdo_delegator d = n then vdo_vesting_shares d else 0) (db_delegations db) +
     table_sum (\<lambda>e. if vde_delegator e = n then vde_vesting_shares e else 0) (db_delegation_expirations db)"

definition delegated_to :: "account_name_type \<Rightarrow> database \<Rightarrow> int" where
  "delegated_to n db = table_sum (\<lambda>d. if vdo_delegatee d = n then vdo_vesting_shares d else 0) (db_delegations db)"

definition parties_exist :: "database \<Rightarrow> bool" where
  "parties_exist db \<longleftrightarrow>
     (\<forall>d \<in> set (db_delegations db). vdo_delegator d \<in> acc_name ` set (db_accounts db) \<and> vdo_delegatee d \<in> acc_name ` set (db_accounts db)) \<and>
     (\<forall>e \<in> set (db_delegation_expirations db). vde_delegator e \<in> acc_name ` set (db_accounts db))"

definition delegations_ok :: "database \<Rightarrow> bool" where
  "delegations_ok db \<longleftrightarrow> distinct (map delegation_key (db_delegations db)) \<and> parties_exist db \<and>
     (\<forall>d \<in> set (db_delegations db). 0 \<le> vdo_vesting_shares d) \<and>
     (\<forall>e \<in> set (db_delegation_expirations db). 0 \<le> vde_vesting_shares e) \<and>
     (\<forall>a \<in> set (db_accounts db). acc_delegated_vesting_shares a = delegated_by (acc_name a) db \<and>
        acc_received_vesting_shares a = delegated_to (acc_name a) db)"

text \<open>
  A sound state: keys are unique and amounts in the right tokens, the tallies of votes are right,
  every account is covered, and the delegations add up. A flow is a step between sound states with
  its effect on the surplus of each token and on the difference between the shares of all accounts
  and their recorded total.
\<close>

definition sound :: "database \<Rightarrow> bool" where
  "sound db \<longleftrightarrow> wf_objects db \<and> votes_ok db \<and> (\<forall>a \<in> set (db_accounts db). covered a) \<and> delegations_ok db"

definition flow :: "(asset_symbol_type \<Rightarrow> int) \<Rightarrow> int \<Rightarrow> database \<Rightarrow> database \<Rightarrow> bool" where
  "flow m v db db' \<longleftrightarrow> sound db' \<and> step_effect m 0 db db' \<and> vest_gap db' = vest_gap db + v \<and>
     gpo_time (db_dgpo db') = gpo_time (db_dgpo db) \<and> db_hardforks db' = db_hardforks db"

lemma flow_trans: "flow m v a b \<Longrightarrow> flow m' v' b c \<Longrightarrow> flow (\<lambda>s. m s + m' s) (v + v') a c"
  using step_effect_trans [of m 0 a b m' 0 c] by (simp add: flow_def)

lemma flow_cong: "flow m v a b \<Longrightarrow> (\<And>s. m s = m' s) \<Longrightarrow> v = v' \<Longrightarrow> flow m' v' a b"
  by (simp add: flow_def step_effect_def)

lemma soundD:
  assumes "sound db"
  shows "wf_objects db" "votes_ok db" "wf_state db" "wf_accounts db" "wf_voting db" "distinct (map acc_name (db_accounts db))"
    "delegations_ok db" "a \<in> set (db_accounts db) \<Longrightarrow> covered a"
  using assms votes_okD by (auto simp: sound_def wf_state_def)

lemma flow_refl: "sound db \<Longrightarrow> flow (\<lambda>_. 0) 0 db db"
  using soundD(4) by (simp add: flow_def step_effect_def)

lemma flow_sound: "flow m v a b \<Longrightarrow> sound b"
  by (simp add: flow_def)

lemma flow_hardfork: "flow m v db db' \<Longrightarrow> has_hardfork h db' = has_hardfork h db" "flow m v db db' \<Longrightarrow> head_block_time db' = head_block_time db"
  by (simp_all add: flow_def has_hardfork_def head_block_time_def)

lemma covered_share_view: "share_view a = share_view b \<Longrightarrow> covered a = covered b"
  by (simp add: share_view_def covered_def)

lemma view_members:
  assumes "map h ys = map h xs" "b \<in> set ys"
  obtains a where "a \<in> set xs" "h b = h a"
proof -
  have "h b \<in> set (map h xs)" using assms by (metis image_eqI list.set_map)
  then show thesis using that by auto
qed

lemma shares_view_of:
  assumes m: "map share_view (db_accounts db') = map share_view (db_accounts db)"
    and d: "db_delegations db' = db_delegations db" "db_delegation_expirations db' = db_delegation_expirations db"
      "gpo_total_vesting_shares (db_dgpo db') = gpo_total_vesting_shares (db_dgpo db)"
    and s: "\<forall>a \<in> set (db_accounts db). covered a" "delegations_ok db"
  shows "\<forall>a \<in> set (db_accounts db'). covered a" "delegations_ok db'" "vest_gap db' = vest_gap db"
proof -
  show "\<forall>a \<in> set (db_accounts db'). covered a" using s(1) by (blast elim: view_members [OF m] dest: covered_share_view)
  have *: "delegated_by n db' = delegated_by n db" "delegated_to n db' = delegated_to n db" for n
    by (simp_all add: delegated_by_def delegated_to_def d)
  have "acc_delegated_vesting_shares b = delegated_by (acc_name b) db \<and> acc_received_vesting_shares b = delegated_to (acc_name b) db"
    if b: "b \<in> set (db_accounts db')" for b
  proof -
    obtain a where "a \<in> set (db_accounts db)" "share_view b = share_view a" using view_members [OF m b] .
    then show ?thesis using s(2) by (auto simp: delegations_ok_def share_view_def)
  qed
  moreover have "acc_name ` set (db_accounts db') = acc_name ` set (db_accounts db)"
  proof -
    have "map acc_name xs = map fst (map share_view xs)" for xs by (simp add: share_view_def)
    then show ?thesis using m by (metis list.set_map)
  qed
  ultimately show "delegations_ok db'" using s(2) by (simp add: delegations_ok_def parties_exist_def * d)
  have e: "map acc_vesting_shares xs = map (\<lambda>(_, x, _). x) (map share_view xs)" for xs by (simp add: share_view_def)
  show "vest_gap db' = vest_gap db" unfolding vest_gap_def e m d ..
qed

lemma shares_view:
  assumes "map share_view (db_accounts db') = map share_view (db_accounts db)"
    and "db_delegations db' = db_delegations db" "db_delegation_expirations db' = db_delegation_expirations db"
      "gpo_total_vesting_shares (db_dgpo db') = gpo_total_vesting_shares (db_dgpo db)"
    and "sound db"
  shows "\<forall>a \<in> set (db_accounts db'). covered a" "delegations_ok db'" "vest_gap db' = vest_gap db"
  using shares_view_of [OF assms(1-4)] soundD(7,8) [OF assms(5)] by blast+

lemma flow_unmoved:
  assumes "sound db" "unmoved db db'" "wf_objects db'" "votes_ok db'"
  shows "flow (\<lambda>_. 0) 0 db db'"
  using shares_view [OF _ _ _ _ assms(1), of db'] assms(2-4) by (simp add: flow_def sound_def unmoved_def)

lemma flow_vote: "sound db \<Longrightarrow> vote_step db db' \<Longrightarrow> flow (\<lambda>_. 0) 0 db db'"
  by (rule flow_unmoved) (auto simp: vote_step_def)

lemma flow_state:
  assumes "sound db" "state_step m db db'"
  shows "flow m 0 db db'"
proof -
  have t: "same_tallies db db'" "wf_objects db'" "step_effect m 0 db db'" using assms(2) by (auto simp: state_step_def)
  let ?k = "\<lambda>(n, p, v, vs, r). (n, v, r)"
  have e: "map share_view xs = map ?k (map voter_view xs)" for xs by (simp add: voter_view_def share_view_def)
  have "map share_view (db_accounts db') = map share_view (db_accounts db)" unfolding e using t(1) by (simp only: same_tallies_def)
  then show ?thesis
    using shares_view [OF _ _ _ _ assms(1), of db'] votes_ok_same_tallies [OF t(1)] t assms(1)
    by (simp add: flow_def sound_def same_tallies_def)
qed

text \<open>
  A change of the shares of an account, with whatever else changes in the account and in the global
  properties, passed on to the proxies and witnesses.
\<close>

lemma flow_vests_frame:
  assumes s: "sound db" and m: "modify_account n f db = Inr db1" and g: "modify_dgpo gf db1 = Inr db2"
    and f: "\<And>a a'. f a = Inr a' \<Longrightarrow> a \<in> set (db_accounts db) \<Longrightarrow> acc_name a = n \<Longrightarrow>
      acc_name a' = acc_name a \<and> acc_proxy a' = acc_proxy a \<and> acc_proxied_vsf_votes a' = acc_proxied_vsf_votes a \<and>
      acc_vesting_shares a' = acc_vesting_shares a + x \<and> covered a' \<and>
      acc_delegated_vesting_shares a' = acc_delegated_vesting_shares a \<and>
      acc_received_vesting_shares a' = acc_received_vesting_shares a \<and>
      (\<forall>s. account_holds s a' = account_holds s a + h s) \<and> acc_reward_vesting_delta a' = acc_reward_vesting_delta a + p"
    and gf: "\<And>g'. gf (db_dgpo db) = Inr g' \<Longrightarrow> gpo_time g' = gpo_time (db_dgpo db) \<and>
      (\<forall>s. funds s g' - token_supply s g' = funds s (db_dgpo db) - token_supply s (db_dgpo db) + k s) \<and>
      gpo_total_vesting_shares g' = gpo_total_vesting_shares (db_dgpo db) + t \<and>
      gpo_pending_rewarded_vesting_delta g' = gpo_pending_rewarded_vesting_delta (db_dgpo db) + p"
    and adj: "adjust_proxied_witness_votes_share x 0 n db2 = Inr db3 \<or> x = 0 \<and> db3 = db2"
  shows "flow (\<lambda>s. h s + k s) (x - t) db db3 \<and> vote_frame db2 db3"
proof -
  note sd = soundD [OF s]
  from m obtain a a' where a: "find_by acc_name n (db_accounts db) = Some a" "f a = Inr a'"
    and db1: "db1 = db\<lparr>db_accounts := replace_by acc_name n a' (db_accounts db)\<rparr>" by (rule modify_account_Inr)
  from g obtain g' where g': "gf (db_dgpo db) = Inr g'" and db2: "db2 = db1\<lparr>db_dgpo := g'\<rparr>"
    by (rule modify_dgpo_Inr) (simp add: db1)
  have an: "a \<in> set (db_accounts db)" "acc_name a = n" using find_by_Some [OF a(1)] by auto
  note fa = f [OF a(2) an] and gg = gf [OF g']
  have e1: "step_effect h p db db1" by (rule step_effect_modify [OF sd(4) m]) (use f in auto)
  have w1: "wf_accounts db1" using e1 by (simp add: step_effect_def)
  have "step_effect k (- p) db1 db2" by (rule step_effect_dgpo [OF w1 g]) (use gf in \<open>auto simp: db1\<close>)
  from step_effect_trans [OF e1 this] have e2: "step_effect (\<lambda>s. h s + k s) 0 db db2" by simp
  have v2: "vest_gap db2 = vest_gap db + (x - t)"
    using fa gg sum_replace [OF sd(6) a(1), of acc_vesting_shares a'] by (simp add: vest_gap_def db2 db1)
  have o2: "wf_objects db2" using sd(1) by (simp add: db2 db1 wf_objects_def)
  have acc: "db_accounts db2 = replace_by acc_name n a' (db_accounts db)" "db_witnesses db2 = db_witnesses db"
    "db_witness_votes db2 = db_witness_votes db" by (simp_all add: db2 db1)
  have c2: "\<forall>b \<in> set (db_accounts db2). covered b" using sd(8) fa by (auto simp: acc replace_by_def)
  have d2: "delegations_ok db2"
  proof -
    have "acc_name a' = n" using fa an by simp
    then have "map acc_name (db_accounts db2) = map acc_name (db_accounts db)" by (simp add: acc)
    then have "acc_name ` set (db_accounts db2) = acc_name ` set (db_accounts db)" by (metis list.set_map)
    then have "parties_exist db2" using sd(7) by (simp add: delegations_ok_def parties_exist_def db2 db1)
    then show ?thesis using sd(7) fa an by (auto simp: delegations_ok_def delegated_by_def delegated_to_def acc replace_by_def db2 db1)
  qed
  have t2: "gpo_time (db_dgpo db2) = gpo_time (db_dgpo db)" "db_hardforks db2 = db_hardforks db" using gg by (simp_all add: db2 db1)
  have ok2: "flow (\<lambda>s. h s + k s) (x - t) db db2" if "votes_ok db2"
    using that e2 v2 o2 c2 d2 t2 by (simp add: flow_def sound_def)
  from adj show ?thesis
  proof
    assume adj: "adjust_proxied_witness_votes_share x 0 n db2 = Inr db3"
    have "acc_name a' = acc_name a" "acc_proxy a' = acc_proxy a" "acc_proxied_vsf_votes a' = acc_proxied_vsf_votes a"
      "acc_vesting_shares a' = acc_vesting_shares a + x" using fa by auto
    note vc = vests_changed [OF sd(2) a(1) this acc adj]
    note u = unmoved_frame [OF vc(2,3)]
    have o3: "wf_objects db3" using o2 wf_objects_same [OF vote_frameD(5) [OF vc(2)]] by simp
    have us: "map share_view (db_accounts db3) = map share_view (db_accounts db2)" "db_delegations db3 = db_delegations db2"
      "db_delegation_expirations db3 = db_delegation_expirations db2"
      "gpo_total_vesting_shares (db_dgpo db3) = gpo_total_vesting_shares (db_dgpo db2)" using u by (auto simp: unmoved_def)
    note sv = shares_view_of [OF us c2 d2]
    have "step_effect (\<lambda>s. h s + k s) 0 db db3" using e2 u by (simp add: unmoved_def step_effect_def)
    then show ?thesis using vc(1,2) o3 v2 t2 u sv by (simp add: flow_def sound_def unmoved_def)
  next
    assume z: "x = 0 \<and> db3 = db2"
    then have "tally_view a' = tally_view a" using fa by (simp add: tally_view_def)
    then have "map tally_view (db_accounts db2) = map tally_view (db_accounts db)"
      using map_replace_same [OF sd(6) a(1)] acc(1) by simp
    from votes_ok_view [OF this sd(2) acc(2,3)] have "votes_ok db2" .
    then show ?thesis using z ok2 by simp
  qed
qed

lemmas flow_vests = flow_vests_frame [THEN conjunct1]

section \<open>Flows of the evaluators\<close>

lemma vesting_price_converts:
  assumes "get_vesting_share_price g = Inr p" "asset_mul_price a p = Inr b"
  shows "symbol a = DELTA_SYMBOL \<Longrightarrow> symbol b = VESTS_SYMBOL" "symbol a = VESTS_SYMBOL \<Longrightarrow> symbol b = DELTA_SYMBOL"
  using assms by (auto simp: get_vesting_share_price_def mk_price_def asset_mul_price_def convert_at_def Let_def split: if_splits)

lemma reward_price_converts:
  assumes "get_reward_vesting_share_price g = Inr p" "asset_mul_price a p = Inr b" "symbol a = DELTA_SYMBOL"
  shows "symbol b = VESTS_SYMBOL"
  using assms by (auto simp: get_reward_vesting_share_price_def mk_price_def asset_mul_price_def convert_at_def Let_def split: if_splits)

lemma neutral_mana: "neutral (\<lambda>a. res_bind (regenerate_voting_mana now a) (\<lambda>a. Inr (spend_voting_mana x a)))"
  by (auto simp: neutral_def regenerate_voting_mana_def spend_voting_mana_def account_holds_def)

lemma modify_dgpo_id: "modify_dgpo Inr db = Inr db"
  by (simp add: modify_dgpo_def)

text \<open>
  Shares that an account buys: their price goes to the vesting fund. The conversion stores an
  unsigned quotient in a signed amount, so the shares are nonnegative only if they fit.
\<close>

definition shares_fit :: "asset \<Rightarrow> dynamic_global_property_object \<Rightarrow> bool" where
  "shares_fit liquid g \<longleftrightarrow>
     (case res_bind (get_vesting_share_price g) (asset_mul_price liquid) of Inl _ \<Rightarrow> True | Inr nv \<Rightarrow> 0 \<le> amount nv)"

lemma create_vesting_flow:
  assumes s: "sound db" and h: "has_hardfork 20 db" and fit: "shares_fit liquid (db_dgpo db)"
    and r: "create_vesting n liquid False db = Inr (nv, db')"
  shows "flow (\<lambda>s. coin s liquid) 0 db db'"
proof -
  from r h obtain p db0 db1 db2 where sy: "symbol liquid = DELTA_SYMBOL"
    and p: "get_vesting_share_price (db_dgpo db) = Inr p" "asset_mul_price liquid p = Inr nv"
    and m: "modify_account n (\<lambda>a. res_bind (regenerate_voting_mana (head_block_time db) a) (\<lambda>a.
              Inr (spend_voting_mana (- amount nv) a))) db = Inr db0"
    and b: "adjust_balance n nv db0 = Inr db1"
    and g: "modify_dgpo (\<lambda>g. res_bind (plus_asset DELTA_SYMBOL (gpo_total_vesting_fund_delta g) liquid) (\<lambda>d.
              res_bind (plus_asset VESTS_SYMBOL (gpo_total_vesting_shares g) nv) (\<lambda>v.
              Inr (g\<lparr>gpo_total_vesting_fund_delta := d, gpo_total_vesting_shares := v\<rparr>)))) db1 = Inr db2"
    and adj: "adjust_proxied_witness_votes_share (amount nv) 0 n db2 = Inr db'"
    by (auto simp: create_vesting_def)
  have sv: "symbol nv = VESTS_SYMBOL" using vesting_price_converts(1) [OF p sy] .
  note st = state_step_neutral [OF soundD(3) [OF s] m neutral_mana]
  note f0 = flow_state [OF s st(1)]
  have s0: "sound db0" using f0 by (rule flow_sound)
  have "has_hardfork 20 db0" using h same_objectsD(2) [OF st(2)] by (simp add: has_hardfork_def)
  then have b': "modify_account n (\<lambda>a. res_bind (safe_add (acc_vesting_shares a) (amount nv)) (\<lambda>v.
      fc_assert (v \<ge> 0) (Inr (a\<lparr>acc_vesting_shares := v\<rparr>)))) db0 = Inr db1"
    using b sv by (simp add: adjust_balance_def modify_balance_def)
  have nv0: "0 \<le> amount nv" using fit p by (simp add: shares_fit_def)
  have "flow (\<lambda>s. (if s = VESTS_SYMBOL then amount nv else 0) +
      (if s = DELTA_SYMBOL then amount liquid else if s = VESTS_SYMBOL then - amount nv else 0)) (amount nv - amount nv) db0 db'"
    by (rule flow_vests [OF s0 b' g _ _ disjI1 [OF adj], where p = 0])
      (use nv0 covered_le in \<open>auto simp: covered_simps soundD(8) [OF s0] account_holds_def funds_def token_supply_def
         dest!: safe_add_le plus_asset_Inr\<close>)
  from flow_trans [OF f0 this] show ?thesis by (rule flow_cong) (simp_all add: coin_def sy)
qed

text \<open>
  Shares waiting to be claimed: their value is pending. When they round to zero, the reward is
  credited as liquid and as pending value.
\<close>

lemma create_vesting_reward_flow:
  assumes s: "sound db" and r: "create_vesting n liquid True db = Inr (nv, db')" and z: "amount nv \<noteq> 0"
  shows "flow (\<lambda>s. coin s liquid) 0 db db'"
proof -
  from r obtain p db1 where sy: "symbol liquid = DELTA_SYMBOL"
    and p: "get_reward_vesting_share_price (db_dgpo db) = Inr p" "asset_mul_price liquid p = Inr nv"
    and b: "adjust_reward_balance n liquid nv db = Inr db1"
    and g: "modify_dgpo (\<lambda>g. res_bind (plus_asset VESTS_SYMBOL (gpo_pending_rewarded_vesting_shares g) nv) (\<lambda>v.
              res_bind (plus_asset DELTA_SYMBOL (gpo_pending_rewarded_vesting_delta g) liquid) (\<lambda>d.
              Inr (g\<lparr>gpo_pending_rewarded_vesting_shares := v, gpo_pending_rewarded_vesting_delta := d\<rparr>)))) db1 = Inr db'"
    by (auto simp: create_vesting_def)
  have sv: "symbol nv = VESTS_SYMBOL" using reward_price_converts [OF p sy] .
  have l1: "ledger_step (\<lambda>s. coin s nv) (amount liquid) db db1"
    using adjust_reward_balance_step [OF soundD(4) [OF s] b] z by simp
  have l2: "ledger_step (\<lambda>s. if s = VESTS_SYMBOL then - amount nv else if s = DELTA_SYMBOL then amount liquid else 0) (- amount liquid) db1 db'"
    by (rule ledger_step_dgpo [OF ledger_stepD(4) [OF l1] g])
      (auto simp: funds_def token_supply_def dest!: plus_asset_Inr)
  have "ledger_step (\<lambda>s. coin s liquid) 0 db db'"
    by (rule ledger_step_cong [OF ledger_step_trans [OF l1 l2]]) (auto simp: coin_def sy sv)
  then show ?thesis by (intro flow_state [OF s] state_step_ledger soundD(3) [OF s])
qed

lemma adjust_balance_fund:
  assumes "adjust_balance n d db = Inr db'"
  shows "gpo_total_vesting_fund_delta (db_dgpo db') = gpo_total_vesting_fund_delta (db_dgpo db)"
proof -
  have a: "gpo_total_vesting_fund_delta (db_dgpo y) = gpo_total_vesting_fund_delta (db_dgpo x)" if "modify_account n f x = Inr y" for f x y
    using that by (auto elim!: modify_account_Inr)
  have p: "gpo_total_vesting_fund_delta (db_dgpo y) = gpo_total_vesting_fund_delta (db_dgpo x)" if "pay_interest n paid x = Inr y" for paid x y
    using that by (auto simp: pay_interest_def push_virtual_operation_def Let_def elim!: modify_dgpo_Inr split: option.splits if_splits)
  from assms obtain f paid db1 where "modify_account n f db = Inr db' \<or> pay_interest n paid db = Inr db1 \<and> modify_account n f db1 = Inr db'"
    unfolding adjust_balance_def modify_balance_def by (auto split: if_splits)
  then show ?thesis using a p by metis
qed

lemma pay_for_vesting_flow:
  assumes s: "sound db" and h: "has_hardfork 20 db" and fit: "shares_fit x (db_dgpo db)"
    and gb: "get_balance f (symbol x) = Inr b" and neg: "asset_neg x = Inr neg"
    and a: "adjust_balance m neg db = Inr db1" and c: "create_vesting n x False db1 = Inr (nv, db')"
  shows "flow (\<lambda>_. 0) 0 db db'"
proof -
  have "symbol neg \<in> {DELTA_SYMBOL, DBD_SYMBOL}" using get_balance_liquid [OF gb] asset_neg_Inr [OF neg] by simp
  note st = state_step_adjust [OF soundD(3) [OF s] a this]
  note f1 = flow_state [OF s st(1)]
  have "get_vesting_share_price (db_dgpo db1) = get_vesting_share_price (db_dgpo db)"
    using st(3) adjust_balance_fund [OF a] by (simp add: get_vesting_share_price_def same_tallies_def)
  then have "shares_fit x (db_dgpo db1)" using fit by (simp add: shares_fit_def)
  note f2 = create_vesting_flow [OF flow_sound [OF f1] flow_hardfork(1) [OF f1, THEN iffD2, OF h] this c]
  from flow_trans [OF f1 f2] show ?thesis by (rule flow_cong) (simp_all add: coin_neg [OF neg])
qed

lemma transfer_to_vesting_flow:
  assumes "sound db" and "has_hardfork 20 db" and "shares_fit (tv_amount op) (db_dgpo db)"
    and r: "transfer_to_vesting_evaluator op db = Inr db'"
  shows "flow (\<lambda>_. 0) 0 db db'"
  using r unfolding transfer_to_vesting_evaluator_def by (auto intro: pay_for_vesting_flow [OF assms(1-3)])

text \<open>A change of an account that leaves its amounts and proxies.\<close>

lemma flow_account:
  assumes s: "sound db" and m: "modify_account n f db = Inr db'"
    and f: "\<And>a a'. f a = Inr a' \<Longrightarrow> find_by acc_name n (db_accounts db) = Some a \<Longrightarrow> covered a \<Longrightarrow> tally_view a' = tally_view a \<and>
      covered a' \<and> acc_delegated_vesting_shares a' = acc_delegated_vesting_shares a \<and>
      acc_received_vesting_shares a' = acc_received_vesting_shares a \<and> (\<forall>s. account_holds s a' = account_holds s a) \<and>
      acc_reward_vesting_delta a' = acc_reward_vesting_delta a"
  shows "flow (\<lambda>_. 0) 0 db db'"
proof -
  have "flow (\<lambda>s. 0 + 0) (0 - 0) db db'"
  proof (rule flow_vests [OF s m modify_dgpo_id, where p = 0])
    fix a a' assume a: "f a = Inr a'" "a \<in> set (db_accounts db)" "acc_name a = n"
    then have "find_by acc_name n (db_accounts db) = Some a" using find_of_member [OF soundD(6) [OF s]] by auto
    from f [OF a(1) this soundD(8) [OF s a(2)]]
    show "acc_name a' = acc_name a \<and> acc_proxy a' = acc_proxy a \<and> acc_proxied_vsf_votes a' = acc_proxied_vsf_votes a \<and>
      acc_vesting_shares a' = acc_vesting_shares a + 0 \<and> covered a' \<and>
      acc_delegated_vesting_shares a' = acc_delegated_vesting_shares a \<and>
      acc_received_vesting_shares a' = acc_received_vesting_shares a \<and>
      (\<forall>s. account_holds s a' = account_holds s a + 0) \<and> acc_reward_vesting_delta a' = acc_reward_vesting_delta a + 0"
      by (simp add: tally_view_def)
  qed auto
  then show ?thesis by simp
qed

lemma safe_div_nonneg: "safe_div a b = Inr c \<Longrightarrow> \<not> a < 0 \<Longrightarrow> 0 < b \<Longrightarrow> 0 \<le> c"
  by (drule safe_div_Inr) (auto simp: signed_divide_int_def sgn_if pos_imp_zdiv_nonneg_iff)

text \<open>The time in seconds is far enough from its maximum for the next interval.\<close>

definition time_left :: "database \<Rightarrow> bool" where
  "time_left db \<longleftrightarrow> head_block_time db + 604800 < time_point_sec_maximum"

lemma covered_stop:
  "covered a \<Longrightarrow> t = time_point_sec_maximum \<Longrightarrow>
   covered (a\<lparr>acc_vesting_withdraw_rate := 0, acc_next_vesting_withdrawal := t, acc_to_withdraw := 0, acc_withdrawn := 0\<rparr>)"
  by (simp add: covered_def)

lemma covered_start:
  "covered a \<Longrightarrow> 0 < x \<Longrightarrow> x \<le> acc_vesting_shares a - acc_delegated_vesting_shares a \<Longrightarrow> 0 < rate \<Longrightarrow> t < time_point_sec_maximum \<Longrightarrow>
   covered (a\<lparr>acc_vesting_withdraw_rate := rate, acc_next_vesting_withdrawal := t, acc_to_withdraw := x, acc_withdrawn := 0\<rparr>)"
  by (simp add: covered_def)

lemma withdraw_vesting_flow:
  assumes s: "sound db" and t: "time_left db" and r: "withdraw_vesting_evaluator op db = Inr db'"
  shows "flow (\<lambda>_. 0) 0 db db'"
proof -
  let ?x = "amount (wv_vesting_shares op)" and ?t = "add_seconds (head_block_time db) 604800"
  have t': "?t < time_point_sec_maximum" using t by (simp add: time_left_def add_seconds_def)
  from r obtain a where a: "find_by acc_name (wv_account op) (db_accounts db) = Some a"
    by (auto simp: withdraw_vesting_evaluator_def get_account_def)
  have c: "covered a" using soundD(8) [OF s] find_by_Some [OF a] by blast
  note r' = r [unfolded withdraw_vesting_evaluator_def get_account_def a of_option_simps res_bind_simps]
  show ?thesis
  proof (cases "?x \<le> 0")
    case True
    then show ?thesis using r' flow_refl [OF s]
      by (auto simp: tally_view_def account_holds_def intro!: covered_stop elim!: flow_account [OF s] split: if_splits)
  next
    case False
    then have own: "?x \<le> acc_vesting_shares a - acc_delegated_vesting_shares a" using r'
      by (auto dest!: safe_sub_Inr)
    from r' False obtain k where m: "modify_account (wv_account op) (\<lambda>a.
             res_bind (safe_div ?x (if has_hardfork 16 db then 13 else 104)) (\<lambda>rate.
             let rate = (if rate = 0 then 1 else rate)
             in fc_assert (has_hardfork 5 db \<longrightarrow> k \<noteq> rate)
                  (Inr (a\<lparr>acc_vesting_withdraw_rate := rate, acc_next_vesting_withdrawal := ?t,
                          acc_to_withdraw := ?x, acc_withdrawn := 0\<rparr>)))) db = Inr db'"
      by auto
    have nn: "0 \<le> q" if "safe_div ?x (if has_hardfork 16 db then 13 else 104) = Inr q" for q
      using safe_div_nonneg [OF that] False by (simp split: if_splits)
    show ?thesis
      by (rule flow_account [OF s m])
        (use False own a t' c in \<open>auto simp: tally_view_def account_holds_def Let_def dest!: nn intro!: covered_start\<close>)
  qed
qed

text \<open>The percentages are added up in 16 bits; they never reach the point where the sum wraps.\<close>

lemma unat_sum_list_16: "unat (sum_list ws :: 16 word) = sum_list (map unat ws) mod 2 ^ 16"
proof (induction ws)
  case (Cons w ws)
  have "unat (w + sum_list ws) = (unat w + unat (sum_list ws)) mod 2 ^ 16" by (simp add: unat_word_ariths)
  then show ?case by (simp add: Cons mod_simps)
qed simp

lemma sum_list_insort: "sum_list (map f (insort_key k x xs)) = f x + sum_list (map f xs)"
  for f :: "'b \<Rightarrow> 'a :: comm_monoid_add"
  by (induction xs) (simp_all add: add.left_commute)

lemma sum_list_sort: "sum_list (map f (sort_key k xs)) = sum_list (map f xs)"
  for f :: "'b \<Rightarrow> 'a :: comm_monoid_add"
  by (induction xs) (simp_all add: sum_list_insort)

lemma routes_sum: "sum_list (map f (routes_of n db)) = sum_list (map f (filter (\<lambda>r. rt_from_account r = n \<and> rt_to_account r \<noteq> []) (db_routes db)))"
  for f :: "withdraw_vesting_route_object \<Rightarrow> 'a :: comm_monoid_add"
  unfolding routes_of_def by (rule sum_list_sort)

lemma accepted_routes:
  assumes "sum_list (map rt_percent (routes_of n db)) \<le> 10000" "route_total n (db_routes db) < 65536"
  shows "route_total n (db_routes db) \<le> 10000"
proof -
  let ?p = "map rt_percent (filter (\<lambda>r. rt_from_account r = n \<and> rt_to_account r \<noteq> []) (db_routes db))"
  have "sum_list (map unat ?p) = route_total n (db_routes db)" by (simp add: route_total_def comp_def)
  then have "unat (sum_list ?p) = route_total n (db_routes db)" using assms(2) by (simp add: unat_sum_list_16)
  then show ?thesis using assms(1) by (simp add: routes_sum word_le_nat_alt)
qed

lemma route_total_simps [simp]:
  "route_total n [] = 0"
  "route_total n (r # rs) = (if rt_from_account r = n \<and> rt_to_account r \<noteq> [] then unat (rt_percent r) else 0) + route_total n rs"
  "route_total n (rs @ rs') = route_total n rs + route_total n rs'"
  by (simp_all add: route_total_def)

lemma route_total_remove: "route_total n (remove_by route_key k rs) \<le> route_total n rs"
  by (induction rs) (auto simp: remove_by_def)

lemma route_total_replace:
  "distinct (map route_key rs) \<Longrightarrow> route_total n (replace_by route_key (route_key r) r rs) \<le>
    route_total n rs + (if rt_from_account r = n then unat (rt_percent r) else 0)"
proof (induction rs)
  case (Cons x rs)
  show ?case
  proof (cases "route_key x = route_key r")
    case True
    then have "route_key y \<noteq> route_key r" if "y \<in> set rs" for y using Cons.prems that by (metis distinct.simps(2) image_eqI list.set_map list.simps(9))
    then have "map (\<lambda>y. if route_key y = route_key r then r else y) rs = rs" by (intro map_idI) auto
    then show ?thesis using True by (simp add: replace_by_def route_key_def)
  next
    case False
    then show ?thesis using Cons by (simp add: replace_by_def)
  qed
qed (simp add: replace_by_def)

lemma wf_routes_change:
  assumes "wf_routes (db_routes db)" "distinct (map route_key xs)"
    and le: "\<And>m. route_total m xs \<le> route_total m (db_routes db) + (if m = n then unat w else 0)" "unat w \<le> 10000"
    and ok: "sum_list (map rt_percent (routes_of n db')) \<le> 10000" "db_routes db' = xs"
  shows "wf_routes xs"
proof -
  have o: "route_total m (db_routes db) \<le> 10000" for m using assms(1) by (simp add: wf_routes_def)
  have "route_total n xs < 65536" using le(1) [of n] le(2) o [of n] by simp
  then have "route_total n xs \<le> 10000" using accepted_routes [OF ok(1)] ok(2) by simp
  moreover have "route_total m xs \<le> 10000" if "m \<noteq> n" for m using le(1) [of m] o [of m] that by simp
  ultimately show ?thesis using assms(2) by (metis wf_routes_def)
qed

lemma state_step_routes: "wf_state db \<Longrightarrow> wf_routes xs \<Longrightarrow> state_step (\<lambda>_. 0) db (db\<lparr>db_routes := xs\<rparr>)"
  by (simp add: state_step_def step_effect_def wf_state_def wf_objects_def wf_accounts_def same_tallies_def surplus_def
    pending_surplus_def locked_def)

lemma neutral_routes: "neutral (\<lambda>a. Inr (a\<lparr>acc_withdraw_routes := g a\<rparr>))"
  by (auto simp: neutral_def account_holds_def)

lemma state_step_route_count:
  assumes w: "wf_state db" "wf_routes xs"
    and m: "modify_account n (\<lambda>a. Inr (a\<lparr>acc_withdraw_routes := g a\<rparr>)) (db\<lparr>db_routes := xs\<rparr>) = Inr db'"
  shows "state_step (\<lambda>_. 0) db db'"
proof -
  note a = state_step_routes [OF w]
  from state_step_trans [OF a state_step_neutral(1) [OF state_step_wf [OF a] m neutral_routes]] show ?thesis by simp
qed

lemma modify_routes: "modify_account n f (db\<lparr>db_routes := xs\<rparr>) = Inr db' \<Longrightarrow> db_routes db' = xs"
  by (auto elim!: modify_account_Inr)

lemma set_withdraw_vesting_route_step:
  assumes w: "wf_state db" and v: "set_withdraw_vesting_route_validate op = Inr ()"
    and r: "set_withdraw_vesting_route_evaluator op db = Inr db'"
  shows "state_step (\<lambda>_. 0) db db'"
proof -
  have p: "unat (sw_percent op) \<le> 10000" using v by (auto simp: set_withdraw_vesting_route_validate_def check_def)
  have wr: "wf_routes (db_routes db)" using w by (simp add: wf_state_def wf_objects_def)
  then have d: "distinct (map route_key (db_routes db))" by (simp add: wf_routes_def)
  from r obtain f t where f: "get_account (sw_from_account op) db = Inr f" and t: "get_account (sw_to_account op) db = Inr t"
    by (auto simp: set_withdraw_vesting_route_evaluator_def)
  define route where "route = \<lparr>rt_from_account = acc_name f, rt_to_account = acc_name t, rt_percent = sw_percent op, rt_auto_vest = sw_auto_vest op\<rparr>"
  have rf: "rt_from_account route = acc_name f" "rt_percent route = sw_percent op" by (simp_all add: route_def)
  from r have ok: "sum_list (map rt_percent (routes_of (acc_name f) db')) \<le> 10000"
    by (auto simp: set_withdraw_vesting_route_evaluator_def f t Let_def)
  note wc = wf_routes_change [OF wr _ _ p ok]
  from r consider
      (add) xs where "create_by route_key route (db_routes db) = Inr xs"
        "modify_account (acc_name f) (\<lambda>a. Inr (a\<lparr>acc_withdraw_routes := acc_withdraw_routes a + 1\<rparr>)) (db\<lparr>db_routes := xs\<rparr>) = Inr db'"
    | (del) "modify_account (acc_name f) (\<lambda>a. Inr (a\<lparr>acc_withdraw_routes := acc_withdraw_routes a - 1\<rparr>))
        (db\<lparr>db_routes := remove_by route_key (route_key route) (db_routes db)\<rparr>) = Inr db'"
    | (upd) "db' = db\<lparr>db_routes := replace_by route_key (route_key route) route (db_routes db)\<rparr>"
    by (auto simp: set_withdraw_vesting_route_evaluator_def f t Let_def route_def split: option.splits if_splits)
  then show ?thesis
  proof cases
    case add
    have xs: "xs = db_routes db @ [route]" "distinct (map route_key xs)" using create_byD [OF add(1)] d by auto
    have "wf_routes xs" by (rule wc [OF xs(2) _ modify_routes [OF add(2)]]) (simp add: xs(1) rf)
    then show ?thesis by (rule state_step_route_count [OF w _ add(2)])
  next
    case del
    have "wf_routes (remove_by route_key (route_key route) (db_routes db))"
      by (rule wc [OF _ _ modify_routes [OF del]])
        (use d in \<open>auto intro: trans_le_add1 [OF route_total_remove] route_total_remove\<close>)
    then show ?thesis by (rule state_step_route_count [OF w _ del])
  next
    case upd
    have "route_total m (replace_by route_key (route_key route) route (db_routes db)) \<le>
        route_total m (db_routes db) + (if m = acc_name f then unat (sw_percent op) else 0)" for m
      using route_total_replace [OF d, of m route] by (auto simp: rf split: if_splits)
    then have "wf_routes (replace_by route_key (route_key route) route (db_routes db))"
      by (rule wc [rotated]) (use d upd in auto)
    then show ?thesis unfolding upd by (rule state_step_routes [OF w])
  qed
qed

lemma claim_reward_balance_flow:
  assumes s: "sound db" and v: "claim_reward_balance_validate op = Inr ()" and r: "claim_reward_balance_evaluator op db = Inr db'"
  shows "flow (\<lambda>_. 0) 0 db db'"
proof -
  let ?x = "amount (cb_reward_vests op)" and ?n = "cb_account op" and ?z = "mk_asset 0 VESTS_SYMBOL"
  have x0: "0 \<le> ?x" using v by (auto simp: claim_reward_balance_validate_def check_def)
  from r obtain mv nd nb db1 db2 db3 db4 db5 db6 where
      sy: "symbol (cb_reward_delta op) = DELTA_SYMBOL" "symbol (cb_reward_dbd op) = DBD_SYMBOL" "symbol (cb_reward_vests op) = VESTS_SYMBOL"
    and nd: "asset_neg (cb_reward_delta op) = Inr nd" and r1: "adjust_reward_balance ?n nd ?z db = Inr db1"
    and nb: "asset_neg (cb_reward_dbd op) = Inr nb" and r2: "adjust_reward_balance ?n nb ?z db1 = Inr db2"
    and r3: "adjust_balance ?n (cb_reward_delta op) db2 = Inr db3" and r4: "adjust_balance ?n (cb_reward_dbd op) db3 = Inr db4"
    and m: "modify_account ?n (\<lambda>a.
           res_bind (if has_hardfork 20 db then
                       res_bind (regenerate_voting_mana (head_block_time db) a) (\<lambda>a.
                       Inr (spend_voting_mana (- ?x) a))
                     else Inr a) (\<lambda>a.
           res_bind (plus_asset VESTS_SYMBOL (acc_vesting_shares a) (cb_reward_vests op)) (\<lambda>v.
           res_bind (minus_asset VESTS_SYMBOL (acc_reward_vesting_balance a) (cb_reward_vests op)) (\<lambda>r.
           res_bind (safe_sub (acc_reward_vesting_delta a) mv) (\<lambda>d.
           Inr (a\<lparr>acc_vesting_shares := v, acc_reward_vesting_balance := r, acc_reward_vesting_delta := d\<rparr>)))))) db4 = Inr db5"
    and g: "modify_dgpo (\<lambda>g.
           res_bind (plus_asset VESTS_SYMBOL (gpo_total_vesting_shares g) (cb_reward_vests op)) (\<lambda>v.
           res_bind (safe_add (gpo_total_vesting_fund_delta g) mv) (\<lambda>f.
           res_bind (minus_asset VESTS_SYMBOL (gpo_pending_rewarded_vesting_shares g) (cb_reward_vests op)) (\<lambda>pv.
           res_bind (safe_sub (gpo_pending_rewarded_vesting_delta g) mv) (\<lambda>pd.
           Inr (g\<lparr>gpo_total_vesting_shares := v, gpo_total_vesting_fund_delta := f,
                  gpo_pending_rewarded_vesting_shares := pv, gpo_pending_rewarded_vesting_delta := pd\<rparr>)))))) db5 = Inr db6"
    and adj: "adjust_proxied_witness_votes_share ?x 0 ?n db6 = Inr db'"
    unfolding claim_reward_balance_evaluator_def by auto
  have l1: "ledger_step (\<lambda>s. coin s nd) 0 db db1" using adjust_reward_balance_step [OF soundD(4) [OF s] r1] by simp
  have l2: "ledger_step (\<lambda>s. coin s nb) 0 db1 db2" using adjust_reward_balance_step [OF ledger_stepD(4) [OF l1] r2] by simp
  note l3 = adjust_balance_step [OF ledger_stepD(4) [OF l2] r3]
  note l3 = l3 [unfolded sy(1), simplified]
  note l4 = adjust_balance_step [OF ledger_stepD(4) [OF l3] r4, unfolded sy(2), simplified]
  have "ledger_step (\<lambda>_. 0) 0 db db4"
    by (rule ledger_step_cong [OF ledger_step_trans [OF ledger_step_trans [OF ledger_step_trans [OF l1 l2] l3] l4]])
      (auto simp: coin_neg [OF nd] coin_neg [OF nb])
  then have f1: "flow (\<lambda>_. 0) 0 db db4" by (intro flow_state [OF s] state_step_ledger soundD(3) [OF s])
  note s4 = flow_sound [OF f1]
  have "flow (\<lambda>s. 0 + 0) (?x - ?x) db4 db'"
    by (rule flow_vests [OF s4 m g _ _ disjI1 [OF adj], where p = "- mv"])
      (use x0 covered_le in \<open>auto simp: covered_simps soundD(8) [OF s4] account_holds_def funds_def token_supply_def
         regenerate_voting_mana_def spend_voting_mana_def dest!: safe_add_Inr safe_sub_Inr plus_asset_le minus_asset_Inr split: if_splits\<close>)
  from flow_trans [OF f1 this] show ?thesis by (rule flow_cong) simp_all
qed

section \<open>Withdrawals\<close>

text \<open>
  What the processing of a withdrawal keeps of the accounts: their names and order, and, outside a
  set of names, the schedule of the withdrawal; shares there only grow.
\<close>

definition keeps_account :: "account_name_type set \<Rightarrow> account_object \<Rightarrow> account_object \<Rightarrow> bool" where
  "keeps_account ns a b \<longleftrightarrow> acc_name b = acc_name a \<and>
     (acc_name a \<in> ns \<or> schedule b = schedule a \<and> acc_vesting_shares a \<le> acc_vesting_shares b)"

definition keeps_due :: "account_name_type set \<Rightarrow> database \<Rightarrow> database \<Rightarrow> bool" where
  "keeps_due ns db db' \<longleftrightarrow> head_block_time db' = head_block_time db \<and>
     list_all2 (keeps_account ns) (db_accounts db) (db_accounts db')"

lemma keeps_due_refl: "keeps_due ns db db"
  by (auto simp: keeps_due_def keeps_account_def intro: list.rel_refl)

lemma keeps_due_trans:
  assumes "keeps_due ns a b" "keeps_due ns b c"
  shows "keeps_due ns a c"
proof -
  have t: "keeps_account ns x y \<Longrightarrow> keeps_account ns y z \<Longrightarrow> keeps_account ns x z" for x y z by (auto simp: keeps_account_def)
  have "list_all2 (keeps_account ns) (db_accounts a) (db_accounts b)" "list_all2 (keeps_account ns) (db_accounts b) (db_accounts c)"
    using assms by (simp_all add: keeps_due_def)
  from list_all2_trans [OF t this] show ?thesis using assms by (simp add: keeps_due_def)
qed

lemma keeps_due_mono: "keeps_due ns a b \<Longrightarrow> ns \<subseteq> ns' \<Longrightarrow> keeps_due ns' a b"
  unfolding keeps_due_def by (auto simp: keeps_account_def elim!: list.rel_mono_strong)

lemma keeps_due_names: "keeps_due ns db db' \<Longrightarrow> map acc_name (db_accounts db') = map acc_name (db_accounts db)"
  by (auto simp: keeps_due_def keeps_account_def list_all2_conv_all_nth intro: nth_equalityI)

lemma keeps_due_find:
  assumes "keeps_due ns db db'" "find_by acc_name n (db_accounts db) = Some a"
  obtains b where "find_by acc_name n (db_accounts db') = Some b" "keeps_account ns a b"
proof -
  have "list_all2 (keeps_account ns) xs ys \<Longrightarrow> find_by acc_name n xs = Some a \<Longrightarrow>
    \<exists>b. find_by acc_name n ys = Some b \<and> keeps_account ns a b" for xs ys
  proof (induction rule: list_all2_induct)
    case (Cons x xs y ys)
    have "acc_name y = acc_name x" using Cons.hyps(1) by (simp add: keeps_account_def)
    then show ?case using Cons by (auto simp: find_by_def split: if_splits)
  qed (simp add: find_by_def)
  then show thesis using that assms unfolding keeps_due_def by blast
qed

lemma list_all2_of_map: "map f ys = map f xs \<Longrightarrow> (\<And>a b. f b = f a \<Longrightarrow> R a b) \<Longrightarrow> list_all2 R xs ys"
  by (induction xs arbitrary: ys) (auto simp: map_eq_Cons_conv list_all2_Cons1)

lemma keeps_account_strip: "keeps_account ns (strip a) b = keeps_account ns a b" "keeps_account ns a (strip b) = keeps_account ns a b"
  by (simp_all add: keeps_account_def schedule_def strip_def)

lemma keeps_due_frame:
  assumes "vote_frame db db'"
  shows "keeps_due ns db db'"
proof -
  have m: "map strip (db_accounts db') = map strip (db_accounts db)" using assms by (simp add: vote_frame_def)
  have "keeps_account ns a b" if "strip b = strip a" for a b
  proof -
    have "keeps_account ns (strip a) (strip b)" using that by (simp add: keeps_account_def)
    then show ?thesis by (simp add: keeps_account_strip)
  qed
  from list_all2_of_map [OF m this] show ?thesis using vote_frameD(2) [OF assms] by (simp add: keeps_due_def head_block_time_def)
qed

lemma keeps_due_modify:
  assumes d: "distinct (map acc_name (db_accounts db))" and m: "modify_account n f db = Inr db1" and g: "modify_dgpo gf db1 = Inr db2"
    and f: "\<And>a a'. f a = Inr a' \<Longrightarrow> a \<in> set (db_accounts db) \<Longrightarrow> acc_name a = n \<Longrightarrow> acc_name a' = n \<and>
      (n \<in> ns \<or> schedule a' = schedule a \<and> acc_vesting_shares a \<le> acc_vesting_shares a')"
    and gf: "\<And>g'. gf (db_dgpo db) = Inr g' \<Longrightarrow> gpo_time g' = gpo_time (db_dgpo db)"
  shows "keeps_due ns db db2"
proof -
  from m obtain a a' where a: "find_by acc_name n (db_accounts db) = Some a" "f a = Inr a'"
    and db1: "db1 = db\<lparr>db_accounts := replace_by acc_name n a' (db_accounts db)\<rparr>" by (rule modify_account_Inr)
  from g obtain g' where g': "gf (db_dgpo db) = Inr g'" and db2: "db2 = db1\<lparr>db_dgpo := g'\<rparr>"
    by (rule modify_dgpo_Inr) (simp add: db1)
  note an = find_by_Some [OF a(1)]
  have "x = a" if "x \<in> set (db_accounts db)" "acc_name x = n" for x
    using find_of_member [OF d that(1)] a(1) that(2) by simp
  then show ?thesis using f [OF a(2)] an gf [OF g']
    by (auto simp: keeps_due_def keeps_account_def db2 db1 head_block_time_def replace_by_def list_all2_map2 list.rel_map intro!: list.rel_refl_strong)
qed

lemma push_frame: "vote_frame (push_virtual_operation v db) db' \<Longrightarrow> db_dgpo db' = db_dgpo db"
  using vote_frameD(2) by (fastforce simp: push_virtual_operation_def)

lemma flow_push:
  "sound db \<Longrightarrow> flow (\<lambda>_. 0) 0 db (push_virtual_operation v db)" "keeps_due ns db (push_virtual_operation v db)"
  using state_step_push flow_state soundD(3) keeps_due_refl [of ns db]
  by (blast, simp add: keeps_due_def push_virtual_operation_def head_block_time_def)

text \<open>The effect of the parts of a withdrawal, in shares that leave the books.\<close>

definition withdrawal_part :: "account_name_type set \<Rightarrow> int \<Rightarrow> database \<Rightarrow> database \<Rightarrow> bool" where
  "withdrawal_part ns d db db' \<longleftrightarrow> flow (\<lambda>s. if s = VESTS_SYMBOL then d else 0) d db db' \<and> keeps_due ns db db'"

lemma withdrawal_part_trans:
  assumes "withdrawal_part ns d a b" "withdrawal_part ns e b c"
  shows "withdrawal_part ns (d + e) a c"
proof -
  let ?m = "\<lambda>d s. if s = VESTS_SYMBOL then d else (0 :: int)"
  have f: "flow (?m d) d a b" "flow (?m e) e b c" "keeps_due ns a c"
    using assms keeps_due_trans by (auto simp: withdrawal_part_def)
  have "flow (?m (d + e)) (d + e) a c" by (rule flow_cong [OF flow_trans [OF f(1,2)]]) auto
  then show ?thesis using f(3) by (simp add: withdrawal_part_def)
qed

lemma withdrawal_part_0: "sound db \<Longrightarrow> withdrawal_part ns 0 db db"
  unfolding withdrawal_part_def using flow_refl keeps_due_refl by (auto intro: flow_cong)

lemma withdrawal_part_push: "sound db \<Longrightarrow> withdrawal_part ns 0 db (push_virtual_operation v db)"
  unfolding withdrawal_part_def using flow_push by (auto intro: flow_cong)

text \<open>An interval pays the rate, or what is left.\<close>

lemma interval_amount_covered:
  assumes c: "covered a" "acc_next_vesting_withdrawal a \<noteq> time_point_sec_maximum" and i: "interval_amount a = Inr w"
  shows "w = min (acc_vesting_withdraw_rate a) (acc_to_withdraw a - acc_withdrawn a)" "0 \<le> w" "w \<le> int64_max" "w \<le> acc_vesting_shares a"
proof -
  let ?r = "acc_vesting_withdraw_rate a" and ?d = "acc_to_withdraw a - acc_withdrawn a"
  have r: "0 < ?r" "?r dvd acc_withdrawn a" "0 \<le> ?d" "?d \<le> acc_vesting_shares a" "0 \<le> acc_to_withdraw a" using c by (auto simp: covered_def)
  have m: "acc_to_withdraw a mod ?r = ?d" if "?d < ?r"
  proof -
    have "acc_to_withdraw a mod ?r = ?d mod ?r" using r(2) by (metis diff_zero dvd_eq_mod_eq_0 mod_diff_right_eq)
    then show ?thesis using that r(3) by simp
  qed
  show w: "w = min ?r ?d"
    using i m r by (auto simp: interval_amount_def signed_modulo_int_def sgn_if safe_mod_def dest!: safe_sub_Inr split: if_splits)
  show "0 \<le> w" "w \<le> int64_max" "w \<le> acc_vesting_shares a" using w r covered_le [OF c(1)] by auto
qed

lemma covered_paid:
  assumes c: "covered a" "acc_next_vesting_withdrawal a \<noteq> time_point_sec_maximum"
    and w: "w = min (acc_vesting_withdraw_rate a) (acc_to_withdraw a - acc_withdrawn a)"
    and e: "acc_vesting_shares b = acc_vesting_shares a - w" "acc_withdrawn b = acc_withdrawn a + w" "acc_to_withdraw b = acc_to_withdraw a"
      "acc_delegated_vesting_shares b = acc_delegated_vesting_shares a"
    and n: "if acc_to_withdraw b \<le> acc_withdrawn b \<or> acc_vesting_shares b = 0 then acc_next_vesting_withdrawal b = time_point_sec_maximum
      else acc_next_vesting_withdrawal b < time_point_sec_maximum \<and> acc_vesting_withdraw_rate b = acc_vesting_withdraw_rate a"
  shows "covered b"
proof -
  have r: "0 < acc_vesting_withdraw_rate a" "acc_vesting_withdraw_rate a dvd acc_withdrawn a" using c by (auto simp: covered_def)
  show ?thesis
  proof (cases "acc_to_withdraw a - acc_withdrawn a \<le> acc_vesting_withdraw_rate a")
    case True
    then show ?thesis using c(1) n w by (auto simp: covered_def e)
  next
    case False
    then have "w = acc_vesting_withdraw_rate a" using w by simp
    then show ?thesis using c n r False by (auto simp: covered_def e split: if_splits)
  qed
qed

lemma route_share_bounds:
  assumes w: "0 \<le> w" "w \<le> int64_max" and p: "unat (rt_percent r) \<le> 10000" and s: "route_share w r = Inr d"
  shows "d = w * uint (rt_percent r) div 10000" "0 \<le> d" "d \<le> w"
proof -
  let ?p = "uint (rt_percent r)"
  have p': "0 \<le> ?p" "?p \<le> 10000" using p unfolding uint_nat by (simp, linarith)
  have le: "w * ?p \<le> w * 10000" using w(1) p'(2) by (intro mult_left_mono) auto
  have uw: "uint (word_of_int w :: 128 word) = w" using w by (simp add: uint_word_of_int)
  have up: "uint (ucast (rt_percent r) :: 128 word) = ?p" using p' by (simp add: unsigned_ucast_eq take_bit_int_eq_self)
  have "0 \<le> w * ?p" "w * ?p < 2 ^ 128" using w le p' by auto
  then have u: "uint (word_of_int w * ucast (rt_percent r) :: 128 word) = w * ?p"
    by (simp add: uint_word_ariths uw up)
  have q: "uint ((word_of_int w * ucast (rt_percent r) :: 128 word) div 10000) = w * ?p div 10000"
    by (simp add: uint_div_distrib u)
  have b: "0 \<le> w * ?p div 10000" "w * ?p div 10000 \<le> w" using w(1) p'(1) le by (auto simp: pos_imp_zdiv_nonneg_iff)
  then have "in_int64 (w * ?p div 10000)" using w(2) by (simp add: in_int64_def)
  then show d: "d = w * ?p div 10000" using s by (simp add: route_share_def Let_def q to_int64_id)
  show "0 \<le> d" "d \<le> w" using b by (simp_all add: d)
qed

lemma deposit_vests_part:
  assumes s: "sound db" and w: "0 \<le> w" "w \<le> int64_max" and p: "unat (rt_percent r) \<le> 10000"
    and r: "deposit_vests from w r (d, db) = Inr (d', db')"
  shows "withdrawal_part {} (d' - d) db db'"
proof -
  let ?n = "rt_to_account r"
  from r consider "d' = d" "db' = db" | t where "route_share w r = Inr t" "d' = d + t" "\<not> 0 < t" "db' = db"
    | t db0 db1 v where "d' = d + t" "db0 = push_virtual_operation v db"
        "modify_account ?n (\<lambda>a. res_bind (safe_add (acc_vesting_shares a) t) (\<lambda>v. Inr (a\<lparr>acc_vesting_shares := v\<rparr>))) db0 = Inr db1"
        "adjust_proxied_witness_votes_share t 0 ?n db1 = Inr db'" "0 < t"
    by (auto simp: deposit_vests_def split: if_splits dest!: safe_add_Inr)
  then show ?thesis
  proof cases
    case 1
    then show ?thesis using withdrawal_part_0 [OF s] by simp
  next
    case (2 t)
    then show ?thesis using withdrawal_part_0 [OF s] route_share_bounds(2) [OF w p 2(1)] by simp
  next
    case (3 t db0 db1 v)
    have p0: "withdrawal_part {} 0 db db0" unfolding 3(2) by (rule withdrawal_part_push [OF s])
    then have s0: "sound db0" using flow_sound by (auto simp: withdrawal_part_def)
    have "flow (\<lambda>s. (if s = VESTS_SYMBOL then t else 0) + 0) (t - 0) db0 db' \<and> vote_frame db1 db'"
      by (rule flow_vests_frame [OF s0 3(3) modify_dgpo_id _ _ disjI1 [OF 3(4)], where p = 0])
        (use 3(5) covered_le in \<open>auto simp: covered_simps soundD(8) [OF s0] account_holds_def dest!: safe_add_le\<close>)
    moreover have "keeps_due {} db0 db1"
      by (rule keeps_due_modify [OF soundD(6) [OF s0] 3(3) modify_dgpo_id]) (use 3(5) in \<open>auto simp: schedule_def dest!: safe_add_Inr\<close>)
    ultimately have "withdrawal_part {} t db0 db'"
      unfolding withdrawal_part_def using keeps_due_trans keeps_due_frame by fastforce
    from withdrawal_part_trans [OF p0 this] show ?thesis by (simp add: 3(1))
  qed
qed

lemma deposit_delta_part:
  assumes s: "sound db" and w: "0 \<le> w" "w \<le> int64_max" and p: "unat (rt_percent r) \<le> 10000"
    and r: "deposit_delta from w r (d, c, db) = Inr (d', c', db')"
  shows "withdrawal_part {} (d' - d) db db'"
proof -
  let ?n = "rt_to_account r"
  from r consider "d' = d" "db' = db" | t where "route_share w r = Inr t" "d' = d + t" "\<not> 0 < t" "db' = db"
    | t x db0 db1 v where "d' = d + t" "db0 = push_virtual_operation v db"
        "modify_account ?n (\<lambda>a. res_bind (plus_asset DELTA_SYMBOL (acc_balance a) x) (\<lambda>b. Inr (a\<lparr>acc_balance := b\<rparr>))) db0 = Inr db1"
        "modify_dgpo (leave_fund x t) db1 = Inr db'"
    by (auto simp: deposit_delta_def split: if_splits dest!: safe_add_Inr)
  then show ?thesis
  proof cases
    case 1
    then show ?thesis using withdrawal_part_0 [OF s] by simp
  next
    case (2 t)
    then show ?thesis using withdrawal_part_0 [OF s] route_share_bounds(2) [OF w p 2(1)] by simp
  next
    case (3 t x db0 db1 v)
    have p0: "withdrawal_part {} 0 db db0" unfolding 3(2) by (rule withdrawal_part_push [OF s])
    then have s0: "sound db0" using flow_sound by (auto simp: withdrawal_part_def)
    have "flow (\<lambda>s. (if s = DELTA_SYMBOL then amount x else 0) +
        (if s = DELTA_SYMBOL then - amount x else if s = VESTS_SYMBOL then t else 0)) (0 - (- t)) db0 db'"
      by (rule flow_vests [OF s0 3(3,4), where p = 0])
        (auto simp: leave_fund_def covered_simps soundD(8) [OF s0] account_holds_def funds_def token_supply_def
           dest!: safe_add_Inr safe_sub_Inr plus_asset_Inr minus_asset_Inr)
    then have "flow (\<lambda>s. if s = VESTS_SYMBOL then t else 0) t db0 db'" by (rule flow_cong) auto
    moreover have "keeps_due {} db0 db'"
      by (rule keeps_due_modify [OF soundD(6) [OF s0] 3(3,4)]) (auto simp: schedule_def leave_fund_def)
    ultimately have "withdrawal_part {} t db0 db'" by (simp add: withdrawal_part_def)
    from withdrawal_part_trans [OF p0 this] show ?thesis by (simp add: 3(1))
  qed
qed

lemma route_percent_le: "sound db \<Longrightarrow> r \<in> set (routes_of n db) \<Longrightarrow> unat (rt_percent r) \<le> 10000"
proof -
  assume s: "sound db" and r: "r \<in> set (routes_of n db)"
  have "unat (rt_percent r) \<in> set (map (\<lambda>r. unat (rt_percent r)) (filter (\<lambda>r. rt_from_account r = n \<and> rt_to_account r \<noteq> []) (db_routes db)))"
    using r by (auto simp: routes_of_def)
  then have "unat (rt_percent r) \<le> route_total n (db_routes db)" unfolding route_total_def by (rule member_le_sum_list) simp
  also have "\<dots> \<le> 10000" using soundD(1) [OF s] by (simp add: wf_objects_def wf_routes_def)
  finally show ?thesis .
qed

lemma finish_withdrawal_part:
  assumes s: "sound db" and a: "find_by acc_name n (db_accounts db) = Some a"
    and t: "acc_next_vesting_withdrawal a + 604800 < time_point_sec_maximum"
    and w: "w = min (acc_vesting_withdraw_rate a) (acc_to_withdraw a - acc_withdrawn a)" "0 \<le> w"
    and r: "finish_withdrawal n w c db = Inr db'"
  shows "withdrawal_part {n} (c - w) db db'"
proof -
  from r obtain x v db1 db2 where m': "modify_account n (pay_out w x) (push_virtual_operation v db) = Inr db1"
    and g: "modify_dgpo (leave_fund x c) db1 = Inr db2"
    and adj: "if w > 0 then res_bind (safe_neg w) (\<lambda>neg. adjust_proxied_witness_votes_share neg 0 n db2) = Inr db' else db2 = db'"
    by (auto simp: finish_withdrawal_def split: if_splits)
  define db0 where "db0 = push_virtual_operation v db"
  note m = m' [folded db0_def]
  have adj': "adjust_proxied_witness_votes_share (- w) 0 n db2 = Inr db' \<or> - w = 0 \<and> db' = db2"
    using adj w(2) by (auto split: if_splits dest!: safe_neg_Inr)
  have p0: "withdrawal_part {n} 0 db db0" unfolding db0_def by (rule withdrawal_part_push [OF s])
  then have s0: "sound db0" using flow_sound by (auto simp: withdrawal_part_def)
  have ca: "covered a" using soundD(8) [OF s] find_by_Some [OF a] by blast
  have ne: "acc_next_vesting_withdrawal a \<noteq> time_point_sec_maximum" "add_seconds (acc_next_vesting_withdrawal a) 604800 < time_point_sec_maximum"
    using t by (auto simp: add_seconds_def)
  have pay: "covered b'" if "pay_out w x b = Inr b'" "b \<in> set (db_accounts db0)" "acc_name b = n" for b b'
  proof -
    have ba: "b = a" using find_of_member [OF soundD(6) [OF s0] that(2)] that(3) a by (simp add: db0_def push_virtual_operation_def)
    show ?thesis by (rule covered_paid [OF ca ne(1) w(1)])
        (use that(1) ne(2) in \<open>auto simp: ba pay_out_def Let_def dest!: safe_sub_Inr safe_add_Inr plus_asset_Inr split: if_splits\<close>)
  qed
  have "flow (\<lambda>s. (if s = VESTS_SYMBOL then - w else if s = DELTA_SYMBOL then amount x else 0) +
      (if s = DELTA_SYMBOL then - amount x else if s = VESTS_SYMBOL then c else 0)) (- w - (- c)) db0 db' \<and> vote_frame db2 db'"
    by (rule flow_vests_frame [OF s0 m g _ _ adj', where p = 0])
      (use pay in \<open>auto simp: pay_out_def leave_fund_def Let_def account_holds_def funds_def token_supply_def
         dest!: safe_sub_Inr safe_add_Inr plus_asset_Inr minus_asset_Inr split: if_splits\<close>)
  moreover have "keeps_due {n} db0 db2"
    by (rule keeps_due_modify [OF soundD(6) [OF s0] m g]) (auto simp: pay_out_def leave_fund_def Let_def split: if_splits)
  ultimately have "flow (\<lambda>s. if s = VESTS_SYMBOL then c - w else 0) (c - w) db0 db'" "keeps_due {n} db0 db'"
    using keeps_due_trans keeps_due_frame by (auto elim!: flow_cong)
  then have "withdrawal_part {n} (c - w) db0 db'" by (simp add: withdrawal_part_def)
  from withdrawal_part_trans [OF p0 this] show ?thesis by simp
qed

lemma withdrawal_part_mono: "withdrawal_part ns d a b \<Longrightarrow> ns \<subseteq> ns' \<Longrightarrow> withdrawal_part ns' d a b"
  using keeps_due_mono by (auto simp: withdrawal_part_def)

lemma withdrawal_part_sound: "withdrawal_part ns d a b \<Longrightarrow> sound b"
  using flow_sound by (auto simp: withdrawal_part_def)

text \<open>The whole interval moves shares to other accounts or out of the books, as many as it takes.\<close>

lemma withdraw_interval_part:
  assumes s: "sound db" and a: "find_by acc_name n (db_accounts db) = Some a"
    and t: "acc_next_vesting_withdrawal a + 604800 < time_point_sec_maximum" and r: "withdraw_interval a db = Inr db'"
  shows "withdrawal_part {n} 0 db db'"
proof -
  have an: "acc_name a = n" "covered a" using find_by_Some [OF a] soundD(8) [OF s] by auto
  from r obtain w vs db1 ds y db2 c where w: "interval_amount a = Inr w"
    and f1: "res_fold (deposit_vests n w) (routes_of n db) (0, db) = Inr (vs, db1)"
    and f2: "res_fold (deposit_delta n w) (routes_of n db1) (0, 0, db1) = Inr (ds, y, db2)"
    and c: "c = w - ds - vs" and fin: "finish_withdrawal n w c db2 = Inr db'"
    by (auto simp: withdraw_interval_def Let_def an dest!: safe_sub_Inr)
  have "acc_next_vesting_withdrawal a \<noteq> time_point_sec_maximum" using t by simp
  note ia = interval_amount_covered [OF an(2) this w]
  have p1: "withdrawal_part {} (fst (vs, db1)) db (snd (vs, db1))"
  proof (rule res_fold_invariant [OF f1, where I = "\<lambda>s. withdrawal_part {} (fst s) db (snd s)"])
    fix r x z assume r: "r \<in> set (routes_of n db)" "withdrawal_part {} (fst x) db (snd x)" "deposit_vests n w r x = Inr z"
    have "withdrawal_part {} (fst z - fst x) (snd x) (snd z)"
      using deposit_vests_part [OF withdrawal_part_sound [OF r(2)] ia(2,3) route_percent_le [OF s r(1)], of n "fst x" "fst z" "snd z"] r(3) by simp
    from withdrawal_part_trans [OF r(2) this] show "withdrawal_part {} (fst z) db (snd z)" by simp
  qed (simp add: withdrawal_part_0 [OF s])
  then have s1: "sound db1" using withdrawal_part_sound by simp
  have p2: "withdrawal_part {} (fst (ds, y, db2)) db1 (snd (snd (ds, y, db2)))"
  proof (rule res_fold_invariant [OF f2, where I = "\<lambda>s. withdrawal_part {} (fst s) db1 (snd (snd s))"])
    fix r x z assume r: "r \<in> set (routes_of n db1)" "withdrawal_part {} (fst x) db1 (snd (snd x))" "deposit_delta n w r x = Inr z"
    have "withdrawal_part {} (fst z - fst x) (snd (snd x)) (snd (snd z))"
      using deposit_delta_part [OF withdrawal_part_sound [OF r(2)] ia(2,3) route_percent_le [OF s1 r(1)],
          of n "fst x" "fst (snd x)" "fst z" "fst (snd z)" "snd (snd z)"] r(3) by simp
    from withdrawal_part_trans [OF r(2) this] show "withdrawal_part {} (fst z) db1 (snd (snd z))" by simp
  qed (simp add: withdrawal_part_0 [OF s1])
  have "withdrawal_part {} vs db db1" "withdrawal_part {} ds db1 db2" using p1 p2 by simp_all
  from withdrawal_part_trans [OF this] have p: "withdrawal_part {} (vs + ds) db db2" by simp
  then obtain b where b: "find_by acc_name n (db_accounts db2) = Some b" "keeps_account {} a b"
    using keeps_due_find a by (metis withdrawal_part_def)
  then have sb: "schedule b = schedule a" by (simp add: keeps_account_def)
  have "withdrawal_part {n} (c - w) db2 db'"
    by (rule finish_withdrawal_part [OF withdrawal_part_sound [OF p] b(1) _ _ ia(2) fin]) (use t sb ia(1) in \<open>auto simp: schedule_def\<close>)
  from withdrawal_part_trans [OF withdrawal_part_mono [OF p] this] show ?thesis by (simp add: c)
qed

section \<open>The loop over the withdrawals ends\<close>

text \<open>
  A processed account is filed again a week later and may be met again in the same block when the
  chain has been standing. The loop ends because the iterator only moves forward: the times up to
  now and the names bound the keys it can still visit.
\<close>

definition withdrawals_left :: "account_name_type option \<times> database \<Rightarrow> nat" where
  "withdrawals_left s =
     (case due_withdrawal s of
        None \<Rightarrow> 0
      | Some a \<Rightarrow> card {k \<in> {0..head_block_time (snd s)} \<times> acc_name ` set (db_accounts (snd s)). withdrawal_key a \<le> k})"

lemma due_withdrawal_Some:
  assumes "due_withdrawal (c, db) = Some a"
  obtains n where "c = Some n" "find_by acc_name n (db_accounts db) = Some a" "acc_next_vesting_withdrawal a \<le> head_block_time db"
  using assms by (auto simp: due_withdrawal_def split: option.splits if_splits)

lemma process_withdrawal_step:
  assumes s: "sound db" and t: "time_left db" and d: "due_withdrawal (c, db) = Some a" and r: "process_withdrawal a (c, db) = Inr (c', db')"
  shows "flow (\<lambda>_. 0) 0 db db'" "keeps_due {acc_name a} db db'" "c' = next_in_index a db"
proof -
  obtain n where n: "find_by acc_name n (db_accounts db) = Some a" "acc_next_vesting_withdrawal a \<le> head_block_time db"
    using due_withdrawal_Some [OF d] by metis
  have "acc_name a = n" using find_by_Some [OF n(1)] by simp
  moreover have "acc_next_vesting_withdrawal a + 604800 < time_point_sec_maximum" using n(2) t by (simp add: time_left_def)
  ultimately have p: "withdrawal_part {acc_name a} 0 db db'"
    using withdraw_interval_part [OF s n(1)] r by (auto simp: process_withdrawal_def)
  then show "keeps_due {acc_name a} db db'" by (simp add: withdrawal_part_def)
  from p have "flow (\<lambda>s. if s = VESTS_SYMBOL then 0 else 0) 0 db db'" by (simp add: withdrawal_part_def)
  then show "flow (\<lambda>_. 0) 0 db db'" by (rule flow_cong) auto
  show "c' = next_in_index a db" using r by (auto simp: process_withdrawal_def)
qed

lemma card_smaller: "finite B \<Longrightarrow> A \<subseteq> B \<Longrightarrow> x \<in> B \<Longrightarrow> x \<notin> A \<Longrightarrow> card A < card B"
  by (rule psubset_card_mono) auto

lemma process_withdrawal_shortens:
  assumes s: "sound db" and t: "time_left db" and d: "due_withdrawal (c, db) = Some a" and r: "process_withdrawal a (c, db) = Inr (c', db')"
  shows "withdrawals_left (c', db') < withdrawals_left (c, db)"
proof -
  note st = process_withdrawal_step [OF assms]
  have nm: "acc_name ` set (db_accounts db') = acc_name ` set (db_accounts db)" using keeps_due_names [OF st(2)] by (metis list.set_map)
  have now: "head_block_time db' = head_block_time db" using flow_hardfork(2) [OF st(1)] .
  obtain n where n: "find_by acc_name n (db_accounts db) = Some a" "acc_next_vesting_withdrawal a \<le> head_block_time db"
    using due_withdrawal_Some [OF d] by metis
  let ?U = "{0..head_block_time db} \<times> acc_name ` set (db_accounts db)"
  have ka: "withdrawal_key a \<in> ?U" using n find_by_Some [OF n(1)] by (auto simp: withdrawal_key_def)
  have fin: "finite ?U" by simp
  show ?thesis
  proof (cases "due_withdrawal (c', db')")
    case None
    have "withdrawal_key a \<in> {k \<in> ?U. withdrawal_key a \<le> k}" using ka by simp
    moreover have "finite {k \<in> ?U. withdrawal_key a \<le> k}" by (rule finite_subset [OF _ fin]) (rule Collect_restrict)
    ultimately have "0 < card {k \<in> ?U. withdrawal_key a \<le> k}" by (metis card_gt_0_iff empty_iff)
    then show ?thesis by (simp only: withdrawals_left_def d None option.case snd_conv)
  next
    case (Some b')
    then obtain m where m: "next_in_index a db = Some m" "find_by acc_name m (db_accounts db') = Some b'"
      using due_withdrawal_Some [OF Some] st(3) by metis
    then obtain b where b: "b \<in> set (db_accounts db)" "withdrawal_key a < withdrawal_key b" "acc_name b = m"
      using index_begin_Some by (fastforce simp: next_in_index_def)
    have fb: "find_by acc_name m (db_accounts db) = Some b" using find_of_member [OF soundD(6) [OF s] b(1)] b(3) by simp
    have "m \<noteq> acc_name a" using find_by_Some [OF n(1)] n(1) fb b(2) by auto
    then have "schedule b' = schedule b" using keeps_due_find [OF st(2) fb] m(2) b(3) by (auto simp: keeps_account_def)
    then have kb: "withdrawal_key b' = withdrawal_key b" using find_by_Some [OF m(2)] b(3) by (simp add: withdrawal_key_def schedule_def)
    have "{k \<in> ?U. withdrawal_key b \<le> k} \<subseteq> {k \<in> ?U. withdrawal_key a \<le> k}"
      using b(2) by (intro Collect_mono) (metis less_imp_le order_trans)
    moreover have "withdrawal_key a \<in> {k \<in> ?U. withdrawal_key a \<le> k}" "withdrawal_key a \<notin> {k \<in> ?U. withdrawal_key b \<le> k}"
      using ka b(2) by (simp_all only: mem_Collect_eq not_le order_refl simp_thms leD)
    moreover have "finite {k \<in> ?U. withdrawal_key a \<le> k}" by (rule finite_subset [OF _ fin]) (rule Collect_restrict)
    ultimately have "card {k \<in> ?U. withdrawal_key b \<le> k} < card {k \<in> ?U. withdrawal_key a \<le> k}" by (rule card_smaller [rotated])
    then show ?thesis by (simp only: withdrawals_left_def d Some option.case snd_conv kb now nm)
  qed
qed

interpretation withdrawal_loop: draining_loop due_withdrawal process_withdrawal
  "\<lambda>s. sound (snd s) \<and> time_left (snd s)" withdrawals_left
proof unfold_locales
  fix s a t assume a: "sound (snd s) \<and> time_left (snd s)" "due_withdrawal s = Some a" "process_withdrawal a s = Inr t"
  obtain c db c' db' where st: "s = (c, db)" "t = (c', db')" by (cases s; cases t)
  have f: "flow (\<lambda>_. 0) 0 db db'" using process_withdrawal_step(1) [of db c a c' db'] a by (simp add: st)
  show "sound (snd t) \<and> time_left (snd t)" using flow_sound [OF f] flow_hardfork(2) [OF f] a(1) by (simp add: st time_left_def)
  show "withdrawals_left t < withdrawals_left s" using process_withdrawal_shortens [of db c a c' db'] a by (simp add: st)
qed

lemma process_vesting_withdrawals_returns:
  assumes "sound db" "time_left db"
  shows "\<exists>r. process_vesting_withdrawals db = Some r"
  using withdrawal_loop.returns [of "(map_option acc_name (index_begin withdrawal_key (db_accounts db)), db)"] assms
  by (auto simp: process_vesting_withdrawals_def)

lemma process_vesting_withdrawals_flow:
  assumes "sound db" "time_left db" and r: "process_vesting_withdrawals db = Some (Inr db')"
  shows "flow (\<lambda>_. 0) 0 db db'"
proof -
  let ?s = "(map_option acc_name (index_begin withdrawal_key (db_accounts db)), db)"
  define R where "R = (\<lambda>(s :: account_name_type option \<times> database) (t :: account_name_type option \<times> database). flow (\<lambda>_. 0) 0 (snd s) (snd t))"
  from r obtain c where c: "drain due_withdrawal process_withdrawal ?s = Some (Inr (c, db'))"
    by (auto simp: process_vesting_withdrawals_def)
  have "due_withdrawal (c, db') = None \<and> (sound (snd (c, db')) \<and> time_left (snd (c, db'))) \<and> R ?s (c, db')"
  proof (rule withdrawal_loop.drained [OF _ c])
    show "R ?s ?s" using flow_refl [OF assms(1)] by (simp add: R_def)
    fix a x b assume a: "sound (snd a) \<and> time_left (snd a)" "R ?s a" "due_withdrawal a = Some x" "process_withdrawal x a = Inr b"
    have "flow (\<lambda>_. 0) 0 (snd a) (snd b)" using process_withdrawal_step(1) [of "snd a" "fst a" x "fst b" "snd b"] a by simp
    from flow_trans [OF a(2) [unfolded R_def] this] show "R ?s b" by (simp add: R_def)
  qed (use assms in auto)
  then show ?thesis by (simp add: R_def)
qed

section \<open>The course of a withdrawal\<close>

text \<open>Intervals of one account, with the amounts its shares are converted to.\<close>

fun pay_intervals :: "asset list \<Rightarrow> account_object \<Rightarrow> account_object result" where
  "pay_intervals [] a = Inr a"
| "pay_intervals (x # xs) a = res_bind (interval_amount a) (\<lambda>w. res_bind (pay_out w x a) (pay_intervals xs))"

lemma pay_out_interval:
  assumes c: "covered a" "acc_next_vesting_withdrawal a + 604800 < time_point_sec_maximum"
    and w: "interval_amount a = Inr w" and p: "pay_out w x a = Inr b"
  shows "covered b" "acc_to_withdraw b = acc_to_withdraw a"
    "acc_withdrawn b = min (acc_to_withdraw a) (acc_withdrawn a + acc_vesting_withdraw_rate a)"
    "acc_to_withdraw a \<le> acc_withdrawn a + acc_vesting_withdraw_rate a \<Longrightarrow> acc_next_vesting_withdrawal b = time_point_sec_maximum"
    "acc_withdrawn a + acc_vesting_withdraw_rate a < acc_to_withdraw a \<Longrightarrow>
      acc_next_vesting_withdrawal b = acc_next_vesting_withdrawal a + 604800 \<and> acc_vesting_withdraw_rate b = acc_vesting_withdraw_rate a"
proof -
  have ne: "acc_next_vesting_withdrawal a \<noteq> time_point_sec_maximum" using c(2) by simp
  have t: "add_seconds (acc_next_vesting_withdrawal a) 604800 = acc_next_vesting_withdrawal a + 604800" using c(2) by (simp add: add_seconds_def)
  note i = interval_amount_covered [OF c(1) ne w]
  have r: "0 < acc_vesting_withdraw_rate a" "acc_to_withdraw a - acc_withdrawn a \<le> acc_vesting_shares a" using c(1) ne by (auto simp: covered_def)
  have b: "acc_vesting_shares b = acc_vesting_shares a - w" "acc_withdrawn b = acc_withdrawn a + w" "acc_to_withdraw b = acc_to_withdraw a"
    "acc_delegated_vesting_shares b = acc_delegated_vesting_shares a"
    "if acc_to_withdraw b \<le> acc_withdrawn b \<or> acc_vesting_shares b = 0 then acc_next_vesting_withdrawal b = time_point_sec_maximum
      else acc_next_vesting_withdrawal b = acc_next_vesting_withdrawal a + 604800 \<and> acc_vesting_withdraw_rate b = acc_vesting_withdraw_rate a"
    using p by (auto simp: pay_out_def Let_def t dest!: safe_sub_Inr safe_add_Inr plus_asset_Inr split: if_splits)
  show "covered b" by (rule covered_paid [OF c(1) ne i(1) b(1-4)]) (use b(5) c(2) in \<open>auto split: if_splits\<close>)
  show "acc_to_withdraw b = acc_to_withdraw a" by (rule b(3))
  show "acc_withdrawn b = min (acc_to_withdraw a) (acc_withdrawn a + acc_vesting_withdraw_rate a)" using b(2) i(1) by linarith
  show "acc_next_vesting_withdrawal b = time_point_sec_maximum" if "acc_to_withdraw a \<le> acc_withdrawn a + acc_vesting_withdraw_rate a"
    using that b i(1) by (auto split: if_splits)
  show "acc_next_vesting_withdrawal b = acc_next_vesting_withdrawal a + 604800 \<and> acc_vesting_withdraw_rate b = acc_vesting_withdraw_rate a"
    if "acc_withdrawn a + acc_vesting_withdraw_rate a < acc_to_withdraw a"
    using that b i(1) r by (auto split: if_splits)
qed


definition sample_schedule :: account_object where
  "sample_schedule = (default_account ''alice'')\<lparr>acc_vesting_shares := 40, acc_to_withdraw := 30, acc_vesting_withdraw_rate := 2,
     acc_next_vesting_withdrawal := 604800\<rparr>"


text \<open>
  C8: The weekly processing of withdrawals ends. The loop visits the accounts in the order of their
  next withdrawal and files every processed account again a week later; whatever the routes do, it
  returns, and when it succeeds no token is created or lost, the shares stay in step with their
  recorded total, and the state stays sound.
\<close>

theorem vesting_withdrawals_settle:
  assumes "sound db" "time_left db"
  shows "\<exists>r. process_vesting_withdrawals db = Some r \<and> (\<forall>db'. r = Inr db' \<longrightarrow> flow (\<lambda>_. 0) 0 db db')"
  using process_vesting_withdrawals_returns [OF assms] process_vesting_withdrawals_flow [OF assms] by blast

definition sample_powering :: database where
  "sample_powering = sample_voters\<lparr>db_accounts :=
     [(default_account ''alice'')\<lparr>acc_vesting_shares := 10, acc_proxy := ''bob'', acc_to_withdraw := 8, acc_vesting_withdraw_rate := 2,
        acc_next_vesting_withdrawal := 0\<rparr>,
      (default_account ''bob'')\<lparr>acc_vesting_shares := 5, acc_proxied_vsf_votes := [10, 0, 0, 0]\<rparr>],
     db_routes := [\<lparr>rt_from_account = ''alice'', rt_to_account = ''bob'', rt_percent = 5000, rt_auto_vest = True\<rparr>]\<rparr>"

lemma sample_sound: "sound sample_powering" "time_left sample_powering"
proof -
  have "map tally_view (db_accounts sample_powering) = map tally_view (db_accounts sample_voters)"
    by (simp add: sample_powering_def sample_voters_def tally_view_def)
  then have "votes_ok sample_powering" by (rule votes_ok_view [OF _ sample_votes_ok]) (simp_all add: sample_powering_def)
  moreover have "wf_objects sample_powering"
    by (simp add: wf_objects_def sample_powering_def sample_voters_def empty_database_def wf_routes_def)
  moreover have "delegations_ok sample_powering"
    by (simp add: delegations_ok_def parties_exist_def delegated_by_def delegated_to_def sample_powering_def sample_voters_def empty_database_def default_account_def)
  moreover have "\<forall>a \<in> set (db_accounts sample_powering). covered a" by (simp add: sample_powering_def covered_def default_account_def)
  ultimately show "sound sample_powering" by (simp add: sound_def)
  show "time_left sample_powering"
    by (simp add: time_left_def head_block_time_def sample_powering_def sample_voters_def empty_database_def default_dgpo_def)
qed

theorem vesting_withdrawals_settle_witness:
  "sound sample_powering \<and> time_left sample_powering \<and> (\<exists>r. process_vesting_withdrawals sample_powering = Some r)"
  using sample_sound vesting_withdrawals_settle [OF sample_sound] by blast

end
