(* ===== verification/Delegations.thy ===== *)
theory Delegations
  imports Vesting
begin

text \<open>
  Delegation of vesting shares (\<open>delta_evaluator.cpp\<close>: \<open>delegate_vesting_shares_evaluator\<close>;
  \<open>database.cpp\<close>: \<open>clear_expired_delegations\<close>). Every account stays covered, and what accounts
  have delegated and received is what the delegations say.
\<close>

section \<open>Evaluator\<close>

text \<open>What the delegator, with mana up to date, may still delegate.\<close>

definition available_shares :: "database \<Rightarrow> account_object \<Rightarrow> int result" where
  "available_shares db a =
     (if has_hardfork 20 db then
        res_bind (safe_sub (get_effective_vesting_shares a) (acc_received_vesting_shares a)) (\<lambda>own.
        let available = min (current_mana (acc_voting_manabar a)) own
        in if acc_next_vesting_withdrawal a < time_point_sec_maximum then
             res_bind (safe_sub (acc_to_withdraw a) (acc_withdrawn a)) (\<lambda>rest.
             if rest > acc_vesting_withdraw_rate a then
               (let weekly_withdraw = min (acc_vesting_withdraw_rate a) (to_int64 (acc_to_withdraw a - acc_withdrawn a))
                in res_bind (safe_sub weekly_withdraw rest) (safe_add available))
             else Inr available)
           else Inr available)
      else
        res_bind (safe_sub (acc_vesting_shares a) (acc_delegated_vesting_shares a)) (\<lambda>own.
        res_bind (safe_sub (acc_to_withdraw a) (acc_withdrawn a)) (safe_sub own)))"

definition min_delegation :: "database \<Rightarrow> asset result" where
  "min_delegation db =
     (let fee = amount (cp_account_creation_fee (wso_median_props (db_wso db)))
      in res_bind (if has_hardfork 20 db then safe_div fee 3 else safe_mul fee 10) (\<lambda>x.
         res_bind (get_vesting_share_price (db_dgpo db)) (asset_mul_price (mk_asset x DELTA_SYMBOL))))"

definition min_update :: "database \<Rightarrow> asset result" where
  "min_update db =
     (if has_hardfork 20 db then
        res_bind (safe_div (amount (cp_account_creation_fee (wso_median_props (db_wso db)))) 30) (\<lambda>x.
        res_bind (get_vesting_share_price (db_dgpo db)) (asset_mul_price (mk_asset x DELTA_SYMBOL)))
      else res_bind (get_vesting_share_price (db_dgpo db)) (asset_mul_price (cp_account_creation_fee (wso_median_props (db_wso db)))))"

definition give_shares :: "asset \<Rightarrow> bool \<Rightarrow> account_object \<Rightarrow> account_object result" where
  "give_shares x hf20 a =
     res_bind (plus_asset VESTS_SYMBOL (acc_delegated_vesting_shares a) x) (\<lambda>d.
     let a = a\<lparr>acc_delegated_vesting_shares := d\<rparr>
     in Inr (if hf20 then spend_voting_mana (amount x) a else a))"

definition receive_shares :: "asset \<Rightarrow> bool \<Rightarrow> time_point_sec \<Rightarrow> account_object \<Rightarrow> account_object result" where
  "receive_shares x hf20 now a =
     res_bind (if hf20 then
                 res_bind (regenerate_voting_mana now a) (\<lambda>a. Inr (spend_voting_mana (- amount x) a))
               else Inr a) (\<lambda>a.
     res_bind (plus_asset VESTS_SYMBOL (acc_received_vesting_shares a) x) (\<lambda>r.
     Inr (a\<lparr>acc_received_vesting_shares := r\<rparr>)))"

definition lose_shares :: "asset \<Rightarrow> bool \<Rightarrow> account_object \<Rightarrow> account_object result" where
  "lose_shares x hf20 a =
     res_bind (minus_asset VESTS_SYMBOL (acc_received_vesting_shares a) x) (\<lambda>r.
     let a = a\<lparr>acc_received_vesting_shares := r\<rparr>
     in if hf20 then
          (let a = spend_voting_mana (amount x) a
           in Inr (if current_mana (acc_voting_manabar a) < 0
                   then a\<lparr>acc_voting_manabar := (acc_voting_manabar a)\<lparr>current_mana := 0\<rparr>\<rparr> else a))
        else Inr a)"

definition new_delegation ::
  "delegate_vesting_shares_operation \<Rightarrow> int \<Rightarrow> asset \<Rightarrow> database \<Rightarrow> database result" where
  "new_delegation op available minimum db =
     (let x = dg_vesting_shares op; now = head_block_time db
      in assert_ge (mk_asset available VESTS_SYMBOL) x
         (assert_ge x minimum
           (res_bind (create_by delegation_key
                \<lparr>vdo_delegator = dg_delegator op, vdo_delegatee = dg_delegatee op, vdo_vesting_shares = amount x,
                 vdo_min_delegation_time = now\<rparr> (db_delegations db)) (\<lambda>ds.
            res_bind (modify_account (dg_delegator op) (give_shares x (has_hardfork 20 db)) (db\<lparr>db_delegations := ds\<rparr>))
              (modify_account (dg_delegatee op) (receive_shares x (has_hardfork 20 db) now))))))"

definition set_delegation :: "vesting_delegation_object \<Rightarrow> int \<Rightarrow> database \<Rightarrow> database" where
  "set_delegation d x db =
     db\<lparr>db_delegations := replace_by delegation_key (delegation_key d) (d\<lparr>vdo_vesting_shares := x\<rparr>) (db_delegations db)\<rparr>"

definition increase_delegation ::
  "delegate_vesting_shares_operation \<Rightarrow> vesting_delegation_object \<Rightarrow> int \<Rightarrow> asset \<Rightarrow> database \<Rightarrow> database result" where
  "increase_delegation op d available minimum db =
     res_bind (asset_sub (dg_vesting_shares op) (mk_asset (vdo_vesting_shares d) VESTS_SYMBOL)) (\<lambda>delta.
     assert_ge delta minimum
     (assert_ge (mk_asset available VESTS_SYMBOL) delta
       (res_bind (modify_account (dg_delegator op) (give_shares delta (has_hardfork 20 db)) db) (\<lambda>db1.
        res_bind (modify_account (dg_delegatee op) (receive_shares delta (has_hardfork 20 db) (head_block_time db)) db1) (\<lambda>db2.
        Inr (set_delegation d (amount (dg_vesting_shares op)) db2))))))"

definition decrease_delegation ::
  "delegate_vesting_shares_operation \<Rightarrow> vesting_delegation_object \<Rightarrow> asset \<Rightarrow> asset \<Rightarrow> database \<Rightarrow> database result" where
  "decrease_delegation op d least_delegation least_update db =
     (let x = dg_vesting_shares op
      in res_bind (asset_sub (mk_asset (vdo_vesting_shares d) VESTS_SYMBOL) x) (\<lambda>delta.
         res_bind (if amount x > 0 then assert_ge delta least_update (assert_ge x least_delegation (Inr ()))
                   else check (vdo_vesting_shares d > 0)) (\<lambda>_.
         let expiration = \<lparr>vde_delegator = dg_delegator op, vde_vesting_shares = amount delta,
               vde_expiration = max (add_seconds (head_block_time db) (gpo_delegation_return_period (db_dgpo db))) (vdo_min_delegation_time d)\<rparr>
         in res_bind (modify_account (dg_delegatee op) (lose_shares delta (has_hardfork 20 db))
                (db\<lparr>db_delegation_expirations := db_delegation_expirations db @ [expiration]\<rparr>)) (\<lambda>db1.
            Inr (if amount x > 0 then set_delegation d (amount x) db1
                 else db1\<lparr>db_delegations := remove_by delegation_key (delegation_key d) (db_delegations db1)\<rparr>)))))"

definition delegate_vesting_shares_evaluator :: "delegate_vesting_shares_operation \<Rightarrow> database \<Rightarrow> database result" where
  "delegate_vesting_shares_evaluator op db =
     res_bind (get_account (dg_delegator op) db) (\<lambda>_.
     res_bind (get_account (dg_delegatee op) db) (\<lambda>_.
     res_bind (if has_hardfork 20 db then modify_account (dg_delegator op) (regenerate_voting_mana (head_block_time db)) db
               else Inr db) (\<lambda>db1.
     res_bind (get_account (dg_delegator op) db1) (\<lambda>delegator.
     res_bind (available_shares db1 delegator) (\<lambda>available.
     res_bind (min_delegation db1) (\<lambda>least_delegation.
     res_bind (min_update db1) (\<lambda>least_update.
     case find_by delegation_key (dg_delegator op, dg_delegatee op) (db_delegations db1) of
       None \<Rightarrow> new_delegation op available least_delegation db1
     | Some d \<Rightarrow>
         res_bind (asset_le (mk_asset (vdo_vesting_shares d) VESTS_SYMBOL) (dg_vesting_shares op)) (\<lambda>ge.
         if ge then increase_delegation op d available least_update db1
         else decrease_delegation op d least_delegation least_update db1))))))))"

section \<open>Return of delegations\<close>

definition due_delegation :: "database \<Rightarrow> vesting_delegation_expiration_object option" where
  "due_delegation db =
     (case index_begin vde_expiration (db_delegation_expirations db) of
        None \<Rightarrow> None
      | Some e \<Rightarrow> if vde_expiration e < head_block_time db then Some e else None)"

text \<open>The expirations have no key but their id; equal ones are interchangeable.\<close>

definition return_delegation :: "vesting_delegation_expiration_object \<Rightarrow> database \<Rightarrow> database result" where
  "return_delegation e db =
     (let db0 = push_virtual_operation (Return_Vesting_Delegation (vde_delegator e) (mk_asset (vde_vesting_shares e) VESTS_SYMBOL)) db
      in res_bind (modify_account (vde_delegator e) (\<lambda>a.
             res_bind (if has_hardfork 20 db then
                         res_bind (regenerate_voting_mana (head_block_time db) a) (\<lambda>a.
                         Inr (spend_voting_mana (- vde_vesting_shares e) a))
                       else Inr a) (\<lambda>a.
             res_bind (safe_sub (acc_delegated_vesting_shares a) (vde_vesting_shares e)) (\<lambda>d.
             Inr (a\<lparr>acc_delegated_vesting_shares := d\<rparr>)))) db0) (\<lambda>db1.
         Inr (db1\<lparr>db_delegation_expirations := remove1 e (db_delegation_expirations db1)\<rparr>)))"

definition clear_expired_delegations :: "database \<Rightarrow> database result option" where
  "clear_expired_delegations = drain due_delegation return_delegation"

section \<open>Shifts between accounts\<close>

text \<open>A change of what an account has delegated and received, and of nothing else that counts.\<close>

definition shifts :: "account_name_type \<Rightarrow> int \<Rightarrow> int \<Rightarrow> account_object \<Rightarrow> account_object \<Rightarrow> bool" where
  "shifts n x y a b \<longleftrightarrow> tally_view b = tally_view a \<and> schedule b = schedule a \<and> (\<forall>s. account_holds s b = account_holds s a) \<and>
     acc_reward_vesting_delta b = acc_reward_vesting_delta a \<and>
     acc_delegated_vesting_shares b = acc_delegated_vesting_shares a + (if acc_name a = n then x else 0) \<and>
     acc_received_vesting_shares b = acc_received_vesting_shares a + (if acc_name a = n then y else 0)"

definition shifted_accounts :: "(account_name_type \<Rightarrow> int) \<Rightarrow> (account_name_type \<Rightarrow> int) \<Rightarrow> database \<Rightarrow> database \<Rightarrow> bool" where
  "shifted_accounts f g db db' \<longleftrightarrow> step_effect (\<lambda>_. 0) 0 db db' \<and> map tally_view (db_accounts db') = map tally_view (db_accounts db) \<and>
     db' = db\<lparr>db_accounts := db_accounts db', db_vops := db_vops db', db_delegations := db_delegations db',
       db_delegation_expirations := db_delegation_expirations db'\<rparr> \<and>
     (\<forall>b \<in> set (db_accounts db'). \<exists>a \<in> set (db_accounts db). acc_name b = acc_name a \<and> schedule b = schedule a \<and>
        acc_vesting_shares b = acc_vesting_shares a \<and>
        acc_delegated_vesting_shares b = acc_delegated_vesting_shares a + f (acc_name a) \<and>
        acc_received_vesting_shares b = acc_received_vesting_shares a + g (acc_name a))"

lemma shifted_trans:
  assumes a: "shifted_accounts f g a b" and b: "shifted_accounts f' g' b c"
  shows "shifted_accounts (\<lambda>n. f n + f' n) (\<lambda>n. g n + g' n) a c"
proof -
  have "step_effect (\<lambda>_. 0) 0 a c" using a b by (simp add: shifted_accounts_def step_effect_def)
  moreover have "c = a\<lparr>db_accounts := db_accounts c, db_vops := db_vops c, db_delegations := db_delegations c,
      db_delegation_expirations := db_delegation_expirations c\<rparr>"
  proof -
    have e: "b = a\<lparr>db_accounts := db_accounts b, db_vops := db_vops b, db_delegations := db_delegations b,
        db_delegation_expirations := db_delegation_expirations b\<rparr>"
      "c = b\<lparr>db_accounts := db_accounts c, db_vops := db_vops c, db_delegations := db_delegations c,
        db_delegation_expirations := db_delegation_expirations c\<rparr>"
      using a b unfolding shifted_accounts_def by blast+
    show ?thesis by (subst e(2), subst e(1)) simp
  qed
  moreover have "\<exists>w \<in> set (db_accounts a). acc_name z = acc_name w \<and> schedule z = schedule w \<and>
        acc_vesting_shares z = acc_vesting_shares w \<and>
        acc_delegated_vesting_shares z = acc_delegated_vesting_shares w + (f (acc_name w) + f' (acc_name w)) \<and>
        acc_received_vesting_shares z = acc_received_vesting_shares w + (g (acc_name w) + g' (acc_name w))"
    if z: "z \<in> set (db_accounts c)" for z
  proof -
    from b z obtain y where y: "y \<in> set (db_accounts b)" "acc_name z = acc_name y" "schedule z = schedule y"
      "acc_vesting_shares z = acc_vesting_shares y" "acc_delegated_vesting_shares z = acc_delegated_vesting_shares y + f' (acc_name y)"
      "acc_received_vesting_shares z = acc_received_vesting_shares y + g' (acc_name y)" unfolding shifted_accounts_def by blast
    from a y(1) obtain w where "w \<in> set (db_accounts a)" "acc_name y = acc_name w" "schedule y = schedule w"
      "acc_vesting_shares y = acc_vesting_shares w" "acc_delegated_vesting_shares y = acc_delegated_vesting_shares w + f (acc_name w)"
      "acc_received_vesting_shares y = acc_received_vesting_shares w + g (acc_name w)" unfolding shifted_accounts_def by blast
    with y show ?thesis by (intro bexI [of _ w]) auto
  qed
  ultimately show ?thesis using a b by (simp add: shifted_accounts_def)
qed

lemma shifted_modify:
  assumes w: "wf_accounts db" and m: "modify_account n f db = Inr db'"
    and f: "\<And>a a'. f a = Inr a' \<Longrightarrow> acc_name a = n \<Longrightarrow> shifts n x y a a'"
  shows "shifted_accounts (\<lambda>k. if k = n then x else 0) (\<lambda>k. if k = n then y else 0) db db'"
proof -
  from m obtain a a' where a: "find_by acc_name n (db_accounts db) = Some a" "f a = Inr a'"
    and db': "db' = db\<lparr>db_accounts := replace_by acc_name n a' (db_accounts db)\<rparr>" by (rule modify_account_Inr)
  have an: "a \<in> set (db_accounts db)" "acc_name a = n" using find_by_Some [OF a(1)] by auto
  have sh: "shifts n x y a a'" using f [OF a(2) an(2)] .
  have d: "distinct (map acc_name (db_accounts db))" using w by (simp add: wf_accounts_def)
  have "step_effect (\<lambda>_. 0) 0 db db'" by (rule step_effect_modify [OF w m]) (use f in \<open>auto simp: shifts_def tally_view_def\<close>)
  moreover have "map tally_view (db_accounts db') = map tally_view (db_accounts db)"
    using map_replace_same [OF d a(1), of tally_view a'] sh by (simp add: db' shifts_def)
  moreover have "\<exists>c \<in> set (db_accounts db). acc_name b = acc_name c \<and> schedule b = schedule c \<and> acc_vesting_shares b = acc_vesting_shares c \<and>
        acc_delegated_vesting_shares b = acc_delegated_vesting_shares c + (if acc_name c = n then x else 0) \<and>
        acc_received_vesting_shares b = acc_received_vesting_shares c + (if acc_name c = n then y else 0)" if "b \<in> set (db_accounts db')" for b
  proof -
    from that consider "b = a'" | "b \<in> set (db_accounts db)" "acc_name b \<noteq> n" by (auto simp: db' replace_by_def split: if_splits)
    then show ?thesis
    proof cases
      case 1
      then show ?thesis using an sh by (intro bexI [of _ a]) (auto simp: shifts_def tally_view_def)
    next
      case 2
      then show ?thesis by (intro bexI [of _ b]) auto
    qed
  qed
  ultimately show ?thesis by (simp add: shifted_accounts_def db')
qed

lemma shifted_push: "wf_accounts db \<Longrightarrow> shifted_accounts (\<lambda>_. 0) (\<lambda>_. 0) db (push_virtual_operation v db)"
  by (auto simp: shifted_accounts_def push_virtual_operation_def step_effect_def wf_accounts_def surplus_def pending_surplus_def locked_def)

lemma shifted_delegations:
  assumes "wf_accounts db"
  shows "shifted_accounts (\<lambda>_. 0) (\<lambda>_. 0) db (db\<lparr>db_delegations := ds\<rparr>)"
    "shifted_accounts (\<lambda>_. 0) (\<lambda>_. 0) db (db\<lparr>db_delegation_expirations := es\<rparr>)"
  using assms by (auto simp: shifted_accounts_def step_effect_def wf_accounts_def surplus_def pending_surplus_def locked_def)

lemma shifted_wf: "shifted_accounts f g db db' \<Longrightarrow> wf_accounts db'"
  by (simp add: shifted_accounts_def step_effect_def)

lemma shifted_frame:
  assumes "shifted_accounts f g db db'"
  shows "db_witnesses db' = db_witnesses db" "db_witness_votes db' = db_witness_votes db" "db_dgpo db' = db_dgpo db"
    "db_hardforks db' = db_hardforks db" "wf_objects db' = wf_objects db"
proof -
  have e: "db' = db\<lparr>db_accounts := db_accounts db', db_vops := db_vops db', db_delegations := db_delegations db',
      db_delegation_expirations := db_delegation_expirations db'\<rparr>" using assms unfolding shifted_accounts_def by blast
  show "db_witnesses db' = db_witnesses db" "db_witness_votes db' = db_witness_votes db" "db_dgpo db' = db_dgpo db"
    "db_hardforks db' = db_hardforks db" "wf_objects db' = wf_objects db" by (subst e, simp add: wf_objects_def)+
qed

text \<open>
  A shift with the delegations that go with it: the delegators stay covered and the sums follow.
\<close>

lemma flow_shift:
  assumes s: "sound db" and sh: "shifted_accounts f g db db'"
    and cov: "\<And>a. a \<in> set (db_accounts db) \<Longrightarrow> covered a \<Longrightarrow> 0 \<le> acc_delegated_vesting_shares a + f (acc_name a) \<and>
      acc_delegated_vesting_shares a + f (acc_name a) + (acc_to_withdraw a - acc_withdrawn a) \<le> acc_vesting_shares a"
    and ds: "distinct (map delegation_key (db_delegations db'))" "\<forall>d \<in> set (db_delegations db'). 0 \<le> vdo_vesting_shares d"
      "\<forall>e \<in> set (db_delegation_expirations db'). 0 \<le> vde_vesting_shares e"
    and pa: "\<forall>d \<in> set (db_delegations db'). vdo_delegator d \<in> acc_name ` set (db_accounts db) \<and> vdo_delegatee d \<in> acc_name ` set (db_accounts db)"
      "\<forall>e \<in> set (db_delegation_expirations db'). vde_delegator e \<in> acc_name ` set (db_accounts db)"
    and sums: "\<And>n. delegated_by n db' = delegated_by n db + f n" "\<And>n. delegated_to n db' = delegated_to n db + g n"
  shows "flow (\<lambda>_. 0) 0 db db'"
proof -
  note fr = shifted_frame [OF sh]
  have tv: "map tally_view (db_accounts db') = map tally_view (db_accounts db)" "step_effect (\<lambda>_. 0) 0 db db'"
    using sh by (simp_all add: shifted_accounts_def)
  moreover have "votes_ok db'" by (rule votes_ok_view [OF tv(1) soundD(2) [OF s]]) (simp_all add: fr)
  moreover have "vest_gap db' = vest_gap db"
  proof -
    have e: "map acc_vesting_shares xs = map (\<lambda>(_, _, x, _). x) (map tally_view xs)" for xs by (simp add: tally_view_def)
    show ?thesis unfolding vest_gap_def e fr tv(1) ..
  qed
  moreover have "covered b \<and> acc_delegated_vesting_shares b = delegated_by (acc_name b) db' \<and>
      acc_received_vesting_shares b = delegated_to (acc_name b) db'" if "b \<in> set (db_accounts db')" for b
  proof -
    from that sh obtain a where a: "a \<in> set (db_accounts db)" "acc_name b = acc_name a" "schedule b = schedule a"
      "acc_vesting_shares b = acc_vesting_shares a" "acc_delegated_vesting_shares b = acc_delegated_vesting_shares a + f (acc_name a)"
      "acc_received_vesting_shares b = acc_received_vesting_shares a + g (acc_name a)" unfolding shifted_accounts_def by blast
    have c: "covered a" using soundD(8) [OF s a(1)] .
    have "covered b" using c cov [OF a(1) c] a(3-5) by (simp add: covered_def schedule_def)
    then show ?thesis using soundD(7) [OF s] a by (auto simp: delegations_ok_def sums)
  qed
  moreover have "acc_name ` set (db_accounts db') = acc_name ` set (db_accounts db)"
  proof -
    have "map acc_name xs = map fst (map tally_view xs)" for xs by (simp add: tally_view_def)
    then show ?thesis using tv(1) by (metis list.set_map)
  qed
  ultimately show ?thesis
    using soundD(1) [OF s] ds pa by (simp add: flow_def sound_def fr delegations_ok_def parties_exist_def)
qed

lemma give_shares_name: "give_shares x h a = Inr b \<Longrightarrow> acc_name b = acc_name a"
  by (auto simp: give_shares_def Let_def spend_voting_mana_def split: if_splits)

lemma parties_of:
  assumes "modify_account n f (db\<lparr>db_delegations := ds\<rparr>) = Inr db1" "modify_account m g db1 = Inr db'"
    and "\<And>a b. f a = Inr b \<Longrightarrow> acc_name b = acc_name a"
  shows "n \<in> acc_name ` set (db_accounts db)" "m \<in> acc_name ` set (db_accounts db)"
proof -
  from assms(1) obtain a a' where a: "find_by acc_name n (db_accounts db) = Some a" "f a = Inr a'"
    "db_accounts db1 = replace_by acc_name n a' (db_accounts db)" by (auto elim!: modify_account_Inr)
  show "n \<in> acc_name ` set (db_accounts db)" using find_by_Some [OF a(1)] by auto
  from assms(2) obtain b where "find_by acc_name m (db_accounts db1) = Some b" by (auto elim!: modify_account_Inr)
  then have "m \<in> acc_name ` set (db_accounts db1)" using find_by_Some by fastforce
  moreover have "acc_name a' = n" using assms(3) [OF a(2)] find_by_Some [OF a(1)] by simp
  then have "map acc_name (db_accounts db1) = map acc_name (db_accounts db)" by (simp add: a(3))
  then have "acc_name ` set (db_accounts db1) = acc_name ` set (db_accounts db)" by (metis list.set_map)
  ultimately show "m \<in> acc_name ` set (db_accounts db)" by simp
qed

section \<open>Flows\<close>

lemma to_int64_le: "- (2 ^ 63) \<le> x \<Longrightarrow> to_int64 x \<le> x"
  by (simp add: to_int64_def sint_sbintrunc' signed_take_bit_int_less_eq_self_iff)

text \<open>What may be delegated is neither delegated already nor about to be withdrawn.\<close>

lemma available_bound:
  assumes c: "covered a" and r: "0 \<le> acc_received_vesting_shares a" and av: "available_shares db a = Inr x"
  shows "acc_delegated_vesting_shares a + x + (acc_to_withdraw a - acc_withdrawn a) \<le> acc_vesting_shares a"
proof (cases "has_hardfork 20 db")
  case False
  then show ?thesis using av by (auto simp: available_shares_def dest!: safe_sub_Inr)
next
  case True
  let ?rest = "acc_to_withdraw a - acc_withdrawn a" and ?rate = "acc_vesting_withdraw_rate a"
  have b: "0 \<le> acc_delegated_vesting_shares a" "0 \<le> ?rest" "acc_delegated_vesting_shares a + ?rest \<le> acc_vesting_shares a"
    "acc_vesting_shares a \<le> int64_max" using c by (auto simp: covered_def)
  then have rest: "to_int64 ?rest = ?rest" by (intro to_int64_id) (auto simp: in_int64_def)
  define week where "week = (if acc_next_vesting_withdrawal a \<noteq> time_point_sec_maximum then min ?rate ?rest else 0)"
  let ?v = "acc_vesting_shares a + acc_received_vesting_shares a - acc_delegated_vesting_shares a - week"
  have "week \<le> ?rest" using b by (simp add: week_def)
  then have "to_int64 ?v \<le> ?v" using b r by (intro to_int64_le) simp
  moreover have "get_effective_vesting_shares a = to_int64 ?v" by (simp add: get_effective_vesting_shares_def week_def rest)
  ultimately have own: "get_effective_vesting_shares a - acc_received_vesting_shares a \<le> acc_vesting_shares a - acc_delegated_vesting_shares a - week"
    by simp
  show ?thesis
  proof (cases "acc_next_vesting_withdrawal a < time_point_sec_maximum")
    case True': True
    then have "week = min ?rate ?rest" by (simp add: week_def)
    then show ?thesis using av True True' own
      by (auto simp: available_shares_def Let_def rest dest!: safe_sub_Inr safe_add_Inr split: if_splits)
  next
    case False
    then have "acc_next_vesting_withdrawal a = time_point_sec_maximum" using c by (simp add: covered_def)
    then have "?rest = 0" using c by (simp add: covered_def)
    moreover have "week = 0" using \<open>acc_next_vesting_withdrawal a = time_point_sec_maximum\<close> by (simp add: week_def)
    ultimately show ?thesis using av True False own by (auto simp: available_shares_def Let_def dest!: safe_sub_Inr)
  qed
qed

lemma received_nonneg: "sound db \<Longrightarrow> a \<in> set (db_accounts db) \<Longrightarrow> 0 \<le> acc_received_vesting_shares a"
  using soundD(7) [of db] by (auto simp: delegations_ok_def delegated_to_def intro!: sum_list_nonneg)

lemma give_shares_shifts: "give_shares x hf a = Inr a' \<Longrightarrow> acc_name a = n \<Longrightarrow> shifts n (amount x) 0 a a'"
  by (auto simp: give_shares_def Let_def spend_voting_mana_def shifts_def tally_view_def schedule_def account_holds_def
    dest!: plus_asset_Inr split: if_splits)

lemma receive_shares_shifts: "receive_shares x hf now a = Inr a' \<Longrightarrow> acc_name a = n \<Longrightarrow> shifts n 0 (amount x) a a'"
  by (auto simp: receive_shares_def Let_def regenerate_voting_mana_def spend_voting_mana_def shifts_def tally_view_def schedule_def
    account_holds_def dest!: plus_asset_Inr split: if_splits)

lemma lose_shares_shifts: "lose_shares x hf a = Inr a' \<Longrightarrow> acc_name a = n \<Longrightarrow> shifts n 0 (- amount x) a a'"
  by (auto simp: lose_shares_def Let_def spend_voting_mana_def shifts_def tally_view_def schedule_def account_holds_def
    dest!: minus_asset_Inr split: if_splits)

lemma neutral_regenerate: "neutral (regenerate_voting_mana now)"
  by (auto simp: neutral_def regenerate_voting_mana_def account_holds_def)

text \<open>Shares that go from one account to another.\<close>

lemma exchange_shifted:
  assumes w: "wf_accounts db" and g: "modify_account n (give_shares x hf) db = Inr db1"
    and r: "modify_account m (receive_shares x hf now) db1 = Inr db2"
  shows "shifted_accounts (\<lambda>k. if k = n then amount x else 0) (\<lambda>k. if k = m then amount x else 0) db db2"
    "db_delegations db2 = db_delegations db" "db_delegation_expirations db2 = db_delegation_expirations db"
proof -
  note s1 = shifted_modify [OF w g give_shares_shifts]
  note s2 = shifted_modify [OF shifted_wf [OF s1] r receive_shares_shifts]
  show "shifted_accounts (\<lambda>k. if k = n then amount x else 0) (\<lambda>k. if k = m then amount x else 0) db db2"
    using shifted_trans [OF s1 s2] by simp
  show "db_delegations db2 = db_delegations db" "db_delegation_expirations db2 = db_delegation_expirations db"
    using g r by (auto elim!: modify_account_Inr)
qed

lemma covered_give:
  assumes s: "sound db" and x: "0 \<le> x" "x \<le> v" and a: "find_by acc_name n (db_accounts db) = Some a" "available_shares db a = Inr v"
    and b: "b \<in> set (db_accounts db)" "covered b"
  shows "0 \<le> acc_delegated_vesting_shares b + (if acc_name b = n then x else 0) \<and>
    acc_delegated_vesting_shares b + (if acc_name b = n then x else 0) + (acc_to_withdraw b - acc_withdrawn b) \<le> acc_vesting_shares b"
proof (cases "acc_name b = n")
  case True
  then have "b = a" using find_of_member [OF soundD(6) [OF s] b(1)] a by simp
  moreover have "0 \<le> acc_received_vesting_shares a" using received_nonneg [OF s] find_by_Some [OF a(1)] by blast
  ultimately have "acc_delegated_vesting_shares b + v + (acc_to_withdraw b - acc_withdrawn b) \<le> acc_vesting_shares b"
    using available_bound [OF _ _ a(2)] b(2) by simp
  then show ?thesis using b(2) x True by (auto simp: covered_def)
qed (use b in \<open>auto simp: covered_def\<close>)

lemma new_delegation_flow:
  assumes s: "sound db" and x: "0 \<le> amount (dg_vesting_shares op)"
    and a: "find_by acc_name (dg_delegator op) (db_accounts db) = Some a" and av: "available_shares db a = Inr v"
    and r: "new_delegation op v least db = Inr db'"
  shows "flow (\<lambda>_. 0) 0 db db'"
proof -
  let ?x = "dg_vesting_shares op" and ?n = "dg_delegator op" and ?m = "dg_delegatee op"
  let ?d = "\<lparr>vdo_delegator = ?n, vdo_delegatee = ?m, vdo_vesting_shares = amount ?x, vdo_min_delegation_time = head_block_time db\<rparr>"
  from r obtain ds db1 where le: "amount ?x \<le> v" and c: "create_by delegation_key ?d (db_delegations db) = Inr ds"
    and g: "modify_account ?n (give_shares ?x (has_hardfork 20 db)) (db\<lparr>db_delegations := ds\<rparr>) = Inr db1"
    and rc: "modify_account ?m (receive_shares ?x (has_hardfork 20 db) (head_block_time db)) db1 = Inr db'"
    by (auto simp: new_delegation_def Let_def)
  note dk = soundD(7) [OF s, unfolded delegations_ok_def parties_exist_def]
  have ds: "ds = db_delegations db @ [?d]" "distinct (map delegation_key ds)"
    using create_byD [OF c] distinct_create [OF c] dk by auto
  have s0: "shifted_accounts (\<lambda>_. 0) (\<lambda>_. 0) db (db\<lparr>db_delegations := ds\<rparr>)"
    by (rule shifted_delegations(1) [OF soundD(4) [OF s]])
  note ex = exchange_shifted [OF shifted_wf [OF s0] g rc]
  have e: "db_delegations db' = ds" "db_delegation_expirations db' = db_delegation_expirations db" using ex(2,3) by simp_all
  have sh: "shifted_accounts (\<lambda>k. if k = ?n then amount ?x else 0) (\<lambda>k. if k = ?m then amount ?x else 0) db db'"
    using shifted_trans [OF s0 ex(1)] by simp
  show ?thesis
  proof (rule flow_shift [OF s sh covered_give [OF s x le a av]])
    show "delegated_by n db' = delegated_by n db + (if n = ?n then amount ?x else 0)" for n by (simp add: delegated_by_def e ds)
    show "delegated_to n db' = delegated_to n db + (if n = ?m then amount ?x else 0)" for n by (simp add: delegated_to_def e ds)
    have "?n \<in> acc_name ` set (db_accounts db)" "?m \<in> acc_name ` set (db_accounts db)" using parties_of [OF g rc] give_shares_name by blast+
    then show "\<forall>d \<in> set (db_delegations db'). vdo_delegator d \<in> acc_name ` set (db_accounts db) \<and> vdo_delegatee d \<in> acc_name ` set (db_accounts db)"
      using dk by (auto simp: e ds)
  qed (use dk ds x in \<open>auto simp: e\<close>)
qed

lemma increase_delegation_flow:
  assumes s: "sound db" and d: "find_by delegation_key (dg_delegator op, dg_delegatee op) (db_delegations db) = Some d"
    and ge: "vdo_vesting_shares d \<le> amount (dg_vesting_shares op)"
    and a: "find_by acc_name (dg_delegator op) (db_accounts db) = Some a" and av: "available_shares db a = Inr v"
    and r: "increase_delegation op d v least db = Inr db'"
  shows "flow (\<lambda>_. 0) 0 db db'"
proof -
  let ?n = "dg_delegator op" and ?m = "dg_delegatee op" and ?y = "amount (dg_vesting_shares op)"
  define x where "x = mk_asset (?y - vdo_vesting_shares d) VESTS_SYMBOL"
  from r obtain db1 db2 where x: "amount x = ?y - vdo_vesting_shares d" "amount x \<le> v"
    and g: "modify_account ?n (give_shares x (has_hardfork 20 db)) db = Inr db1"
    and rc: "modify_account ?m (receive_shares x (has_hardfork 20 db) (head_block_time db)) db1 = Inr db2"
    and db': "db' = set_delegation d ?y db2"
    by (auto simp: increase_delegation_def asset_sub_def x_def dest!: safe_sub_Inr)
  have x0: "0 \<le> amount x" using x(1) ge by simp
  note dk = soundD(7) [OF s, unfolded delegations_ok_def parties_exist_def]
  have k: "delegation_key d = (?n, ?m)" "d \<in> set (db_delegations db)" using find_by_Some [OF d] by auto
  then have nm: "vdo_delegator d = ?n" "vdo_delegatee d = ?m" by (simp_all add: delegation_key_def)
  note ex = exchange_shifted [OF soundD(4) [OF s] g rc]
  let ?ds = "replace_by delegation_key (delegation_key d) (d\<lparr>vdo_vesting_shares := ?y\<rparr>) (db_delegations db)"
  have e: "db_delegations db' = ?ds" "db_delegation_expirations db' = db_delegation_expirations db"
    using ex(2,3) by (simp_all add: db' set_delegation_def)
  have "shifted_accounts (\<lambda>_. 0) (\<lambda>_. 0) db2 db'"
    using shifted_delegations(1) [OF shifted_wf [OF ex(1)]] by (simp add: db' set_delegation_def)
  from shifted_trans [OF ex(1) this]
  have sh: "shifted_accounts (\<lambda>k. if k = ?n then amount x else 0) (\<lambda>k. if k = ?m then amount x else 0) db db'" by simp
  have dist: "distinct (map delegation_key (db_delegations db))" using dk by simp
  note sr = sum_replace [OF dist d [folded k(1)]]
  show ?thesis
  proof (rule flow_shift [OF s sh covered_give [OF s x0 x(2) a av]])
    show "delegated_by n db' = delegated_by n db + (if n = ?n then amount x else 0)" for n
      using sr [of "\<lambda>d. if vdo_delegator d = n then vdo_vesting_shares d else 0" "d\<lparr>vdo_vesting_shares := ?y\<rparr>"]
      by (simp add: delegated_by_def e nm x(1))
    show "delegated_to n db' = delegated_to n db + (if n = ?m then amount x else 0)" for n
      using sr [of "\<lambda>d. if vdo_delegatee d = n then vdo_vesting_shares d else 0" "d\<lparr>vdo_vesting_shares := ?y\<rparr>"]
      by (simp add: delegated_to_def e nm x(1))
    have "delegation_key (d\<lparr>vdo_vesting_shares := ?y\<rparr>) = delegation_key d" by (simp add: delegation_key_def)
    then show "distinct (map delegation_key (db_delegations db'))" using dist by (simp add: e)
    have "0 \<le> ?y" using dk k(2) ge by force
    then show "\<forall>d \<in> set (db_delegations db'). 0 \<le> vdo_vesting_shares d" using dk by (auto simp: e replace_by_def)
    show "\<forall>d \<in> set (db_delegations db'). vdo_delegator d \<in> acc_name ` set (db_accounts db) \<and> vdo_delegatee d \<in> acc_name ` set (db_accounts db)"
      using dk k(2) by (auto simp: e replace_by_def)
  qed (use dk in \<open>auto simp: e\<close>)
qed

lemma decrease_delegation_flow:
  assumes s: "sound db" and d: "find_by delegation_key (dg_delegator op, dg_delegatee op) (db_delegations db) = Some d"
    and le: "amount (dg_vesting_shares op) < vdo_vesting_shares d" and y0: "0 \<le> amount (dg_vesting_shares op)"
    and r: "decrease_delegation op d l1 l2 db = Inr db'"
  shows "flow (\<lambda>_. 0) 0 db db'"
proof -
  let ?n = "dg_delegator op" and ?m = "dg_delegatee op" and ?y = "amount (dg_vesting_shares op)"
  define x where "x = mk_asset (vdo_vesting_shares d - ?y) VESTS_SYMBOL"
  have x: "amount x = vdo_vesting_shares d - ?y" by (simp add: x_def)
  define t where "t = max (add_seconds (head_block_time db) (gpo_delegation_return_period (db_dgpo db))) (vdo_min_delegation_time d)"
  from r obtain db1 where m: "modify_account ?m (lose_shares x (has_hardfork 20 db)) (db\<lparr>db_delegation_expirations := db_delegation_expirations db @
      [\<lparr>vde_delegator = ?n, vde_vesting_shares = amount x, vde_expiration = t\<rparr>]\<rparr>) = Inr db1"
    and db': "db' = (if ?y > 0 then set_delegation d ?y db1
      else db1\<lparr>db_delegations := remove_by delegation_key (delegation_key d) (db_delegations db1)\<rparr>)"
    by (auto simp: decrease_delegation_def asset_sub_def Let_def x_def t_def dest!: safe_sub_Inr)
  let ?es = "db_delegation_expirations db @ [\<lparr>vde_delegator = ?n, vde_vesting_shares = amount x, vde_expiration = t\<rparr>]"
  let ?ds = "if ?y > 0 then replace_by delegation_key (delegation_key d) (d\<lparr>vdo_vesting_shares := ?y\<rparr>) (db_delegations db)
    else remove_by delegation_key (delegation_key d) (db_delegations db)"
  note dk = soundD(7) [OF s, unfolded delegations_ok_def parties_exist_def]
  have k: "delegation_key d = (?n, ?m)" "d \<in> set (db_delegations db)" using find_by_Some [OF d] by auto
  then have nm: "vdo_delegator d = ?n" "vdo_delegatee d = ?m" by (simp_all add: delegation_key_def)
  have d1: "db_delegations db1 = db_delegations db" "db_delegation_expirations db1 = ?es" using m by (auto elim!: modify_account_Inr)
  then have e: "db_delegations db' = ?ds" "db_delegation_expirations db' = ?es" by (simp_all add: db' set_delegation_def)
  have s0: "shifted_accounts (\<lambda>_. 0) (\<lambda>_. 0) db (db\<lparr>db_delegation_expirations := ?es\<rparr>)"
    by (rule shifted_delegations(2) [OF soundD(4) [OF s]])
  have s1: "shifted_accounts (\<lambda>k. if k = ?m then 0 else 0) (\<lambda>k. if k = ?m then - amount x else 0) (db\<lparr>db_delegation_expirations := ?es\<rparr>) db1"
    by (rule shifted_modify [OF shifted_wf [OF s0] m]) (rule lose_shares_shifts)
  have "shifted_accounts (\<lambda>_. 0) (\<lambda>_. 0) db1 db'"
    using shifted_delegations(1) [OF shifted_wf [OF s1]] by (simp add: db' set_delegation_def)
  from shifted_trans [OF shifted_trans [OF s0 s1] this]
  have sh: "shifted_accounts (\<lambda>_. 0) (\<lambda>k. if k = ?m then - amount x else 0) db db'" by (simp cong: if_cong)
  have dist: "distinct (map delegation_key (db_delegations db))" using dk by simp
  note sr = sum_replace [OF dist d [folded k(1)]] and srm = sum_remove [OF dist d [folded k(1)]]
  show ?thesis
  proof (rule flow_shift [OF s sh])
    show "delegated_by n db' = delegated_by n db + 0" for n
      using sr [of "\<lambda>d. if vdo_delegator d = n then vdo_vesting_shares d else 0" "d\<lparr>vdo_vesting_shares := ?y\<rparr>"]
        srm [of "\<lambda>d. if vdo_delegator d = n then vdo_vesting_shares d else 0"] y0
      by (simp add: delegated_by_def e nm x)
    show "delegated_to n db' = delegated_to n db + (if n = ?m then - amount x else 0)" for n
      using sr [of "\<lambda>d. if vdo_delegatee d = n then vdo_vesting_shares d else 0" "d\<lparr>vdo_vesting_shares := ?y\<rparr>"]
        srm [of "\<lambda>d. if vdo_delegatee d = n then vdo_vesting_shares d else 0"] y0
      by (cases "n = ?m") (simp_all add: delegated_to_def e nm x)
    have "delegation_key (d\<lparr>vdo_vesting_shares := ?y\<rparr>) = delegation_key d" by (simp add: delegation_key_def)
    then show "distinct (map delegation_key (db_delegations db'))" using dist by (simp add: e)
    show "\<forall>d \<in> set (db_delegations db'). 0 \<le> vdo_vesting_shares d" using dk y0 by (auto simp: e replace_by_def remove_by_def)
    show "\<forall>d \<in> set (db_delegations db'). vdo_delegator d \<in> acc_name ` set (db_accounts db) \<and> vdo_delegatee d \<in> acc_name ` set (db_accounts db)"
      using dk k(2) by (auto simp: e replace_by_def remove_by_def)
    show "\<forall>e \<in> set (db_delegation_expirations db'). vde_delegator e \<in> acc_name ` set (db_accounts db)"
    proof -
      have "vdo_delegator d \<in> acc_name ` set (db_accounts db)" using dk k(2) by blast
      then show ?thesis using dk by (auto simp: e nm)
    qed
  qed (use dk x le in \<open>auto simp: e covered_def\<close>)
qed

lemma delegate_vesting_shares_flow:
  assumes s: "sound db" and v: "delegate_vesting_shares_validate op = Inr ()" and r: "delegate_vesting_shares_evaluator op db = Inr db'"
  shows "flow (\<lambda>_. 0) 0 db db'"
proof -
  have y0: "0 \<le> amount (dg_vesting_shares op)"
    using v by (auto simp: delegate_vesting_shares_validate_def check_asset_ge_def check_def asset_le_def)
  from r obtain db1 a av l1 l2 where
      m: "(if has_hardfork 20 db then modify_account (dg_delegator op) (regenerate_voting_mana (head_block_time db)) db else Inr db) = Inr db1"
    and a: "find_by acc_name (dg_delegator op) (db_accounts db1) = Some a" and av: "available_shares db1 a = Inr av"
    and rest: "(case find_by delegation_key (dg_delegator op, dg_delegatee op) (db_delegations db1) of
       None \<Rightarrow> new_delegation op av l1 db1
     | Some d \<Rightarrow>
         res_bind (asset_le (mk_asset (vdo_vesting_shares d) VESTS_SYMBOL) (dg_vesting_shares op)) (\<lambda>ge.
         if ge then increase_delegation op d av l2 db1 else decrease_delegation op d l1 l2 db1)) = Inr db'"
    unfolding delegate_vesting_shares_evaluator_def by (auto simp: get_account_def)
  have f1: "flow (\<lambda>_. 0) 0 db db1"
    using m flow_refl [OF s] flow_state [OF s state_step_neutral(1) [OF soundD(3) [OF s] _ neutral_regenerate]] by (auto split: if_splits)
  note s1 = flow_sound [OF f1]
  have "flow (\<lambda>_. 0) 0 db1 db'"
  proof (cases "find_by delegation_key (dg_delegator op, dg_delegatee op) (db_delegations db1)")
    case None
    then show ?thesis using rest new_delegation_flow [OF s1 y0 a av] by simp
  next
    case (Some d)
    then show ?thesis
      using rest increase_delegation_flow [OF s1 Some _ a av] decrease_delegation_flow [OF s1 Some _ y0]
      by (auto simp: asset_le_def split: if_splits)
  qed
  from flow_trans [OF f1 this] show ?thesis by simp
qed

section \<open>Flows of returned delegations\<close>

lemma due_delegation_Some: "due_delegation db = Some e \<Longrightarrow> e \<in> set (db_delegation_expirations db)"
  using index_begin_Some(1) by (fastforce simp: due_delegation_def split: option.splits if_splits)

lemma return_delegation_flow:
  assumes s: "sound db" and e: "e \<in> set (db_delegation_expirations db)" and r: "return_delegation e db = Inr db'"
  shows "flow (\<lambda>_. 0) 0 db db'" "db_delegation_expirations db' = remove1 e (db_delegation_expirations db)"
proof -
  let ?n = "vde_delegator e" and ?x = "vde_vesting_shares e" and ?es = "remove1 e (db_delegation_expirations db)"
  from r obtain v db1 where m: "modify_account ?n (\<lambda>a.
             res_bind (if has_hardfork 20 db then
                         res_bind (regenerate_voting_mana (head_block_time db) a) (\<lambda>a. Inr (spend_voting_mana (- ?x) a))
                       else Inr a) (\<lambda>a.
             res_bind (safe_sub (acc_delegated_vesting_shares a) ?x) (\<lambda>d.
             Inr (a\<lparr>acc_delegated_vesting_shares := d\<rparr>)))) (push_virtual_operation v db) = Inr db1"
    and db': "db' = db1\<lparr>db_delegation_expirations := remove1 e (db_delegation_expirations db1)\<rparr>"
    by (auto simp: return_delegation_def Let_def)
  have d1: "db_delegations db1 = db_delegations db" "db_delegation_expirations db1 = db_delegation_expirations db"
    using m by (auto elim!: modify_account_Inr simp: push_virtual_operation_def)
  have s0: "shifted_accounts (\<lambda>_. 0) (\<lambda>_. 0) db (push_virtual_operation v db)"
    by (rule shifted_push [OF soundD(4) [OF s]])
  have s1: "shifted_accounts (\<lambda>k. if k = ?n then - ?x else 0) (\<lambda>k. if k = ?n then 0 else 0) (push_virtual_operation v db) db1"
    by (rule shifted_modify [OF shifted_wf [OF s0] m])
      (auto simp: regenerate_voting_mana_def spend_voting_mana_def shifts_def tally_view_def schedule_def account_holds_def
         dest!: safe_sub_Inr split: if_splits)
  have "shifted_accounts (\<lambda>_. 0) (\<lambda>_. 0) db1 db'"
    using shifted_delegations(2) [OF shifted_wf [OF s1]] by (simp add: db')
  from shifted_trans [OF shifted_trans [OF s0 s1] this]
  have sh: "shifted_accounts (\<lambda>k. if k = ?n then - ?x else 0) (\<lambda>_. 0) db db'" by (simp cong: if_cong)
  note dk = soundD(7) [OF s, unfolded delegations_ok_def parties_exist_def]
  show es: "db_delegation_expirations db' = ?es" by (simp add: db' d1)
  have ds: "db_delegations db' = db_delegations db" by (simp add: db' d1)
  have rm: "table_sum g (db_delegation_expirations db) = g e + table_sum g ?es" for g :: "vesting_delegation_expiration_object \<Rightarrow> int"
    using e by (rule sum_list_map_remove1)
  have x: "0 \<le> ?x" using dk e by blast
  have lo: "?x \<le> delegated_by ?n db"
  proof -
    have "0 \<le> table_sum (\<lambda>d. if vdo_delegator d = ?n then vdo_vesting_shares d else 0) (db_delegations db)"
      using dk by (intro sum_list_nonneg) auto
    moreover have "0 \<le> table_sum (\<lambda>e'. if vde_delegator e' = ?n then vde_vesting_shares e' else 0) ?es"
      using dk notin_set_remove1 by (intro sum_list_nonneg) (fastforce split: if_splits)
    ultimately show ?thesis unfolding delegated_by_def rm by simp
  qed
  show "flow (\<lambda>_. 0) 0 db db'"
  proof (rule flow_shift [OF s sh])
    fix a assume a: "a \<in> set (db_accounts db)" "covered a"
    then have "acc_delegated_vesting_shares a = delegated_by (acc_name a) db" using dk by blast
    then show "0 \<le> acc_delegated_vesting_shares a + (if acc_name a = ?n then - ?x else 0) \<and>
      acc_delegated_vesting_shares a + (if acc_name a = ?n then - ?x else 0) + (acc_to_withdraw a - acc_withdrawn a) \<le> acc_vesting_shares a"
      using lo x a(2) by (auto simp: covered_def)
  next
    show "delegated_by n db' = delegated_by n db + (if n = ?n then - ?x else 0)" for n
      using rm [of "\<lambda>e. if vde_delegator e = n then vde_vesting_shares e else 0"] by (simp add: delegated_by_def ds es)
    show "\<forall>e \<in> set (db_delegation_expirations db'). 0 \<le> vde_vesting_shares e" using dk notin_set_remove1 by (fastforce simp: es)
    have "set ?es \<subseteq> set (db_delegation_expirations db)" by (rule set_remove1_subset)
    then show "\<forall>e \<in> set (db_delegation_expirations db'). vde_delegator e \<in> acc_name ` set (db_accounts db)"
      unfolding es using dk by blast
  qed (use dk in \<open>auto simp: ds delegated_to_def\<close>)
qed

interpretation delegation_loop: draining_loop due_delegation return_delegation sound "\<lambda>db. length (db_delegation_expirations db)"
proof unfold_locales
  fix db e db' assume a: "sound db" "due_delegation db = Some e" "return_delegation e db = Inr db'"
  note f = return_delegation_flow [OF a(1) due_delegation_Some [OF a(2)] a(3)]
  show "sound db'" using flow_sound [OF f(1)] .
  show "length (db_delegation_expirations db') < length (db_delegation_expirations db)"
    using due_delegation_Some [OF a(2)] length_pos_if_in_set [of e] by (force simp: f(2) length_remove1)
qed

lemma clear_expired_delegations_flow:
  assumes s: "sound db" and r: "clear_expired_delegations db = Some (Inr db')"
  shows "flow (\<lambda>_. 0) 0 db db'" "\<forall>e \<in> set (db_delegation_expirations db'). head_block_time db' \<le> vde_expiration e"
proof -
  define R where "R = flow (\<lambda>_. 0) 0"
  have d: "due_delegation db' = None \<and> sound db' \<and> R db db'"
  proof (rule delegation_loop.drained [OF s r [unfolded clear_expired_delegations_def]])
    show "R db db" unfolding R_def by (rule flow_refl [OF s])
    fix a e b assume a: "sound a" "R db a" "due_delegation a = Some e" "return_delegation e a = Inr b"
    from flow_trans [OF a(2) [unfolded R_def] return_delegation_flow(1) [OF a(1) due_delegation_Some [OF a(3)] a(4)]]
    show "R db b" by (simp add: R_def)
  qed
  then show "flow (\<lambda>_. 0) 0 db db'" by (simp add: R_def)
  show "\<forall>e \<in> set (db_delegation_expirations db'). head_block_time db' \<le> vde_expiration e"
  proof
    fix e assume e: "e \<in> set (db_delegation_expirations db')"
    obtain m where m: "index_begin vde_expiration (db_delegation_expirations db') = Some m" using index_begin_ex [OF e] by blast
    then have "head_block_time db' \<le> vde_expiration m" using d by (auto simp: due_delegation_def split: if_splits)
    then show "head_block_time db' \<le> vde_expiration e" using index_begin_Some(2) [OF m e] by simp
  qed
qed

end
