(* ===== verification/Escrow.thy ===== *)
theory Escrow
  imports Transfers
begin

text \<open>
  Escrows (\<open>delta_evaluator.cpp\<close>: the four escrow evaluators; \<open>database.cpp\<close>: \<open>get_escrow\<close>,
  \<open>expire_escrow_ratification\<close>). An escrow is found by its sender and number; the evaluators hold a
  reference to it, modelled by storing every change back under that key.
\<close>

section \<open>Evaluators\<close>

definition get_escrow :: "account_name_type \<Rightarrow> 32 word \<Rightarrow> database \<Rightarrow> escrow_object result" where
  "get_escrow name escrow_id db = of_option Out_Of_Range (find_by escrow_key (name, escrow_id) (db_escrows db))"

definition store_escrow :: "escrow_object \<Rightarrow> database \<Rightarrow> database" where
  "store_escrow e db = db\<lparr>db_escrows := replace_by escrow_key (escrow_key e) e (db_escrows db)\<rparr>"

definition remove_escrow :: "escrow_object \<Rightarrow> database \<Rightarrow> database" where
  "remove_escrow e db = db\<lparr>db_escrows := remove_by escrow_key (escrow_key e) (db_escrows db)\<rparr>"

definition create_escrow :: "escrow_object \<Rightarrow> database \<Rightarrow> database result" where
  "create_escrow e db = res_bind (create_by escrow_key e (db_escrows db)) (\<lambda>xs. Inr (db\<lparr>db_escrows := xs\<rparr>))"

definition escrow_transfer_evaluator :: "escrow_transfer_operation \<Rightarrow> database \<Rightarrow> database result" where
  "escrow_transfer_evaluator op db =
     res_bind (get_account (et_from op) db) (\<lambda>from_account.
     res_bind (get_account (et_to op) db) (\<lambda>_.
     res_bind (get_account (et_agent op) db) (\<lambda>_.
     fc_assert (et_ratification_deadline op > head_block_time db)
     (fc_assert (et_escrow_expiration op > head_block_time db)
       (res_bind (if symbol (et_fee op) = DELTA_SYMBOL then asset_add (et_delta_amount op) (et_fee op) else Inr (et_delta_amount op)) (\<lambda>delta_spent.
        res_bind (if symbol (et_fee op) = DELTA_SYMBOL then Inr (et_dbd_amount op) else asset_add (et_dbd_amount op) (et_fee op)) (\<lambda>dbd_spent.
        assert_ge (mk_asset (acc_balance from_account) DELTA_SYMBOL) delta_spent
        (assert_ge (mk_asset (acc_dbd_balance from_account) DBD_SYMBOL) dbd_spent
          (res_bind (asset_neg delta_spent) (\<lambda>neg_delta.
           res_bind (adjust_balance (et_from op) neg_delta db) (\<lambda>db1.
           res_bind (asset_neg dbd_spent) (\<lambda>neg_dbd.
           res_bind (adjust_balance (et_from op) neg_dbd db1)
             (create_escrow
               \<lparr>esc_escrow_id = et_escrow_id op, esc_from = et_from op, esc_to = et_to op, esc_agent = et_agent op,
                esc_ratification_deadline = et_ratification_deadline op, esc_expiration = et_escrow_expiration op,
                esc_dbd_balance = et_dbd_amount op, esc_delta_balance = et_delta_amount op, esc_pending_fee = et_fee op,
                esc_to_approved = False, esc_agent_approved = False, esc_disputed = False\<rparr>)))))))))))))"

text \<open>The refund of a rejected or expired escrow.\<close>

definition refund_escrow :: "account_name_type \<Rightarrow> escrow_object \<Rightarrow> database \<Rightarrow> database result" where
  "refund_escrow name e db =
     res_bind (adjust_balance name (esc_delta_balance e) db) (\<lambda>db1.
     res_bind (adjust_balance name (esc_dbd_balance e) db1) (\<lambda>db2.
     res_bind (adjust_balance name (esc_pending_fee e) db2) (\<lambda>db3.
     Inr (remove_escrow e db3))))"

definition escrow_approve_evaluator :: "escrow_approve_operation \<Rightarrow> database \<Rightarrow> database result" where
  "escrow_approve_evaluator op db =
     res_bind (get_escrow (ea_from op) (ea_escrow_id op) db) (\<lambda>escrow.
     fc_assert (esc_to escrow = ea_to op)
     (fc_assert (esc_agent escrow = ea_agent op)
     (fc_assert (esc_ratification_deadline escrow \<ge> head_block_time db)
       (let reject_escrow = \<not> ea_approve op
        in res_bind (if ea_who op = ea_to op
                     then fc_assert (\<not> esc_to_approved escrow)
                            (Inr (if \<not> reject_escrow then escrow\<lparr>esc_to_approved := True\<rparr> else escrow))
                     else Inr escrow) (\<lambda>e1.
           res_bind (if ea_who op = ea_agent op
                     then fc_assert (\<not> esc_agent_approved e1)
                            (Inr (if \<not> reject_escrow then e1\<lparr>esc_agent_approved := True\<rparr> else e1))
                     else Inr e1) (\<lambda>e2.
           let db1 = store_escrow e2 db
           in if reject_escrow then refund_escrow (ea_from op) e2 db1
              else if esc_to_approved e2 \<and> esc_agent_approved e2 then
                res_bind (adjust_balance (ea_agent op) (esc_pending_fee e2) db1) (\<lambda>db2.
                Inr (store_escrow (e2\<lparr>esc_pending_fee := (esc_pending_fee e2)\<lparr>amount := 0\<rparr>\<rparr>) db2))
              else Inr db1))))))"

definition escrow_dispute_evaluator :: "escrow_dispute_operation \<Rightarrow> database \<Rightarrow> database result" where
  "escrow_dispute_evaluator op db =
     res_bind (get_account (ed_from op) db) (\<lambda>_.
     res_bind (get_escrow (ed_from op) (ed_escrow_id op) db) (\<lambda>e.
     fc_assert (head_block_time db < esc_expiration e)
     (fc_assert (esc_to_approved e \<and> esc_agent_approved e)
     (fc_assert (\<not> esc_disputed e)
     (fc_assert (esc_to e = ed_to op)
     (fc_assert (esc_agent e = ed_agent op)
       (Inr (store_escrow (e\<lparr>esc_disputed := True\<rparr>) db))))))))"

text \<open>Who may release, and to whom.\<close>

definition release_allowed :: "escrow_object \<Rightarrow> account_name_type \<Rightarrow> account_name_type \<Rightarrow> time_point_sec \<Rightarrow> unit result" where
  "release_allowed e who receiver now =
     (if esc_disputed e then check (who = esc_agent e)
      else
        fc_assert (who = esc_from e \<or> who = esc_to e)
          (if esc_expiration e > now then
             (if who = esc_from e then check (receiver = esc_to e)
              else if who = esc_to e then check (receiver = esc_from e)
              else Inr ())
           else Inr ()))"

definition escrow_release_evaluator :: "escrow_release_operation \<Rightarrow> database \<Rightarrow> database result" where
  "escrow_release_evaluator op db =
     res_bind (get_account (er_from op) db) (\<lambda>_.
     res_bind (get_escrow (er_from op) (er_escrow_id op) db) (\<lambda>e.
     assert_ge (esc_delta_balance e) (er_delta_amount op)
     (assert_ge (esc_dbd_balance e) (er_dbd_amount op)
     (fc_assert (esc_to e = er_to op)
     (fc_assert (esc_agent e = er_agent op)
     (fc_assert (er_receiver op = esc_from e \<or> er_receiver op = esc_to e)
     (fc_assert (esc_to_approved e \<and> esc_agent_approved e)
     (res_bind (release_allowed e (er_who op) (er_receiver op) (head_block_time db)) (\<lambda>_.
      res_bind (adjust_balance (er_receiver op) (er_delta_amount op) db) (\<lambda>db1.
      res_bind (adjust_balance (er_receiver op) (er_dbd_amount op) db1) (\<lambda>db2.
      res_bind (asset_sub (esc_delta_balance e) (er_delta_amount op)) (\<lambda>d.
      res_bind (asset_sub (esc_dbd_balance e) (er_dbd_amount op)) (\<lambda>b.
      let e' = e\<lparr>esc_delta_balance := d, esc_dbd_balance := b\<rparr>; db3 = store_escrow e' db2
      in if amount d = 0 \<and> amount b = 0 then Inr (remove_escrow e' db3) else Inr db3)))))))))))))"

text \<open>
  The expiration loop follows an iterator over the escrows that are not approved, in the order of
  their deadlines; it removes every escrow it visits.
\<close>

definition due_escrow :: "database \<Rightarrow> escrow_object option" where
  "due_escrow db =
     (case index_begin (\<lambda>e. (is_approved e, esc_ratification_deadline e)) (db_escrows db) of
        None \<Rightarrow> None
      | Some e \<Rightarrow> if \<not> is_approved e \<and> esc_ratification_deadline e \<le> head_block_time db then Some e else None)"

definition expire_escrow :: "escrow_object \<Rightarrow> database \<Rightarrow> database result" where
  "expire_escrow e db = refund_escrow (esc_from e) e db"

definition expire_escrow_ratification :: "database \<Rightarrow> database result option" where
  "expire_escrow_ratification = drain due_escrow expire_escrow"

section \<open>Conservation\<close>

lemma wf_escrow_of:
  assumes "wf_state db" "find_by escrow_key k (db_escrows db) = Some e"
  shows "wf_escrow e" "escrow_key e = k" "distinct (map escrow_key (db_escrows db))" "e \<in> set (db_escrows db)"
  using assms find_by_Some [OF assms(2)] by (auto simp: wf_state_def wf_objects_def)

lemma tallies_store_escrow: "same_tallies db db' \<Longrightarrow> same_tallies db (store_escrow e db')"
  by (simp add: same_tallies_def store_escrow_def)

lemma step_effect_store_escrow:
  assumes wf: "wf_accounts db" and d: "distinct (map escrow_key (db_escrows db))"
    and e: "find_by escrow_key (escrow_key e') (db_escrows db) = Some e"
  shows "step_effect (\<lambda>s. escrow_holds s e' - escrow_holds s e) 0 db (store_escrow e' db)"
  using wf sum_replace [OF d e, of _ e']
  by (simp add: store_escrow_def step_effect_def wf_accounts_def same_tallies_def surplus_def pending_surplus_def locked_def)

lemma state_step_store_escrow:
  assumes wf: "wf_state db" and e: "find_by escrow_key (escrow_key e') (db_escrows db) = Some e" and w: "wf_escrow e'"
  shows "state_step (\<lambda>s. escrow_holds s e' - escrow_holds s e) db (store_escrow e' db)"
proof -
  note d = wf_escrow_of [OF wf e]
  have "\<forall>x \<in> set (replace_by escrow_key (escrow_key e') e' (db_escrows db)). wf_escrow x"
    using wf w by (auto simp: replace_by_def wf_state_def wf_objects_def)
  then have "wf_objects (store_escrow e' db)"
    using wf d(3) by (simp add: store_escrow_def wf_state_def wf_objects_def)
  then show ?thesis using step_effect_store_escrow [OF _ d(3) e] wf by (simp add: state_step_def wf_state_def tallies_store_escrow)
qed

lemma state_step_remove_escrow:
  assumes wf: "wf_state db" and e: "find_by escrow_key (escrow_key e) (db_escrows db) = Some e"
  shows "state_step (\<lambda>s. - escrow_holds s e) db (remove_escrow e db)"
  using wf sum_remove [OF wf_escrow_of(3) [OF wf e] e]
  by (simp add: remove_escrow_def state_step_def step_effect_def wf_state_def wf_objects_def
    wf_accounts_def same_tallies_def surplus_def pending_surplus_def locked_def)

lemma state_step_create_escrow:
  assumes "wf_state db" "create_escrow e db = Inr db'" "wf_escrow e"
  shows "state_step (\<lambda>s. escrow_holds s e) db db'"
  using assms
  by (auto simp: create_escrow_def state_step_def step_effect_def wf_state_def wf_objects_def wf_accounts_def
    same_tallies_def surplus_def pending_surplus_def locked_def dest!: create_byD)

lemma asset_add_Inr: "asset_add a b = Inr c \<Longrightarrow> symbol a = symbol b \<and> symbol c = symbol a \<and> amount c = amount a + amount b"
  by (auto simp: asset_add_def dest!: safe_add_Inr)

lemma asset_sub_Inr: "asset_sub a b = Inr c \<Longrightarrow> symbol a = symbol b \<and> symbol c = symbol a \<and> amount c = amount a - amount b"
  by (auto simp: asset_sub_def dest!: safe_sub_Inr)

lemma escrow_transfer_step:
  assumes "wf_state db" "escrow_transfer_evaluator op db = Inr db'"
  shows "state_step (\<lambda>_. 0) db db'"
proof -
  from assms(2) obtain x y nx ny db1 db2 e where
    x: "(if symbol (et_fee op) = DELTA_SYMBOL then asset_add (et_delta_amount op) (et_fee op) else Inr (et_delta_amount op)) = Inr x"
    and y: "(if symbol (et_fee op) = DELTA_SYMBOL then Inr (et_dbd_amount op) else asset_add (et_dbd_amount op) (et_fee op)) = Inr y"
    and sy: "symbol x = DELTA_SYMBOL" "symbol y = DBD_SYMBOL" and n: "asset_neg x = Inr nx" "asset_neg y = Inr ny"
    and s1: "adjust_balance (et_from op) nx db = Inr db1" and s2: "adjust_balance (et_from op) ny db1 = Inr db2"
    and s3: "create_escrow e db2 = Inr db'"
    and e: "esc_delta_balance e = et_delta_amount op" "esc_dbd_balance e = et_dbd_amount op" "esc_pending_fee e = et_fee op" "\<not> is_approved e"
    by (auto simp: escrow_transfer_evaluator_def is_approved_def)
  have we: "wf_escrow e"
    using x y sy e by (auto simp: wf_escrow_def split: if_splits dest!: asset_add_Inr)
  note e1 = state_step_adjust [OF assms(1) s1]
  have e1: "state_step (\<lambda>s. coin s nx) db db1"
    using state_step_adjust [OF assms(1) s1] sy asset_neg_Inr [OF n(1)] by simp
  have e2: "state_step (\<lambda>s. coin s ny) db1 db2"
    using state_step_adjust [OF state_step_wf [OF e1] s2] sy asset_neg_Inr [OF n(2)] by simp
  have e3: "state_step (\<lambda>s. escrow_holds s e) db2 db'"
    by (rule state_step_create_escrow [OF state_step_wf [OF e2] s3 we])
  have "escrow_holds s e = coin s x + coin s y" for s
    using x y sy e by (auto simp: escrow_holds_def coin_def split: if_splits dest!: asset_add_Inr)
  then show ?thesis
    by (intro state_step_cong [OF state_step_trans [OF e1 state_step_trans [OF e2 e3]]]) (simp add: coin_neg [OF n(1)] coin_neg [OF n(2)])
qed

lemma refund_escrow_step:
  assumes "wf_state db" "find_by escrow_key (escrow_key e) (db_escrows db) = Some e" "refund_escrow n e db = Inr db'"
  shows "state_step (\<lambda>_. 0) db db'" "db_escrows db' = remove_by escrow_key (escrow_key e) (db_escrows db)"
    "head_block_time db' = head_block_time db"
proof -
  from assms(3) obtain db1 db2 db3 where s1: "adjust_balance n (esc_delta_balance e) db = Inr db1"
    and s2: "adjust_balance n (esc_dbd_balance e) db1 = Inr db2" and s3: "adjust_balance n (esc_pending_fee e) db2 = Inr db3"
    and db': "db' = remove_escrow e db3"
    by (auto simp: refund_escrow_def)
  have sy: "symbol (esc_delta_balance e) \<in> {DELTA_SYMBOL, DBD_SYMBOL}" "symbol (esc_dbd_balance e) \<in> {DELTA_SYMBOL, DBD_SYMBOL}"
    "symbol (esc_pending_fee e) \<in> {DELTA_SYMBOL, DBD_SYMBOL}"
    using wf_escrow_of(1) [OF assms(1,2)] by (auto simp: wf_escrow_def)
  note e1 = state_step_adjust [OF assms(1) s1 sy(1)]
  note e2 = state_step_adjust [OF state_step_wf [OF e1(1)] s2 sy(2)]
  note e3 = state_step_adjust [OF state_step_wf [OF e2(1)] s3 sy(3)]
  note so = same_objects_trans [OF e1(2) same_objects_trans [OF e2(2) e3(2)]]
  have "find_by escrow_key (escrow_key e) (db_escrows db3) = Some e" using assms(2) by (simp add: same_objectsD [OF so])
  note e4 = state_step_remove_escrow [OF state_step_wf [OF e3(1)] this]
  show "state_step (\<lambda>_. 0) db db'"
    unfolding db' by (rule state_step_cong [OF state_step_trans [OF e1(1) state_step_trans [OF e2(1) state_step_trans [OF e3(1) e4]]]])
      (simp add: escrow_holds_def)
  show "db_escrows db' = remove_by escrow_key (escrow_key e) (db_escrows db)" "head_block_time db' = head_block_time db"
    using same_objectsD [OF so] by (simp_all add: db' remove_escrow_def head_block_time_def)
qed

lemma find_store_escrow:
  assumes "find_by escrow_key (escrow_key e') (db_escrows db) = Some e"
  shows "find_by escrow_key k (db_escrows (store_escrow e' db)) = (if k = escrow_key e' then Some e' else find_by escrow_key k (db_escrows db))"
proof -
  have "escrow_key e' \<in> escrow_key ` set (db_escrows db)" using find_by_Some [OF assms] by (metis image_eqI)
  then show ?thesis by (auto simp: store_escrow_def find_by_replace)
qed

text \<open>What the two approval checks compute from the stored escrow.\<close>

lemma approved_escrow:
  assumes "(if w = t then fc_assert (\<not> esc_to_approved e) (Inr (if \<not> r then e\<lparr>esc_to_approved := True\<rparr> else e)) else Inr e) = Inr e1"
    and "(if w = g then fc_assert (\<not> esc_agent_approved e1) (Inr (if \<not> r then e1\<lparr>esc_agent_approved := True\<rparr> else e1)) else Inr e1) = Inr e2"
  shows "e2 = e\<lparr>esc_to_approved := esc_to_approved e \<or> w = t \<and> \<not> r, esc_agent_approved := esc_agent_approved e \<or> w = g \<and> \<not> r\<rparr>"
    "w = t \<Longrightarrow> \<not> esc_to_approved e" "w = g \<Longrightarrow> \<not> esc_agent_approved e"
  using assms by (auto split: if_splits)

lemma escrow_approve_Inr:
  assumes "escrow_approve_evaluator op db = Inr db'"
  obtains e e2 where "find_by escrow_key (ea_from op, ea_escrow_id op) (db_escrows db) = Some e"
    "esc_to e = ea_to op" "esc_agent e = ea_agent op" "head_block_time db \<le> esc_ratification_deadline e"
    "e2 = e\<lparr>esc_to_approved := esc_to_approved e \<or> ea_who op = ea_to op \<and> ea_approve op,
            esc_agent_approved := esc_agent_approved e \<or> ea_who op = ea_agent op \<and> ea_approve op\<rparr>"
    "ea_who op = ea_to op \<Longrightarrow> \<not> esc_to_approved e" "ea_who op = ea_agent op \<Longrightarrow> \<not> esc_agent_approved e"
    "(if \<not> ea_approve op then refund_escrow (ea_from op) e2 (store_escrow e2 db)
      else if is_approved e2 then res_bind (adjust_balance (ea_agent op) (esc_pending_fee e2) (store_escrow e2 db))
        (\<lambda>db2. Inr (store_escrow (e2\<lparr>esc_pending_fee := (esc_pending_fee e2)\<lparr>amount := 0\<rparr>\<rparr>) db2))
      else Inr (store_escrow e2 db)) = Inr db'"
proof -
  from assms obtain e e1 e2 where *: "find_by escrow_key (ea_from op, ea_escrow_id op) (db_escrows db) = Some e"
    "esc_to e = ea_to op" "esc_agent e = ea_agent op" "head_block_time db \<le> esc_ratification_deadline e"
    "(if ea_who op = ea_to op then fc_assert (\<not> esc_to_approved e) (Inr (if \<not> \<not> ea_approve op then e\<lparr>esc_to_approved := True\<rparr> else e)) else Inr e) = Inr e1"
    "(if ea_who op = ea_agent op then fc_assert (\<not> esc_agent_approved e1) (Inr (if \<not> \<not> ea_approve op then e1\<lparr>esc_agent_approved := True\<rparr> else e1)) else Inr e1) = Inr e2"
    "(if \<not> ea_approve op then refund_escrow (ea_from op) e2 (store_escrow e2 db)
      else if is_approved e2 then res_bind (adjust_balance (ea_agent op) (esc_pending_fee e2) (store_escrow e2 db))
        (\<lambda>db2. Inr (store_escrow (e2\<lparr>esc_pending_fee := (esc_pending_fee e2)\<lparr>amount := 0\<rparr>\<rparr>) db2))
      else Inr (store_escrow e2 db)) = Inr db'"
    unfolding escrow_approve_evaluator_def get_escrow_def Let_def is_approved_def by (elim res_bind_InrE) auto
  show ?thesis
    using that [OF *(1-4) _ _ _ *(7)] approved_escrow [OF *(5,6)] by simp
qed

text \<open>The second approval pays the fee: storing the approval, the payment and storing the paid fee.\<close>

lemma approve_and_pay_step:
  assumes wf: "wf_state db" and e: "find_by escrow_key (escrow_key e2) (db_escrows db) = Some e"
    and h: "\<And>s. escrow_holds s e2 = escrow_holds s e" and sy: "symbol (esc_pending_fee e2) \<in> {DELTA_SYMBOL, DBD_SYMBOL}"
    and a: "adjust_balance n (esc_pending_fee e2) (store_escrow e2 db) = Inr db2"
    and e3: "e3 = e2\<lparr>esc_pending_fee := (esc_pending_fee e2)\<lparr>amount := 0\<rparr>\<rparr>" and w: "wf_escrow e3"
  shows "state_step (\<lambda>_. 0) db (store_escrow e3 db2)"
    "db_escrows (store_escrow e3 db2) = replace_by escrow_key (escrow_key e3) e3 (db_escrows db)"
proof -
  have wa: "wf_accounts db" using wf by (simp add: wf_state_def)
  note d = wf_escrow_of [OF wf e]
  note p1 = step_effect_store_escrow [OF wa d(3) e]
  have w1: "wf_accounts (store_escrow e2 db)" using p1 by (simp add: step_effect_def)
  have k: "escrow_key e3 = escrow_key e2" by (simp add: e3 escrow_key_def)
  have l2: "ledger_step (\<lambda>s. coin s (esc_pending_fee e2)) 0 (store_escrow e2 db) db2"
    using adjust_balance_step [OF w1 a] sy by auto
  have es: "db_escrows db2 = replace_by escrow_key (escrow_key e2) e2 (db_escrows db)"
    using same_objectsD(4) [OF ledger_stepD(2) [OF l2]] by (simp add: store_escrow_def)
  have f2: "find_by escrow_key (escrow_key e3) (db_escrows db2) = Some e2"
    using find_store_escrow [OF e, of "escrow_key e3"] k same_objectsD(4) [OF ledger_stepD(2) [OF l2]] by simp
  have d2: "distinct (map escrow_key (db_escrows db2))" using d(3) by (simp add: es)
  note p3 = step_effect_store_escrow [OF ledger_stepD(4) [OF l2] d2 f2]
  have h3: "escrow_holds s e3 = escrow_holds s e2 - coin s (esc_pending_fee e2)" for s
    by (simp add: e3 escrow_holds_def coin_def)
  have eff: "step_effect (\<lambda>_. 0) 0 db (store_escrow e3 db2)"
    by (rule step_effect_cong [OF step_effect_trans [OF p1 step_effect_trans [OF ledger_stepD(1) [OF l2] p3]]])
      (simp_all add: h h3)
  show esc: "db_escrows (store_escrow e3 db2) = replace_by escrow_key (escrow_key e3) e3 (db_escrows db)"
    by (simp add: store_escrow_def es k)
  have "\<forall>x \<in> set (replace_by escrow_key (escrow_key e3) e3 (db_escrows db)). wf_escrow x"
    using wf w by (auto simp: replace_by_def wf_state_def wf_objects_def)
  then have "wf_objects (store_escrow e3 db2)"
    using wf esc same_objectsD [OF ledger_stepD(2) [OF l2]] by (simp add: store_escrow_def wf_state_def wf_objects_def)
  moreover have "same_tallies db db2"
    using ledger_stepD(3) [OF l2] tallies_store_escrow [of db db] same_tallies_trans by (metis same_tallies_refl)
  ultimately show "state_step (\<lambda>_. 0) db (store_escrow e3 db2)" using eff by (simp add: state_step_def tallies_store_escrow)
qed

lemma escrow_approve_step:
  assumes "wf_state db" "escrow_approve_evaluator op db = Inr db'" "ea_who op \<in> {ea_to op, ea_agent op}"
  shows "state_step (\<lambda>_. 0) db db'"
  using assms(2)
proof (rule escrow_approve_Inr)
  fix e e2
  assume e: "find_by escrow_key (ea_from op, ea_escrow_id op) (db_escrows db) = Some e"
    and par: "esc_to e = ea_to op" "esc_agent e = ea_agent op"
    and e2: "e2 = e\<lparr>esc_to_approved := esc_to_approved e \<or> ea_who op = ea_to op \<and> ea_approve op,
            esc_agent_approved := esc_agent_approved e \<or> ea_who op = ea_agent op \<and> ea_approve op\<rparr>"
    and once: "ea_who op = ea_to op \<Longrightarrow> \<not> esc_to_approved e" "ea_who op = ea_agent op \<Longrightarrow> \<not> esc_agent_approved e"
    and r: "(if \<not> ea_approve op then refund_escrow (ea_from op) e2 (store_escrow e2 db)
      else if is_approved e2 then res_bind (adjust_balance (ea_agent op) (esc_pending_fee e2) (store_escrow e2 db))
        (\<lambda>db2. Inr (store_escrow (e2\<lparr>esc_pending_fee := (esc_pending_fee e2)\<lparr>amount := 0\<rparr>\<rparr>) db2))
      else Inr (store_escrow e2 db)) = Inr db'"
  note d = wf_escrow_of [OF assms(1) e]
  have k2: "escrow_key e2 = escrow_key e" by (simp add: e2 escrow_key_def)
  have f: "find_by escrow_key (escrow_key e2) (db_escrows db) = Some e" using e d(2) k2 by simp
  have h: "escrow_holds s e2 = escrow_holds s e" for s by (simp add: e2 escrow_holds_def)
  show ?thesis
  proof (cases "ea_approve op")
    case False
    then have "wf_escrow e2" using d(1) e2 by (simp add: wf_escrow_def is_approved_def)
    note p1 = state_step_store_escrow [OF assms(1) f this]
    have r': "refund_escrow (ea_from op) e2 (store_escrow e2 db) = Inr db'" using r False by simp
    have "find_by escrow_key (escrow_key e2) (db_escrows (store_escrow e2 db)) = Some e2" using find_store_escrow [OF f] by simp
    note p2 = refund_escrow_step(1) [OF state_step_wf [OF p1] this r']
    show ?thesis by (rule state_step_cong [OF state_step_trans [OF p1 p2]]) (simp add: h)
  next
    case True
    show ?thesis
    proof (cases "is_approved e2")
      case ap: True
      then obtain db2 where a: "adjust_balance (ea_agent op) (esc_pending_fee e2) (store_escrow e2 db) = Inr db2"
        and db': "db' = store_escrow (e2\<lparr>esc_pending_fee := (esc_pending_fee e2)\<lparr>amount := 0\<rparr>\<rparr>) db2"
        using r True by auto
      have sy: "symbol (esc_pending_fee e2) \<in> {DELTA_SYMBOL, DBD_SYMBOL}" using d(1) by (simp add: e2 wf_escrow_def)
      have "wf_escrow (e2\<lparr>esc_pending_fee := (esc_pending_fee e2)\<lparr>amount := 0\<rparr>\<rparr>)" using d(1) by (simp add: e2 wf_escrow_def)
      then show ?thesis unfolding db' by (rule approve_and_pay_step(1) [OF assms(1) f h sy a refl])
    next
      case nap: False
      then have "wf_escrow e2" using d(1) by (simp add: e2 wf_escrow_def)
      note p1 = state_step_store_escrow [OF assms(1) f this]
      have "db' = store_escrow e2 db" using r True nap by simp
      then show ?thesis using state_step_cong [OF p1, of "\<lambda>_. 0"] by (simp add: h)
    qed
  qed
qed

lemma escrow_dispute_step:
  assumes "wf_state db" "escrow_dispute_evaluator op db = Inr db'"
  shows "state_step (\<lambda>_. 0) db db'"
proof -
  from assms(2) obtain e where e: "find_by escrow_key (ed_from op, ed_escrow_id op) (db_escrows db) = Some e"
    and db': "db' = store_escrow (e\<lparr>esc_disputed := True\<rparr>) db"
    by (auto simp: escrow_dispute_evaluator_def get_escrow_def)
  note d = wf_escrow_of [OF assms(1) e]
  have f: "find_by escrow_key (escrow_key (e\<lparr>esc_disputed := True\<rparr>)) (db_escrows db) = Some e"
    using e d(2) by (simp add: escrow_key_def)
  have "wf_escrow (e\<lparr>esc_disputed := True\<rparr>)" using d(1) by (simp add: wf_escrow_def is_approved_def)
  note p = state_step_store_escrow [OF assms(1) f this]
  show ?thesis unfolding db' by (rule state_step_cong [OF p]) (simp add: escrow_holds_def)
qed

lemma escrow_release_Inr:
  assumes "escrow_release_evaluator op db = Inr db'"
  obtains e d b db1 db2 where "find_by escrow_key (er_from op, er_escrow_id op) (db_escrows db) = Some e"
    "amount (er_delta_amount op) \<le> amount (esc_delta_balance e)" "amount (er_dbd_amount op) \<le> amount (esc_dbd_balance e)"
    "er_receiver op = esc_from e \<or> er_receiver op = esc_to e" "is_approved e"
    "release_allowed e (er_who op) (er_receiver op) (head_block_time db) = Inr ()"
    "adjust_balance (er_receiver op) (er_delta_amount op) db = Inr db1"
    "adjust_balance (er_receiver op) (er_dbd_amount op) db1 = Inr db2"
    "asset_sub (esc_delta_balance e) (er_delta_amount op) = Inr d" "asset_sub (esc_dbd_balance e) (er_dbd_amount op) = Inr b"
    "db' = (if amount d = 0 \<and> amount b = 0
            then remove_escrow (e\<lparr>esc_delta_balance := d, esc_dbd_balance := b\<rparr>)
                   (store_escrow (e\<lparr>esc_delta_balance := d, esc_dbd_balance := b\<rparr>) db2)
            else store_escrow (e\<lparr>esc_delta_balance := d, esc_dbd_balance := b\<rparr>) db2)"
proof -
  from assms obtain e where e: "find_by escrow_key (er_from op, er_escrow_id op) (db_escrows db) = Some e"
    and c: "amount (er_delta_amount op) \<le> amount (esc_delta_balance e)" "amount (er_dbd_amount op) \<le> amount (esc_dbd_balance e)"
      "er_receiver op = esc_from e \<or> er_receiver op = esc_to e" "is_approved e"
      "release_allowed e (er_who op) (er_receiver op) (head_block_time db) = Inr ()"
    and r: "res_bind (adjust_balance (er_receiver op) (er_delta_amount op) db) (\<lambda>db1.
      res_bind (adjust_balance (er_receiver op) (er_dbd_amount op) db1) (\<lambda>db2.
      res_bind (asset_sub (esc_delta_balance e) (er_delta_amount op)) (\<lambda>d.
      res_bind (asset_sub (esc_dbd_balance e) (er_dbd_amount op)) (\<lambda>b.
      let e' = e\<lparr>esc_delta_balance := d, esc_dbd_balance := b\<rparr>; db3 = store_escrow e' db2
      in if amount d = 0 \<and> amount b = 0 then Inr (remove_escrow e' db3) else Inr db3)))) = Inr db'"
    by (auto simp: escrow_release_evaluator_def get_escrow_def is_approved_def)
  from r obtain db1 db2 d b where s: "adjust_balance (er_receiver op) (er_delta_amount op) db = Inr db1"
    "adjust_balance (er_receiver op) (er_dbd_amount op) db1 = Inr db2"
    "asset_sub (esc_delta_balance e) (er_delta_amount op) = Inr d" "asset_sub (esc_dbd_balance e) (er_dbd_amount op) = Inr b"
    "db' = (if amount d = 0 \<and> amount b = 0
            then remove_escrow (e\<lparr>esc_delta_balance := d, esc_dbd_balance := b\<rparr>)
                   (store_escrow (e\<lparr>esc_delta_balance := d, esc_dbd_balance := b\<rparr>) db2)
            else store_escrow (e\<lparr>esc_delta_balance := d, esc_dbd_balance := b\<rparr>) db2)"
    by (auto simp: Let_def split: if_splits)
  show ?thesis by (rule that [OF e c s])
qed

lemma escrow_release_step:
  assumes "wf_state db" "escrow_release_evaluator op db = Inr db'"
  shows "state_step (\<lambda>_. 0) db db'"
  using assms(2)
proof (rule escrow_release_Inr)
  fix e d b db1 db2
  assume e: "find_by escrow_key (er_from op, er_escrow_id op) (db_escrows db) = Some e" and ap: "is_approved e"
    and s1: "adjust_balance (er_receiver op) (er_delta_amount op) db = Inr db1"
    and s2: "adjust_balance (er_receiver op) (er_dbd_amount op) db1 = Inr db2"
    and sub: "asset_sub (esc_delta_balance e) (er_delta_amount op) = Inr d" "asset_sub (esc_dbd_balance e) (er_dbd_amount op) = Inr b"
    and db': "db' = (if amount d = 0 \<and> amount b = 0
            then remove_escrow (e\<lparr>esc_delta_balance := d, esc_dbd_balance := b\<rparr>)
                   (store_escrow (e\<lparr>esc_delta_balance := d, esc_dbd_balance := b\<rparr>) db2)
            else store_escrow (e\<lparr>esc_delta_balance := d, esc_dbd_balance := b\<rparr>) db2)"
  define e' where "e' = e\<lparr>esc_delta_balance := d, esc_dbd_balance := b\<rparr>"
  note w = wf_escrow_of [OF assms(1) e]
  note ds = asset_sub_Inr [OF sub(1)] asset_sub_Inr [OF sub(2)]
  have we: "wf_escrow e'" using w(1) ds by (simp add: wf_escrow_def e'_def is_approved_def)
  have sy: "symbol (er_delta_amount op) \<in> {DELTA_SYMBOL, DBD_SYMBOL}" "symbol (er_dbd_amount op) \<in> {DELTA_SYMBOL, DBD_SYMBOL}"
    using w(1) ds by (auto simp: wf_escrow_def)
  note e1 = state_step_adjust [OF assms(1) s1 sy(1)]
  note e2 = state_step_adjust [OF state_step_wf [OF e1(1)] s2 sy(2)]
  have f: "find_by escrow_key (escrow_key e') (db_escrows db2) = Some e"
    using e w(2) same_objectsD(4) [OF same_objects_trans [OF e1(2) e2(2)]] by (simp add: e'_def escrow_key_def)
  note e3 = state_step_store_escrow [OF state_step_wf [OF e2(1)] f we]
  have h: "escrow_holds s e' = escrow_holds s e - coin s (er_delta_amount op) - coin s (er_dbd_amount op)" for s
    using ds by (simp add: e'_def escrow_holds_def coin_def)
  have p: "state_step (\<lambda>_. 0) db (store_escrow e' db2)"
    by (rule state_step_cong [OF state_step_trans [OF e1(1) state_step_trans [OF e2(1) e3]]]) (simp add: h)
  show ?thesis
  proof (cases "amount d = 0 \<and> amount b = 0")
    case True
    have "find_by escrow_key (escrow_key e') (db_escrows (store_escrow e' db2)) = Some e'" using find_store_escrow [OF f] by simp
    note e4 = state_step_remove_escrow [OF state_step_wf [OF p] this]
    have "escrow_holds s e' = 0" for s
      using True ap we by (auto simp: escrow_holds_def coin_def e'_def wf_escrow_def is_approved_def)
    then have "state_step (\<lambda>_. 0) db (remove_escrow e' (store_escrow e' db2))"
      by (intro state_step_cong [OF state_step_trans [OF p e4]]) simp
    moreover have "db' = remove_escrow e' (store_escrow e' db2)" using db' True unfolding e'_def by (simp only: simp_thms if_True)
    ultimately show ?thesis by simp
  next
    case False
    then have "db' = store_escrow e' db2" using db' unfolding e'_def by (simp only: if_False)
    with p show ?thesis by simp
  qed
qed

section \<open>Expiration\<close>

lemma due_escrow_Some:
  assumes "due_escrow db = Some e"
  shows "e \<in> set (db_escrows db)" "\<not> is_approved e" "esc_ratification_deadline e \<le> head_block_time db"
proof -
  from assms obtain x where x: "index_begin (\<lambda>e. (is_approved e, esc_ratification_deadline e)) (db_escrows db) = Some x" "x = e"
    and c: "\<not> is_approved e" "esc_ratification_deadline e \<le> head_block_time db"
    by (auto simp: due_escrow_def split: option.splits if_splits)
  show "e \<in> set (db_escrows db)" "\<not> is_approved e" "esc_ratification_deadline e \<le> head_block_time db"
    using index_begin_Some(1) [OF x(1)] x(2) c by auto
qed

lemma due_escrow_None:
  assumes "due_escrow db = None" "e \<in> set (db_escrows db)"
  shows "is_approved e \<or> esc_ratification_deadline e > head_block_time db"
proof -
  obtain x where x: "index_begin (\<lambda>e. (is_approved e, esc_ratification_deadline e)) (db_escrows db) = Some x"
    using index_begin_ex [OF assms(2)] by blast
  then have "is_approved x \<or> esc_ratification_deadline x > head_block_time db"
    using assms(1) by (auto simp: due_escrow_def split: if_splits)
  with index_begin_Some(2) [OF x assms(2)] show ?thesis by (auto simp: less_bool_def)
qed

lemma expire_escrow_step:
  assumes "wf_state db" "due_escrow db = Some e" "expire_escrow e db = Inr db'"
  shows "state_step (\<lambda>_. 0) db db'" "db_escrows db' = remove_by escrow_key (escrow_key e) (db_escrows db)"
    "head_block_time db' = head_block_time db"
proof -
  have "find_by escrow_key (escrow_key e) (db_escrows db) = Some e"
    using assms(1) due_escrow_Some(1) [OF assms(2)] by (intro find_of_member) (auto simp: wf_state_def wf_objects_def)
  note r = refund_escrow_step [OF assms(1) this assms(3) [unfolded expire_escrow_def]]
  show "state_step (\<lambda>_. 0) db db'" "db_escrows db' = remove_by escrow_key (escrow_key e) (db_escrows db)"
    "head_block_time db' = head_block_time db"
    using r by auto
qed

interpretation escrow_loop: draining_loop due_escrow expire_escrow wf_state "\<lambda>db. length (db_escrows db)"
proof
  fix db e db' assume a: "wf_state db" "due_escrow db = Some e" "expire_escrow e db = Inr db'"
  note f = expire_escrow_step [OF a]
  show "wf_state db'" by (rule state_step_wf [OF f(1)])
  have d: "distinct (map escrow_key (db_escrows db))" using a(1) by (simp add: wf_state_def wf_objects_def)
  show "length (db_escrows db') < length (db_escrows db)"
    unfolding f(2) by (rule length_remove [OF d find_of_member [OF d due_escrow_Some(1) [OF a(2)]]])
qed

lemma expire_escrow_ratification_result:
  assumes "wf_state db" "expire_escrow_ratification db = Some (Inr db')"
  shows "state_step (\<lambda>_. 0) db db' \<and>
    db_escrows db' = filter (\<lambda>e. is_approved e \<or> esc_ratification_deadline e > head_block_time db) (db_escrows db)"
proof -
  define R where "R = (\<lambda>a b. state_step (\<lambda>_. 0) a b \<and> head_block_time b = head_block_time a \<and>
    filter (\<lambda>e. is_approved e \<or> esc_ratification_deadline e > head_block_time a) (db_escrows b) =
    filter (\<lambda>e. is_approved e \<or> esc_ratification_deadline e > head_block_time a) (db_escrows a))"
  have "due_escrow db' = None \<and> wf_state db' \<and> R db db'"
  proof (rule escrow_loop.drained [OF assms(1) assms(2) [unfolded expire_escrow_ratification_def]])
    show "R db db" using assms(1) by (simp add: R_def state_step_refl)
    fix a e b assume a: "wf_state a" "R db a" "due_escrow a = Some e" "expire_escrow e a = Inr b"
    note w = due_escrow_Some [OF a(3)]
    note f = expire_escrow_step [OF a(1,3,4)]
    have "distinct (map escrow_key (db_escrows a))" using a(1) by (simp add: wf_state_def wf_objects_def)
    then show "R db b"
      using a(2) w f state_step_trans [of "\<lambda>_. 0" db a "\<lambda>_. 0" b]
      by (simp add: R_def filter_remove_by)
  qed
  then have d: "due_escrow db' = None" and r: "R db db'" by auto
  have "filter (\<lambda>e. is_approved e \<or> esc_ratification_deadline e > head_block_time db) (db_escrows db') = db_escrows db'"
    using due_escrow_None [OF d] r by (auto simp: R_def intro: filter_True)
  with r show ?thesis by (simp add: R_def)
qed

section \<open>What can happen to an approved escrow\<close>

datatype escrow_action =
    Esc_Transfer escrow_transfer_operation
  | Esc_Approve escrow_approve_operation
  | Esc_Dispute escrow_dispute_operation
  | Esc_Release escrow_release_operation

fun escrow_action_validate :: "'k crypto \<Rightarrow> escrow_action \<Rightarrow> unit result" where
  "escrow_action_validate cr (Esc_Transfer op) = escrow_transfer_validate cr op"
| "escrow_action_validate cr (Esc_Approve op) = escrow_approve_validate op"
| "escrow_action_validate cr (Esc_Dispute op) = escrow_dispute_validate op"
| "escrow_action_validate cr (Esc_Release op) = escrow_release_validate op"

fun apply_escrow_action :: "escrow_action \<Rightarrow> database \<Rightarrow> database result" where
  "apply_escrow_action (Esc_Transfer op) = escrow_transfer_evaluator op"
| "apply_escrow_action (Esc_Approve op) = escrow_approve_evaluator op"
| "apply_escrow_action (Esc_Dispute op) = escrow_dispute_evaluator op"
| "apply_escrow_action (Esc_Release op) = escrow_release_evaluator op"

lemma find_remove_escrow:
  "find_by escrow_key k (db_escrows (remove_escrow e db)) = (if k = escrow_key e then None else find_by escrow_key k (db_escrows db))"
proof -
  have "find_by escrow_key k (remove_by escrow_key (escrow_key e) xs) = (if k = escrow_key e then None else find_by escrow_key k xs)" for xs
    by (induction xs) (auto simp: remove_by_def find_by_def)
  then show ?thesis by (simp add: remove_escrow_def)
qed

lemma find_create_escrow:
  assumes "create_escrow e db = Inr db'" "find_by escrow_key k (db_escrows db) = Some x"
  shows "find_by escrow_key k (db_escrows db') = Some x"
proof -
  from assms(1) have "db_escrows db' = db_escrows db @ [e]" by (auto simp: create_escrow_def dest!: create_byD)
  moreover have "find_by escrow_key k (xs @ [e]) = Some x" if "find_by escrow_key k xs = Some x" for xs
    using that by (induction xs) (auto simp: find_by_def)
  ultimately show ?thesis using assms(2) by simp
qed

lemma escrow_transfer_keeps:
  assumes "wf_state db" "escrow_transfer_evaluator op db = Inr db'" "find_by escrow_key k (db_escrows db) = Some e"
  shows "find_by escrow_key k (db_escrows db') = Some e"
proof -
  from assms(2) obtain nx ny db1 db2 e' where s1: "adjust_balance (et_from op) nx db = Inr db1" and s2: "adjust_balance (et_from op) ny db1 = Inr db2"
    and s3: "create_escrow e' db2 = Inr db'"
    by (auto simp: escrow_transfer_evaluator_def)
  have "db_escrows db2 = db_escrows db"
    using same_objectsD(4) [OF adjust_balance_same [OF s1]] same_objectsD(4) [OF adjust_balance_same [OF s2]] by simp
  then show ?thesis using find_create_escrow [OF s3, of k e] assms(3) by simp
qed

lemma escrow_approve_keeps:
  assumes "wf_state db" "escrow_approve_validate op = Inr ()" "escrow_approve_evaluator op db = Inr db'"
    "find_by escrow_key k (db_escrows db) = Some e" "is_approved e"
  shows "find_by escrow_key k (db_escrows db') = Some e"
  using assms(3)
proof (rule escrow_approve_Inr)
  fix e0 e2
  assume e0: "find_by escrow_key (ea_from op, ea_escrow_id op) (db_escrows db) = Some e0"
    and par: "esc_to e0 = ea_to op" "esc_agent e0 = ea_agent op"
    and e2: "e2 = e0\<lparr>esc_to_approved := esc_to_approved e0 \<or> ea_who op = ea_to op \<and> ea_approve op,
            esc_agent_approved := esc_agent_approved e0 \<or> ea_who op = ea_agent op \<and> ea_approve op\<rparr>"
    and once: "ea_who op = ea_to op \<Longrightarrow> \<not> esc_to_approved e0" "ea_who op = ea_agent op \<Longrightarrow> \<not> esc_agent_approved e0"
    and r: "(if \<not> ea_approve op then refund_escrow (ea_from op) e2 (store_escrow e2 db)
      else if is_approved e2 then res_bind (adjust_balance (ea_agent op) (esc_pending_fee e2) (store_escrow e2 db))
        (\<lambda>db2. Inr (store_escrow (e2\<lparr>esc_pending_fee := (esc_pending_fee e2)\<lparr>amount := 0\<rparr>\<rparr>) db2))
      else Inr (store_escrow e2 db)) = Inr db'"
  have who: "ea_who op \<in> {ea_to op, ea_agent op}" using assms(2) by (auto simp: escrow_approve_validate_def res_seq_iff check_def)
  note d = wf_escrow_of [OF assms(1) e0]
  have ne: "escrow_key e2 \<noteq> k"
    using assms(4,5) e0 d(2) once who by (auto simp: e2 escrow_key_def is_approved_def)
  have k2: "escrow_key e2 = escrow_key e0" by (simp add: e2 escrow_key_def)
  have f: "find_by escrow_key (escrow_key e2) (db_escrows db) = Some e0" using e0 d(2) k2 by simp
  have keep: "find_by escrow_key k (db_escrows (store_escrow x a)) = find_by escrow_key k (db_escrows a)" if "escrow_key x = escrow_key e2" for x a
    using ne that by (simp add: store_escrow_def find_by_replace)
  note same = same_objectsD(4) [OF adjust_balance_same]
  have "find_by escrow_key k (db_escrows db') = find_by escrow_key k (db_escrows db)"
  proof (cases "ea_approve op")
    case True
    with r consider "db' = store_escrow e2 db"
      | db2 x where "adjust_balance (ea_agent op) (esc_pending_fee e2) (store_escrow e2 db) = Inr db2" "db' = store_escrow x db2" "escrow_key x = escrow_key e2"
      by (auto split: if_splits simp: escrow_key_def)
    then show ?thesis by cases (simp_all add: keep same)
  next
    case False
    with r obtain a1 a2 a3 where "adjust_balance (ea_from op) (esc_delta_balance e2) (store_escrow e2 db) = Inr a1"
      "adjust_balance (ea_from op) (esc_dbd_balance e2) a1 = Inr a2" "adjust_balance (ea_from op) (esc_pending_fee e2) a2 = Inr a3"
      "db' = remove_escrow e2 a3"
      by (auto simp: refund_escrow_def)
    then show ?thesis using ne by (simp add: find_remove_escrow keep same)
  qed
  with assms(4) show ?thesis by simp
qed

lemma escrow_dispute_keeps:
  assumes "wf_state db" "escrow_dispute_evaluator op db = Inr db'" "find_by escrow_key k (db_escrows db) = Some e"
  shows "find_by escrow_key k (db_escrows db') \<in> {Some e, Some (e\<lparr>esc_disputed := True\<rparr>)}"
proof -
  from assms(2) obtain e0 where e: "find_by escrow_key (ed_from op, ed_escrow_id op) (db_escrows db) = Some e0"
    and db': "db' = store_escrow (e0\<lparr>esc_disputed := True\<rparr>) db"
    by (auto simp: escrow_dispute_evaluator_def get_escrow_def)
  note d = wf_escrow_of [OF assms(1) e]
  have k: "escrow_key (e0\<lparr>esc_disputed := True\<rparr>) = (ed_from op, ed_escrow_id op)" using d(2) by (simp add: escrow_key_def)
  then have f: "find_by escrow_key (escrow_key (e0\<lparr>esc_disputed := True\<rparr>)) (db_escrows db) = Some e0" using e by simp
  show ?thesis using e assms(3) unfolding db' find_store_escrow [OF f] k by auto
qed

lemma escrow_release_effect:
  assumes "wf_state db" "escrow_release_validate op = Inr ()" "escrow_release_evaluator op db = Inr db'"
    "find_by escrow_key k (db_escrows db) = Some e"
  shows "find_by escrow_key k (db_escrows db') = Some e \<and> (er_from op, er_escrow_id op) \<noteq> k \<or>
    (er_from op, er_escrow_id op) = k \<and> is_approved e \<and> er_receiver op \<in> {esc_from e, esc_to e} \<and>
    release_allowed e (er_who op) (er_receiver op) (head_block_time db) = Inr () \<and>
    0 \<le> amount (er_delta_amount op) \<and> amount (er_delta_amount op) \<le> amount (esc_delta_balance e) \<and>
    0 \<le> amount (er_dbd_amount op) \<and> amount (er_dbd_amount op) \<le> amount (esc_dbd_balance e) \<and>
    find_by escrow_key k (db_escrows db') =
      (if amount (er_delta_amount op) = amount (esc_delta_balance e) \<and> amount (er_dbd_amount op) = amount (esc_dbd_balance e) then None
       else Some (e\<lparr>esc_delta_balance := mk_asset (amount (esc_delta_balance e) - amount (er_delta_amount op)) DELTA_SYMBOL,
                    esc_dbd_balance := mk_asset (amount (esc_dbd_balance e) - amount (er_dbd_amount op)) DBD_SYMBOL\<rparr>))"
  using assms(3)
proof (rule escrow_release_Inr)
  fix e0 d b db1 db2
  assume e: "find_by escrow_key (er_from op, er_escrow_id op) (db_escrows db) = Some e0" and ap: "is_approved e0"
    and le: "amount (er_delta_amount op) \<le> amount (esc_delta_balance e0)" "amount (er_dbd_amount op) \<le> amount (esc_dbd_balance e0)"
    and rc: "er_receiver op = esc_from e0 \<or> er_receiver op = esc_to e0"
    and al: "release_allowed e0 (er_who op) (er_receiver op) (head_block_time db) = Inr ()"
    and s1: "adjust_balance (er_receiver op) (er_delta_amount op) db = Inr db1"
    and s2: "adjust_balance (er_receiver op) (er_dbd_amount op) db1 = Inr db2"
    and sub: "asset_sub (esc_delta_balance e0) (er_delta_amount op) = Inr d" "asset_sub (esc_dbd_balance e0) (er_dbd_amount op) = Inr b"
    and db': "db' = (if amount d = 0 \<and> amount b = 0
            then remove_escrow (e0\<lparr>esc_delta_balance := d, esc_dbd_balance := b\<rparr>)
                   (store_escrow (e0\<lparr>esc_delta_balance := d, esc_dbd_balance := b\<rparr>) db2)
            else store_escrow (e0\<lparr>esc_delta_balance := d, esc_dbd_balance := b\<rparr>) db2)"
  define e1 where "e1 = e0\<lparr>esc_delta_balance := d, esc_dbd_balance := b\<rparr>"
  note w = wf_escrow_of [OF assms(1) e]
  note ds = asset_sub_Inr [OF sub(1)] asset_sub_Inr [OF sub(2)]
  have db1: "d = mk_asset (amount (esc_delta_balance e0) - amount (er_delta_amount op)) DELTA_SYMBOL"
    "b = mk_asset (amount (esc_dbd_balance e0) - amount (er_dbd_amount op)) DBD_SYMBOL"
    using ds w(1) by (simp_all add: wf_escrow_def mk_asset_def asset.equality)
  have k1: "escrow_key e1 = (er_from op, er_escrow_id op)" using w(2) by (simp add: e1_def escrow_key_def)
  have es: "db_escrows db2 = db_escrows db"
    using same_objectsD(4) [OF adjust_balance_same [OF s1]] same_objectsD(4) [OF adjust_balance_same [OF s2]] by simp
  have f: "find_by escrow_key (escrow_key e1) (db_escrows db2) = Some e0" using e k1 es by simp
  have nn: "0 \<le> amount (er_delta_amount op)" "0 \<le> amount (er_dbd_amount op)"
    using assms(2) by (auto simp: escrow_release_validate_def res_seq_iff check_def)
  have r: "find_by escrow_key k (db_escrows db') = (if k = escrow_key e1 then (if amount d = 0 \<and> amount b = 0 then None else Some e1)
      else find_by escrow_key k (db_escrows db))"
    unfolding db' e1_def [symmetric] using es by (simp add: find_remove_escrow find_store_escrow [OF f])
  show ?thesis
  proof (cases "k = escrow_key e1")
    case True
    then have "e = e0" using assms(4) e k1 by simp
    with True r k1 ap rc al le nn show ?thesis by (auto simp: db1 e1_def)
  next
    case False
    with r assms(4) k1 show ?thesis by auto
  qed
qed

text \<open>
  C3: Once both parties approved an escrow, no accepted escrow operation can take its funds except
  a release of it: every other one leaves the escrow as it is or marks it disputed. The release is
  allowed by the rules (the agent after a dispute, otherwise sender and receiver, before the
  expiration only in favour of the other party), pays to the sender or the receiver, takes at most
  what the escrow holds, and removes the escrow exactly when it took everything.
\<close>

theorem approved_escrow_only_released:
  assumes "wf_state db" "escrow_action_validate cr act = Inr ()" "apply_escrow_action act db = Inr db'"
    and "find_by escrow_key k (db_escrows db) = Some e" "is_approved e"
  shows "find_by escrow_key k (db_escrows db') \<in> {Some e, Some (e\<lparr>esc_disputed := True\<rparr>)} \<or>
    (\<exists>op. act = Esc_Release op \<and> (er_from op, er_escrow_id op) = k \<and> er_receiver op \<in> {esc_from e, esc_to e} \<and>
       release_allowed e (er_who op) (er_receiver op) (head_block_time db) = Inr () \<and>
       0 \<le> amount (er_delta_amount op) \<and> amount (er_delta_amount op) \<le> amount (esc_delta_balance e) \<and>
       0 \<le> amount (er_dbd_amount op) \<and> amount (er_dbd_amount op) \<le> amount (esc_dbd_balance e) \<and>
       find_by escrow_key k (db_escrows db') =
         (if amount (er_delta_amount op) = amount (esc_delta_balance e) \<and> amount (er_dbd_amount op) = amount (esc_dbd_balance e) then None
          else Some (e\<lparr>esc_delta_balance := mk_asset (amount (esc_delta_balance e) - amount (er_delta_amount op)) DELTA_SYMBOL,
                       esc_dbd_balance := mk_asset (amount (esc_dbd_balance e) - amount (er_dbd_amount op)) DBD_SYMBOL\<rparr>)))"
proof (cases act)
  case (Esc_Transfer op)
  then show ?thesis using escrow_transfer_keeps [OF assms(1) _ assms(4)] assms(3) by simp
next
  case (Esc_Approve op)
  then show ?thesis using escrow_approve_keeps [OF assms(1) _ _ assms(4,5)] assms(2,3) by simp
next
  case (Esc_Dispute op)
  then show ?thesis using escrow_dispute_keeps [OF assms(1) _ assms(4)] assms(3) by simp
next
  case (Esc_Release op)
  then have "escrow_release_validate op = Inr ()" "escrow_release_evaluator op db = Inr db'" using assms(2,3) by simp_all
  from escrow_release_effect [OF assms(1) this assms(4)] show ?thesis using Esc_Release by blast
qed


definition sample_escrow :: escrow_object where
  "sample_escrow =
     \<lparr>esc_escrow_id = 7, esc_from = ''alice'', esc_to = ''bob'', esc_agent = ''agent'', esc_ratification_deadline = 10,
      esc_expiration = 100, esc_dbd_balance = mk_asset 0 DBD_SYMBOL, esc_delta_balance = mk_asset 5 DELTA_SYMBOL,
      esc_pending_fee = mk_asset 0 DELTA_SYMBOL, esc_to_approved = True, esc_agent_approved = True, esc_disputed = False\<rparr>"

definition sample_state :: database where
  "sample_state = empty_database\<lparr>db_accounts := map default_account [''alice'', ''bob'', ''agent''], db_escrows := [sample_escrow]\<rparr>"

definition sample_release :: escrow_release_operation where
  "sample_release =
     \<lparr>er_from = ''alice'', er_to = ''bob'', er_agent = ''agent'', er_who = ''alice'', er_receiver = ''bob'', er_escrow_id = 7,
      er_dbd_amount = mk_asset 0 DBD_SYMBOL, er_delta_amount = mk_asset 2 DELTA_SYMBOL\<rparr>"

lemma sample_names: "is_valid_account_name ''alice''" "is_valid_account_name ''bob''" "is_valid_account_name ''agent''"
  by (simp_all add: is_valid_account_name_def DELTA_MIN_ACCOUNT_NAME_LENGTH_def DELTA_MAX_ACCOUNT_NAME_LENGTH_def
      valid_labels_from.simps valid_label_def lower_letters_def digits_def)

lemma sample_wf: "wf_state sample_state"
  by (simp add: sample_state_def wf_state_def wf_accounts_def wf_objects_def empty_database_def default_account_def wf_escrow_def sample_escrow_def)

lemma sample_validate: "escrow_release_validate sample_release = Inr ()"
  by (simp add: escrow_release_validate_def sample_release_def validate_account_name_def check_def sample_names)

lemma sample_release_ok: "is_ok (escrow_release_evaluator sample_release sample_state)"
  by (simp add: escrow_release_evaluator_def sample_release_def sample_state_def sample_escrow_def empty_database_def
      default_account_def get_account_def get_escrow_def find_by_def escrow_key_def release_allowed_def check_def
      adjust_balance_def modify_balance_def modify_account_def accrue_interest_def pay_interest_def head_block_time_def
      default_dgpo_def safe_add_def asset_sub_def safe_sub_def replace_by_def Let_def assert_ge_def asset_le_def)

lemma sample_found: "find_by escrow_key (''alice'', 7) (db_escrows sample_state) = Some sample_escrow"
  by (simp add: sample_state_def find_by_def escrow_key_def sample_escrow_def)

lemma sample_approved: "is_approved sample_escrow"
  by (simp add: is_approved_def sample_escrow_def)

theorem approved_escrow_only_released_witness:
  "\<exists>db'. escrow_release_evaluator sample_release sample_state = Inr db' \<and>
    find_by escrow_key (''alice'', 7) (db_escrows db') \<noteq> None"
proof -
  obtain db' where r: "escrow_release_evaluator sample_release sample_state = Inr db'"
    using sample_release_ok by (auto simp: is_ok_iff)
  have v: "escrow_action_validate cr (Esc_Release sample_release) = Inr ()" for cr :: "nat crypto"
    using sample_validate by simp
  have a: "apply_escrow_action (Esc_Release sample_release) sample_state = Inr db'" using r by simp
  have "find_by escrow_key (''alice'', 7) (db_escrows db') \<noteq> None"
    using approved_escrow_only_released [OF sample_wf v a sample_found sample_approved]
    by (auto simp: sample_release_def sample_escrow_def)
  with r show ?thesis by blast
qed

end
