(* ===== verification/Market.thy ===== *)
theory Market
  imports Escrow
begin

text \<open>
  The internal market (\<open>database.cpp\<close>: \<open>apply_order\<close>, \<open>match\<close>, \<open>fill_order\<close>, \<open>cancel_order\<close>,
  \<open>adjust_liquidity_reward\<close>, \<open>clear_expired_orders\<close>; \<open>delta_evaluator.cpp\<close>: the limit order
  evaluators). An order is referred to by its seller and number.
\<close>

section \<open>Orders\<close>

definition get_limit_order :: "account_name_type \<Rightarrow> 32 word \<Rightarrow> database \<Rightarrow> limit_order_object result" where
  "get_limit_order name orderid db =
     (let orderid = (if \<not> has_hardfork 6 db then and orderid 0x0000FFFF else orderid)
      in of_option Out_Of_Range (find_by order_key (name, orderid) (db_limit_orders db)))"

definition create_order :: "limit_order_object \<Rightarrow> database \<Rightarrow> database result" where
  "create_order o' db = res_bind (create_by order_key o' (db_limit_orders db)) (\<lambda>xs. Inr (db\<lparr>db_limit_orders := xs\<rparr>))"

definition store_order :: "limit_order_object \<Rightarrow> database \<Rightarrow> database" where
  "store_order o' db = db\<lparr>db_limit_orders := replace_by order_key (order_key o') o' (db_limit_orders db)\<rparr>"

definition remove_order :: "limit_order_object \<Rightarrow> database \<Rightarrow> database" where
  "remove_order o' db = db\<lparr>db_limit_orders := remove_by order_key (order_key o') (db_limit_orders db)\<rparr>"

definition cancel_order :: "limit_order_object \<Rightarrow> database \<Rightarrow> database result" where
  "cancel_order order db =
     res_bind (adjust_balance (lim_seller order) (amount_for_sale order) db) (\<lambda>db1. Inr (remove_order order db1))"

text \<open>\<open>DELTA_ASSERT\<close> throws the exception it names.\<close>

definition delta_assert :: "fc_error \<Rightarrow> bool \<Rightarrow> 'a result \<Rightarrow> 'a result" where
  "delta_assert e c k = (if c then k else Inl e)"

definition fill_order :: "limit_order_object \<Rightarrow> asset \<Rightarrow> asset \<Rightarrow> database \<Rightarrow> (bool \<times> database) result" where
  "fill_order order pays receives db =
     delta_assert Order_Fill_Exception (symbol (amount_for_sale order) = symbol pays)
     (delta_assert Order_Fill_Exception (symbol pays \<noteq> symbol receives)
       (res_bind (adjust_balance (lim_seller order) receives db) (\<lambda>db1.
        if asset_eq pays (amount_for_sale order) then Inr (True, remove_order order db1)
        else
          res_bind (if has_hardfork 20 db1
                    then res_bind (asset_less pays (amount_for_sale order)) (\<lambda>c. delta_assert Order_Fill_Exception c (Inr ()))
                    else Inr ()) (\<lambda>_.
          res_bind (safe_sub (lim_for_sale order) (amount pays)) (\<lambda>rest.
          let order' = order\<lparr>lim_for_sale := rest\<rparr>; db2 = store_order order' db1
          in res_bind (amount_to_receive order') (\<lambda>r.
             if amount r = 0 then res_bind (cancel_order order' db2) (\<lambda>db3. Inr (True, db3))
             else Inr (False, db2)))))))"

section \<open>Liquidity rewards before hardfork 12\<close>

definition is_positive :: "liquidity_reward_balance_object \<Rightarrow> int" where
  "is_positive r = (if lrb_delta_volume r > 0 \<and> lrb_dbd_volume r > 0 then 1 else 0)"

definition update_weight :: "bool \<Rightarrow> liquidity_reward_balance_object \<Rightarrow> liquidity_reward_balance_object" where
  "update_weight hf9 r =
     r\<lparr>lrb_weight := word_of_int (to_int64 (
        if hf9 then min (lrb_delta_volume r) (lrb_dbd_volume r) * is_positive r
        else lrb_delta_volume r * lrb_dbd_volume r * is_positive r))\<rparr>"

definition adjust_liquidity_reward :: "account_name_type \<Rightarrow> asset \<Rightarrow> bool \<Rightarrow> database \<Rightarrow> database" where
  "adjust_liquidity_reward owner volume is_sdb db =
     (case find_by lrb_owner owner (db_liquidity db) of
        Some r \<Rightarrow>
          (let r = (if int (head_block_time db) - int (lrb_last_update r) \<ge> 604800
                    then r\<lparr>lrb_dbd_volume := 0, lrb_delta_volume := 0, lrb_weight := 0\<rparr> else r);
               r = (if is_sdb then r\<lparr>lrb_dbd_volume := to_int64 (lrb_dbd_volume r + amount volume)\<rparr>
                    else r\<lparr>lrb_delta_volume := to_int64 (lrb_delta_volume r + amount volume)\<rparr>);
               r = (update_weight (has_hardfork 10 db) r)\<lparr>lrb_last_update := head_block_time db\<rparr>
           in db\<lparr>db_liquidity := replace_by lrb_owner owner r (db_liquidity db)\<rparr>)
      | None \<Rightarrow>
          (let r = \<lparr>lrb_owner = owner, lrb_delta_volume = (if is_sdb then 0 else amount volume),
                    lrb_dbd_volume = (if is_sdb then amount volume else 0), lrb_weight = 0, lrb_last_update = head_block_time db\<rparr>
           in db\<lparr>db_liquidity := db_liquidity db @ [update_weight (has_hardfork 9 db) r]\<rparr>))"

section \<open>Matching\<close>

text \<open>The amounts of a trade: what the new order and the old order receive.\<close>

definition trade_amounts :: "asset \<Rightarrow> asset \<Rightarrow> price \<Rightarrow> (asset \<times> asset) result" where
  "trade_amounts new_order_for_sale old_order_for_sale match_price =
     res_bind (asset_mul_price old_order_for_sale match_price) (\<lambda>worth.
     res_bind (asset_le new_order_for_sale worth) (\<lambda>c.
       if c then res_bind (asset_mul_price new_order_for_sale match_price) (\<lambda>r. Inr (r, new_order_for_sale))
       else res_bind (asset_mul_price old_order_for_sale match_price) (\<lambda>r. Inr (old_order_for_sale, r))))"

definition match_rewards :: "limit_order_object \<Rightarrow> limit_order_object \<Rightarrow> asset \<Rightarrow> asset \<Rightarrow> database \<Rightarrow> database result" where
  "match_rewards new_order old_order new_order_receives old_order_receives db =
     (let age = int (head_block_time db) - int (lim_created old_order)
      in if \<not> has_hardfork 12 db \<and> (age \<ge> 60 \<and> \<not> has_hardfork 10 db \<or> age \<ge> 1800 \<and> has_hardfork 10 db) then
           res_bind (get_account (lim_seller old_order) db) (\<lambda>_.
           res_bind (get_account (lim_seller new_order) db) (\<lambda>_.
           if symbol old_order_receives = DELTA_SYMBOL then
             res_bind (asset_neg old_order_receives) (\<lambda>neg.
               Inr (adjust_liquidity_reward (lim_seller new_order) neg False
                     (adjust_liquidity_reward (lim_seller old_order) old_order_receives False db)))
           else
             res_bind (asset_neg new_order_receives) (\<lambda>neg.
               Inr (adjust_liquidity_reward (lim_seller new_order) neg True
                     (adjust_liquidity_reward (lim_seller old_order) new_order_receives True db)))))
         else Inr db)"

definition match_checks :: "limit_order_object \<Rightarrow> limit_order_object \<Rightarrow> price \<Rightarrow> unit result" where
  "match_checks new_order old_order match_price =
     delta_assert Order_Match_Exception
       (symbol (quote (lim_sell_price new_order)) = symbol (base (lim_sell_price old_order)) \<and>
        symbol (base (lim_sell_price new_order)) = symbol (quote (lim_sell_price old_order)) \<and>
        lim_for_sale new_order > 0 \<and> lim_for_sale old_order > 0 \<and>
        symbol (quote match_price) = symbol (base (lim_sell_price new_order)) \<and>
        symbol (base match_price) = symbol (base (lim_sell_price old_order))) (Inr ())"

text \<open>Bit 0 of the result says that the new order was filled, bit 1 that the old order was.\<close>

definition match :: "limit_order_object \<Rightarrow> limit_order_object \<Rightarrow> price \<Rightarrow> database \<Rightarrow> (nat \<times> database) result" where
  "match new_order old_order match_price db =
     res_bind (if has_hardfork 20 db then match_checks new_order old_order match_price else Inr ()) (\<lambda>_.
     res_bind (trade_amounts (amount_for_sale new_order) (amount_for_sale old_order) match_price)
       (\<lambda>(new_order_receives, old_order_receives).
     let old_order_pays = new_order_receives; new_order_pays = old_order_receives
     in delta_assert Order_Match_Exception
          (has_hardfork 20 db \<longrightarrow>
            asset_eq new_order_pays (amount_for_sale new_order) \<or> asset_eq old_order_pays (amount_for_sale old_order))
          (res_bind (match_rewards new_order old_order new_order_receives old_order_receives db) (\<lambda>db1.
           res_bind (fill_order new_order new_order_pays new_order_receives
               (push_virtual_operation (Fill_Order (lim_seller new_order) (lim_orderid new_order) new_order_pays
                  (lim_seller old_order) (lim_orderid old_order) old_order_pays) db1)) (\<lambda>(new_filled, db2).
           res_bind (fill_order old_order old_order_pays old_order_receives db2) (\<lambda>(old_filled, db3).
           let result = of_bool new_filled + 2 * of_bool old_filled
           in delta_assert Order_Match_Exception (has_hardfork 20 db \<longrightarrow> result \<noteq> 0) (Inr (result, db3))))))))"

text \<open>
  The orders the new one may be matched with: those between the two bounds of the price index,
  best price first, older orders first at the same price.
\<close>

definition crosses :: "price \<Rightarrow> price \<Rightarrow> limit_order_object \<Rightarrow> bool" where
  "crosses upper max_price o' \<longleftrightarrow> \<not> price_less upper (lim_sell_price o') \<and> \<not> price_less (lim_sell_price o') max_price"

definition by_price :: "limit_order_object \<Rightarrow> limit_order_object \<Rightarrow> bool" where
  "by_price a b \<longleftrightarrow> price_less (lim_sell_price b) (lim_sell_price a)"

definition candidates :: "price \<Rightarrow> price \<Rightarrow> database \<Rightarrow> limit_order_object list" where
  "candidates upper max_price db = fold (ordered_insert by_price) (filter (crosses upper max_price) (db_limit_orders db)) []"

fun match_loop :: "account_name_type \<times> 32 word \<Rightarrow> (account_name_type \<times> 32 word) list \<Rightarrow> database \<Rightarrow> database result" where
  "match_loop new [] db = Inr db"
| "match_loop new (old # rest) db =
     res_bind (of_option Out_Of_Range (find_by order_key new (db_limit_orders db))) (\<lambda>new_order.
     res_bind (of_option Out_Of_Range (find_by order_key old (db_limit_orders db))) (\<lambda>old_order.
     res_bind (match new_order old_order (lim_sell_price old_order) db) (\<lambda>(result, db1).
       if odd result then Inr db1 else match_loop new rest db1)))"

definition apply_order :: "limit_order_object \<Rightarrow> database \<Rightarrow> (bool \<times> database) result" where
  "apply_order new_order db =
     res_bind (price_inverse (lim_sell_price new_order)) (\<lambda>max_price.
     res_bind (price_max (symbol (base max_price)) (symbol (quote max_price))) (\<lambda>upper.
     res_bind (match_loop (order_key new_order) (map order_key (candidates upper max_price db)) db) (\<lambda>db1.
       Inr (find_by order_key (order_key new_order) (db_limit_orders db1) = None, db1))))"

section \<open>Evaluators\<close>

definition make_order ::
  "time_point_sec \<Rightarrow> time_point_sec \<Rightarrow> account_name_type \<Rightarrow> 32 word \<Rightarrow> asset \<Rightarrow> price \<Rightarrow> limit_order_object" where
  "make_order now expiration owner orderid amount_to_sell sell_price =
     \<lparr>lim_created = now, lim_expiration = expiration, lim_seller = owner, lim_orderid = orderid,
      lim_for_sale = amount amount_to_sell, lim_sell_price = sell_price\<rparr>"

text \<open>The body both order evaluators share.\<close>

definition place_order ::
  "account_name_type \<Rightarrow> 32 word \<Rightarrow> asset \<Rightarrow> price result \<Rightarrow> bool \<Rightarrow> time_point_sec \<Rightarrow> time_point_sec \<Rightarrow> database \<Rightarrow> database result" where
  "place_order owner orderid amount_to_sell get_price fill_or_kill requested expiration db =
     fc_assert (requested > head_block_time db)
     (fc_assert (has_hardfork 20 db \<longrightarrow> requested \<le> add_seconds (head_block_time db) 2419200)
       (res_bind (get_account owner db) (\<lambda>a.
        res_bind (get_balance a (symbol amount_to_sell)) (\<lambda>b.
        assert_ge b amount_to_sell
          (res_bind (asset_neg amount_to_sell) (\<lambda>neg.
           res_bind (adjust_balance owner neg db) (\<lambda>db1.
           res_bind get_price (\<lambda>sell_price.
           let order = make_order (head_block_time db1) expiration owner orderid amount_to_sell sell_price
           in res_bind (create_order order db1) (\<lambda>db2.
              res_bind (apply_order order db2) (\<lambda>(filled, db3).
              fc_assert (fill_or_kill \<longrightarrow> filled) (Inr db3)))))))))))"

definition limit_order_create_evaluator :: "limit_order_create_operation \<Rightarrow> database \<Rightarrow> database result" where
  "limit_order_create_evaluator op db =
     place_order (lo_owner op) (lo_orderid op) (lo_amount_to_sell op) (limit_order_create_get_price op) (lo_fill_or_kill op) (lo_expiration op)
       (if has_hardfork 20 db then lo_expiration op
        else min (lo_expiration op) (1537887600 + 2419200 + unat (gpo_head_block_id (db_dgpo db) ! 4) mod 86400)) db"

definition limit_order_create2_evaluator :: "limit_order_create2_operation \<Rightarrow> database \<Rightarrow> database result" where
  "limit_order_create2_evaluator op db =
     place_order (l2_owner op) (l2_orderid op) (l2_amount_to_sell op) (Inr (l2_exchange_rate op)) (l2_fill_or_kill op) (l2_expiration op)
       (if has_hardfork 20 db then l2_expiration op else min (l2_expiration op) (1537887600 + 2419200)) db"

definition limit_order_cancel_evaluator :: "limit_order_cancel_operation \<Rightarrow> database \<Rightarrow> database result" where
  "limit_order_cancel_evaluator op db =
     res_bind (get_limit_order (lc_owner op) (lc_orderid op) db) (\<lambda>order. cancel_order order db)"

definition due_order :: "database \<Rightarrow> limit_order_object option" where
  "due_order db =
     (case index_begin lim_expiration (db_limit_orders db) of
        None \<Rightarrow> None
      | Some o' \<Rightarrow> if lim_expiration o' < head_block_time db then Some o' else None)"

definition clear_expired_orders :: "database \<Rightarrow> database result option" where
  "clear_expired_orders = drain due_order cancel_order"

section \<open>Conservation\<close>

lemma wf_order_of:
  assumes "wf_state db" "find_by order_key k (db_limit_orders db) = Some x"
  shows "symbol (base (lim_sell_price x)) \<in> {DELTA_SYMBOL, DBD_SYMBOL}" "order_key x = k"
    "distinct (map order_key (db_limit_orders db))" "x \<in> set (db_limit_orders db)"
  using assms find_by_Some [OF assms(2)] by (auto simp: wf_state_def wf_objects_def)

lemma state_step_store_order:
  assumes wf: "wf_state db" and x: "find_by order_key (order_key y) (db_limit_orders db) = Some x"
    and b: "symbol (base (lim_sell_price y)) = symbol (base (lim_sell_price x))"
  shows "state_step (\<lambda>s. order_holds s y - order_holds s x) db (store_order y db)"
proof -
  note d = wf_order_of [OF wf x]
  have "\<forall>z \<in> set (replace_by order_key (order_key y) y (db_limit_orders db)). symbol (base (lim_sell_price z)) \<in> {DELTA_SYMBOL, DBD_SYMBOL}"
    using wf d(1) b by (auto simp: replace_by_def wf_state_def wf_objects_def)
  then show ?thesis
    using wf d(3) sum_replace [OF d(3) x, of _ y]
    by (simp add: store_order_def state_step_def step_effect_def wf_state_def wf_objects_def
      wf_accounts_def same_tallies_def surplus_def pending_surplus_def locked_def)
qed

lemma state_step_remove_order:
  assumes wf: "wf_state db" and x: "find_by order_key (order_key x) (db_limit_orders db) = Some x"
  shows "state_step (\<lambda>s. - order_holds s x) db (remove_order x db)"
  using wf sum_remove [OF wf_order_of(3) [OF wf x] x]
  by (simp add: remove_order_def state_step_def step_effect_def wf_state_def wf_objects_def
    wf_accounts_def same_tallies_def surplus_def pending_surplus_def locked_def)

lemma state_step_create_order:
  assumes "wf_state db" "create_order x db = Inr db'" "symbol (base (lim_sell_price x)) \<in> {DELTA_SYMBOL, DBD_SYMBOL}"
  shows "state_step (\<lambda>s. order_holds s x) db db'"
  using assms
  by (auto simp: create_order_def state_step_def step_effect_def wf_state_def wf_objects_def wf_accounts_def
    same_tallies_def surplus_def pending_surplus_def locked_def dest!: create_byD)

lemma amount_for_sale_symbol [simp]: "symbol (amount_for_sale x) = symbol (base (lim_sell_price x))"
  and amount_for_sale_amount [simp]: "amount (amount_for_sale x) = lim_for_sale x"
  by (simp_all add: amount_for_sale_def)

lemma find_remove_order:
  "find_by order_key k (db_limit_orders (remove_order x db)) = (if k = order_key x then None else find_by order_key k (db_limit_orders db))"
proof -
  have "find_by order_key k (remove_by order_key (order_key x) xs) = (if k = order_key x then None else find_by order_key k xs)" for xs
    by (induction xs) (auto simp: remove_by_def find_by_def)
  then show ?thesis by (simp add: remove_order_def)
qed

lemma find_store_order:
  assumes "find_by order_key (order_key y) (db_limit_orders db) = Some x"
  shows "find_by order_key k (db_limit_orders (store_order y db)) = (if k = order_key y then Some y else find_by order_key k (db_limit_orders db))"
proof -
  have "order_key y \<in> order_key ` set (db_limit_orders db)" using find_by_Some [OF assms] by (metis image_eqI)
  then show ?thesis by (auto simp: store_order_def find_by_replace)
qed

text \<open>Cancelling returns what is for sale.\<close>

lemma cancel_order_step:
  assumes "wf_state db" "find_by order_key (order_key x) (db_limit_orders db) = Some x" "cancel_order x db = Inr db'"
  shows "state_step (\<lambda>_. 0) db db'" "db_limit_orders db' = remove_by order_key (order_key x) (db_limit_orders db)"
    "head_block_time db' = head_block_time db" "db_hardforks db' = db_hardforks db"
proof -
  from assms(3) obtain db1 where s1: "adjust_balance (lim_seller x) (amount_for_sale x) db = Inr db1" and db': "db' = remove_order x db1"
    by (auto simp: cancel_order_def)
  have "symbol (amount_for_sale x) \<in> {DELTA_SYMBOL, DBD_SYMBOL}" using wf_order_of(1) [OF assms(1,2)] by simp
  note e1 = state_step_adjust [OF assms(1) s1 this]
  have "find_by order_key (order_key x) (db_limit_orders db1) = Some x" using assms(2) by (simp add: same_objectsD [OF e1(2)])
  note e2 = state_step_remove_order [OF state_step_wf [OF e1(1)] this]
  show "state_step (\<lambda>_. 0) db db'"
    unfolding db' by (rule state_step_cong [OF state_step_trans [OF e1(1) e2]]) (simp add: order_holds_def)
  show "db_limit_orders db' = remove_by order_key (order_key x) (db_limit_orders db)" "head_block_time db' = head_block_time db"
    "db_hardforks db' = db_hardforks db"
    using same_objectsD [OF e1(2)] by (simp_all add: db' remove_order_def head_block_time_def)
qed

text \<open>The order table after a fill: the order is gone, or some of it is left.\<close>

definition orders_after :: "bool \<Rightarrow> limit_order_object \<Rightarrow> database \<Rightarrow> database \<Rightarrow> bool" where
  "orders_after filled x db db' \<longleftrightarrow>
     (if filled then db_limit_orders db' = remove_by order_key (order_key x) (db_limit_orders db)
      else \<exists>rest. db_limit_orders db' = replace_by order_key (order_key x) (x\<lparr>lim_for_sale := rest\<rparr>) (db_limit_orders db))"

lemma remove_replace: "key y = k \<Longrightarrow> remove_by key k (replace_by key k y xs) = remove_by key k xs"
  by (induction xs) (auto simp: remove_by_def replace_by_def)

lemma fill_order_step:
  assumes wf: "wf_state db" and x: "find_by order_key (order_key x) (db_limit_orders db) = Some x"
    and f: "fill_order x pays receives db = Inr (filled, db')" and sy: "symbol receives \<in> {DELTA_SYMBOL, DBD_SYMBOL}"
  shows "state_step (\<lambda>s. coin s receives - coin s pays) db db'" "orders_after filled x db db'"
    "symbol pays = symbol (base (lim_sell_price x))" "head_block_time db' = head_block_time db" "db_hardforks db' = db_hardforks db"
proof -
  from f obtain db1 where ps: "symbol (base (lim_sell_price x)) = symbol pays"
    and s1: "adjust_balance (lim_seller x) receives db = Inr db1"
    and r: "(if asset_eq pays (amount_for_sale x) then Inr (True, remove_order x db1)
        else
          res_bind (if has_hardfork 20 db1
                    then res_bind (asset_less pays (amount_for_sale x)) (\<lambda>c. delta_assert Order_Fill_Exception c (Inr ()))
                    else Inr ()) (\<lambda>_.
          res_bind (safe_sub (lim_for_sale x) (amount pays)) (\<lambda>rest.
          let order' = x\<lparr>lim_for_sale := rest\<rparr>; db2 = store_order order' db1
          in res_bind (amount_to_receive order') (\<lambda>r.
             if amount r = 0 then res_bind (cancel_order order' db2) (\<lambda>db3. Inr (True, db3))
             else Inr (False, db2))))) = Inr (filled, db')"
    by (auto simp: fill_order_def delta_assert_def split: if_split_asm)
  show "symbol pays = symbol (base (lim_sell_price x))" using ps by simp
  note e1 = state_step_adjust [OF wf s1 sy]
  note so = same_objectsD [OF e1(2)]
  have x1: "find_by order_key (order_key x) (db_limit_orders db1) = Some x" using x by (simp add: so)
  have "state_step (\<lambda>s. coin s receives - coin s pays) db db' \<and> orders_after filled x db db' \<and>
    head_block_time db' = head_block_time db \<and> db_hardforks db' = db_hardforks db"
  proof (cases "asset_eq pays (amount_for_sale x)")
    case True
    then have h: "order_holds s x = coin s pays" for s by (simp add: order_holds_def asset_eq_def coin_def)
    note e2 = state_step_remove_order [OF state_step_wf [OF e1(1)] x1]
    have rr: "filled = True" "db' = remove_order x db1" using r True by auto
    have "state_step (\<lambda>s. coin s receives - coin s pays) db db'"
      unfolding rr by (rule state_step_cong [OF state_step_trans [OF e1(1) e2]]) (simp add: h)
    then show ?thesis using so by (simp add: rr orders_after_def remove_order_def head_block_time_def)
  next
    case False
    note r' = r [unfolded if_not_P [OF False] Let_def]
    from r' obtain u where "res_bind (safe_sub (lim_for_sale x) (amount pays)) (\<lambda>rest. res_bind (amount_to_receive (x\<lparr>lim_for_sale := rest\<rparr>)) (\<lambda>rc.
        if amount rc = 0 then res_bind (cancel_order (x\<lparr>lim_for_sale := rest\<rparr>) (store_order (x\<lparr>lim_for_sale := rest\<rparr>) db1)) (\<lambda>db3. Inr (True, db3))
        else Inr (False, store_order (x\<lparr>lim_for_sale := rest\<rparr>) db1))) = Inr (filled, db')"
      by (rule res_bind_InrE)
    then obtain rest where rest: "safe_sub (lim_for_sale x) (amount pays) = Inr rest"
      and r4: "res_bind (amount_to_receive (x\<lparr>lim_for_sale := rest\<rparr>)) (\<lambda>rc.
        if amount rc = 0 then res_bind (cancel_order (x\<lparr>lim_for_sale := rest\<rparr>) (store_order (x\<lparr>lim_for_sale := rest\<rparr>) db1)) (\<lambda>db3. Inr (True, db3))
        else Inr (False, store_order (x\<lparr>lim_for_sale := rest\<rparr>) db1)) = Inr (filled, db')"
      by (rule res_bind_InrE)
    from r4 obtain rc where "amount_to_receive (x\<lparr>lim_for_sale := rest\<rparr>) = Inr rc" and r2: "(if amount rc = 0 then res_bind (cancel_order (x\<lparr>lim_for_sale := rest\<rparr>) (store_order (x\<lparr>lim_for_sale := rest\<rparr>) db1)) (\<lambda>db3. Inr (True, db3))
        else Inr (False, store_order (x\<lparr>lim_for_sale := rest\<rparr>) db1)) = Inr (filled, db')"
      by (rule res_bind_InrE)
    define y where "y = x\<lparr>lim_for_sale := rest\<rparr>"
    have k: "order_key y = order_key x" by (simp add: y_def order_key_def)
    have fy: "find_by order_key (order_key y) (db_limit_orders db1) = Some x" using x1 k by simp
    have "symbol (base (lim_sell_price y)) = symbol (base (lim_sell_price x))" by (simp add: y_def)
    note e2 = state_step_store_order [OF state_step_wf [OF e1(1)] fy this]
    have h: "order_holds s y = order_holds s x - coin s pays" for s
      using ps by (simp add: y_def order_holds_def safe_sub_Inr [OF rest] coin_def)
    have p: "state_step (\<lambda>s. coin s receives - coin s pays) db (store_order y db1)"
      by (rule state_step_cong [OF state_step_trans [OF e1(1) e2]]) (simp add: h)
    show ?thesis
    proof (cases "amount rc = 0")
      case True
      with r2 have c: "cancel_order y (store_order y db1) = Inr db'" "filled" by (auto simp: y_def)
      have "find_by order_key (order_key y) (db_limit_orders (store_order y db1)) = Some y" using find_store_order [OF fy] by simp
      note e3 = cancel_order_step [OF state_step_wf [OF p] this c(1)]
      have "state_step (\<lambda>s. coin s receives - coin s pays) db db'"
        by (rule state_step_cong [OF state_step_trans [OF p e3(1)]]) simp
      then show ?thesis using so e3 c(2) k by (simp add: orders_after_def store_order_def remove_replace head_block_time_def)
    next
      case False
      with r2 have "db' = store_order y db1" "\<not> filled" by (auto simp: y_def)
      then show ?thesis using p so k by (auto simp: orders_after_def store_order_def y_def head_block_time_def)
    qed
  qed
  then show "state_step (\<lambda>s. coin s receives - coin s pays) db db'" "orders_after filled x db db'"
    "head_block_time db' = head_block_time db" "db_hardforks db' = db_hardforks db" by auto
qed

lemma adjust_liquidity_reward_fields:
  "\<exists>ls. adjust_liquidity_reward n v b db = db\<lparr>db_liquidity := ls\<rparr>"
  unfolding adjust_liquidity_reward_def Let_def
  by (cases "find_by lrb_owner n (db_liquidity db)") (simp only: option.case, rule exI, rule refl)+

lemma match_rewards_fields: "match_rewards x y r q db = Inr db' \<Longrightarrow> \<exists>ls. db' = db\<lparr>db_liquidity := ls\<rparr>"
proof -
  assume "match_rewards x y r q db = Inr db'"
  then consider "db' = db" | n v b n' v' b' where "db' = adjust_liquidity_reward n v b (adjust_liquidity_reward n' v' b' db)"
    by (auto simp: match_rewards_def Let_def split: if_split_asm)
  then show ?thesis
  proof cases
    case 1
    then have "db' = db\<lparr>db_liquidity := db_liquidity db\<rparr>" by simp
    then show ?thesis by blast
  next
    case 2
    then show ?thesis
      using adjust_liquidity_reward_fields [of n' v' b' db] adjust_liquidity_reward_fields [of n v b "adjust_liquidity_reward n' v' b' db"]
      by auto
  qed
qed

lemma state_step_liquidity: "wf_state db \<Longrightarrow> state_step (\<lambda>_. 0) db (push_virtual_operation v (db\<lparr>db_liquidity := ls\<rparr>))"
  by (simp add: state_step_def push_virtual_operation_def step_effect_def wf_state_def wf_objects_def wf_accounts_def
    same_tallies_def surplus_def pending_surplus_def locked_def)

lemma find_orders_after:
  assumes "orders_after filled x db db'" "k \<noteq> order_key x"
  shows "find_by order_key k (db_limit_orders db') = find_by order_key k (db_limit_orders db)"
proof -
  have "find_by order_key k (remove_by order_key (order_key x) xs) = find_by order_key k xs" for xs
    using assms(2) by (induction xs) (auto simp: remove_by_def find_by_def)
  moreover have "find_by order_key k (replace_by order_key (order_key x) (x\<lparr>lim_for_sale := r\<rparr>) xs) = find_by order_key k xs" for r xs
    using assms(2) by (simp add: find_by_replace order_key_def)
  ultimately show ?thesis using assms(1) by (auto simp: orders_after_def split: if_splits)
qed

text \<open>No order appears, and no order changes its price.\<close>

definition prices_kept :: "database \<Rightarrow> database \<Rightarrow> bool" where
  "prices_kept db db' \<longleftrightarrow> (\<forall>z \<in> set (db_limit_orders db'). \<exists>w \<in> set (db_limit_orders db).
     order_key w = order_key z \<and> lim_sell_price w = lim_sell_price z)"

lemma prices_kept_refl: "prices_kept db db"
  by (auto simp: prices_kept_def)

lemma prices_kept_trans: "prices_kept a b \<Longrightarrow> prices_kept b c \<Longrightarrow> prices_kept a c"
  unfolding prices_kept_def by metis

lemma prices_kept_after: "orders_after filled x db db' \<Longrightarrow> x \<in> set (db_limit_orders db) \<Longrightarrow> prices_kept db db'"
proof -
  assume a: "orders_after filled x db db'" and x: "x \<in> set (db_limit_orders db)"
  have "\<exists>w \<in> set (db_limit_orders db). order_key w = order_key z \<and> lim_sell_price w = lim_sell_price z"
    if "z \<in> set (db_limit_orders db')" for z
  proof -
    have "(\<exists>r. z = x\<lparr>lim_for_sale := r\<rparr>) \<or> z \<in> set (db_limit_orders db)"
      using a that by (auto simp: orders_after_def replace_by_def split: if_splits)
    then show ?thesis
    proof
      assume "\<exists>r. z = x\<lparr>lim_for_sale := r\<rparr>"
      then show ?thesis using x by (auto simp: order_key_def intro!: bexI [of _ x])
    qed blast
  qed
  then show ?thesis by (simp add: prices_kept_def)
qed

lemma match_Inr:
  assumes "match x y p db = Inr (result, db')"
  obtains ls r q v nf db2 of' where "trade_amounts (amount_for_sale x) (amount_for_sale y) p = Inr (r, q)"
    "fill_order x q r (push_virtual_operation v (db\<lparr>db_liquidity := ls\<rparr>)) = Inr (nf, db2)" "fill_order y r q db2 = Inr (of', db')"
    "result = of_bool nf + 2 * of_bool of'" "has_hardfork 20 db \<longrightarrow> match_checks x y p = Inr () \<and> result \<noteq> 0"
proof -
  define v where "v = (\<lambda>q r. Fill_Order (lim_seller x) (lim_orderid x) q (lim_seller y) (lim_orderid y) r)"
  from assms obtain r q db1 nf db2 of' where
    c: "has_hardfork 20 db \<Longrightarrow> match_checks x y p = Inr ()"
    and t: "trade_amounts (amount_for_sale x) (amount_for_sale y) p = Inr (r, q)"
    and mr: "match_rewards x y r q db = Inr db1"
    and f: "fill_order x q r (push_virtual_operation (v q r) db1) = Inr (nf, db2)"
      "fill_order y r q db2 = Inr (of', db')" "result = of_bool nf + 2 * of_bool of'" "has_hardfork 20 db \<Longrightarrow> result \<noteq> 0"
    by (auto simp: match_def Let_def delta_assert_def v_def split: if_split_asm)
  from match_rewards_fields [OF mr] obtain ls where "db1 = db\<lparr>db_liquidity := ls\<rparr>" by blast
  then show ?thesis using that [OF t] f c by blast
qed

lemma fill_order_symbol: "fill_order x pays receives db = Inr z \<Longrightarrow> symbol pays = symbol (base (lim_sell_price x))"
  by (auto simp: fill_order_def delta_assert_def split: if_split_asm)

text \<open>
  One match conserves every token, touches no third order, and says in its result which of the
  two orders is gone.
\<close>

lemma match_step:
  assumes wf: "wf_state db" and x: "find_by order_key kx (db_limit_orders db) = Some x"
    and y: "find_by order_key ky (db_limit_orders db) = Some y" and ne: "kx \<noteq> ky" and m: "match x y p db = Inr (result, db')"
  shows "state_step (\<lambda>_. 0) db db'" "db_hardforks db' = db_hardforks db" "head_block_time db' = head_block_time db"
    "\<And>k. k \<noteq> kx \<Longrightarrow> k \<noteq> ky \<Longrightarrow> find_by order_key k (db_limit_orders db') = find_by order_key k (db_limit_orders db)"
    "odd result \<Longrightarrow> find_by order_key kx (db_limit_orders db') = None"
    "has_hardfork 20 db \<Longrightarrow> even result \<Longrightarrow> find_by order_key ky (db_limit_orders db') = None \<and>
       (\<exists>rest. find_by order_key kx (db_limit_orders db') = Some (x\<lparr>lim_for_sale := rest\<rparr>))"
    "prices_kept db db'"
proof -
  note kx = wf_order_of [OF wf x] and ky = wf_order_of [OF wf y]
  from m obtain ls r q v nf db2 of' where "trade_amounts (amount_for_sale x) (amount_for_sale y) p = Inr (r, q)"
    and f1: "fill_order x q r (push_virtual_operation v (db\<lparr>db_liquidity := ls\<rparr>)) = Inr (nf, db2)"
    and f2: "fill_order y r q db2 = Inr (of', db')" and res: "result = of_bool nf + 2 * of_bool of'"
    and hf: "has_hardfork 20 db \<longrightarrow> match_checks x y p = Inr () \<and> result \<noteq> 0"
    by (rule match_Inr)
  define db1 where "db1 = push_virtual_operation v (db\<lparr>db_liquidity := ls\<rparr>)"
  have d1: "db_limit_orders db1 = db_limit_orders db" "db_hardforks db1 = db_hardforks db" "head_block_time db1 = head_block_time db"
    by (simp_all add: db1_def push_virtual_operation_def head_block_time_def)
  have e1: "state_step (\<lambda>_. 0) db db1" unfolding db1_def by (rule state_step_liquidity [OF wf])
  have sr: "symbol r \<in> {DELTA_SYMBOL, DBD_SYMBOL}" using fill_order_symbol [OF f2] ky(1) by simp
  have sq: "symbol q \<in> {DELTA_SYMBOL, DBD_SYMBOL}" using fill_order_symbol [OF f1] kx(1) by simp
  have x1: "find_by order_key (order_key x) (db_limit_orders db1) = Some x" using x kx(2) d1(1) by simp
  note s1 = fill_order_step [OF state_step_wf [OF e1] x1 f1 [folded db1_def] sr]
  have y2: "find_by order_key (order_key y) (db_limit_orders db2) = Some y"
    using find_orders_after [OF s1(2), of ky] y ne kx(2) ky(2) d1(1) by simp
  note s2 = fill_order_step [OF state_step_wf [OF s1(1)] y2 f2 sq]
  show "state_step (\<lambda>_. 0) db db'"
    by (rule state_step_cong [OF state_step_trans [OF e1 state_step_trans [OF s1(1) s2(1)]]]) simp
  show "db_hardforks db' = db_hardforks db" "head_block_time db' = head_block_time db" using s1 s2 d1 by simp_all
  show "find_by order_key k (db_limit_orders db') = find_by order_key k (db_limit_orders db)" if "k \<noteq> kx" "k \<noteq> ky" for k
    using find_orders_after [OF s1(2), of k] find_orders_after [OF s2(2), of k] that kx(2) ky(2) d1(1) by simp
  have "x \<in> set (db_limit_orders db1)" "y \<in> set (db_limit_orders db2)" using find_by_Some [OF x1] find_by_Some [OF y2] by auto
  then have "prices_kept db1 db2" "prices_kept db2 db'" using prices_kept_after s1(2) s2(2) by blast+
  then show "prices_kept db db'" using prices_kept_trans [of db1 db2 db'] d1(1) by (simp add: prices_kept_def)
  have fx: "find_by order_key kx (db_limit_orders db') = find_by order_key kx (db_limit_orders db2)"
    using find_orders_after [OF s2(2), of kx] ne ky(2) by simp
  have gone: "find_by order_key k (remove_by order_key k xs) = None" for k xs
    by (simp add: find_by_None) (auto simp: remove_by_def)
  show "find_by order_key kx (db_limit_orders db') = None" if "odd result"
    using that s1(2) fx gone kx(2) by (simp add: res orders_after_def split: if_splits)
  show "find_by order_key ky (db_limit_orders db') = None \<and>
      (\<exists>rest. find_by order_key kx (db_limit_orders db') = Some (x\<lparr>lim_for_sale := rest\<rparr>))" if "has_hardfork 20 db" "even result"
  proof -
    have fl: "of'" "\<not> nf" using hf that by (auto simp: res of_bool_def split: if_splits)
    obtain rest where "db_limit_orders db2 = replace_by order_key (order_key x) (x\<lparr>lim_for_sale := rest\<rparr>) (db_limit_orders db1)"
      using s1(2) fl(2) by (auto simp: orders_after_def)
    moreover have "kx \<in> order_key ` set (db_limit_orders db)" using kx by (metis image_eqI)
    ultimately have "find_by order_key kx (db_limit_orders db2) = Some (x\<lparr>lim_for_sale := rest\<rparr>)"
      using kx(2) d1(1) by (simp add: find_by_replace order_key_def)
    moreover have "find_by order_key ky (db_limit_orders db') = None" using s2(2) fl(1) gone ky(2) by (simp add: orders_after_def)
    ultimately show ?thesis using fx by auto
  qed
qed

lemma match_loop_step:
  assumes "wf_state db" "match_loop new olds db = Inr db'" "new \<notin> set olds"
  shows "state_step (\<lambda>_. 0) db db'"
  using assms
proof (induction olds arbitrary: db)
  case Nil
  then show ?case by (simp add: state_step_refl)
next
  case (Cons old rest)
  from Cons.prems(2) obtain x y result db1 where x: "find_by order_key new (db_limit_orders db) = Some x"
    and y: "find_by order_key old (db_limit_orders db) = Some y"
    and m: "match x y (lim_sell_price y) db = Inr (result, db1)"
    and r: "(if odd result then Inr db1 else match_loop new rest db1) = Inr db'"
    by auto
  note s = match_step [OF Cons.prems(1) x y _ m]
  have e1: "state_step (\<lambda>_. 0) db db1" using s(1) Cons.prems(3) by auto
  show ?case
  proof (cases "odd result")
    case True
    with r e1 show ?thesis by simp
  next
    case False
    then have "state_step (\<lambda>_. 0) db1 db'" using r Cons.IH [OF state_step_wf [OF e1]] Cons.prems(3) by simp
    from state_step_trans [OF e1 this] show ?thesis by simp
  qed
qed

text \<open>
  The loop ends with the new order gone, or with every order it was to be matched with gone.
\<close>

lemma match_loop_clears:
  assumes "wf_state db" "has_hardfork 20 db" "match_loop new olds db = Inr db'" "new \<notin> set olds" "distinct olds"
  shows "prices_kept db db' \<and> (\<forall>k. k \<noteq> new \<longrightarrow> k \<notin> set olds \<longrightarrow> find_by order_key k (db_limit_orders db') = find_by order_key k (db_limit_orders db)) \<and>
    (find_by order_key new (db_limit_orders db') = None \<or> (\<forall>k \<in> set olds. find_by order_key k (db_limit_orders db') = None))"
  using assms
proof (induction olds arbitrary: db)
  case Nil
  then show ?case by (simp add: prices_kept_refl)
next
  case (Cons old rest)
  from Cons.prems(3) obtain x y result db1 where x: "find_by order_key new (db_limit_orders db) = Some x"
    and y: "find_by order_key old (db_limit_orders db) = Some y"
    and m: "match x y (lim_sell_price y) db = Inr (result, db1)"
    and r: "(if odd result then Inr db1 else match_loop new rest db1) = Inr db'"
    by auto
  have ne: "new \<noteq> old" using Cons.prems(4) by auto
  note s = match_step [OF Cons.prems(1) x y ne m]
  show ?case
  proof (cases "odd result")
    case True
    with r s show ?thesis by auto
  next
    case False
    have h: "has_hardfork 20 db1" using Cons.prems(2) s(2) by (simp add: has_hardfork_def)
    have l: "match_loop new rest db1 = Inr db'" using r False by simp
    note ih = Cons.IH [OF state_step_wf [OF s(1)] h l]
    have ih': "prices_kept db1 db' \<and> (\<forall>k. k \<noteq> new \<longrightarrow> k \<notin> set rest \<longrightarrow> find_by order_key k (db_limit_orders db') = find_by order_key k (db_limit_orders db1)) \<and>
      (find_by order_key new (db_limit_orders db') = None \<or> (\<forall>k \<in> set rest. find_by order_key k (db_limit_orders db') = None))"
      using ih Cons.prems(4,5) by simp
    have "find_by order_key old (db_limit_orders db') = None"
    proof -
      have "find_by order_key old (db_limit_orders db') = find_by order_key old (db_limit_orders db1)"
        using ih' ne Cons.prems(5) by (metis distinct.simps(2))
      then show ?thesis using s(6) [OF Cons.prems(2)] False by simp
    qed
    then show ?thesis using ih' s(4) prices_kept_trans [OF s(7)] by auto
  qed
qed

lemma set_candidates: "set (candidates up mp db) = {z \<in> set (db_limit_orders db). crosses up mp z}"
proof -
  have "set (fold (ordered_insert by_price) xs acc) = set xs \<union> set acc" for xs acc
    by (induction xs arbitrary: acc) auto
  then show ?thesis by (auto simp: candidates_def)
qed

lemma distinct_candidates:
  assumes "distinct (map order_key (db_limit_orders db))"
  shows "distinct (map order_key (candidates up mp db))"
proof -
  have ins: "distinct (map order_key (ordered_insert by_price x ys)) \<longleftrightarrow> order_key x \<notin> order_key ` set ys \<and> distinct (map order_key ys)" for x ys
    by (induction ys) auto
  have "distinct (map order_key xs) \<Longrightarrow> distinct (map order_key acc) \<Longrightarrow> order_key ` set xs \<inter> order_key ` set acc = {} \<Longrightarrow>
      distinct (map order_key (fold (ordered_insert by_price) xs acc))" for xs acc
    by (induction xs arbitrary: acc) (auto simp: ins)
  then show ?thesis using assms by (simp add: candidates_def distinct_map_filter)
qed

lemma price_inverse_Inr: "price_inverse p = Inr q \<Longrightarrow> base q = quote p \<and> quote q = base p \<and> symbol (base p) \<noteq> symbol (quote p)"
  by (auto simp: price_inverse_def mk_price_def price_validate_def Let_def)

lemma price_max_Inr: "price_max b q = Inr p \<Longrightarrow> symbol (base p) = b \<and> symbol (quote p) = q"
  by (auto simp: price_max_def asset_div_def mk_price_def price_validate_def Let_def)

text \<open>Crossing orders are in the market of the bounds.\<close>

lemma crosses_market:
  assumes "crosses up mp z" "same_market up mp"
  shows "same_market (lim_sell_price z) mp"
proof (rule ccontr)
  assume n: "\<not> same_market (lim_sell_price z) mp"
  then have "\<not> same_market up (lim_sell_price z)" using assms(2) by (auto simp: same_market_def)
  with n assms show False
    by (auto simp: crosses_def price_less_def market_less_def same_market_def)
qed

lemma new_not_candidate:
  assumes "price_inverse (lim_sell_price x) = Inr mp" "price_max (symbol (base mp)) (symbol (quote mp)) = Inr up"
  shows "\<not> crosses up mp x"
proof
  assume "crosses up mp x"
  moreover have "same_market up mp" using price_max_Inr [OF assms(2)] by (simp add: same_market_def)
  ultimately have "same_market (lim_sell_price x) mp" by (rule crosses_market)
  then show False using price_inverse_Inr [OF assms(1)] by (simp add: same_market_def)
qed

lemma apply_order_loop:
  assumes "wf_state db" "find_by order_key (order_key x) (db_limit_orders db) = Some x" "apply_order x db = Inr (filled, db')"
  obtains mp up where "price_inverse (lim_sell_price x) = Inr mp" "price_max (symbol (base mp)) (symbol (quote mp)) = Inr up"
    "match_loop (order_key x) (map order_key (candidates up mp db)) db = Inr db'"
    "filled \<longleftrightarrow> find_by order_key (order_key x) (db_limit_orders db') = None"
    "order_key x \<notin> set (map order_key (candidates up mp db))" "distinct (map order_key (candidates up mp db))"
proof -
  from assms(3) obtain mp up where i: "price_inverse (lim_sell_price x) = Inr mp"
    and u: "price_max (symbol (base mp)) (symbol (quote mp)) = Inr up"
    and l: "match_loop (order_key x) (map order_key (candidates up mp db)) db = Inr db'"
    and f: "filled \<longleftrightarrow> find_by order_key (order_key x) (db_limit_orders db') = None"
    by (auto simp: apply_order_def)
  note d = wf_order_of [OF assms(1,2)]
  have "order_key x \<notin> order_key ` set (candidates up mp db)"
  proof
    assume "order_key x \<in> order_key ` set (candidates up mp db)"
    then obtain z where z: "z \<in> set (db_limit_orders db)" "crosses up mp z" "order_key z = order_key x" by (auto simp: set_candidates)
    then have "z = x" using d(3) assms(2) find_of_member [OF d(3) z(1)] by simp
    then show False using z(2) new_not_candidate [OF i u] by simp
  qed
  then show ?thesis using that [OF i u l f] distinct_candidates [OF d(3)] by simp
qed

lemma apply_order_step:
  assumes "wf_state db" "find_by order_key (order_key x) (db_limit_orders db) = Some x" "apply_order x db = Inr (filled, db')"
  shows "state_step (\<lambda>_. 0) db db'"
  using apply_order_loop [OF assms] match_loop_step [OF assms(1)] by metis

text \<open>The price index, as a strict weak order on orders with valid prices.\<close>

interpretation order_book: strict_weak_order "\<lambda>x. wf_price (lim_sell_price x)" by_price
  unfolding by_price_def
proof
  fix a b c :: limit_order_object
  assume w: "wf_price (lim_sell_price a)"
  show "\<not> price_less (lim_sell_price a) (lim_sell_price a)" using price_order.irreflexive [OF w] .
next
  fix a b c :: limit_order_object
  assume w: "wf_price (lim_sell_price a)" "wf_price (lim_sell_price b)" "wf_price (lim_sell_price c)"
  show "price_less (lim_sell_price c) (lim_sell_price a)"
    if "price_less (lim_sell_price b) (lim_sell_price a)" "price_less (lim_sell_price c) (lim_sell_price b)"
    using price_order.less_trans [OF w(3,2,1)] that by blast
  show "price_less (lim_sell_price b) (lim_sell_price a) \<or> price_less (lim_sell_price c) (lim_sell_price b)"
    if "price_less (lim_sell_price c) (lim_sell_price a)"
    using price_order.less_cotrans [OF w(3,2,1)] that by blast
qed

lemma candidates_best_first:
  assumes "\<And>z. z \<in> set (db_limit_orders db) \<Longrightarrow> wf_price (lim_sell_price z)"
  shows "in_index_order by_price (candidates up mp db)"
proof -
  have "\<forall>z \<in> set xs. wf_price (lim_sell_price z) \<Longrightarrow> \<forall>z \<in> set acc. wf_price (lim_sell_price z) \<Longrightarrow> in_index_order by_price acc \<Longrightarrow>
      in_index_order by_price (fold (ordered_insert by_price) xs acc)" for xs acc
  proof (induction xs arbitrary: acc)
    case (Cons x xs)
    then show ?case using order_book.insert_keeps_order [of x acc] by simp
  qed simp
  then show ?thesis using assms by (simp add: candidates_def in_index_order_def)
qed

section \<open>The evaluators\<close>

lemma place_order_step:
  assumes "wf_state db" "place_order owner oid sell p fok req ex db = Inr db'"
    and b: "\<And>q. p = Inr q \<Longrightarrow> symbol (base q) = symbol sell"
  shows "state_step (\<lambda>_. 0) db db'"
proof -
  from assms(2) obtain a bal neg db1 q db2 filled where bal: "get_balance a (symbol sell) = Inr bal"
    and n: "asset_neg sell = Inr neg" and s1: "adjust_balance owner neg db = Inr db1" and q: "p = Inr q"
    and s2: "create_order (make_order (head_block_time db1) ex owner oid sell q) db1 = Inr db2"
    and s3: "apply_order (make_order (head_block_time db1) ex owner oid sell q) db2 = Inr (filled, db')"
    unfolding place_order_def Let_def by (auto split: prod.splits)
  define x where "x = make_order (head_block_time db1) ex owner oid sell q"
  have x: "lim_sell_price x = q" "lim_for_sale x = amount sell" by (simp_all add: x_def make_order_def)
  note s2 = s2 [folded x_def] and s3 = s3 [folded x_def]
  have l: "symbol sell \<in> {DELTA_SYMBOL, DBD_SYMBOL}" by (rule get_balance_liquid [OF bal])
  have sx: "symbol (base (lim_sell_price x)) = symbol sell" using b [OF q] x(1) by simp
  have e1: "state_step (\<lambda>s. coin s neg) db db1"
    using state_step_adjust [OF assms(1) s1] l asset_neg_Inr [OF n] by simp
  have e2: "state_step (\<lambda>s. order_holds s x) db1 db2"
    using state_step_create_order [OF state_step_wf [OF e1] s2] l sx by simp
  have mem: "x \<in> set (db_limit_orders db2)" using s2 by (auto simp: create_order_def dest!: create_byD)
  have "find_by order_key (order_key x) (db_limit_orders db2) = Some x"
    using state_step_wf [OF e2] mem by (intro find_of_member) (auto simp: wf_state_def wf_objects_def)
  note e3 = apply_order_step [OF state_step_wf [OF e2] this s3]
  have "order_holds s x = coin s sell" for s by (simp add: order_holds_def coin_def sx x(2))
  then show ?thesis
    by (intro state_step_cong [OF state_step_trans [OF e1 state_step_trans [OF e2 e3]]]) (simp add: coin_neg [OF n])
qed

lemma asset_div_Inr: "asset_div a b = Inr p \<Longrightarrow> base p = a \<and> quote p = b"
  by (auto simp: asset_div_def mk_price_def Let_def)

lemma limit_order_create_step:
  assumes "wf_state db" "limit_order_create_evaluator op db = Inr db'"
  shows "state_step (\<lambda>_. 0) db db'"
  by (rule place_order_step [OF assms(1) assms(2) [unfolded limit_order_create_evaluator_def]])
    (auto simp: limit_order_create_get_price_def dest!: asset_div_Inr)

lemma limit_order_create2_step:
  assumes "wf_state db" "limit_order_create2_evaluator op db = Inr db'" "symbol (l2_amount_to_sell op) = symbol (base (l2_exchange_rate op))"
  shows "state_step (\<lambda>_. 0) db db'"
  using place_order_step [OF assms(1) assms(2) [unfolded limit_order_create2_evaluator_def]] assms(3) by simp

lemma limit_order_cancel_step:
  assumes "wf_state db" "limit_order_cancel_evaluator op db = Inr db'"
  shows "state_step (\<lambda>_. 0) db db'"
proof -
  from assms(2) obtain k x where x: "find_by order_key k (db_limit_orders db) = Some x" and c: "cancel_order x db = Inr db'"
    by (auto simp: limit_order_cancel_evaluator_def get_limit_order_def Let_def)
  have "find_by order_key (order_key x) (db_limit_orders db) = Some x" using x find_by_Some [OF x] by simp
  from cancel_order_step(1) [OF assms(1) this c] show ?thesis .
qed

section \<open>Expired orders\<close>

lemma due_order_Some:
  assumes "due_order db = Some x"
  shows "x \<in> set (db_limit_orders db)" "lim_expiration x < head_block_time db"
proof -
  from assms have b: "index_begin lim_expiration (db_limit_orders db) = Some x" "lim_expiration x < head_block_time db"
    by (auto simp: due_order_def split: option.splits if_splits)
  show "x \<in> set (db_limit_orders db)" "lim_expiration x < head_block_time db" using index_begin_Some(1) [OF b(1)] b(2) by auto
qed

lemma due_order_None:
  assumes "due_order db = None" "x \<in> set (db_limit_orders db)"
  shows "lim_expiration x \<ge> head_block_time db"
proof -
  obtain y where y: "index_begin lim_expiration (db_limit_orders db) = Some y" using index_begin_ex [OF assms(2)] by blast
  then have "lim_expiration y \<ge> head_block_time db" using assms(1) by (auto simp: due_order_def split: if_splits)
  with index_begin_Some(2) [OF y assms(2)] show ?thesis by simp
qed

lemma due_cancel_step:
  assumes "wf_state db" "due_order db = Some x" "cancel_order x db = Inr db'"
  shows "state_step (\<lambda>_. 0) db db'" "db_limit_orders db' = remove_by order_key (order_key x) (db_limit_orders db)"
    "head_block_time db' = head_block_time db"
proof -
  have "find_by order_key (order_key x) (db_limit_orders db) = Some x"
    using assms(1) due_order_Some(1) [OF assms(2)] by (intro find_of_member) (auto simp: wf_state_def wf_objects_def)
  note c = cancel_order_step [OF assms(1) this assms(3)]
  show "state_step (\<lambda>_. 0) db db'" "db_limit_orders db' = remove_by order_key (order_key x) (db_limit_orders db)"
    "head_block_time db' = head_block_time db" using c by auto
qed

interpretation order_loop: draining_loop due_order cancel_order wf_state "\<lambda>db. length (db_limit_orders db)"
proof
  fix db x db' assume a: "wf_state db" "due_order db = Some x" "cancel_order x db = Inr db'"
  note f = due_cancel_step [OF a]
  show "wf_state db'" by (rule state_step_wf [OF f(1)])
  have d: "distinct (map order_key (db_limit_orders db))" using a(1) by (simp add: wf_state_def wf_objects_def)
  show "length (db_limit_orders db') < length (db_limit_orders db)"
    unfolding f(2) by (rule length_remove [OF d find_of_member [OF d due_order_Some(1) [OF a(2)]]])
qed

lemma clear_expired_orders_result:
  assumes "wf_state db" "clear_expired_orders db = Some (Inr db')"
  shows "state_step (\<lambda>_. 0) db db' \<and>
    db_limit_orders db' = filter (\<lambda>x. lim_expiration x \<ge> head_block_time db) (db_limit_orders db)"
proof -
  define R where "R = (\<lambda>a b. state_step (\<lambda>_. 0) a b \<and> head_block_time b = head_block_time a \<and>
    filter (\<lambda>x. lim_expiration x \<ge> head_block_time a) (db_limit_orders b) =
    filter (\<lambda>x. lim_expiration x \<ge> head_block_time a) (db_limit_orders a))"
  have "due_order db' = None \<and> wf_state db' \<and> R db db'"
  proof (rule order_loop.drained [OF assms(1) assms(2) [unfolded clear_expired_orders_def]])
    show "R db db" using assms(1) by (simp add: R_def state_step_refl)
    fix a x b assume a: "wf_state a" "R db a" "due_order a = Some x" "cancel_order x a = Inr b"
    note w = due_order_Some [OF a(3)]
    note f = due_cancel_step [OF a(1,3,4)]
    have "distinct (map order_key (db_limit_orders a))" using a(1) by (simp add: wf_state_def wf_objects_def)
    then show "R db b"
      using a(2) w f state_step_trans [of "\<lambda>_. 0" db a "\<lambda>_. 0" b]
      by (simp add: R_def filter_remove_by)
  qed
  then have d: "due_order db' = None" and r: "R db db'" by auto
  have "filter (\<lambda>x. lim_expiration x \<ge> head_block_time db) (db_limit_orders db') = db_limit_orders db'"
    using due_order_None [OF d] r by (auto simp: R_def intro: filter_True)
  with r show ?thesis by (simp add: R_def)
qed

section \<open>What traders get\<close>

text \<open>
  C6: After hardfork 20, an order that stays in the book after it was applied crosses no order
  left there: the matching loop stops only when the new order is gone or every order within its
  price limit is gone. The candidates are visited best price first.
\<close>

theorem apply_order_leaves_book_uncrossed:
  assumes "wf_state db" "has_hardfork 20 db" "find_by order_key (order_key x) (db_limit_orders db) = Some x"
    and "apply_order x db = Inr (filled, db')" "\<And>z. z \<in> set (db_limit_orders db) \<Longrightarrow> wf_price (lim_sell_price z)"
  shows "\<exists>mp up. price_inverse (lim_sell_price x) = Inr mp \<and> price_max (symbol (base mp)) (symbol (quote mp)) = Inr up \<and>
    in_index_order by_price (candidates up mp db) \<and>
    (filled \<or> (\<forall>z \<in> set (db_limit_orders db'). \<not> crosses up mp z))"
  using apply_order_loop [OF assms(1,3,4)]
proof cases
  case (1 mp up)
  note l = match_loop_clears [OF assms(1,2) 1(3,5,6)]
  have "\<not> crosses up mp z" if z: "z \<in> set (db_limit_orders db')" and "\<not> filled" for z
  proof
    assume c: "crosses up mp z"
    from l z obtain w where w: "w \<in> set (db_limit_orders db)" "order_key w = order_key z" "lim_sell_price w = lim_sell_price z"
      by (auto simp: prices_kept_def)
    then have "w \<in> set (candidates up mp db)" using c by (simp add: set_candidates crosses_def)
    then have "order_key z \<in> order_key ` set (candidates up mp db)" using w(2) by (metis image_eqI)
    then have "find_by order_key (order_key z) (db_limit_orders db') = None" using l 1(4) that(2) by auto
    then show False using z by (auto simp: find_by_None)
  qed
  then show ?thesis using 1(1,2) candidates_best_first [OF assms(5)] by blast
qed

definition sample_ask :: limit_order_object where
  "sample_ask = make_order 0 100 ''alice'' 1 (mk_asset 10 DELTA_SYMBOL) \<lparr>base = mk_asset 10 DELTA_SYMBOL, quote = mk_asset 20 DBD_SYMBOL\<rparr>"

definition sample_bid :: limit_order_object where
  "sample_bid = make_order 0 100 ''bob'' 1 (mk_asset 30 DBD_SYMBOL) \<lparr>base = mk_asset 30 DBD_SYMBOL, quote = mk_asset 15 DELTA_SYMBOL\<rparr>"

definition sample_book :: database where
  "sample_book = empty_database\<lparr>db_accounts := map default_account [''alice'', ''bob''], db_limit_orders := [sample_ask, sample_bid]\<rparr>"

lemma sample_book_wf: "wf_state sample_book"
  by (simp add: sample_book_def wf_state_def wf_accounts_def wf_objects_def empty_database_def default_account_def sample_ask_def
      sample_bid_def make_order_def order_key_def)

lemmas balance_eval = get_account_def find_by_def adjust_balance_def modify_balance_def modify_account_def accrue_interest_def
  pay_interest_def head_block_time_def default_dgpo_def safe_add_def safe_sub_def replace_by_def remove_by_def Let_def
  assert_ge_def asset_le_def empty_database_def default_account_def has_hardfork_def

lemma sample_crosses:
  "candidates \<lparr>base = mk_asset DELTA_MAX_SATOSHIS DELTA_SYMBOL, quote = mk_asset 1 DBD_SYMBOL\<rparr>
     \<lparr>base = mk_asset 15 DELTA_SYMBOL, quote = mk_asset 30 DBD_SYMBOL\<rparr> sample_book = [sample_ask]"
  by (simp add: candidates_def sample_book_def crosses_def sample_ask_def sample_bid_def make_order_def price_less_def
      same_market_def market_less_def cross_def DELTA_ASSET_NUM_DELTA_def DELTA_ASSET_NUM_DBD_def)

lemma sample_bounds:
  "price_inverse (lim_sell_price sample_bid) = Inr \<lparr>base = mk_asset 15 DELTA_SYMBOL, quote = mk_asset 30 DBD_SYMBOL\<rparr>"
  "price_max DELTA_SYMBOL DBD_SYMBOL = Inr \<lparr>base = mk_asset DELTA_MAX_SATOSHIS DELTA_SYMBOL, quote = mk_asset 1 DBD_SYMBOL\<rparr>"
  by (simp_all add: price_inverse_def price_max_def asset_div_def mk_price_def price_validate_def sample_bid_def make_order_def)

lemma sample_trade:
  "trade_amounts (mk_asset 30 DBD_SYMBOL) (mk_asset 10 DELTA_SYMBOL) \<lparr>base = mk_asset 10 DELTA_SYMBOL, quote = mk_asset 20 DBD_SYMBOL\<rparr> =
     Inr (mk_asset 10 DELTA_SYMBOL, mk_asset 20 DBD_SYMBOL)"
  by (simp add: trade_amounts_def asset_mul_price_eq asset_le_def wf_price_def price_validate_def in_int64_def)

lemma sample_left:
  "asset_mul_price (mk_asset 10 DBD_SYMBOL) \<lparr>base = mk_asset 30 DBD_SYMBOL, quote = mk_asset 15 DELTA_SYMBOL\<rparr> = Inr (mk_asset 5 DELTA_SYMBOL)"
  by (simp add: asset_mul_price_eq wf_price_def price_validate_def in_int64_def)

lemma sample_apply_ok: "is_ok (apply_order sample_bid sample_book)"
  by (simp add: apply_order_def sample_bounds sample_crosses)
    (simp add: sample_bid_def sample_ask_def make_order_def sample_book_def balance_eval order_key_def match_def match_checks_def
      amount_for_sale_def sample_trade delta_assert_def asset_eq_def match_rewards_def fill_order_def push_virtual_operation_def
      remove_order_def store_order_def amount_to_receive_def sample_left asset_less_def)

theorem apply_order_leaves_book_uncrossed_witness:
  "\<exists>filled db'. apply_order sample_bid sample_book = Inr (filled, db') \<and>
    (filled \<or> (\<forall>z \<in> set (db_limit_orders db'). \<not> crosses
      \<lparr>base = mk_asset DELTA_MAX_SATOSHIS DELTA_SYMBOL, quote = mk_asset 1 DBD_SYMBOL\<rparr>
      \<lparr>base = mk_asset 15 DELTA_SYMBOL, quote = mk_asset 30 DBD_SYMBOL\<rparr> z))"
proof -
  obtain filled db' where r: "apply_order sample_bid sample_book = Inr (filled, db')"
    using sample_apply_ok by (auto simp: is_ok_iff)
  have h: "has_hardfork 20 sample_book" by (simp add: has_hardfork_def sample_book_def empty_database_def)
  have f: "find_by order_key (order_key sample_bid) (db_limit_orders sample_book) = Some sample_bid"
    by (simp add: find_by_def sample_book_def sample_bid_def sample_ask_def make_order_def order_key_def)
  have w: "wf_price (lim_sell_price z)" if "z \<in> set (db_limit_orders sample_book)" for z
    using that by (auto simp: sample_book_def sample_bid_def sample_ask_def make_order_def wf_price_def price_validate_def)
  show ?thesis
    using apply_order_leaves_book_uncrossed [OF sample_book_wf h f r w] r by (auto simp: sample_bounds)
qed

text \<open>Two fractions in order, and their floors.\<close>

lemma floor_mono_cross:
  fixes a b c d :: int
  assumes "0 < b" "0 < d" "a * d \<le> c * b"
  shows "a div b \<le> c div d"
proof -
  have "(a div b) * b \<le> a" using assms(1) by (metis div_mult_mod_eq le_add_same_cancel1 pos_mod_sign)
  then have "(a div b) * b * d \<le> a * d" using assms(2) by (intro mult_right_mono) auto
  also have "\<dots> \<le> c * b" by (rule assms(3))
  finally have "((a div b) * d) * b \<le> c * b" by (simp add: mult.assoc mult.commute mult.left_commute)
  then have "(a div b) * d \<le> c" using assms(1) by simp
  from zdiv_mono1 [OF this assms(2)] show ?thesis using assms(2) by simp
qed

lemma floor_times_le: "0 < (b :: int) \<Longrightarrow> (a div b) * b \<le> a"
  by (metis div_mult_mod_eq le_add_same_cancel1 pos_mod_sign)

text \<open>The arithmetic of a trade of \<open>n\<close> against \<open>m\<close> at the old order's price \<open>bo / qo\<close>, where the new
  order's limit is \<open>bn / qn\<close>.\<close>

lemma trade_arith_new_filled:
  fixes n m :: int
  assumes "0 < n" "0 < m" "0 < bo" "0 < qo" "0 < bn" "0 < qn" "qn * qo \<le> bo * bn" "n \<le> m * qo div bo"
  shows "n * bo div qo \<le> m" "n * bo div qo * qo div bo \<le> n" "n * qn div bn \<le> n * bo div qo"
proof -
  have "n * bo \<le> (m * qo div bo) * bo" using assms(3,8) by (intro mult_right_mono) auto
  also have "\<dots> \<le> m * qo" by (rule floor_times_le [OF assms(3)])
  finally have le: "n * bo \<le> m * qo" .
  show "n * bo div qo \<le> m" using zdiv_mono1 [OF le assms(4)] assms(4) by simp
  have "n * bo div qo * qo \<le> n * bo" by (rule floor_times_le [OF assms(4)])
  from zdiv_mono1 [OF this assms(3)] show "n * bo div qo * qo div bo \<le> n" using assms(3) by simp
  have "n * (qn * qo) \<le> n * (bo * bn)" using assms(1,7) by (intro mult_left_mono) auto
  then show "n * qn div bn \<le> n * bo div qo" using assms by (intro floor_mono_cross) (simp_all add: mult.assoc)
qed

lemma trade_arith_old_filled:
  fixes m :: int
  assumes "0 < m" "0 < bo" "0 < qo" "0 < bn" "0 < qn" "qn * qo \<le> bo * bn"
  shows "(m * qo div bo) * qn div bn \<le> m"
proof -
  have "(m * qo div bo) * bo \<le> m * qo" by (rule floor_times_le [OF assms(2)])
  then have "(m * qo div bo) * bo * qn \<le> m * qo * qn" using assms(5) by (intro mult_right_mono) auto
  also have "\<dots> \<le> m * (bo * bn)" using mult_left_mono [OF assms(6), of m] assms(1) by (simp add: mult.assoc mult.commute)
  finally have "((m * qo div bo) * qn) * bo \<le> (m * bn) * bo" by (simp add: mult.assoc mult.commute mult.left_commute)
  then have "(m * qo div bo) * qn \<le> m * bn" using assms(2) by simp
  from zdiv_mono1 [OF this assms(4)] show ?thesis using assms(4) by simp
qed

lemma trade_amounts_eq:
  assumes wo: "wf_price p" and sy: "symbol a = symbol (quote p)" "symbol b = symbol (base p)"
    and n: "0 < amount a" "amount a \<le> int64_max" and m: "0 < amount b" "amount b \<le> int64_max"
    and w: "amount b * amount (quote p) div amount (base p) \<le> int64_max"
  shows "amount a \<le> amount b * amount (quote p) div amount (base p) \<Longrightarrow> amount a * amount (base p) div amount (quote p) \<le> int64_max \<Longrightarrow>
      trade_amounts a b p = Inr (mk_asset (amount a * amount (base p) div amount (quote p)) (symbol b), a)"
    "\<not> amount a \<le> amount b * amount (quote p) div amount (base p) \<Longrightarrow>
      trade_amounts a b p = Inr (b, mk_asset (amount b * amount (quote p) div amount (base p)) (symbol a))"
proof -
  note pd = wf_priceD [OF wo]
  have worth: "asset_mul_price b p = Inr (mk_asset (amount b * amount (quote p) div amount (base p)) (symbol a))"
    using asset_mul_price_eq [OF wo, of b] sy m w by (simp add: in_int64_def Let_def)
  have sw: "wf_price \<lparr>base = quote p, quote = base p\<rparr>" using pd by (simp add: wf_price_def price_validate_def)
  have inv: "asset_mul_price a p = Inr (mk_asset (amount a * amount (base p) div amount (quote p)) (symbol b))"
    if "amount a * amount (base p) div amount (quote p) \<le> int64_max"
    using asset_mul_price_eq [OF sw, of a] sy n that pd(5) by (simp add: in_int64_def Let_def asset_mul_price_quote)
  show "trade_amounts a b p = Inr (mk_asset (amount a * amount (base p) div amount (quote p)) (symbol b), a)"
    if "amount a \<le> amount b * amount (quote p) div amount (base p)" "amount a * amount (base p) div amount (quote p) \<le> int64_max"
    using worth inv [OF that(2)] that(1) by (simp add: trade_amounts_def asset_le_def)
  show "trade_amounts a b p = Inr (b, mk_asset (amount b * amount (quote p) div amount (base p)) (symbol a))"
    if "\<not> amount a \<le> amount b * amount (quote p) div amount (base p)"
    using worth that by (simp add: trade_amounts_def asset_le_def)
qed

text \<open>
  C7: When a new order meets an old one within its limit, the trade at the old order's price gives
  both sides at least what their own limit price asks for, rounded down to whole units, takes from
  neither more than it has for sale, and fills at least one of them.
\<close>

theorem trade_respects_limits:
  assumes "wf_price (lim_sell_price new)" "wf_price (lim_sell_price old)"
    and "symbol (base (lim_sell_price new)) = symbol (quote (lim_sell_price old))"
    and "symbol (quote (lim_sell_price new)) = symbol (base (lim_sell_price old))"
    and "0 < lim_for_sale new" "lim_for_sale new \<le> int64_max" "0 < lim_for_sale old" "lim_for_sale old \<le> int64_max"
    and "lim_for_sale old * amount (quote (lim_sell_price old)) div amount (base (lim_sell_price old)) \<le> int64_max"
    and "price_inverse (lim_sell_price new) = Inr limit" "\<not> price_less (lim_sell_price old) limit"
  shows "\<exists>r q. trade_amounts (amount_for_sale new) (amount_for_sale old) (lim_sell_price old) = Inr (r, q) \<and>
    0 \<le> amount r \<and> amount r \<le> lim_for_sale old \<and> 0 \<le> amount q \<and> amount q \<le> lim_for_sale new \<and>
    amount q * amount (quote (lim_sell_price new)) div amount (base (lim_sell_price new)) \<le> amount r \<and>
    amount r * amount (quote (lim_sell_price old)) div amount (base (lim_sell_price old)) \<le> amount q \<and>
    (amount q = lim_for_sale new \<or> amount r = lim_for_sale old)"
proof -
  define n m bo qo bn qn where "n = lim_for_sale new" and "m = lim_for_sale old"
    and "bo = amount (base (lim_sell_price old))" and "qo = amount (quote (lim_sell_price old))"
    and "bn = amount (base (lim_sell_price new))" and "qn = amount (quote (lim_sell_price new))"
  note defs = n_def m_def bo_def qo_def bn_def qn_def
  note pn = wf_priceD [OF assms(1)] and po = wf_priceD [OF assms(2)]
  have lim: "base limit = quote (lim_sell_price new)" "quote limit = base (lim_sell_price new)"
    using price_inverse_Inr [OF assms(10)] by auto
  have wl: "wf_price limit" using pn lim by (simp add: wf_price_def price_validate_def)
  have sm: "same_market (lim_sell_price old) limit" using assms(3,4) lim by (simp add: same_market_def)
  have cr: "qn * qo \<le> bo * bn"
    using assms(11) price_less_iff(1) [OF assms(2) wl sm] lim by (simp add: defs not_less mult.commute)
  have pos: "0 < n" "0 < m" "0 < bo" "0 < qo" "0 < bn" "0 < qn" using assms(5,7) pn po by (simp_all add: defs)
  have sy: "symbol (amount_for_sale new) = symbol (quote (lim_sell_price old))" "symbol (amount_for_sale old) = symbol (base (lim_sell_price old))"
    using assms(3) by simp_all
  note t = trade_amounts_eq [OF assms(2) sy, unfolded amount_for_sale_amount, OF assms(5-9), folded defs]
  show ?thesis
  proof (cases "n \<le> m * qo div bo")
    case True
    note ar = trade_arith_new_filled [OF pos(1-6) cr True]
    have "n * bo div qo \<le> int64_max" using ar(1) assms(8) by (simp add: m_def)
    with t(1) [OF True] have "trade_amounts (amount_for_sale new) (amount_for_sale old) (lim_sell_price old) =
        Inr (mk_asset (n * bo div qo) (symbol (amount_for_sale old)), amount_for_sale new)" by simp
    moreover have "0 \<le> n * bo div qo" using pos by (simp add: pos_imp_zdiv_nonneg_iff)
    ultimately show ?thesis using ar pos by (simp add: defs)
  next
    case False
    note ar = trade_arith_old_filled [OF pos(2-6) cr]
    from t(2) [OF False] have "trade_amounts (amount_for_sale new) (amount_for_sale old) (lim_sell_price old) =
        Inr (amount_for_sale old, mk_asset (m * qo div bo) (symbol (amount_for_sale new)))" by simp
    moreover have "0 \<le> m * qo div bo" using pos by (simp add: pos_imp_zdiv_nonneg_iff)
    ultimately show ?thesis using ar pos False by (simp add: defs)
  qed
qed

theorem trade_respects_limits_witness:
  "\<exists>r q. trade_amounts (amount_for_sale sample_bid) (amount_for_sale sample_ask) (lim_sell_price sample_ask) = Inr (r, q) \<and>
    amount r = 10 \<and> amount q = 20"
proof -
  have "\<not> price_less (lim_sell_price sample_ask) \<lparr>base = mk_asset 15 DELTA_SYMBOL, quote = mk_asset 30 DBD_SYMBOL\<rparr>"
    by (simp add: price_less_def same_market_def cross_def sample_ask_def make_order_def)
  from trade_respects_limits [OF _ _ _ _ _ _ _ _ _ sample_bounds(1) this] show ?thesis
    by (auto simp: sample_bid_def sample_ask_def make_order_def wf_price_def price_validate_def amount_for_sale_def sample_trade)
qed

end
