(* ===== verification/Inflation.thy ===== *)
theory Inflation
  imports Delegations Market
begin

text \<open>
  Creation and burning of tokens in each block (\<open>database.cpp\<close>: \<open>process_funds\<close>,
  \<open>pay_reward_funds\<close>, \<open>get_producer_reward\<close> and the other rewards, \<open>pay_liquidity_reward\<close>,
  \<open>clear_null_account_balance\<close>; \<open>compound.hpp\<close>). The supply follows what is created and burned.
\<close>

section \<open>Rewards by compound interest\<close>

definition calc_percent_reward :: "nat \<Rightarrow> nat \<Rightarrow> nat \<Rightarrow> int \<Rightarrow> int result" where
  "calc_percent_reward percent multiply_constant shift_constant current_supply =
     (let half = push_bit (shift_constant - 1) (1 :: 128 word);
          reward = word_of_int current_supply * of_nat (percent * multiply_constant);
          reward = drop_bit shift_constant (reward + half)
      in fc_assert (drop_bit 64 reward = 0) (Inr (to_int64 (uint reward))))"

definition calc_percent_reward_per_hour :: "nat \<Rightarrow> int \<Rightarrow> int result" where
  "calc_percent_reward_per_hour percent = calc_percent_reward percent 0x6cc139a15cbd 77"

definition calc_percent_reward_per_block :: "nat \<Rightarrow> int \<Rightarrow> int result" where
  "calc_percent_reward_per_block percent = calc_percent_reward percent 0x5ccce802de5f 87"

definition calc_percent_reward_per_round :: "nat \<Rightarrow> int \<Rightarrow> int result" where
  "calc_percent_reward_per_round percent = calc_percent_reward percent 0x79ccf5c73480 83"

definition get_liquidity_reward :: "database \<Rightarrow> int result" where
  "get_liquidity_reward db =
     (if has_hardfork 12 db then Inr 0
      else res_bind (calc_percent_reward_per_hour 750 (gpo_virtual_supply (db_dgpo db))) (\<lambda>percent. Inr (max percent (1000 * 1200))))"

definition get_content_reward :: "database \<Rightarrow> int result" where
  "get_content_reward db =
     res_bind (calc_percent_reward_per_block 3875 (gpo_virtual_supply (db_dgpo db))) (\<lambda>percent. Inr (max percent 1000))"

definition get_curation_reward :: "database \<Rightarrow> int result" where
  "get_curation_reward db =
     res_bind (calc_percent_reward_per_block 3875 (gpo_virtual_supply (db_dgpo db))) (\<lambda>percent. Inr (max percent 1000))"

text \<open>
  The virtual operation of a producer reward is announced between the computation of the shares
  and their creation, which announces nothing itself.
\<close>

definition pay_producer :: "account_name_type \<Rightarrow> int \<Rightarrow> database \<Rightarrow> database result" where
  "pay_producer n pay db =
     res_bind (create_vesting n (mk_asset pay DELTA_SYMBOL) False db) (\<lambda>(vesting_shares, db1).
     Inr (push_virtual_operation (Producer_Reward n vesting_shares) db1))"

definition get_producer_reward :: "database \<Rightarrow> (int \<times> database) result" where
  "get_producer_reward db =
     (let props = db_dgpo db
      in res_bind (calc_percent_reward_per_block 750 (gpo_virtual_supply props)) (\<lambda>percent.
         let pay = max percent 1000
         in res_bind (get_account (gpo_current_witness props) db) (\<lambda>witness_account.
            res_bind (if gpo_head_block_number props \<ge> 28800 * 30 \<or> acc_vesting_shares witness_account = 0
                      then pay_producer (acc_name witness_account) pay db
                      else modify_account (acc_name witness_account) (\<lambda>a.
                             res_bind (safe_add (acc_balance a) pay) (\<lambda>b. Inr (a\<lparr>acc_balance := b\<rparr>))) db) (\<lambda>db1.
            Inr (pay, db1)))))"

section \<open>Inflation\<close>

fun pay_each :: "int \<Rightarrow> int \<Rightarrow> reward_fund_object list \<Rightarrow> (int \<times> reward_fund_object list) result" where
  "pay_each reward used_rewards [] = Inr (used_rewards, [])"
| "pay_each reward used_rewards (f # fs) =
     res_bind (safe_mul reward (int (rf_percent_content_rewards f))) (\<lambda>x.
     res_bind (safe_div x 10000) (\<lambda>r.
     res_bind (safe_add (rf_reward_balance f) r) (\<lambda>balance.
     res_bind (safe_add used_rewards r) (\<lambda>used_rewards.
     fc_assert (used_rewards \<le> reward)
       (res_bind (pay_each reward used_rewards fs) (\<lambda>(used, fs').
        Inr (used, f\<lparr>rf_reward_balance := balance\<rparr> # fs')))))))"

definition pay_reward_funds :: "int \<Rightarrow> database \<Rightarrow> (int \<times> database) result" where
  "pay_reward_funds reward db =
     res_bind (pay_each reward 0 (db_reward_funds db)) (\<lambda>(used, fs). Inr (used, db\<lparr>db_reward_funds := fs\<rparr>))"

definition current_inflation_rate :: "nat \<Rightarrow> int" where
  "current_inflation_rate head_block_num = max (1400 - int (head_block_num div 250000)) 95"

definition witness_weight :: "witness_object \<Rightarrow> witness_schedule_object \<Rightarrow> int \<Rightarrow> int result" where
  "witness_weight w wso x =
     (case wit_schedule w of
        timeshare \<Rightarrow> safe_mul x (wso_timeshare_weight wso)
      | miner \<Rightarrow> safe_mul x (wso_miner_weight wso)
      | elected \<Rightarrow> safe_mul x (wso_elected_weight wso)
      | none_schedule \<Rightarrow> Inr x)"

text \<open>The new tokens of a block: the funds that get them, and what is left for its producer.\<close>

definition inflate :: "database \<Rightarrow> (account_name_type \<times> int \<times> database) result" where
  "inflate db =
     res_bind (safe_mul (gpo_virtual_supply (db_dgpo db)) (current_inflation_rate (gpo_head_block_number (db_dgpo db)))) (\<lambda>x.
     res_bind (safe_div x (10000 * 10512000)) (\<lambda>new_delta.
     res_bind (safe_mul new_delta 7500) (\<lambda>x.
     res_bind (safe_div x 10000) (\<lambda>content_reward.
     res_bind (if has_hardfork 17 db then pay_reward_funds content_reward db else Inr (content_reward, db)) (\<lambda>(content_reward, db1).
     res_bind (safe_mul new_delta 1500) (\<lambda>x.
     res_bind (safe_div x 10000) (\<lambda>vesting_reward.
     res_bind (safe_sub new_delta content_reward) (\<lambda>x.
     res_bind (safe_sub x vesting_reward) (\<lambda>witness_reward.
     res_bind (get_witness (gpo_current_witness (db_dgpo db1)) db1) (\<lambda>cwit.
     res_bind (safe_mul witness_reward 21) (\<lambda>witness_reward.
     res_bind (witness_weight cwit (db_wso db1) witness_reward) (\<lambda>witness_reward.
     res_bind (safe_div witness_reward (wso_witness_pay_normalization_factor (db_wso db1))) (\<lambda>witness_reward.
     res_bind (safe_add content_reward vesting_reward) (\<lambda>x.
     res_bind (safe_add x witness_reward) (\<lambda>new_delta.
     res_bind (modify_dgpo (\<lambda>p.
         res_bind (safe_add (gpo_total_vesting_fund_delta p) vesting_reward) (\<lambda>f.
         res_bind (if has_hardfork 17 db then Inr (gpo_total_reward_fund_delta p)
                   else safe_add (gpo_total_reward_fund_delta p) content_reward) (\<lambda>r.
         res_bind (safe_add (gpo_current_supply p) new_delta) (\<lambda>c.
         res_bind (safe_add (gpo_virtual_supply p) new_delta) (\<lambda>v.
         Inr (p\<lparr>gpo_total_vesting_fund_delta := f, gpo_total_reward_fund_delta := r, gpo_current_supply := c,
                gpo_virtual_supply := v\<rparr>)))))) db1) (\<lambda>db2.
     Inr (wit_owner cwit, witness_reward, db2)))))))))))))))))"

definition process_funds :: "database \<Rightarrow> database result" where
  "process_funds db =
     (if has_hardfork 16 db then
        res_bind (inflate db) (\<lambda>(owner, witness_reward, db1).
        res_bind (get_account owner db1) (\<lambda>a. pay_producer (acc_name a) witness_reward db1))
      else
        res_bind (get_content_reward db) (\<lambda>content_reward.
        res_bind (get_curation_reward db) (\<lambda>curate_reward.
        res_bind (get_producer_reward db) (\<lambda>(witness_pay, db1).
        res_bind (safe_add content_reward curate_reward) (\<lambda>content_reward.
        res_bind (safe_add content_reward witness_pay) (\<lambda>total.
        let vesting_reward = (if gpo_head_block_number (db_dgpo db1) < 28800 * 7 then 0 else to_int64 (total * 9))
        in modify_dgpo (\<lambda>p.
             res_bind (safe_add (gpo_total_vesting_fund_delta p) vesting_reward) (\<lambda>f.
             res_bind (safe_add (gpo_total_reward_fund_delta p) content_reward) (\<lambda>r.
             res_bind (safe_add total vesting_reward) (\<lambda>all.
             res_bind (safe_add (gpo_current_supply p) all) (\<lambda>c.
             res_bind (safe_add (gpo_virtual_supply p) all) (\<lambda>v.
             Inr (p\<lparr>gpo_total_vesting_fund_delta := f, gpo_total_reward_fund_delta := r, gpo_current_supply := c,
                    gpo_virtual_supply := v\<rparr>))))))) db1))))))"

section \<open>Liquidity rewards\<close>

text \<open>The index by weight: the largest weight first, then the older account.\<close>

definition volume_weight :: "liquidity_reward_balance_object \<Rightarrow> 128 word" where
  "volume_weight r = word_of_int (to_int64 (to_int64 (lrb_delta_volume r * lrb_dbd_volume r) * is_positive r))"

definition account_position :: "database \<Rightarrow> account_name_type \<Rightarrow> nat" where
  "account_position db n = length (takeWhile (\<lambda>a. acc_name a \<noteq> n) (db_accounts db))"

definition by_volume_weight :: "database \<Rightarrow> liquidity_reward_balance_object \<Rightarrow> int \<times> nat" where
  "by_volume_weight db r = (- uint (lrb_weight r), account_position db (lrb_owner r))"

definition pay_liquidity_reward :: "database \<Rightarrow> database result" where
  "pay_liquidity_reward db =
     (if gpo_head_block_number (db_dgpo db) mod 1200 = 0 then
        res_bind (get_liquidity_reward db) (\<lambda>reward.
        if reward = 0 then Inr db
        else
          (case index_begin (by_volume_weight db) (db_liquidity db) of
             None \<Rightarrow> Inr db
           | Some r \<Rightarrow>
               if volume_weight r > 0 then
                 res_bind (adjust_supply (mk_asset reward DELTA_SYMBOL) True db) (\<lambda>db1.
                 res_bind (adjust_balance (lrb_owner r) (mk_asset reward DELTA_SYMBOL) db1) (\<lambda>db2.
                 Inr (push_virtual_operation (Liquidity_Reward (lrb_owner r) (mk_asset reward DELTA_SYMBOL))
                   (db2\<lparr>db_liquidity := replace_by lrb_owner (lrb_owner r)
                      (r\<lparr>lrb_delta_volume := 0, lrb_dbd_volume := 0, lrb_last_update := head_block_time db2, lrb_weight := 0\<rparr>)
                      (db_liquidity db2)\<rparr>))))
               else Inr db))
      else Inr db)"

section \<open>Burning\<close>

definition plus_if :: "bool \<Rightarrow> int \<Rightarrow> int \<Rightarrow> int result" where
  "plus_if c total_amount x = (if c then safe_add total_amount x else Inr total_amount)"

definition if_positive :: "int \<Rightarrow> (int \<Rightarrow> database \<Rightarrow> database result) \<Rightarrow> database \<Rightarrow> database result" where
  "if_positive x f db = (if x > 0 then res_bind (safe_neg x) (\<lambda>neg. f neg db) else Inr db)"

definition null_value :: "account_object \<Rightarrow> database \<Rightarrow> int result" where
  "null_value a db =
     (if acc_vesting_shares a > 0 then
        res_bind (get_vesting_share_price (db_dgpo db)) (\<lambda>p.
        res_bind (asset_mul_price (mk_asset (acc_vesting_shares a) VESTS_SYMBOL) p) (\<lambda>x.
        fc_assert (symbol x = DELTA_SYMBOL) (Inr (amount x))))
      else Inr 0)"

definition null_totals :: "account_object \<Rightarrow> int \<Rightarrow> (int \<times> int \<times> int) result" where
  "null_totals a vesting_shares_delta_value =
     res_bind (plus_if (acc_balance a > 0) 0 (acc_balance a)) (\<lambda>d.
     res_bind (plus_if (acc_savings_balance a > 0) d (acc_savings_balance a)) (\<lambda>d.
     res_bind (plus_if (acc_dbd_balance a > 0) 0 (acc_dbd_balance a)) (\<lambda>b.
     res_bind (plus_if (acc_savings_dbd_balance a > 0) b (acc_savings_dbd_balance a)) (\<lambda>b.
     res_bind (plus_if (acc_vesting_shares a > 0) d vesting_shares_delta_value) (\<lambda>d.
     res_bind (plus_if (acc_vesting_shares a > 0) 0 (acc_vesting_shares a)) (\<lambda>v.
     res_bind (plus_if (acc_reward_delta_balance a > 0) d (acc_reward_delta_balance a)) (\<lambda>d.
     res_bind (plus_if (acc_reward_dbd_balance a > 0) b (acc_reward_dbd_balance a)) (\<lambda>b.
     res_bind (plus_if (acc_reward_vesting_balance a > 0) d (acc_reward_vesting_delta a)) (\<lambda>d.
     res_bind (plus_if (acc_reward_vesting_balance a > 0) v (acc_reward_vesting_balance a)) (\<lambda>v.
     Inr (d, b, v)))))))))))"

definition burn_shares :: "account_object \<Rightarrow> int \<Rightarrow> database \<Rightarrow> database result" where
  "burn_shares a vesting_shares_delta_value db =
     (if acc_vesting_shares a > 0 then
        res_bind (modify_dgpo (leave_fund (mk_asset vesting_shares_delta_value DELTA_SYMBOL) (acc_vesting_shares a)) db)
          (modify_account (acc_name a) (\<lambda>a. Inr (a\<lparr>acc_vesting_shares := 0\<rparr>)))
      else Inr db)"

definition burn_reward_shares :: "account_object \<Rightarrow> database \<Rightarrow> database result" where
  "burn_reward_shares a db =
     (if acc_reward_vesting_balance a > 0 then
        res_bind (modify_dgpo (\<lambda>g.
            res_bind (safe_sub (gpo_pending_rewarded_vesting_shares g) (acc_reward_vesting_balance a)) (\<lambda>v.
            res_bind (safe_sub (gpo_pending_rewarded_vesting_delta g) (acc_reward_vesting_delta a)) (\<lambda>d.
            Inr (g\<lparr>gpo_pending_rewarded_vesting_shares := v, gpo_pending_rewarded_vesting_delta := d\<rparr>)))) db)
          (modify_account (acc_name a) (\<lambda>a. Inr (a\<lparr>acc_reward_vesting_delta := 0, acc_reward_vesting_balance := 0\<rparr>)))
      else Inr db)"

text \<open>
  The source reads the account again before each step; each step changes only the member it reads,
  and interest paid on the DBD balance goes to that balance.
\<close>

definition clear_null_account_balance :: "database \<Rightarrow> database result" where
  "clear_null_account_balance db =
     (if \<not> has_hardfork 14 db then Inr db
      else
        res_bind (get_account ''null'' db) (\<lambda>a.
        res_bind (null_value a db) (\<lambda>vesting_shares_delta_value.
        res_bind (null_totals a vesting_shares_delta_value) (\<lambda>(total_delta, total_dbd, total_vests).
        if total_delta = 0 \<and> total_dbd = 0 \<and> total_vests = 0 then Inr db
        else
          let cleared = (if total_delta > 0 then [mk_asset total_delta DELTA_SYMBOL] else []) @
                (if total_vests > 0 then [mk_asset total_vests VESTS_SYMBOL] else []) @
                (if total_dbd > 0 then [mk_asset total_dbd DBD_SYMBOL] else []);
              db1 = push_virtual_operation (Clear_Null_Account_Balance cleared) db
          in res_bind (if_positive (acc_balance a) (\<lambda>x. adjust_balance ''null'' (mk_asset x DELTA_SYMBOL)) db1) (\<lambda>db2.
             res_bind (if_positive (acc_savings_balance a) (\<lambda>x. adjust_savings_balance ''null'' (mk_asset x DELTA_SYMBOL)) db2) (\<lambda>db3.
             res_bind (if_positive (acc_dbd_balance a) (\<lambda>x. adjust_balance ''null'' (mk_asset x DBD_SYMBOL)) db3) (\<lambda>db4.
             res_bind (if_positive (acc_savings_dbd_balance a) (\<lambda>x. adjust_savings_balance ''null'' (mk_asset x DBD_SYMBOL)) db4) (\<lambda>db5.
             res_bind (burn_shares a vesting_shares_delta_value db5) (\<lambda>db6.
             res_bind (if_positive (acc_reward_delta_balance a) (\<lambda>x.
                 adjust_reward_balance ''null'' (mk_asset x DELTA_SYMBOL) (mk_asset 0 VESTS_SYMBOL)) db6) (\<lambda>db7.
             res_bind (if_positive (acc_reward_dbd_balance a) (\<lambda>x.
                 adjust_reward_balance ''null'' (mk_asset x DBD_SYMBOL) (mk_asset 0 VESTS_SYMBOL)) db7) (\<lambda>db8.
             res_bind (burn_reward_shares a db8) (\<lambda>db9.
             res_bind (if_positive total_delta (\<lambda>x. adjust_supply (mk_asset x DELTA_SYMBOL) False) db9)
               (if_positive total_dbd (\<lambda>x. adjust_supply (mk_asset x DBD_SYMBOL) False))))))))))))))"

section \<open>Flows of inflation\<close>

lemma pay_each_sum:
  "pay_each reward u fs = Inr (u', fs') \<Longrightarrow> table_sum rf_reward_balance fs' = table_sum rf_reward_balance fs + (u' - u)"
proof (induction fs arbitrary: u fs')
  case (Cons f fs)
  from Cons.prems obtain r b u1 gs where "safe_add (rf_reward_balance f) r = Inr b" "safe_add u r = Inr u1"
    and p: "pay_each reward u1 fs = Inr (u', gs)" and "fs' = f\<lparr>rf_reward_balance := b\<rparr> # gs" by auto
  then show ?case using Cons.IH [OF p] by (auto dest!: safe_add_Inr)
qed simp

lemma pay_reward_funds_step:
  assumes "wf_state db" "pay_reward_funds r db = Inr (u, db')"
  shows "state_step (\<lambda>s. if s = DELTA_SYMBOL then u else 0) db db'" "db_dgpo db' = db_dgpo db" "db_wso db' = db_wso db"
proof -
  from assms(2) obtain fs where p: "pay_each r 0 (db_reward_funds db) = Inr (u, fs)" and db': "db' = db\<lparr>db_reward_funds := fs\<rparr>"
    by (auto simp: pay_reward_funds_def)
  show "state_step (\<lambda>s. if s = DELTA_SYMBOL then u else 0) db db'"
    using assms(1) pay_each_sum [OF p]
    by (simp add: db' state_step_def step_effect_def wf_state_def wf_objects_def wf_accounts_def same_tallies_def surplus_def
      pending_surplus_def locked_def)
  show "db_dgpo db' = db_dgpo db" "db_wso db' = db_wso db" by (simp_all add: db')
qed

lemma inflate_flow:
  assumes s: "sound db" and h: "has_hardfork 20 db" and r: "inflate db = Inr (n, w, db')"
  shows "flow (\<lambda>s. if s = DELTA_SYMBOL then - w else 0) 0 db db'"
proof -
  have h17: "has_hardfork 17 db" using h by (simp add: has_hardfork_def)
  from r obtain c0 c db1 v y d where pr: "pay_reward_funds c0 db = Inr (c, db1)" and y: "y = c + v + w"
    and g: "modify_dgpo (\<lambda>p.
         res_bind (safe_add (gpo_total_vesting_fund_delta p) v) (\<lambda>f.
         res_bind (Inr (gpo_total_reward_fund_delta p)) (\<lambda>r.
         res_bind (safe_add (gpo_current_supply p) y) (\<lambda>c.
         res_bind (safe_add (gpo_virtual_supply p) y) (\<lambda>v.
         Inr (p\<lparr>gpo_total_vesting_fund_delta := f, gpo_total_reward_fund_delta := r, gpo_current_supply := c,
                gpo_virtual_supply := v\<rparr>)))))) db1 = Inr db'"
    unfolding inflate_def by (auto simp: h17 dest!: safe_add_Inr)
  note p = pay_reward_funds_step(1) [OF soundD(3) [OF s] pr]
  note f1 = flow_state [OF s p]
  have "ledger_step (\<lambda>s. if s = DELTA_SYMBOL then v - y else 0) 0 db1 db'"
    by (rule ledger_step_dgpo [OF soundD(4) [OF flow_sound [OF f1]] g]) (auto simp: funds_def token_supply_def dest!: safe_add_Inr)
  note f2 = flow_state [OF flow_sound [OF f1] state_step_ledger [OF soundD(3) [OF flow_sound [OF f1]] this]]
  show ?thesis by (rule flow_cong [OF flow_trans [OF f1 f2]]) (auto simp: y)
qed

text \<open>The shares of the producer fit in an amount.\<close>

definition producer_fit :: "database \<Rightarrow> bool" where
  "producer_fit db \<longleftrightarrow> (case inflate db of Inl _ \<Rightarrow> True | Inr (_, w, db1) \<Rightarrow> shares_fit (mk_asset w DELTA_SYMBOL) (db_dgpo db1))"

lemma process_funds_flow:
  assumes s: "sound db" and h: "has_hardfork 20 db" and fit: "producer_fit db" and r: "process_funds db = Inr db'"
  shows "flow (\<lambda>_. 0) 0 db db'"
proof -
  have "has_hardfork 16 db" using h by (simp add: has_hardfork_def)
  then obtain n w db1 m v db2 where i: "inflate db = Inr (n, w, db1)"
    and c: "create_vesting m (mk_asset w DELTA_SYMBOL) False db1 = Inr (v, db2)" and db': "db' = push_virtual_operation (Producer_Reward m v) db2"
    using r by (auto simp: process_funds_def pay_producer_def)
  note f1 = inflate_flow [OF s h i]
  have fit1: "shares_fit (mk_asset w DELTA_SYMBOL) (db_dgpo db1)" using fit i by (simp add: producer_fit_def)
  note f2 = create_vesting_flow [OF flow_sound [OF f1] flow_hardfork(1) [OF f1, THEN iffD2, OF h] fit1 c]
  note f3 = flow_push(1) [OF flow_sound [OF f2], of "Producer_Reward m v"]
  show ?thesis unfolding db' by (rule flow_cong [OF flow_trans [OF flow_trans [OF f1 f2] f3]]) (auto simp: coin_def)
qed

lemma pay_liquidity_reward_flow:
  assumes "sound db" "has_hardfork 20 db" "pay_liquidity_reward db = Inr db'"
  shows "flow (\<lambda>_. 0) 0 db db'"
proof -
  have "has_hardfork 12 db" using assms(2) by (simp add: has_hardfork_def)
  then have "db' = db" using assms(3) by (auto simp: pay_liquidity_reward_def get_liquidity_reward_def split: if_splits)
  then show ?thesis using flow_refl [OF assms(1)] by simp
qed

section \<open>Flows of burning\<close>

text \<open>
  The account has no part in votes, delegations or withdrawals: the burnt shares are not taken
  from any tally.
\<close>

definition null_idle :: "database \<Rightarrow> bool" where
  "null_idle db \<longleftrightarrow>
     (case find_by acc_name ''null'' (db_accounts db) of
        None \<Rightarrow> True
      | Some a \<Rightarrow> acc_proxy a = [] \<and> votes_of ''null'' db = [] \<and> acc_delegated_vesting_shares a = 0 \<and>
          acc_withdrawn a = acc_to_withdraw a \<and> 0 \<le> acc_reward_vesting_delta a \<and>
          (case null_value a db of Inl _ \<Rightarrow> True | Inr x \<Rightarrow> 0 \<le> x))"

definition reward_view :: "account_object \<Rightarrow> account_name_type \<times> int \<times> int" where
  "reward_view a = (acc_name a, acc_reward_vesting_balance a, acc_reward_vesting_delta a)"

lemma modify_view:
  assumes "modify_account n f db = Inr db'" "db_accounts db = xs" "distinct (map acc_name xs)" "\<And>a a'. f a = Inr a' \<Longrightarrow> h a' = h a"
  shows "map h (db_accounts db') = map h xs"
  using assms(1)
proof (rule modify_account_Inr)
  fix a a' assume a: "find_by acc_name n (db_accounts db) = Some a" "f a = Inr a'"
    "db' = db\<lparr>db_accounts := replace_by acc_name n a' (db_accounts db)\<rparr>"
  then show ?thesis using map_replace_same [OF assms(3) a(1) [unfolded assms(2)], of h a'] assms(2,4) by simp
qed

lemma pay_interest_accounts: "pay_interest n paid db = Inr db' \<Longrightarrow> db_accounts db' = db_accounts db"
  by (auto simp: pay_interest_def push_virtual_operation_def Let_def elim!: modify_dgpo_Inr split: option.splits if_splits)

lemma reward_view_adjust:
  assumes d: "distinct (map acc_name (db_accounts db))"
  shows "adjust_balance n x db = Inr db' \<Longrightarrow> map reward_view (db_accounts db') = map reward_view (db_accounts db)"
    and "adjust_savings_balance n x db = Inr db' \<Longrightarrow> map reward_view (db_accounts db') = map reward_view (db_accounts db)"
    and "adjust_reward_balance n x (mk_asset 0 VESTS_SYMBOL) db = Inr db' \<Longrightarrow> map reward_view (db_accounts db') = map reward_view (db_accounts db)"
  unfolding adjust_balance_def modify_balance_def adjust_savings_balance_def adjust_reward_balance_def modify_reward_balance_def Let_def
  by (auto simp: reward_view_def d pay_interest_accounts elim!: modify_view dest!: pay_interest_accounts split: if_splits)

lemma if_positive_step:
  assumes "wf_accounts db" "if_positive x f db = Inr db'"
    and "\<And>y db'. f y db = Inr db' \<Longrightarrow> ledger_step (\<lambda>s. coin s (mk_asset y c)) 0 db db'"
  shows "ledger_step (\<lambda>s. if s = c then - max 0 x else 0) 0 db db'"
proof (cases "x > 0")
  case True
  then have "f (- x) db = Inr db'" using assms(2) by (auto simp: if_positive_def dest!: safe_neg_Inr)
  from assms(3) [OF this] show ?thesis by (rule ledger_step_cong) (use True in \<open>auto simp: coin_def\<close>)
next
  case False
  then have "db' = db" using assms(2) by (simp add: if_positive_def)
  then have "ledger_step (\<lambda>_. 0) 0 db db'" using assms(1) by (simp add: ledger_step_def step_effect_def)
  then show ?thesis by (rule ledger_step_cong) (use False in auto)
qed

lemma if_positive_supply:
  assumes "wf_accounts db" "if_positive x (\<lambda>y. adjust_supply (mk_asset y c) v) db = Inr db'"
  shows "ledger_step (\<lambda>s. if s = c then max 0 x else 0) 0 db db'"
proof (cases "x > 0")
  case True
  then have "adjust_supply (mk_asset (- x) c) v db = Inr db'" using assms(2) by (auto simp: if_positive_def dest!: safe_neg_Inr)
  from adjust_supply_step [OF assms(1) this] show ?thesis by (rule ledger_step_cong) (use True in \<open>auto simp: coin_def\<close>)
next
  case False
  then have "db' = db" using assms(2) by (simp add: if_positive_def)
  then have "ledger_step (\<lambda>_. 0) 0 db db'" using assms(1) by (simp add: ledger_step_def step_effect_def)
  then show ?thesis by (rule ledger_step_cong) (use False in auto)
qed

lemma if_positive_view:
  assumes "if_positive x f db = Inr db'" "\<And>y db'. f y db = Inr db' \<Longrightarrow> map h (db_accounts db') = map h (db_accounts db)"
  shows "map h (db_accounts db') = map h (db_accounts db)"
  using assms by (auto simp: if_positive_def split: if_splits)

lemma find_view:
  assumes "map h ys = map h xs" "find_by acc_name n xs = Some a" "\<And>a b. h a = h b \<Longrightarrow> acc_name a = acc_name b"
  obtains b where "find_by acc_name n ys = Some b" "h b = h a"
proof -
  have "map h ys = map h xs \<Longrightarrow> find_by acc_name n xs = Some a \<Longrightarrow> \<exists>b. find_by acc_name n ys = Some b \<and> h b = h a"
  proof (induction xs arbitrary: ys)
    case (Cons x xs)
    from Cons.prems(1) obtain z zs where ys: "ys = z # zs" "h z = h x" "map h zs = map h xs" by auto
    then have "acc_name z = acc_name x" using assms(3) by blast
    then show ?case using Cons.IH [OF ys(3)] Cons.prems(2) ys by (auto simp: find_by_def split: if_splits)
  qed (simp add: find_by_def)
  then show thesis using that assms(1,2) by blast
qed

text \<open>The changes of an account and of the global properties commute.\<close>

lemma modify_commute:
  assumes "modify_dgpo g db = Inr db1" "modify_account n f db1 = Inr db2"
  obtains db1' where "modify_account n f db = Inr db1'" "modify_dgpo g db1' = Inr db2"
proof -
  from assms(1) obtain q where q: "g (db_dgpo db) = Inr q" "db1 = db\<lparr>db_dgpo := q\<rparr>" by (rule modify_dgpo_Inr)
  from assms(2) obtain a a' where a: "find_by acc_name n (db_accounts db) = Some a" "f a = Inr a'"
    "db2 = db1\<lparr>db_accounts := replace_by acc_name n a' (db_accounts db1)\<rparr>" by (rule modify_account_Inr) (simp add: q)
  show thesis by (rule that [of "db\<lparr>db_accounts := replace_by acc_name n a' (db_accounts db)\<rparr>"])
      (simp_all add: modify_account_def get_account_def modify_dgpo_def a q)
qed

lemma no_votes_adjust:
  assumes "get_account n db = Inr a" "acc_proxy a = []" "votes_of n db = []"
  shows "adjust_proxied_witness_votes_share x depth n db = Inr db"
  using assms by (subst adjust_proxied_witness_votes_share.simps) (simp add: adjust_witness_votes_def)

lemma burn_shares_flow:
  assumes s: "sound db" and f: "find_by acc_name (acc_name a) (db_accounts db) = Some b" and v: "voter_view b = voter_view a"
    and i: "acc_proxy a = []" "votes_of (acc_name a) db = []" "acc_delegated_vesting_shares a = 0" "acc_withdrawn a = acc_to_withdraw a"
    and r: "burn_shares a x db = Inr db'"
  shows "flow (\<lambda>s. if s = DELTA_SYMBOL \<and> acc_vesting_shares a > 0 then - x else 0) 0 db db'"
proof (cases "acc_vesting_shares a > 0")
  case False
  then have "db' = db" using r by (simp add: burn_shares_def)
  then show ?thesis using flow_refl [OF s] False by simp
next
  case True
  let ?n = "acc_name a" and ?k = "acc_vesting_shares a"
  from r True obtain db0 where "modify_dgpo (leave_fund (mk_asset x DELTA_SYMBOL) ?k) db = Inr db0"
    "modify_account ?n (\<lambda>a. Inr (a\<lparr>acc_vesting_shares := 0\<rparr>)) db0 = Inr db'" by (auto simp: burn_shares_def)
  then obtain db1 where m: "modify_account ?n (\<lambda>a. Inr (a\<lparr>acc_vesting_shares := 0\<rparr>)) db = Inr db1"
    and g: "modify_dgpo (leave_fund (mk_asset x DELTA_SYMBOL) ?k) db1 = Inr db'" by (rule modify_commute)
  have vb: "acc_vesting_shares b = ?k" "acc_proxy b = []" "acc_delegated_vesting_shares b = 0" "acc_withdrawn b = acc_to_withdraw b"
    using v i by (auto simp: voter_view_def)
  have only: "c = b" if "c \<in> set (db_accounts db)" "acc_name c = ?n" for c using find_of_member [OF soundD(6) [OF s] that(1)] that(2) f by simp
  have cb: "covered b" using soundD(8) [OF s] find_by_Some [OF f] by blast
  have nb: "acc_name b = ?n" using find_by_Some [OF f] by simp
  have "get_account ?n db' = Inr (b\<lparr>acc_vesting_shares := 0\<rparr>)" "votes_of ?n db' = []"
    using m g f i(2) nb find_by_Some [OF f] by (auto simp: get_account_def find_by_replace votes_of_def image_iff intro!: bexI [of _ b] elim!: modify_account_Inr modify_dgpo_Inr)
  from no_votes_adjust [OF this(1) _ this(2)] have adj: "adjust_proxied_witness_votes_share (- ?k) 0 ?n db' = Inr db'" by (simp add: vb)
  have "flow (\<lambda>s. (if s = VESTS_SYMBOL then - ?k else 0) + (if s = DELTA_SYMBOL then - x else if s = VESTS_SYMBOL then ?k else 0)) (- ?k - (- ?k)) db db'"
    by (rule flow_vests [OF s m g _ _ disjI1 [OF adj], where p = 0])
      (use only vb cb True in \<open>auto simp: covered_def account_holds_def leave_fund_def funds_def token_supply_def
         dest!: only safe_sub_Inr minus_asset_Inr split: if_splits\<close>)
  then show ?thesis by (rule flow_cong) (use True in auto)
qed

lemma burn_shares_view:
  assumes "burn_shares a x db = Inr db'" "distinct (map acc_name (db_accounts db))"
  shows "map reward_view (db_accounts db') = map reward_view (db_accounts db)"
proof (cases "acc_vesting_shares a > 0")
  case True
  then obtain db0 where g: "modify_dgpo (leave_fund (mk_asset x DELTA_SYMBOL) (acc_vesting_shares a)) db = Inr db0"
    and m: "modify_account (acc_name a) (\<lambda>a. Inr (a\<lparr>acc_vesting_shares := 0\<rparr>)) db0 = Inr db'"
    using assms(1) by (auto simp: burn_shares_def)
  have "db_accounts db0 = db_accounts db" using g by (auto elim!: modify_dgpo_Inr)
  then show ?thesis by (rule modify_view [OF m _ assms(2)]) (auto simp: reward_view_def)
qed (use assms(1) in \<open>simp add: burn_shares_def\<close>)

lemma burn_reward_shares_step:
  assumes w: "wf_accounts db" and f: "find_by acc_name (acc_name a) (db_accounts db) = Some b" and v: "reward_view b = reward_view a"
    and r: "burn_reward_shares a db = Inr db'"
  shows "ledger_step (\<lambda>s. if s = DELTA_SYMBOL \<and> acc_reward_vesting_balance a > 0 then - acc_reward_vesting_delta a else 0) 0 db db'"
proof (cases "acc_reward_vesting_balance a > 0")
  case False
  then have "db' = db" using r by (simp add: burn_reward_shares_def)
  then have "ledger_step (\<lambda>_. 0) 0 db db'" using w by (simp add: ledger_step_def step_effect_def)
  then show ?thesis by (rule ledger_step_cong) (use False in auto)
next
  case True
  let ?n = "acc_name a" and ?b = "acc_reward_vesting_balance a" and ?d = "acc_reward_vesting_delta a"
  from r True obtain db0 where g: "modify_dgpo (\<lambda>g.
            res_bind (safe_sub (gpo_pending_rewarded_vesting_shares g) ?b) (\<lambda>v.
            res_bind (safe_sub (gpo_pending_rewarded_vesting_delta g) ?d) (\<lambda>d.
            Inr (g\<lparr>gpo_pending_rewarded_vesting_shares := v, gpo_pending_rewarded_vesting_delta := d\<rparr>)))) db = Inr db0"
    and m: "modify_account ?n (\<lambda>a. Inr (a\<lparr>acc_reward_vesting_delta := 0, acc_reward_vesting_balance := 0\<rparr>)) db0 = Inr db'"
    by (auto simp: burn_reward_shares_def)
  have l1: "ledger_step (\<lambda>s. if s = DELTA_SYMBOL then - ?d else if s = VESTS_SYMBOL then ?b else 0) ?d db db0"
    by (rule ledger_step_dgpo [OF w g]) (auto simp: funds_def token_supply_def dest!: safe_sub_Inr)
  have acc: "db_accounts db0 = db_accounts db" using g by (auto elim!: modify_dgpo_Inr)
  have only: "c = b" if "c \<in> set (db_accounts db0)" "acc_name c = ?n" for c
    using find_of_member [of acc_name "db_accounts db" c] that w f by (simp add: acc wf_accounts_def)
  have vb: "acc_reward_vesting_balance b = ?b" "acc_reward_vesting_delta b = ?d" using v by (auto simp: reward_view_def)
  have l2: "ledger_step (\<lambda>s. if s = VESTS_SYMBOL then - ?b else 0) (- ?d) db0 db'"
    by (rule ledger_step_modify [OF ledger_stepD(4) [OF l1] m]) (auto simp: account_holds_def voter_view_def vb dest!: only)
  from ledger_step_trans [OF l1 l2] show ?thesis by (rule ledger_step_cong) (use True in auto)
qed

lemma null_totals_Inr:
  assumes "null_totals a x = Inr (d, b, v)"
  shows "d = max 0 (acc_balance a) + max 0 (acc_savings_balance a) + (if acc_vesting_shares a > 0 then x else 0) +
      max 0 (acc_reward_delta_balance a) + (if acc_reward_vesting_balance a > 0 then acc_reward_vesting_delta a else 0)"
    "b = max 0 (acc_dbd_balance a) + max 0 (acc_savings_dbd_balance a) + max 0 (acc_reward_dbd_balance a)"
proof -
  have p: "r = t + (if c then y else 0)" if "plus_if c t y = Inr r" for c t y r
    using that by (auto simp: plus_if_def dest!: safe_add_Inr split: if_splits)
  from assms obtain d1 d2 d3 d4 b1 b2 where d: "plus_if (acc_balance a > 0) 0 (acc_balance a) = Inr d1"
      "plus_if (acc_savings_balance a > 0) d1 (acc_savings_balance a) = Inr d2" "plus_if (acc_vesting_shares a > 0) d2 x = Inr d3"
      "plus_if (acc_reward_delta_balance a > 0) d3 (acc_reward_delta_balance a) = Inr d4"
      "plus_if (acc_reward_vesting_balance a > 0) d4 (acc_reward_vesting_delta a) = Inr d"
    and b: "plus_if (acc_dbd_balance a > 0) 0 (acc_dbd_balance a) = Inr b1"
      "plus_if (acc_savings_dbd_balance a > 0) b1 (acc_savings_dbd_balance a) = Inr b2"
      "plus_if (acc_reward_dbd_balance a > 0) b2 (acc_reward_dbd_balance a) = Inr b"
    unfolding null_totals_def by auto
  show "d = max 0 (acc_balance a) + max 0 (acc_savings_balance a) + (if acc_vesting_shares a > 0 then x else 0) +
      max 0 (acc_reward_delta_balance a) + (if acc_reward_vesting_balance a > 0 then acc_reward_vesting_delta a else 0)"
    using d [THEN p] by (simp add: max_def)
  show "b = max 0 (acc_dbd_balance a) + max 0 (acc_savings_dbd_balance a) + max 0 (acc_reward_dbd_balance a)"
    using b [THEN p] by (simp add: max_def)
qed

lemma voter_view_find:
  assumes "same_tallies db db'" "find_by acc_name n (db_accounts db) = Some a"
  obtains b where "find_by acc_name n (db_accounts db') = Some b" "voter_view b = voter_view a"
  using find_view [of voter_view, OF _ assms(2)] assms(1) by (auto simp: same_tallies_def voter_view_def)

lemma clear_null_flow:
  assumes s: "sound db" and i: "null_idle db" and r: "clear_null_account_balance db = Inr db'"
  shows "flow (\<lambda>_. 0) 0 db db'"
proof (cases "db' = db")
  case True
  then show ?thesis using flow_refl [OF s] by simp
next
  case False
  let ?n = "''null''" and ?z = "mk_asset 0 VESTS_SYMBOL"
  from r False obtain a x d b v w db1 db2 db3 db4 db5 db6 db7 db8 db9 db10 where a: "find_by acc_name ?n (db_accounts db) = Some a"
    and x: "null_value a db = Inr x" and tot: "null_totals a x = Inr (d, b, v)"
    and db1: "db1 = push_virtual_operation w db"
    and r2: "if_positive (acc_balance a) (\<lambda>x. adjust_balance ?n (mk_asset x DELTA_SYMBOL)) db1 = Inr db2"
    and r3: "if_positive (acc_savings_balance a) (\<lambda>x. adjust_savings_balance ?n (mk_asset x DELTA_SYMBOL)) db2 = Inr db3"
    and r4: "if_positive (acc_dbd_balance a) (\<lambda>x. adjust_balance ?n (mk_asset x DBD_SYMBOL)) db3 = Inr db4"
    and r5: "if_positive (acc_savings_dbd_balance a) (\<lambda>x. adjust_savings_balance ?n (mk_asset x DBD_SYMBOL)) db4 = Inr db5"
    and r6: "burn_shares a x db5 = Inr db6"
    and r7: "if_positive (acc_reward_delta_balance a) (\<lambda>x. adjust_reward_balance ?n (mk_asset x DELTA_SYMBOL) ?z) db6 = Inr db7"
    and r8: "if_positive (acc_reward_dbd_balance a) (\<lambda>x. adjust_reward_balance ?n (mk_asset x DBD_SYMBOL) ?z) db7 = Inr db8"
    and r9: "burn_reward_shares a db8 = Inr db9"
    and r10: "if_positive d (\<lambda>x. adjust_supply (mk_asset x DELTA_SYMBOL) False) db9 = Inr db10"
    and r11: "if_positive b (\<lambda>x. adjust_supply (mk_asset x DBD_SYMBOL) False) db10 = Inr db'"
    unfolding clear_null_account_balance_def by (auto simp: get_account_def Let_def split: if_splits)
  have an: "acc_name a = ?n" using find_by_Some [OF a] by simp
  have idle: "acc_proxy a = []" "votes_of ?n db = []" "acc_delegated_vesting_shares a = 0" "acc_withdrawn a = acc_to_withdraw a"
    "0 \<le> acc_reward_vesting_delta a" "0 \<le> x" using i x by (auto simp: null_idle_def a)
  have f1: "flow (\<lambda>_. 0) 0 db db1" unfolding db1 by (rule flow_push(1) [OF s])
  have l2: "ledger_step (\<lambda>s. if s = DELTA_SYMBOL then - max 0 (acc_balance a) else 0) 0 db1 db2"
    by (rule if_positive_step [OF soundD(4) [OF flow_sound [OF f1]] r2]) (simp add: adjust_balance_step [OF soundD(4) [OF flow_sound [OF f1]]])
  have l3: "ledger_step (\<lambda>s. if s = DELTA_SYMBOL then - max 0 (acc_savings_balance a) else 0) 0 db2 db3"
    by (rule if_positive_step [OF ledger_stepD(4) [OF l2] r3]) (rule adjust_savings_balance_step [OF ledger_stepD(4) [OF l2]])
  have l4: "ledger_step (\<lambda>s. if s = DBD_SYMBOL then - max 0 (acc_dbd_balance a) else 0) 0 db3 db4"
    by (rule if_positive_step [OF ledger_stepD(4) [OF l3] r4]) (simp add: adjust_balance_step [OF ledger_stepD(4) [OF l3]])
  have l5: "ledger_step (\<lambda>s. if s = DBD_SYMBOL then - max 0 (acc_savings_dbd_balance a) else 0) 0 db4 db5"
    by (rule if_positive_step [OF ledger_stepD(4) [OF l4] r5]) (rule adjust_savings_balance_step [OF ledger_stepD(4) [OF l4]])
  note l25 = ledger_step_trans [OF ledger_step_trans [OF ledger_step_trans [OF l2 l3] l4] l5, simplified add_0]
  note f5 = flow_state [OF flow_sound [OF f1] state_step_ledger [OF soundD(3) [OF flow_sound [OF f1]] l25]]
  note s5 = flow_sound [OF f5]
  have a1: "find_by acc_name ?n (db_accounts db1) = Some a" using a by (simp add: db1 push_virtual_operation_def)
  obtain b5 where b5: "find_by acc_name ?n (db_accounts db5) = Some b5" "voter_view b5 = voter_view a"
    using voter_view_find [OF ledger_stepD(3) [OF l25] a1] .
  have v5: "votes_of (acc_name a) db5 = []"
    using ledger_stepD(3) [OF l25] idle(2) by (simp add: votes_of_def same_tallies_def db1 push_virtual_operation_def an)
  note f6 = burn_shares_flow [OF s5 b5(1) [folded an] b5(2) idle(1) v5 idle(3,4) r6]
  note s6 = flow_sound [OF f6]
  have l7: "ledger_step (\<lambda>s. if s = DELTA_SYMBOL then - max 0 (acc_reward_delta_balance a) else 0) 0 db6 db7"
    by (rule if_positive_step [OF soundD(4) [OF s6] r7]) (use adjust_reward_balance_step [OF soundD(4) [OF s6], where sh = ?z] in simp)
  have l8: "ledger_step (\<lambda>s. if s = DBD_SYMBOL then - max 0 (acc_reward_dbd_balance a) else 0) 0 db7 db8"
    by (rule if_positive_step [OF ledger_stepD(4) [OF l7] r8]) (use adjust_reward_balance_step [OF ledger_stepD(4) [OF l7], where sh = ?z] in simp)
  have "map reward_view (db_accounts db8) = map reward_view (db_accounts db1)"
  proof -
    have dis: "distinct (map acc_name (db_accounts d))" if "wf_accounts d" for d using that by (simp add: wf_accounts_def)
    note w = soundD(4) [OF flow_sound [OF f1]] ledger_stepD(4) [OF l2] ledger_stepD(4) [OF l3] ledger_stepD(4) [OF l4] soundD(4) [OF s5]
      soundD(4) [OF s6] ledger_stepD(4) [OF l7]
    have "map reward_view (db_accounts db2) = map reward_view (db_accounts db1)"
      by (rule if_positive_view [OF r2]) (rule reward_view_adjust(1) [OF dis [OF w(1)]])
    moreover have "map reward_view (db_accounts db3) = map reward_view (db_accounts db2)"
      by (rule if_positive_view [OF r3]) (rule reward_view_adjust(2) [OF dis [OF w(2)]])
    moreover have "map reward_view (db_accounts db4) = map reward_view (db_accounts db3)"
      by (rule if_positive_view [OF r4]) (rule reward_view_adjust(1) [OF dis [OF w(3)]])
    moreover have "map reward_view (db_accounts db5) = map reward_view (db_accounts db4)"
      by (rule if_positive_view [OF r5]) (rule reward_view_adjust(2) [OF dis [OF w(4)]])
    moreover have "map reward_view (db_accounts db6) = map reward_view (db_accounts db5)" by (rule burn_shares_view [OF r6 dis [OF w(5)]])
    moreover have "map reward_view (db_accounts db7) = map reward_view (db_accounts db6)"
      by (rule if_positive_view [OF r7]) (rule reward_view_adjust(3) [OF dis [OF w(6)]])
    moreover have "map reward_view (db_accounts db8) = map reward_view (db_accounts db7)"
      by (rule if_positive_view [OF r8]) (rule reward_view_adjust(3) [OF dis [OF w(7)]])
    ultimately show ?thesis by (simp only:)
  qed
  then obtain b8 where b8: "find_by acc_name ?n (db_accounts db8) = Some b8" "reward_view b8 = reward_view a"
    using find_view [of reward_view, OF _ a1] by (auto simp: reward_view_def)
  note l9 = burn_reward_shares_step [OF ledger_stepD(4) [OF l8] b8(1) [folded an] b8(2) r9]
  note l10 = if_positive_supply [OF ledger_stepD(4) [OF l9] r10]
  note l11 = if_positive_supply [OF ledger_stepD(4) [OF l10] r11]
  note l711 = ledger_step_trans [OF ledger_step_trans [OF ledger_step_trans [OF ledger_step_trans [OF l7 l8] l9] l10] l11, simplified add_0]
  note f11 = flow_state [OF s6 state_step_ledger [OF soundD(3) [OF s6] l711]]
  note t = null_totals_Inr [OF tot]
  have "0 \<le> d" "0 \<le> b" using t idle by auto
  then have pos: "max 0 d = d" "max 0 b = b" by simp_all
  show ?thesis by (rule flow_cong [OF flow_trans [OF flow_trans [OF flow_trans [OF f1 f5] f6] f11]]) (unfold pos, auto simp: t)
qed

section \<open>Rounding of the compound interest\<close>

definition nearest :: "int \<Rightarrow> int \<Rightarrow> int \<Rightarrow> bool" where
  "nearest r n d \<longleftrightarrow> 2 * \<bar>r * d - n\<bar> \<le> d"

lemma nearest_half: "nearest ((n + d) div (2 * d)) n (2 * d)" if "0 < d" for n d :: int
proof -
  define q where "q = (n + d) div (2 * d)"
  have "q * (2 * d) + (n + d) mod (2 * d) = n + d" unfolding q_def by (rule div_mult_mod_eq)
  moreover have "0 \<le> (n + d) mod (2 * d)" "(n + d) mod (2 * d) < 2 * d" using that by simp_all
  ultimately have "q * (2 * d) \<le> n + d" "n + d < q * (2 * d) + 2 * d" by linarith+
  then have "\<bar>q * (2 * d) - n\<bar> \<le> d" by (simp only: abs_le_iff) linarith
  then show ?thesis unfolding nearest_def q_def [symmetric] by simp
qed

lemma uint_sum_product:
  fixes a b c :: int
  assumes "0 \<le> a" "0 \<le> b" "0 \<le> c" "a * b + c < 2 ^ 128"
  shows "uint (word_of_int a * word_of_int b + word_of_int c :: 128 word) = a * b + c"
proof -
  have *: "word_of_int a * word_of_int b + word_of_int c = (word_of_int (a * b + c) :: 128 word)" by simp
  have "0 \<le> a * b + c" using assms by simp
  then show ?thesis unfolding * uint_word_of_int using assms(4) by (intro mod_pos_pos_trivial) simp_all
qed

lemma div_below_multiple: "((s + 1) * (2 * h) - 1) div (2 * h) < s + 1" if "0 < h" for h s :: int
proof -
  have "(s + 1) * (2 * h) - 1 = (2 * h - 1) + s * (2 * h)" by (simp add: algebra_simps)
  then have "((s + 1) * (2 * h) - 1) div (2 * h) = s + (2 * h - 1) div (2 * h)" using that by (simp only: div_mult_self1)
  then show ?thesis using that by (simp add: div_pos_pos_trivial)
qed

lemma of_nat_word: "(of_nat n :: 'a :: len word) = word_of_int (int n)"
  by simp

lemma calc_percent_reward_value:
  assumes "percent * m < 2 ^ 62" "0 < k" "k \<le> 127" "0 \<le> s" "s \<le> int64_max"
    and "2 * (s * int (percent * m)) < 2 ^ k * (2 * s + 1)"
  shows "\<exists>r. calc_percent_reward percent m k s = Inr r \<and> nearest r (s * int (percent * m)) (2 ^ k) \<and> 0 \<le> r \<and> r \<le> s"
proof -
  define h :: int where "h = 2 ^ (k - 1)"
  define n where "n = s * int (percent * m)"
  have k: "(2 :: int) ^ k = 2 * h" "0 < h" using assms(2) by (cases k; simp add: h_def)+
  have hb: "h \<le> 2 ^ 126" unfolding h_def using assms(3) by (intro power_increasing) auto
  have "n \<le> 2 ^ 63 * 2 ^ 62" unfolding n_def 
  proof (rule mult_mono)
    have "int (percent * m) \<le> int (2 ^ 62)" using assms(1) by (intro zle_int [THEN iffD2] less_imp_le)
    then show "int (percent * m) \<le> 2 ^ 62" by simp
  qed (use assms(4,5) in simp_all)
  then have b: "0 \<le> n" "n + h < 2 ^ 128" using hb assms(4) by (auto simp: n_def)
  have half: "push_bit (k - 1) (1 :: 128 word) = word_of_int h" by (simp add: h_def push_bit_of_1)
  have u: "uint (word_of_int s * of_nat (percent * m) + push_bit (k - 1) 1 :: 128 word) = n + h"
    unfolding half of_nat_word n_def
    by (rule uint_sum_product) (use b(2) assms(4) k(2) in \<open>simp_all only: n_def of_nat_0_le_iff less_imp_le\<close>)
  define w where "w = drop_bit k (word_of_int s * of_nat (percent * m) + push_bit (k - 1) 1 :: 128 word)"
  define r where "r = (n + h) div (2 * h)"
  have w: "uint w = r" unfolding w_def r_def uint_drop_bit_word u k ..
  have near: "nearest r n (2 * h)" unfolding r_def by (rule nearest_half [OF k(2)])
  have "0 \<le> r" using b k by (simp add: r_def pos_imp_zdiv_nonneg_iff)
  moreover have "r \<le> s"
  proof -
    have "n + h < 2 * h * s + 2 * h" using assms(6) unfolding k n_def by (simp add: algebra_simps)
    then have "n + h < (s + 1) * (2 * h)" by (simp add: algebra_simps)
    then have "r < s + 1" unfolding r_def using k(2) zdiv_mono1 [of "n + h" "(s + 1) * (2 * h) - 1" "2 * h"] div_below_multiple [of h s] by simp
    then show ?thesis by simp
  qed
  moreover have "drop_bit 64 w = 0"
    by (rule word_uint_eqI) (use \<open>0 \<le> r\<close> \<open>r \<le> s\<close> assms(5) in \<open>simp add: uint_drop_bit_word w\<close>)
  moreover have "to_int64 r = r" using \<open>0 \<le> r\<close> \<open>r \<le> s\<close> assms(5) by (simp add: to_int64_id in_int64_def)
  ultimately show ?thesis unfolding calc_percent_reward_def Let_def w_def [symmetric]
    using near by (simp add: w k n_def)
qed

definition rounded_share :: "int result \<Rightarrow> int \<Rightarrow> int \<Rightarrow> int \<Rightarrow> bool" where
  "rounded_share res s n d \<longleftrightarrow> (case res of Inl _ \<Rightarrow> False | Inr r \<Rightarrow> nearest r (s * n) d \<and> 0 \<le> r \<and> r \<le> s)"

lemma rounded_shareI:
  assumes "percent \<le> 10000" "0 \<le> s" "s \<le> int64_max" "10000 * m \<le> 2 ^ k" "10000 * m < 2 ^ 62" "0 < k" "k \<le> 127"
  shows "rounded_share (calc_percent_reward percent m k s) s (int (percent * m)) (2 ^ k)"
proof -
  have le: "percent * m \<le> 10000 * m" using assms(1) by simp
  have "int (percent * m) \<le> int (2 ^ k)" using le assms(4) by (intro zle_int [THEN iffD2]) linarith
  then have "s * int (percent * m) \<le> s * 2 ^ k" using assms(2) by (intro mult_left_mono) auto
  moreover have "(0 :: int) < 2 ^ k" by simp
  ultimately have "2 * (s * int (percent * m)) < 2 * (s * 2 ^ k) + 2 ^ k" by linarith
  also have "\<dots> = 2 ^ k * (2 * s + 1)" by (simp add: algebra_simps)
  finally have "\<exists>r. calc_percent_reward percent m k s = Inr r \<and> nearest r (s * int (percent * m)) (2 ^ k) \<and> 0 \<le> r \<and> r \<le> s"
    by (rule calc_percent_reward_value [OF _ assms(6,7,2,3), rotated]) (use le assms(5) in linarith)
  then show ?thesis by (auto simp: rounded_share_def)
qed

text \<open>
  C14: The rewards by compound interest never throw and never wrap for a supply of the type and a
  percentage up to 100: each is the exact share of the supply rounded to the nearest integer, and
  never more than the supply.
\<close>
theorem percent_rewards_rounded:
  assumes "percent \<le> 10000" "0 \<le> s" "s \<le> int64_max"
  shows "rounded_share (calc_percent_reward_per_hour percent s) s (int (percent * 0x6cc139a15cbd)) (2 ^ 77) \<and>
    rounded_share (calc_percent_reward_per_block percent s) s (int (percent * 0x5ccce802de5f)) (2 ^ 87) \<and>
    rounded_share (calc_percent_reward_per_round percent s) s (int (percent * 0x79ccf5c73480)) (2 ^ 83)"
  unfolding calc_percent_reward_per_hour_def calc_percent_reward_per_block_def calc_percent_reward_per_round_def
  by (intro conjI rounded_shareI assms) simp_all

theorem percent_rewards_rounded_witness:
  "rounded_share (calc_percent_reward_per_hour 750 1000000000000) 1000000000000 (int (750 * 0x6cc139a15cbd)) (2 ^ 77)"
  using percent_rewards_rounded [of 750 1000000000000] by simp

end
