(* ===== verification/Invariants.thy ===== *)
theory Invariants
  imports Inflation Market
begin

text \<open>
  The check of the supply invariants (\<open>database::validate_invariants\<close>): it adds up every balance,
  locked amount and fund with checked arithmetic and compares the totals with the recorded ones.
\<close>

section \<open>The check\<close>

record totals =
  total_supply :: int
  total_dbd :: int
  total_vesting :: int
  pending_vesting_delta :: int
  total_vsf_votes :: int

definition zero_totals :: totals where
  "zero_totals = \<lparr>total_supply = 0, total_dbd = 0, total_vesting = 0, pending_vesting_delta = 0, total_vsf_votes = 0\<rparr>"

definition account_vsf_votes :: "account_object \<Rightarrow> int result" where
  "account_vsf_votes a = (if acc_proxy a = [] then witness_vote_weight a else Inr (acc_proxied_vsf_votes a ! 3))"

definition count_account :: "account_object \<Rightarrow> totals \<Rightarrow> totals result" where
  "count_account a t =
     res_bind (safe_accumulate [acc_balance a, acc_savings_balance a, acc_reward_delta_balance a] (total_supply t)) (\<lambda>s.
     res_bind (safe_accumulate [acc_dbd_balance a, acc_savings_dbd_balance a, acc_reward_dbd_balance a] (total_dbd t)) (\<lambda>d.
     res_bind (safe_accumulate [acc_vesting_shares a, acc_reward_vesting_balance a] (total_vesting t)) (\<lambda>v.
     res_bind (safe_add (pending_vesting_delta t) (acc_reward_vesting_delta a)) (\<lambda>p.
     res_bind (account_vsf_votes a) (\<lambda>x.
     res_bind (safe_add (total_vsf_votes t) x) (\<lambda>w.
     Inr \<lparr>total_supply = s, total_dbd = d, total_vesting = v, pending_vesting_delta = p, total_vsf_votes = w\<rparr>))))))"

text \<open>An amount of DELTA or DBD; another symbol is an error, or ignored for limit orders.\<close>

definition count_asset :: "asset \<Rightarrow> totals \<Rightarrow> totals result" where
  "count_asset a t =
     (if symbol a = DELTA_SYMBOL then res_bind (safe_add (total_supply t) (amount a)) (\<lambda>s. Inr (t\<lparr>total_supply := s\<rparr>))
      else if symbol a = DBD_SYMBOL then res_bind (safe_add (total_dbd t) (amount a)) (\<lambda>d. Inr (t\<lparr>total_dbd := d\<rparr>))
      else Inl Assert_Exception)"

definition count_convert_request :: "convert_request_object \<Rightarrow> totals \<Rightarrow> totals result" where
  "count_convert_request c = count_asset (crq_amount c)"

definition count_limit_order :: "limit_order_object \<Rightarrow> totals \<Rightarrow> totals result" where
  "count_limit_order o' t =
     (let s = symbol (base (lim_sell_price o'))
      in if s = DELTA_SYMBOL \<or> s = DBD_SYMBOL then count_asset (mk_asset (lim_for_sale o') s) t else Inr t)"

definition count_escrow :: "escrow_object \<Rightarrow> totals \<Rightarrow> totals result" where
  "count_escrow e t =
     res_bind (plus_asset DELTA_SYMBOL (total_supply t) (esc_delta_balance e)) (\<lambda>s.
     res_bind (plus_asset DBD_SYMBOL (total_dbd t) (esc_dbd_balance e)) (\<lambda>d.
     count_asset (esc_pending_fee e) (t\<lparr>total_supply := s, total_dbd := d\<rparr>)))"

definition count_savings_withdraw :: "savings_withdraw_object \<Rightarrow> totals \<Rightarrow> totals result" where
  "count_savings_withdraw w = count_asset (swo_amount w)"

definition count_reward_fund :: "reward_fund_object \<Rightarrow> totals \<Rightarrow> totals result" where
  "count_reward_fund f t = res_bind (safe_add (total_supply t) (rf_reward_balance f)) (\<lambda>s. Inr (t\<lparr>total_supply := s\<rparr>))"

definition count_funds :: "dynamic_global_property_object \<Rightarrow> totals \<Rightarrow> totals result" where
  "count_funds g t =
     res_bind (safe_accumulate [gpo_total_reward_fund_delta g, gpo_pending_rewarded_vesting_delta g] (gpo_total_vesting_fund_delta g)) (\<lambda>x.
     res_bind (safe_add (total_supply t) x) (\<lambda>s. Inr (t\<lparr>total_supply := s\<rparr>)))"

definition count_all :: "database \<Rightarrow> totals result" where
  "count_all db =
     res_bind (res_fold count_account (sort_key acc_name (db_accounts db)) zero_totals) (\<lambda>t.
     res_bind (res_fold count_convert_request (db_converts db) t) (\<lambda>t.
     res_bind (res_fold count_limit_order (db_limit_orders db) t) (\<lambda>t.
     res_bind (res_fold count_escrow (db_escrows db) t) (\<lambda>t.
     res_bind (res_fold count_savings_withdraw (db_savings_withdraws db) t) (\<lambda>t.
     res_bind (res_fold count_reward_fund (db_reward_funds db) t) (count_funds (db_dgpo db)))))))"

definition check_virtual_supply :: "database \<Rightarrow> unit result" where
  "check_virtual_supply db =
     (let gpo = db_dgpo db
      in fc_assert (gpo_virtual_supply gpo \<ge> gpo_current_supply gpo)
         (if price_is_null (db_median_history db) then Inr ()
          else
            res_bind (asset_mul_price (mk_asset (gpo_current_dbd_supply gpo) DBD_SYMBOL) (db_median_history db)) (\<lambda>v.
            res_bind (asset_add v (mk_asset (gpo_current_supply gpo) DELTA_SYMBOL)) (\<lambda>sum.
            fc_assert (asset_eq sum (mk_asset (gpo_virtual_supply gpo) DELTA_SYMBOL)) (Inr ())))))"

definition validate_invariants :: "database \<Rightarrow> unit result" where
  "validate_invariants db =
     (let gpo = db_dgpo db
      in fc_assert (list_all (\<lambda>w. wit_votes w \<le> gpo_total_vesting_shares gpo) (db_witnesses db))
         (res_bind (count_all db) (\<lambda>t.
          fc_assert (gpo_current_supply gpo = total_supply t)
          (fc_assert (gpo_current_dbd_supply gpo = total_dbd t)
          (res_bind (safe_add (gpo_total_vesting_shares gpo) (gpo_pending_rewarded_vesting_shares gpo)) (\<lambda>v.
           fc_assert (v = total_vesting t)
           (fc_assert (gpo_total_vesting_shares gpo = total_vsf_votes t)
           (fc_assert (gpo_pending_rewarded_vesting_delta gpo = pending_vesting_delta t)
             (check_virtual_supply db))))))))) "

section \<open>Counting loops\<close>

text \<open>
  The five totals, and the contract of a counting loop: a step adds what its object holds, and
  throws only when a total would leave the range of the type.
\<close>

datatype counter = C_supply | C_dbd | C_vesting | C_pending | C_votes

fun tot :: "totals \<Rightarrow> counter \<Rightarrow> int" where
  "tot t C_supply = total_supply t"
| "tot t C_dbd = total_dbd t"
| "tot t C_vesting = total_vesting t"
| "tot t C_pending = pending_vesting_delta t"
| "tot t C_votes = total_vsf_votes t"

lemma all_counters: "(\<forall>k. P k) \<longleftrightarrow> P C_supply \<and> P C_dbd \<and> P C_vesting \<and> P C_pending \<and> P C_votes"
  by (metis counter.exhaust)

locale counting_loop =
  fixes step :: "'o \<Rightarrow> totals \<Rightarrow> totals result" and gain :: "'o \<Rightarrow> counter \<Rightarrow> int" and fine :: "'o \<Rightarrow> bool"
  assumes exact: "fine x \<Longrightarrow> step x t = Inr t' \<Longrightarrow> tot t' k = tot t k + gain x k"
    and fits: "fine x \<Longrightarrow> \<forall>k. 0 \<le> tot t k \<and> tot t k + gain x k \<le> int64_max \<Longrightarrow> \<exists>t'. step x t = Inr t'"
    and gain_nonneg: "fine x \<Longrightarrow> 0 \<le> gain x k"
begin

lemma loop_exact:
  "\<forall>x \<in> set xs. fine x \<Longrightarrow> res_fold step xs t = Inr t' \<Longrightarrow> tot t' k = tot t k + table_sum (\<lambda>x. gain x k) xs"
proof (induction xs arbitrary: t)
  case (Cons x xs)
  then obtain u where "step x t = Inr u" "res_fold step xs u = Inr t'" by auto
  with Cons exact [of x t u k] show ?case by simp
qed simp

lemma loop_fits:
  "\<forall>x \<in> set xs. fine x \<Longrightarrow> \<forall>k. 0 \<le> tot t k \<and> tot t k + table_sum (\<lambda>x. gain x k) xs \<le> int64_max \<Longrightarrow> \<exists>t'. res_fold step xs t = Inr t'"
proof (induction xs arbitrary: t)
  case (Cons x xs)
  have pos: "0 \<le> gain x k" "0 \<le> table_sum (\<lambda>x. gain x k) xs" for k
    using Cons.prems(1) gain_nonneg by (auto intro!: sum_list_nonneg)
  have "tot t k + gain x k \<le> int64_max" for k
  proof -
    have "tot t k + (gain x k + table_sum (\<lambda>x. gain x k) xs) \<le> int64_max" using Cons.prems(2) by simp
    then show ?thesis using pos(2) [of k] by linarith
  qed
  then obtain u where u: "step x t = Inr u" using fits [of x t] Cons.prems by auto
  have tu: "tot u k = tot t k + gain x k" for k using exact [OF _ u] Cons.prems(1) by simp
  have "\<exists>t'. res_fold step xs u = Inr t'"
    by (rule Cons.IH) (use Cons.prems tu pos in \<open>auto simp: add.assoc\<close>)
  then show ?case using u by simp
qed simp

end

text \<open>Amounts that are not negative, and sums of them.\<close>

lemma safe_add_fits: "0 \<le> a \<Longrightarrow> 0 \<le> b \<Longrightarrow> a + b \<le> int64_max \<Longrightarrow> safe_add a b = Inr (a + b)"
  by (simp add: safe_add_def)

lemma safe_accumulate_fits:
  "0 \<le> acc \<Longrightarrow> \<forall>x \<in> set xs. 0 \<le> x \<Longrightarrow> acc + sum_list xs \<le> int64_max \<Longrightarrow> safe_accumulate xs acc = Inr (acc + sum_list xs)"
proof (induction xs arbitrary: acc)
  case (Cons x xs)
  have "0 \<le> sum_list xs" using Cons.prems(2) by (intro sum_list_nonneg) auto
  with Cons show ?case by (simp add: safe_add_fits add.assoc)
qed simp

definition sound_account :: "account_object \<Rightarrow> bool" where
  "sound_account a \<longleftrightarrow> 0 \<le> acc_balance a \<and> 0 \<le> acc_savings_balance a \<and> 0 \<le> acc_reward_delta_balance a \<and>
     0 \<le> acc_dbd_balance a \<and> 0 \<le> acc_savings_dbd_balance a \<and> 0 \<le> acc_reward_dbd_balance a \<and>
     0 \<le> acc_vesting_shares a \<and> 0 \<le> acc_reward_vesting_balance a \<and> 0 \<le> acc_reward_vesting_delta a \<and>
     length (acc_proxied_vsf_votes a) = 4 \<and> list_all (\<lambda>v. 0 \<le> v) (acc_proxied_vsf_votes a)"

definition sound_amount :: "asset \<Rightarrow> bool" where
  "sound_amount a \<longleftrightarrow> 0 \<le> amount a \<and> symbol a \<in> {DELTA_SYMBOL, DBD_SYMBOL}"

definition sound_escrow :: "escrow_object \<Rightarrow> bool" where
  "sound_escrow e \<longleftrightarrow> symbol (esc_delta_balance e) = DELTA_SYMBOL \<and> 0 \<le> amount (esc_delta_balance e) \<and>
     symbol (esc_dbd_balance e) = DBD_SYMBOL \<and> 0 \<le> amount (esc_dbd_balance e) \<and> sound_amount (esc_pending_fee e)"

fun account_gain :: "account_object \<Rightarrow> counter \<Rightarrow> int" where
  "account_gain a C_supply = account_holds DELTA_SYMBOL a"
| "account_gain a C_dbd = account_holds DBD_SYMBOL a"
| "account_gain a C_vesting = account_holds VESTS_SYMBOL a"
| "account_gain a C_pending = acc_reward_vesting_delta a"
| "account_gain a C_votes = account_votes a"

text \<open>What an object that locks liquid tokens adds.\<close>

fun liquid_gain :: "(asset_symbol_type \<Rightarrow> int) \<Rightarrow> counter \<Rightarrow> int" where
  "liquid_gain holds C_supply = holds DELTA_SYMBOL"
| "liquid_gain holds C_dbd = holds DBD_SYMBOL"
| "liquid_gain holds C_vesting = 0"
| "liquid_gain holds C_pending = 0"
| "liquid_gain holds C_votes = 0"

lemma account_votes_nonneg: "sound_account a \<Longrightarrow> 0 \<le> account_votes a"
  by (auto simp: sound_account_def account_votes_def list_all_iff intro!: add_nonneg_nonneg sum_list_nonneg)

lemma account_gain_nonneg: "sound_account a \<Longrightarrow> 0 \<le> account_gain a k"
  using account_votes_nonneg by (cases k) (auto simp: sound_account_def account_holds_def)

lemma account_vsf_votes_Inr: "account_vsf_votes a = Inr x \<Longrightarrow> x = account_votes a"
  by (auto simp: account_vsf_votes_def account_votes_def witness_vote_weight_def dest!: safe_accumulate_Inr split: if_splits)

lemma account_vsf_votes_fits: "sound_account a \<Longrightarrow> account_votes a \<le> int64_max \<Longrightarrow> account_vsf_votes a = Inr (account_votes a)"
  by (auto simp: account_vsf_votes_def account_votes_def witness_vote_weight_def sound_account_def list_all_iff intro!: safe_accumulate_fits)

lemma count_account_exact:
  assumes "count_account a t = Inr t'"
  shows "tot t' k = tot t k + account_gain a k"
proof -
  from assms obtain x where "account_vsf_votes a = Inr x" "x = account_votes a"
    by (auto simp: count_account_def dest: account_vsf_votes_Inr)
  with assms show ?thesis
    by (cases k) (auto simp: count_account_def account_holds_def dest!: safe_add_Inr)
qed

lemma count_account_fits:
  assumes "sound_account a" "\<forall>k. 0 \<le> tot t k \<and> tot t k + account_gain a k \<le> int64_max"
  shows "\<exists>t'. count_account a t = Inr t'"
proof -
  have b: "0 \<le> tot t k" "tot t k + account_gain a k \<le> int64_max" for k using assms(2) by auto
  note a = assms(1) [unfolded sound_account_def]
  have "safe_accumulate [acc_balance a, acc_savings_balance a, acc_reward_delta_balance a] (total_supply t) =
      Inr (total_supply t + sum_list [acc_balance a, acc_savings_balance a, acc_reward_delta_balance a])"
    by (rule safe_accumulate_fits) (use a b [of C_supply] in \<open>auto simp: account_holds_def\<close>)
  moreover have "safe_accumulate [acc_dbd_balance a, acc_savings_dbd_balance a, acc_reward_dbd_balance a] (total_dbd t) =
      Inr (total_dbd t + sum_list [acc_dbd_balance a, acc_savings_dbd_balance a, acc_reward_dbd_balance a])"
    by (rule safe_accumulate_fits) (use a b [of C_dbd] in \<open>auto simp: account_holds_def\<close>)
  moreover have "safe_accumulate [acc_vesting_shares a, acc_reward_vesting_balance a] (total_vesting t) =
      Inr (total_vesting t + sum_list [acc_vesting_shares a, acc_reward_vesting_balance a])"
    by (rule safe_accumulate_fits) (use a b [of C_vesting] in \<open>auto simp: account_holds_def\<close>)
  moreover have "safe_add (pending_vesting_delta t) (acc_reward_vesting_delta a) = Inr (pending_vesting_delta t + acc_reward_vesting_delta a)"
    by (rule safe_add_fits) (use a b [of C_pending] in auto)
  moreover have "account_vsf_votes a = Inr (account_votes a)" "safe_add (total_vsf_votes t) (account_votes a) = Inr (total_vsf_votes t + account_votes a)"
    using b [of C_votes] account_votes_nonneg [OF assms(1)] by (auto intro!: account_vsf_votes_fits [OF assms(1)] safe_add_fits)
  ultimately show ?thesis unfolding count_account_def by (simp only: res_bind_simps) blast
qed

lemma count_asset_exact: "count_asset a t = Inr t' \<Longrightarrow> tot t' k = tot t k + liquid_gain (\<lambda>s. coin s a) k"
  by (cases k) (auto simp: count_asset_def coin_def dest!: safe_add_Inr split: if_splits)

lemma count_asset_fits:
  assumes "sound_amount a" "\<forall>k. 0 \<le> tot t k \<and> tot t k + liquid_gain (\<lambda>s. coin s a) k \<le> int64_max"
  shows "\<exists>t'. count_asset a t = Inr t'"
  using assms(1) assms(2) [rule_format, of C_supply] assms(2) [rule_format, of C_dbd]
  by (auto simp: count_asset_def sound_amount_def coin_def safe_add_fits)

lemma coin_nonneg: "0 \<le> amount a \<Longrightarrow> 0 \<le> coin s a"
  by (simp add: coin_def)

lemma liquid_gain_nonneg: "(\<And>s. 0 \<le> f s) \<Longrightarrow> 0 \<le> liquid_gain f k"
  by (cases k) auto

interpretation accounts: counting_loop count_account account_gain sound_account
  by unfold_locales (auto intro: count_account_exact count_account_fits account_gain_nonneg)

interpretation converts: counting_loop count_convert_request "\<lambda>c. liquid_gain (\<lambda>s. coin s (crq_amount c))" "\<lambda>c. sound_amount (crq_amount c)"
  by unfold_locales (auto simp: count_convert_request_def sound_amount_def intro!: count_asset_exact count_asset_fits liquid_gain_nonneg coin_nonneg)

interpretation withdrawals: counting_loop count_savings_withdraw "\<lambda>w. liquid_gain (\<lambda>s. coin s (swo_amount w))" "\<lambda>w. sound_amount (swo_amount w)"
  by unfold_locales (auto simp: count_savings_withdraw_def sound_amount_def intro!: count_asset_exact count_asset_fits liquid_gain_nonneg coin_nonneg)

lemma order_count: "count_limit_order o' t = count_asset (amount_for_sale o') t" if "sound_amount (amount_for_sale o')"
  using that by (auto simp: count_limit_order_def amount_for_sale_def sound_amount_def Let_def)

interpretation orders: counting_loop count_limit_order "\<lambda>o'. liquid_gain (\<lambda>s. order_holds s o')" "\<lambda>o'. sound_amount (amount_for_sale o')"
  by unfold_locales (auto simp: order_count order_holds_def intro!: count_asset_exact count_asset_fits liquid_gain_nonneg coin_nonneg, simp_all add: sound_amount_def)

lemma escrow_holds_coins:
  assumes "sound_escrow e"
  shows "escrow_holds DELTA_SYMBOL e = amount (esc_delta_balance e) + coin DELTA_SYMBOL (esc_pending_fee e)"
    "escrow_holds DBD_SYMBOL e = amount (esc_dbd_balance e) + coin DBD_SYMBOL (esc_pending_fee e)"
  using assms by (auto simp: sound_escrow_def escrow_holds_def coin_def)

lemma count_escrow_exact:
  assumes "sound_escrow e" "count_escrow e t = Inr t'"
  shows "tot t' k = tot t k + liquid_gain (\<lambda>s. escrow_holds s e) k"
proof -
  from assms(2) obtain s d where c: "plus_asset DELTA_SYMBOL (total_supply t) (esc_delta_balance e) = Inr s"
    "plus_asset DBD_SYMBOL (total_dbd t) (esc_dbd_balance e) = Inr d"
    "count_asset (esc_pending_fee e) (t\<lparr>total_supply := s, total_dbd := d\<rparr>) = Inr t'" by (auto simp: count_escrow_def)
  show ?thesis using count_asset_exact [OF c(3), of k] plus_asset_Inr [OF c(1)] plus_asset_Inr [OF c(2)]
    by (cases k) (simp_all add: escrow_holds_coins [OF assms(1)])
qed

lemma count_escrow_fits:
  assumes e: "sound_escrow e" and b: "\<forall>k. 0 \<le> tot t k \<and> tot t k + liquid_gain (\<lambda>s. escrow_holds s e) k \<le> int64_max"
  shows "\<exists>t'. count_escrow e t = Inr t'"
proof -
  let ?s = "total_supply t + amount (esc_delta_balance e)" and ?d = "total_dbd t + amount (esc_dbd_balance e)"
  note e' = e [unfolded sound_escrow_def]
  have fee: "0 \<le> coin s (esc_pending_fee e)" for s using e' by (auto simp: sound_amount_def intro: coin_nonneg)
  note bs = b [rule_format, of C_supply, simplified, unfolded escrow_holds_coins(1) [OF e]]
    and bd = b [rule_format, of C_dbd, simplified, unfolded escrow_holds_coins(2) [OF e]]
  have "plus_asset DELTA_SYMBOL (total_supply t) (esc_delta_balance e) = Inr ?s" "plus_asset DBD_SYMBOL (total_dbd t) (esc_dbd_balance e) = Inr ?d"
    using e' bs bd fee [of DELTA_SYMBOL] fee [of DBD_SYMBOL] by (auto simp: plus_asset_def intro!: safe_add_fits)
  moreover have "\<exists>t'. count_asset (esc_pending_fee e) (t\<lparr>total_supply := ?s, total_dbd := ?d\<rparr>) = Inr t'"
  proof (rule count_asset_fits)
    show "sound_amount (esc_pending_fee e)" using e' by simp
    show "\<forall>k. 0 \<le> tot (t\<lparr>total_supply := ?s, total_dbd := ?d\<rparr>) k \<and>
      tot (t\<lparr>total_supply := ?s, total_dbd := ?d\<rparr>) k + liquid_gain (\<lambda>s. coin s (esc_pending_fee e)) k \<le> int64_max"
      unfolding all_counters using e' bs bd b by (auto simp: all_counters)
  qed
  ultimately show ?thesis by (simp add: count_escrow_def)
qed

interpretation escrows: counting_loop count_escrow "\<lambda>e. liquid_gain (\<lambda>s. escrow_holds s e)" sound_escrow
proof
  show "0 \<le> liquid_gain (\<lambda>s. escrow_holds s e) k" if "sound_escrow e" for e k
    using that by (auto simp: sound_escrow_def sound_amount_def escrow_holds_def intro!: liquid_gain_nonneg add_nonneg_nonneg coin_nonneg)
qed (auto intro: count_escrow_exact count_escrow_fits)

fun fund_gain :: "reward_fund_object \<Rightarrow> counter \<Rightarrow> int" where
  "fund_gain f C_supply = rf_reward_balance f"
| "fund_gain f k = 0"

interpretation reward_funds: counting_loop count_reward_fund fund_gain "\<lambda>f. 0 \<le> rf_reward_balance f"
proof
  show "tot t' k = tot t k + fund_gain f k" if "count_reward_fund f t = Inr t'" for f t t' k
    using that by (cases k) (auto simp: count_reward_fund_def dest!: safe_add_Inr)
  show "\<exists>t'. count_reward_fund f t = Inr t'" if "0 \<le> rf_reward_balance f" "\<forall>k. 0 \<le> tot t k \<and> tot t k + fund_gain f k \<le> int64_max" for f t
    using that(1) that(2) [rule_format, of C_supply] by (simp add: count_reward_fund_def safe_add_fits)
  show "0 \<le> fund_gain f k" if "0 \<le> rf_reward_balance f" for f k using that by (cases k) auto
qed

section \<open>The totals\<close>

text \<open>No amount is negative, and the recorded totals are in the range of the type.\<close>

definition amounts_ok :: "database \<Rightarrow> bool" where
  "amounts_ok db \<longleftrightarrow> list_all sound_account (db_accounts db) \<and> list_all (\<lambda>c. sound_amount (crq_amount c)) (db_converts db) \<and>
     list_all (\<lambda>o'. sound_amount (amount_for_sale o')) (db_limit_orders db) \<and> list_all sound_escrow (db_escrows db) \<and>
     list_all (\<lambda>w. sound_amount (swo_amount w)) (db_savings_withdraws db) \<and>
     list_all (\<lambda>f. 0 \<le> rf_reward_balance f) (db_reward_funds db) \<and>
     (let g = db_dgpo db
      in 0 \<le> gpo_total_vesting_fund_delta g \<and> 0 \<le> gpo_total_reward_fund_delta g \<and> 0 \<le> gpo_pending_rewarded_vesting_delta g \<and>
         0 \<le> gpo_total_vesting_shares g \<and> 0 \<le> gpo_pending_rewarded_vesting_shares g \<and>
         gpo_current_supply g \<le> int64_max \<and> gpo_current_dbd_supply g \<le> int64_max \<and>
         gpo_total_vesting_shares g + gpo_pending_rewarded_vesting_shares g \<le> int64_max)"

text \<open>The totals the check computes, as the sums the accounting is stated with.\<close>

fun total_of :: "database \<Rightarrow> counter \<Rightarrow> int" where
  "total_of db C_supply = table_sum (account_holds DELTA_SYMBOL) (db_accounts db) + locked DELTA_SYMBOL db + funds DELTA_SYMBOL (db_dgpo db)"
| "total_of db C_dbd = table_sum (account_holds DBD_SYMBOL) (db_accounts db) + locked DBD_SYMBOL db"
| "total_of db C_vesting = table_sum (account_holds VESTS_SYMBOL) (db_accounts db)"
| "total_of db C_pending = table_sum acc_reward_vesting_delta (db_accounts db)"
| "total_of db C_votes = table_sum account_votes (db_accounts db)"

fun funds_gain :: "dynamic_global_property_object \<Rightarrow> counter \<Rightarrow> int" where
  "funds_gain g C_supply = funds DELTA_SYMBOL g"
| "funds_gain g k = 0"

lemma count_funds_exact: "count_funds g t = Inr t' \<Longrightarrow> tot t' k = tot t k + funds_gain g k"
  by (cases k) (auto simp: count_funds_def funds_def dest!: safe_add_Inr)

lemma sum_zero [simp]: "table_sum (\<lambda>x. 0) xs = 0"
  by (induction xs) auto

text \<open>The sums of the six loops and of the funds.\<close>

lemma total_of_parts:
  "total_of db k = table_sum (\<lambda>a. account_gain a k) (db_accounts db) + table_sum (\<lambda>c. liquid_gain (\<lambda>s. coin s (crq_amount c)) k) (db_converts db) +
     table_sum (\<lambda>o'. liquid_gain (\<lambda>s. order_holds s o') k) (db_limit_orders db) +
     table_sum (\<lambda>e. liquid_gain (\<lambda>s. escrow_holds s e) k) (db_escrows db) +
     table_sum (\<lambda>w. liquid_gain (\<lambda>s. coin s (swo_amount w)) k) (db_savings_withdraws db) +
     table_sum (\<lambda>f. fund_gain f k) (db_reward_funds db) + funds_gain (db_dgpo db) k"
  by (cases k) (simp_all add: locked_def fun_eq_iff)

lemma amounts_okD:
  assumes "amounts_ok db"
  shows "\<forall>a \<in> set (db_accounts db). sound_account a" "\<forall>c \<in> set (db_converts db). sound_amount (crq_amount c)"
    "\<forall>o' \<in> set (db_limit_orders db). sound_amount (amount_for_sale o')" "\<forall>e \<in> set (db_escrows db). sound_escrow e"
    "\<forall>w \<in> set (db_savings_withdraws db). sound_amount (swo_amount w)" "\<forall>f \<in> set (db_reward_funds db). 0 \<le> rf_reward_balance f"
    "0 \<le> funds_gain (db_dgpo db) k"
  using assms by (cases k; auto simp: amounts_ok_def list_all_iff Let_def funds_def)+

lemma sum_gain_nonneg: "\<forall>x \<in> set xs. 0 \<le> g x \<Longrightarrow> 0 \<le> table_sum g xs"
  by (intro sum_list_nonneg) auto

lemma count_all_exact:
  assumes a: "amounts_ok db" and c: "count_all db = Inr t"
  shows "tot t k = total_of db k"
proof -
  note d = amounts_okD [OF a]
  from c obtain t1 t2 t3 t4 t5 t6 where l: "res_fold count_account (sort_key acc_name (db_accounts db)) zero_totals = Inr t1"
    "res_fold count_convert_request (db_converts db) t1 = Inr t2" "res_fold count_limit_order (db_limit_orders db) t2 = Inr t3"
    "res_fold count_escrow (db_escrows db) t3 = Inr t4" "res_fold count_savings_withdraw (db_savings_withdraws db) t4 = Inr t5"
    "res_fold count_reward_fund (db_reward_funds db) t5 = Inr t6" "count_funds (db_dgpo db) t6 = Inr t" by (auto simp: count_all_def)
  have "tot zero_totals k = 0" by (cases k) (simp_all add: zero_totals_def)
  then have "tot t1 k = table_sum (\<lambda>a. account_gain a k) (db_accounts db)"
    using accounts.loop_exact [OF _ l(1), of k] d(1) by (simp add: sum_list_sort)
  then show ?thesis unfolding total_of_parts count_funds_exact [OF l(7)] reward_funds.loop_exact [OF d(6) l(6)] withdrawals.loop_exact [OF d(5) l(5)]
      escrows.loop_exact [OF d(4) l(4)] orders.loop_exact [OF d(3) l(3)] converts.loop_exact [OF d(2) l(2)] by simp
qed

lemma count_funds_fits:
  assumes a: "amounts_ok db" and t: "0 \<le> total_supply t" "total_supply t + funds DELTA_SYMBOL (db_dgpo db) \<le> int64_max"
  shows "\<exists>t'. count_funds (db_dgpo db) t = Inr t'"
proof -
  let ?g = "db_dgpo db"
  have g: "0 \<le> gpo_total_vesting_fund_delta ?g" "0 \<le> gpo_total_reward_fund_delta ?g" "0 \<le> gpo_pending_rewarded_vesting_delta ?g"
    using a by (auto simp: amounts_ok_def Let_def)
  have "safe_accumulate [gpo_total_reward_fund_delta ?g, gpo_pending_rewarded_vesting_delta ?g] (gpo_total_vesting_fund_delta ?g) =
    Inr (gpo_total_vesting_fund_delta ?g + sum_list [gpo_total_reward_fund_delta ?g, gpo_pending_rewarded_vesting_delta ?g])"
    by (rule safe_accumulate_fits) (use g t in \<open>auto simp: funds_def\<close>)
  then show ?thesis using g t by (simp add: count_funds_def safe_add_fits funds_def)
qed

lemma count_all_fits:
  assumes a: "amounts_ok db" and b: "\<forall>k. total_of db k \<le> int64_max"
  shows "\<exists>t. count_all db = Inr t"
proof -
  note d = amounts_okD [OF a]
  let ?A = "\<lambda>k. table_sum (\<lambda>a. account_gain a k) (db_accounts db)" and ?C = "\<lambda>k. table_sum (\<lambda>c. liquid_gain (\<lambda>s. coin s (crq_amount c)) k) (db_converts db)"
    and ?O = "\<lambda>k. table_sum (\<lambda>o'. liquid_gain (\<lambda>s. order_holds s o') k) (db_limit_orders db)"
    and ?E = "\<lambda>k. table_sum (\<lambda>e. liquid_gain (\<lambda>s. escrow_holds s e) k) (db_escrows db)"
    and ?S = "\<lambda>k. table_sum (\<lambda>w. liquid_gain (\<lambda>s. coin s (swo_amount w)) k) (db_savings_withdraws db)"
    and ?F = "\<lambda>k. table_sum (\<lambda>f. fund_gain f k) (db_reward_funds db)"
  have z: "tot zero_totals k = 0" for k by (cases k) (simp_all add: zero_totals_def)
  have pos: "0 \<le> ?A k" "0 \<le> ?C k" "0 \<le> ?O k" "0 \<le> ?E k" "0 \<le> ?S k" "0 \<le> ?F k" "0 \<le> funds_gain (db_dgpo db) k" for k
    using d accounts.gain_nonneg converts.gain_nonneg orders.gain_nonneg escrows.gain_nonneg withdrawals.gain_nonneg reward_funds.gain_nonneg
    by (auto intro!: sum_gain_nonneg)
  have le: "?A k + ?C k + ?O k + ?E k + ?S k + ?F k + funds_gain (db_dgpo db) k \<le> int64_max" for k using b by (simp only: total_of_parts)
  have room: "0 \<le> ?A k" "?A k \<le> int64_max" "0 \<le> ?A k \<and> ?A k + ?C k \<le> int64_max" "0 \<le> ?A k + ?C k \<and> ?A k + ?C k + ?O k \<le> int64_max"
    "0 \<le> ?A k + ?C k + ?O k \<and> ?A k + ?C k + ?O k + ?E k \<le> int64_max"
    "0 \<le> ?A k + ?C k + ?O k + ?E k \<and> ?A k + ?C k + ?O k + ?E k + ?S k \<le> int64_max"
    "0 \<le> ?A k + ?C k + ?O k + ?E k + ?S k \<and> ?A k + ?C k + ?O k + ?E k + ?S k + ?F k \<le> int64_max" for k
    using pos [of k] le [of k] by linarith+
  have "\<exists>t. res_fold count_account (sort_key acc_name (db_accounts db)) zero_totals = Inr t"
  proof (rule accounts.loop_fits)
    show "\<forall>k. 0 \<le> tot zero_totals k \<and> tot zero_totals k + table_sum (\<lambda>a. account_gain a k) (sort_key acc_name (db_accounts db)) \<le> int64_max"
      unfolding z sum_list_sort using room(2) by simp
  qed (use d(1) in simp)
  then obtain t1 where t1: "res_fold count_account (sort_key acc_name (db_accounts db)) zero_totals = Inr t1" ..
  have e1: "tot t1 k = ?A k" for k using accounts.loop_exact [OF _ t1, of k] d(1) by (simp add: z sum_list_sort)
  have "\<exists>t. res_fold count_convert_request (db_converts db) t1 = Inr t"
    by (rule converts.loop_fits [OF d(2)]) (unfold e1, use room in blast)
  then obtain t2 where t2: "res_fold count_convert_request (db_converts db) t1 = Inr t2" ..
  have e2: "tot t2 k = ?A k + ?C k" for k using converts.loop_exact [OF d(2) t2, of k] by (simp add: e1)
  have "\<exists>t. res_fold count_limit_order (db_limit_orders db) t2 = Inr t"
    by (rule orders.loop_fits [OF d(3)]) (unfold e2, use room in blast)
  then obtain t3 where t3: "res_fold count_limit_order (db_limit_orders db) t2 = Inr t3" ..
  have e3: "tot t3 k = ?A k + ?C k + ?O k" for k using orders.loop_exact [OF d(3) t3, of k] by (simp add: e2)
  have "\<exists>t. res_fold count_escrow (db_escrows db) t3 = Inr t"
    by (rule escrows.loop_fits [OF d(4)]) (unfold e3, use room in blast)
  then obtain t4 where t4: "res_fold count_escrow (db_escrows db) t3 = Inr t4" ..
  have e4: "tot t4 k = ?A k + ?C k + ?O k + ?E k" for k using escrows.loop_exact [OF d(4) t4, of k] by (simp add: e3)
  have "\<exists>t. res_fold count_savings_withdraw (db_savings_withdraws db) t4 = Inr t"
    by (rule withdrawals.loop_fits [OF d(5)]) (unfold e4, use room in blast)
  then obtain t5 where t5: "res_fold count_savings_withdraw (db_savings_withdraws db) t4 = Inr t5" ..
  have e5: "tot t5 k = ?A k + ?C k + ?O k + ?E k + ?S k" for k using withdrawals.loop_exact [OF d(5) t5, of k] by (simp add: e4)
  have "\<exists>t. res_fold count_reward_fund (db_reward_funds db) t5 = Inr t"
    by (rule reward_funds.loop_fits [OF d(6)]) (unfold e5, use room in blast)
  then obtain t6 where t6: "res_fold count_reward_fund (db_reward_funds db) t5 = Inr t6" ..
  have e6: "tot t6 k = ?A k + ?C k + ?O k + ?E k + ?S k + ?F k" for k using reward_funds.loop_exact [OF d(6) t6, of k] by (simp add: e5)
  have "\<exists>t. count_funds (db_dgpo db) t6 = Inr t"
    by (rule count_funds_fits [OF a]) (use e6 [of C_supply] pos [of C_supply] le [of C_supply] in simp_all)
  then show ?thesis unfolding count_all_def by (simp add: t1 t2 t3 t4 t5 t6)
qed

lemma sum_all_zero: "\<forall>x \<in> set xs. g x = 0 \<Longrightarrow> table_sum g xs = (0 :: int)"
  by (induction xs) auto

lemma locked_liquid:
  assumes "amounts_ok db"
  shows "locked VESTS_SYMBOL db = 0"
proof -
  have c: "coin VESTS_SYMBOL a = 0" if "sound_amount a" for a using that by (auto simp: coin_def sound_amount_def)
  note d = amounts_okD [OF assms]
  have "table_sum (\<lambda>c. coin VESTS_SYMBOL (crq_amount c)) (db_converts db) = 0" "table_sum (order_holds VESTS_SYMBOL) (db_limit_orders db) = 0"
    "table_sum (escrow_holds VESTS_SYMBOL) (db_escrows db) = 0" "table_sum (\<lambda>w. coin VESTS_SYMBOL (swo_amount w)) (db_savings_withdraws db) = 0"
    using d(2-5) c by (auto simp: order_holds_def escrow_holds_def sound_escrow_def coin_def [of _ "esc_delta_balance _"]
      coin_def [of _ "esc_dbd_balance _"] intro!: sum_all_zero)
  then show ?thesis by (simp add: locked_def)
qed

lemma surplus_totals:
  assumes "amounts_ok db"
  shows "surplus DELTA_SYMBOL db = total_of db C_supply - gpo_current_supply (db_dgpo db)"
    "surplus DBD_SYMBOL db = total_of db C_dbd - gpo_current_dbd_supply (db_dgpo db)"
    "surplus VESTS_SYMBOL db = total_of db C_vesting - (gpo_total_vesting_shares (db_dgpo db) + gpo_pending_rewarded_vesting_shares (db_dgpo db))"
    "pending_surplus db = total_of db C_pending - gpo_pending_rewarded_vesting_delta (db_dgpo db)"
    "vote_surplus db = total_of db C_votes - gpo_total_vesting_shares (db_dgpo db)"
  using locked_liquid [OF assms] by (simp_all add: surplus_def token_supply_def funds_def pending_surplus_def vote_surplus_def)

lemma count_all_totals:
  assumes "amounts_ok db" "count_all db = Inr c"
  shows "total_supply c = total_of db C_supply" "total_dbd c = total_of db C_dbd" "total_vesting c = total_of db C_vesting"
    "pending_vesting_delta c = total_of db C_pending" "total_vsf_votes c = total_of db C_votes"
  using count_all_exact [OF assms, of C_supply] count_all_exact [OF assms, of C_dbd] count_all_exact [OF assms, of C_vesting]
    count_all_exact [OF assms, of C_pending] count_all_exact [OF assms, of C_votes] by (simp_all del: total_of.simps)

text \<open>What \<open>validate_invariants\<close> is there to establish.\<close>

definition balanced :: "database \<Rightarrow> bool" where
  "balanced db \<longleftrightarrow> list_all (\<lambda>s. surplus s db = 0) [DELTA_SYMBOL, DBD_SYMBOL, VESTS_SYMBOL] \<and> pending_surplus db = 0 \<and> vote_surplus db = 0 \<and>
     list_all (\<lambda>w. wit_votes w \<le> gpo_total_vesting_shares (db_dgpo db)) (db_witnesses db)"

lemma balanced_fits:
  assumes a: "amounts_ok db" and b: "balanced db"
  shows "total_of db k \<le> int64_max"
proof -
  note t = surplus_totals [OF a]
  have g: "gpo_current_supply (db_dgpo db) \<le> int64_max" "gpo_current_dbd_supply (db_dgpo db) \<le> int64_max"
    "gpo_total_vesting_shares (db_dgpo db) + gpo_pending_rewarded_vesting_shares (db_dgpo db) \<le> int64_max"
    "0 \<le> gpo_pending_rewarded_vesting_shares (db_dgpo db)" using a by (auto simp: amounts_ok_def Let_def)
  note d = amounts_okD [OF a]
  have "gpo_pending_rewarded_vesting_delta (db_dgpo db) \<le> total_of db C_supply"
  proof -
    have "0 \<le> table_sum (account_holds DELTA_SYMBOL) (db_accounts db)"
      using d(1) accounts.gain_nonneg [where k = C_supply] by (intro sum_gain_nonneg) auto
    moreover have "0 \<le> locked DELTA_SYMBOL db"
      unfolding locked_def using d(2-6) converts.gain_nonneg [where k = C_supply] orders.gain_nonneg [where k = C_supply]
        escrows.gain_nonneg [where k = C_supply] withdrawals.gain_nonneg [where k = C_supply]
      by (intro add_nonneg_nonneg) (auto intro!: sum_gain_nonneg)
    moreover have "gpo_pending_rewarded_vesting_delta (db_dgpo db) \<le> funds DELTA_SYMBOL (db_dgpo db)"
      using a by (auto simp: amounts_ok_def Let_def funds_def)
    ultimately show ?thesis by simp
  qed
  then show ?thesis using t g b by (cases k) (simp_all add: balanced_def)
qed

text \<open>
  C11: For a state without negative amounts \<open>validate_invariants\<close> succeeds exactly when the books
  balance: all balances, locked amounts and funds of each token add up to its recorded supply, the
  pending rewards to theirs, the votes to the vesting shares, no witness has more votes than there
  are shares, and the virtual supply is right. Its own checked sums never throw on a balanced state.
\<close>
theorem validate_invariants_exact:
  assumes "amounts_ok db"
  shows "validate_invariants db = Inr () \<longleftrightarrow> balanced db \<and> check_virtual_supply db = Inr ()"
proof
  note t = surplus_totals [OF assms]
  assume v: "validate_invariants db = Inr ()"
  then obtain c where c: "count_all db = Inr c" by (auto simp: validate_invariants_def Let_def)
  note e = count_all_totals [OF assms c]
  show "balanced db \<and> check_virtual_supply db = Inr ()"
    using v c unfolding validate_invariants_def Let_def balanced_def list.pred_inject t
    by (auto simp: e simp del: total_of.simps dest!: safe_add_Inr)
next
  note t = surplus_totals [OF assms]
  assume b: "balanced db \<and> check_virtual_supply db = Inr ()"
  then obtain c where c: "count_all db = Inr c" using count_all_fits [OF assms] balanced_fits [OF assms] by blast
  note e = count_all_totals [OF assms c]
  have "safe_add (gpo_total_vesting_shares (db_dgpo db)) (gpo_pending_rewarded_vesting_shares (db_dgpo db)) =
      Inr (gpo_total_vesting_shares (db_dgpo db) + gpo_pending_rewarded_vesting_shares (db_dgpo db))"
    using assms by (intro safe_add_fits) (auto simp: amounts_ok_def Let_def)
  then show "validate_invariants db = Inr ()"
    using b c unfolding validate_invariants_def Let_def balanced_def list.pred_inject t
    by (simp add: e del: total_of.simps)
qed

definition sample_books :: database where
  "sample_books = sample_voters\<lparr>db_accounts :=
     [(default_account ''alice'')\<lparr>acc_balance := 60, acc_dbd_balance := 3, acc_vesting_shares := 10, acc_proxy := ''bob''\<rparr>,
      (default_account ''bob'')\<lparr>acc_savings_balance := 40, acc_vesting_shares := 5, acc_proxied_vsf_votes := [10, 0, 0, 0]\<rparr>],
     db_dgpo := default_dgpo\<lparr>gpo_current_supply := 107, gpo_virtual_supply := 107, gpo_current_dbd_supply := 3,
       gpo_total_vesting_fund_delta := 7, gpo_total_vesting_shares := 15\<rparr>\<rparr>"

theorem validate_invariants_exact_witness:
  "amounts_ok sample_books \<and> balanced sample_books \<and> validate_invariants sample_books = Inr ()"
proof -
  note defs = sample_books_def sample_voters_def empty_database_def default_account_def default_dgpo_def default_witness_def
  have a: "amounts_ok sample_books" by (simp add: amounts_ok_def sound_account_def defs)
  have b: "balanced sample_books"
    by (simp add: balanced_def surplus_def locked_def funds_def token_supply_def account_holds_def pending_surplus_def vote_surplus_def account_votes_def defs)
  have "check_virtual_supply sample_books = Inr ()"
    by (simp add: check_virtual_supply_def price_is_null_def price_eq_def same_market_def defs Let_def default_price_def)
  with a b validate_invariants_exact [OF a] show ?thesis by simp
qed

end
