(* ===== verification/Accounts.thy ===== *)
theory Accounts
  imports Delegations
begin

text \<open>
  Accounts and witnesses as objects: creation and update of accounts and their authorities, claims
  of subsidised accounts, the declarations of witnesses and the recovery of stolen accounts
  (\<open>delta_evaluator.cpp\<close>; \<open>database.cpp\<close>: \<open>update_owner_authority\<close>, \<open>account_recovery_processing\<close>).
  \<open>producing\<close> and \<open>pending\<close> stand for \<open>is_producing()\<close> and \<open>is_pending_tx()\<close>, which depend on the node
  and not on the state of the chain.
\<close>

section \<open>Authorities\<close>

abbreviation (input) DELTA_NULL_ACCOUNT :: account_name_type where "DELTA_NULL_ACCOUNT \<equiv> ''null''"
abbreviation (input) DELTA_TEMP_ACCOUNT :: account_name_type where "DELTA_TEMP_ACCOUNT \<equiv> ''temp''"
abbreviation (input) DELTA_CREATE_ACCOUNT_WITH_DELTA_MODIFIER :: int where "DELTA_CREATE_ACCOUNT_WITH_DELTA_MODIFIER \<equiv> 30"
abbreviation (input) DELTA_CREATE_ACCOUNT_DELEGATION_RATIO :: int where "DELTA_CREATE_ACCOUNT_DELEGATION_RATIO \<equiv> 5"
abbreviation (input) DELTA_CREATE_ACCOUNT_DELEGATION_TIME :: nat where "DELTA_CREATE_ACCOUNT_DELEGATION_TIME \<equiv> 2592000"
abbreviation (input) DELTA_SOFT_MAX_BLOCK_SIZE :: nat where "DELTA_SOFT_MAX_BLOCK_SIZE \<equiv> 2097152"
abbreviation (input) DELTA_ACCOUNT_SUBSIDY_PRECISION :: int where "DELTA_ACCOUNT_SUBSIDY_PRECISION \<equiv> 10000"
abbreviation (input) DELTA_OWNER_AUTH_RECOVERY_PERIOD :: nat where "DELTA_OWNER_AUTH_RECOVERY_PERIOD \<equiv> 2592000"
abbreviation (input) DELTA_ACCOUNT_RECOVERY_REQUEST_EXPIRATION_PERIOD :: nat where
  "DELTA_ACCOUNT_RECOVERY_REQUEST_EXPIRATION_PERIOD \<equiv> 86400"
abbreviation (input) DELTA_OWNER_UPDATE_LIMIT :: int where "DELTA_OWNER_UPDATE_LIMIT \<equiv> 3600"
abbreviation (input) DELTA_OWNER_AUTH_HISTORY_TRACKING_START_BLOCK_NUM :: nat where
  "DELTA_OWNER_AUTH_HISTORY_TRACKING_START_BLOCK_NUM \<equiv> 3186477"

definition verify_authority_accounts_exist :: "database \<Rightarrow> public_key_type authority \<Rightarrow> unit result" where
  "verify_authority_accounts_exist db auth =
     res_fold (\<lambda>aw _. check (find_by acc_name (fst aw) (db_accounts db) \<noteq> None)) (account_auths auth) ()"

text \<open>The loops that call \<open>get_account\<close> on every account of an authority.\<close>

definition get_authority_accounts :: "database \<Rightarrow> public_key_type authority \<Rightarrow> unit result" where
  "get_authority_accounts db auth =
     res_fold (\<lambda>a _. res_bind (get_account (fst a) db) (\<lambda>_. Inr ())) (account_auths auth) ()"

text \<open>
  The index of authorities by account is not unique in the account: it yields the oldest object.
\<close>

definition get_authority :: "account_name_type \<Rightarrow> database \<Rightarrow> account_authority_object result" where
  "get_authority n db = of_option Out_Of_Range (find_by aao_account n (db_authorities db))"

fun modify_first :: "('o \<Rightarrow> bool) \<Rightarrow> ('o \<Rightarrow> 'o) \<Rightarrow> 'o list \<Rightarrow> 'o list" where
  "modify_first P f [] = []"
| "modify_first P f (x # xs) = (if P x then f x # xs else x # modify_first P f xs)"

definition modify_authority ::
  "account_name_type \<Rightarrow> (account_authority_object \<Rightarrow> account_authority_object) \<Rightarrow> database \<Rightarrow> database result" where
  "modify_authority n f db =
     res_bind (get_authority n db) (\<lambda>_.
     Inr (db\<lparr>db_authorities := modify_first (\<lambda>a. aao_account a = n) f (db_authorities db)\<rparr>))"

definition create_authority ::
  "account_name_type \<Rightarrow> public_key_type authority \<Rightarrow> public_key_type authority \<Rightarrow> public_key_type authority \<Rightarrow> database \<Rightarrow> database" where
  "create_authority n owner active posting db =
     db\<lparr>db_authorities := db_authorities db @
       [\<lparr>aao_account = n, aao_owner = owner, aao_active = active, aao_posting = posting, aao_last_owner_update = 0\<rparr>]\<rparr>"

definition update_owner_authority :: "account_name_type \<Rightarrow> public_key_type authority \<Rightarrow> database \<Rightarrow> database result" where
  "update_owner_authority n owner_authority db =
     res_bind (if gpo_head_block_number (db_dgpo db) \<ge> DELTA_OWNER_AUTH_HISTORY_TRACKING_START_BLOCK_NUM
               then res_bind (get_authority n db) (\<lambda>auth.
                 Inr (db\<lparr>db_owner_histories := db_owner_histories db @
                   [\<lparr>oah_account = n, oah_previous_owner_authority = aao_owner auth, oah_last_valid_time = head_block_time db\<rparr>]\<rparr>))
               else Inr db) (\<lambda>db1.
     modify_authority n (\<lambda>auth. auth\<lparr>aao_owner := owner_authority, aao_last_owner_update := head_block_time db\<rparr>) db1)"

section \<open>Declarations of witnesses\<close>

definition copy_legacy_chain_properties :: "bool \<Rightarrow> chain_properties \<Rightarrow> legacy_chain_properties \<Rightarrow> chain_properties result" where
  "copy_legacy_chain_properties force_canon dest src =
     fc_assert (force_canon \<longrightarrow> lp_account_creation_fee_ser src = DELTA_SYMBOL_SER)
       (Inr (dest\<lparr>cp_account_creation_fee := mk_asset (lp_account_creation_fee src) DELTA_SYMBOL,
                  cp_maximum_block_size := unat (lp_maximum_block_size src),
                  cp_dbd_interest_rate := unat (lp_dbd_interest_rate src)\<rparr>))"

definition witness_update_evaluator :: "bool \<Rightarrow> public_key_type witness_update_operation \<Rightarrow> database \<Rightarrow> database result" where
  "witness_update_evaluator producing op db =
     res_bind (get_account (wu_owner op) db) (\<lambda>_.
     res_bind (if has_hardfork 14 db then
                 res_seq [check (lp_account_creation_fee_ser (wu_props op) = DELTA_SYMBOL_SER),
                          only_if (has_hardfork 20 db \<or> producing)
                            (check (lp_account_creation_fee (wu_props op) \<le> DELTA_MAX_ACCOUNT_CREATION_FEE))]
               else Inr ()) (\<lambda>_.
     res_bind (only_if (producing \<or> has_hardfork 20 db)
                (check (unat (lp_maximum_block_size (wu_props op)) \<le> DELTA_SOFT_MAX_BLOCK_SIZE))) (\<lambda>_.
     case find_by wit_owner (wu_owner op) (db_witnesses db) of
       Some _ \<Rightarrow>
         modify_witness (wu_owner op) (\<lambda>w.
           res_bind (copy_legacy_chain_properties False (wit_props w) (wu_props op)) (\<lambda>p.
           Inr (w\<lparr>wit_url := wu_url op, wit_signing_key := wu_block_signing_key op, wit_props := p\<rparr>))) db
     | None \<Rightarrow>
         res_bind (copy_legacy_chain_properties False (wit_props (default_witness (wu_owner op))) (wu_props op)) (\<lambda>p.
         res_bind (create_by wit_owner
             ((default_witness (wu_owner op))\<lparr>wit_url := wu_url op, wit_signing_key := wu_block_signing_key op,
                wit_created := head_block_time db, wit_props := p\<rparr>) (db_witnesses db)) (\<lambda>ws.
         Inr (db\<lparr>db_witnesses := ws\<rparr>))))))"

text \<open>
  A property of the operation, decoded when it is there. Decoding from an empty vector leaves the
  local variable at its initial value.
\<close>

definition read_prop :: "witness_set_properties_operation \<Rightarrow> string \<Rightarrow> (byte list \<Rightarrow> 'a result) \<Rightarrow> 'a option result" where
  "read_prop op name unpack =
     (case map_of (wp_props op) name of
        None \<Rightarrow> Inr None
      | Some v \<Rightarrow> res_bind (unpack v) (\<lambda>x. Inr (Some x)))"

abbreviation (input) set_if :: "'a option \<Rightarrow> ('a \<Rightarrow> 'b \<Rightarrow> 'b) \<Rightarrow> 'b \<Rightarrow> 'b" where
  "set_if x f y \<equiv> (case x of None \<Rightarrow> y | Some v \<Rightarrow> f v y)"

definition witness_set_properties_evaluator ::
  "public_key_type crypto \<Rightarrow> bool \<Rightarrow> witness_set_properties_operation \<Rightarrow> database \<Rightarrow> database result" where
  "witness_set_properties_evaluator cr producing op db =
     fc_assert (has_hardfork 20 db)
      (res_bind (get_witness (wp_owner op) db) (\<lambda>witness.
       res_bind (of_option Undefined_Behaviour (map_of (wp_props op) ''key'')) (\<lambda>key.
       res_bind (unpack_key_from_vector cr key) (\<lambda>signing_key.
       fc_assert (signing_key = wit_signing_key witness)
       (let props = default_chain_properties
        in res_bind (read_prop op ''account_creation_fee'' (\<lambda>v.
               res_bind (unpack_from_vector (Inr (cp_account_creation_fee props)) unpack_asset v) (\<lambda>fee.
               fc_assert (has_hardfork 20 db \<or> producing \<longrightarrow> amount fee \<le> DELTA_MAX_ACCOUNT_CREATION_FEE) (Inr fee)))) (\<lambda>fee.
        res_bind (read_prop op ''maximum_block_size'' (\<lambda>v.
               res_bind (unpack_from_vector (Inr (of_nat (cp_maximum_block_size props))) unpack_uint32 v) (\<lambda>x. Inr (unat x)))) (\<lambda>size.
        res_bind (read_prop op ''dbd_interest_rate'' (\<lambda>v.
               res_bind (unpack_from_vector (Inr (of_nat (cp_dbd_interest_rate props))) unpack_uint16 v) (\<lambda>x. Inr (unat x)))) (\<lambda>rate.
        res_bind (read_prop op ''account_subsidy_budget'' (\<lambda>v.
               res_bind (unpack_from_vector (Inr (of_int (cp_account_subsidy_budget props))) unpack_uint32 v) (\<lambda>x. Inr (sint x)))) (\<lambda>budget.
        res_bind (read_prop op ''account_subsidy_decay'' (\<lambda>v.
               res_bind (unpack_from_vector (Inr (of_nat (cp_account_subsidy_decay props))) unpack_uint32 v) (\<lambda>x. Inr (unat x)))) (\<lambda>decay.
        res_bind (read_prop op ''new_signing_key''
               (unpack_from_vector (Inr signing_key) (\<lambda>bs. res_bind (unpack_key cr bs) (\<lambda>k. Inr (k, []))))) (\<lambda>new_key.
        res_bind (read_prop op ''dbd_exchange_rate'' (unpack_from_vector (Inr default_price) unpack_price)) (\<lambda>exchange_rate.
        res_bind (read_prop op ''url'' (unpack_from_vector (Inr '''') unpack_string)) (\<lambda>url.
        modify_witness (wp_owner op) (\<lambda>w. Inr
          (set_if url (\<lambda>x w. w\<lparr>wit_url := x\<rparr>)
          (set_if exchange_rate (\<lambda>x w. w\<lparr>wit_dbd_exchange_rate := x, wit_last_dbd_exchange_update := head_block_time db\<rparr>)
          (set_if new_key (\<lambda>x w. w\<lparr>wit_signing_key := x\<rparr>)
            (w\<lparr>wit_props :=
                 set_if decay (\<lambda>x p. p\<lparr>cp_account_subsidy_decay := x\<rparr>)
                 (set_if budget (\<lambda>x p. p\<lparr>cp_account_subsidy_budget := x\<rparr>)
                 (set_if rate (\<lambda>x p. p\<lparr>cp_dbd_interest_rate := x\<rparr>)
                 (set_if size (\<lambda>x p. p\<lparr>cp_maximum_block_size := x\<rparr>)
                 (set_if fee (\<lambda>x p. p\<lparr>cp_account_creation_fee := x\<rparr>) (wit_props w)))))\<rparr>))))) db)))))))))))))"

definition feed_publish_evaluator :: "feed_publish_operation \<Rightarrow> database \<Rightarrow> database result" where
  "feed_publish_evaluator op db =
     fc_assert (has_hardfork 20 db \<longrightarrow>
         is_asset_type (base (fp_exchange_rate op)) DBD_SYMBOL \<and> is_asset_type (quote (fp_exchange_rate op)) DELTA_SYMBOL)
       (modify_witness (fp_publisher op) (\<lambda>w.
          Inr (w\<lparr>wit_dbd_exchange_rate := fp_exchange_rate op, wit_last_dbd_exchange_update := head_block_time db\<rparr>)) db)"

definition report_over_production_evaluator :: "report_over_production_operation \<Rightarrow> database \<Rightarrow> database result" where
  "report_over_production_evaluator op db = fc_assert (\<not> has_hardfork 4 db) (Inr db)"

section \<open>Creation and update of accounts\<close>

definition get_hardfork :: "database \<Rightarrow> nat" where
  "get_hardfork db = db_hardforks db - 1"

definition initialize_account_object ::
  "account_name_type \<Rightarrow> public_key_type \<Rightarrow> dynamic_global_property_object \<Rightarrow> bool \<Rightarrow> account_name_type \<Rightarrow> nat \<Rightarrow> account_object" where
  "initialize_account_object name key props mined recovery_account hardfork =
     (let acc = (default_account name)\<lparr>acc_memo_key := key, acc_created := gpo_time props, acc_mined := mined,
            acc_voting_manabar := \<lparr>current_mana = (if hardfork < 20 then int DELTA_100_PERCENT else 0), last_update_time = gpo_time props\<rparr>\<rparr>
      in if hardfork \<ge> 11 then
           (if hardfork < 20 \<or> recovery_account \<noteq> DELTA_TEMP_ACCOUNT then acc\<lparr>acc_recovery_account := recovery_account\<rparr> else acc)
         else acc\<lparr>acc_recovery_account := ''delta''\<rparr>)"

definition create_account :: "account_object \<Rightarrow> database \<Rightarrow> database result" where
  "create_account a db = res_bind (create_by acc_name a (db_accounts db)) (\<lambda>xs. Inr (db\<lparr>db_accounts := xs\<rparr>))"

text \<open>The conditions on the fee, by hardfork.\<close>

definition creation_fee_ok :: "asset \<Rightarrow> database \<Rightarrow> unit result" where
  "creation_fee_ok fee db =
     (let median_fee = cp_account_creation_fee (wso_median_props (db_wso db))
      in if has_hardfork 20 db then check (asset_eq fee median_fee)
         else if \<not> has_hardfork 20 db \<and> has_hardfork 19 db then
           res_bind (safe_mul (amount median_fee) DELTA_CREATE_ACCOUNT_WITH_DELTA_MODIFIER) (\<lambda>x.
           assert_ge fee (mk_asset x DELTA_SYMBOL) (Inr ()))
         else if has_hardfork 1 db then assert_ge fee median_fee (Inr ())
         else Inr ())"

definition account_create_evaluator :: "bool \<Rightarrow> public_key_type account_create_operation \<Rightarrow> database \<Rightarrow> database result" where
  "account_create_evaluator producing op db =
     res_bind (get_account (ac_creator op) db) (\<lambda>creator.
     assert_ge (mk_asset (acc_balance creator) DELTA_SYMBOL) (ac_fee op)
       (res_bind (res_seq
          [only_if (has_hardfork 20 db \<or> producing) (check_asset_le (ac_fee op) DELTA_MAX_ACCOUNT_CREATION_FEE DELTA_SYMBOL),
           creation_fee_ok (ac_fee op) db,
           only_if (producing \<or> has_hardfork 20 db)
             (res_seq [validate_auth_size (ac_owner op), validate_auth_size (ac_active op), validate_auth_size (ac_posting op)]),
           only_if (has_hardfork 15 db)
             (res_seq [verify_authority_accounts_exist db (ac_owner op), verify_authority_accounts_exist db (ac_active op),
                       verify_authority_accounts_exist db (ac_posting op)])]) (\<lambda>_.
        res_bind (asset_neg (ac_fee op)) (\<lambda>neg.
        res_bind (adjust_balance (ac_creator op) neg db) (\<lambda>db1.
        res_bind (if has_hardfork 20 db
                  then res_bind (get_account DELTA_NULL_ACCOUNT db1) (\<lambda>_. adjust_balance DELTA_NULL_ACCOUNT (ac_fee op) db1)
                  else Inr db1) (\<lambda>db2.
        res_bind (create_account ((initialize_account_object (ac_new_account_name op) (ac_memo_key op) (db_dgpo db2) False
            (ac_creator op) (get_hardfork db2))\<lparr>acc_json_metadata := ac_json_metadata op\<rparr>) db2) (\<lambda>db3.
        let db4 = create_authority (ac_new_account_name op) (ac_owner op) (ac_active op) (ac_posting op) db3
        in if \<not> has_hardfork 20 db \<and> amount (ac_fee op) > 0
           then res_bind (create_vesting (ac_new_account_name op) (ac_fee op) False db4) (\<lambda>(_, db5). Inr db5)
           else Inr db4)))))))"

text \<open>The two amounts of shares that the creation with a delegation compares.\<close>

definition target_delegation :: "database \<Rightarrow> asset result" where
  "target_delegation db =
     res_bind (safe_mul (amount (cp_account_creation_fee (wso_median_props (db_wso db)))) DELTA_CREATE_ACCOUNT_WITH_DELTA_MODIFIER) (\<lambda>x.
     res_bind (safe_mul x DELTA_CREATE_ACCOUNT_DELEGATION_RATIO) (\<lambda>y.
     res_bind (get_vesting_share_price (db_dgpo db)) (asset_mul_price (mk_asset y DELTA_SYMBOL))))"

definition current_delegation :: "public_key_type account_create_with_delegation_operation \<Rightarrow> database \<Rightarrow> asset result" where
  "current_delegation op db =
     res_bind (safe_mul (amount (ad_fee op)) DELTA_CREATE_ACCOUNT_DELEGATION_RATIO) (\<lambda>x.
     res_bind (get_vesting_share_price (db_dgpo db)) (\<lambda>p.
     res_bind (asset_mul_price (mk_asset x DELTA_SYMBOL) p) (\<lambda>y. asset_add y (ad_delegation op))))"

definition account_create_with_delegation_evaluator ::
  "bool \<Rightarrow> public_key_type account_create_with_delegation_operation \<Rightarrow> database \<Rightarrow> database result" where
  "account_create_with_delegation_evaluator producing op db =
     fc_assert (\<not> has_hardfork 20 db)
      (res_bind (only_if (has_hardfork 20 db \<or> producing)
                  (check_asset_le (ad_fee op) DELTA_MAX_ACCOUNT_CREATION_FEE DELTA_SYMBOL)) (\<lambda>_.
       res_bind (get_account (ad_creator op) db) (\<lambda>creator.
       assert_ge (mk_asset (acc_balance creator) DELTA_SYMBOL) (ad_fee op)
       (res_bind (safe_sub (acc_vesting_shares creator) (acc_delegated_vesting_shares creator)) (\<lambda>own.
        res_bind (safe_sub (acc_to_withdraw creator) (acc_withdrawn creator)) (\<lambda>rest.
        res_bind (safe_sub own rest) (\<lambda>free.
        assert_ge (mk_asset free VESTS_SYMBOL) (ad_delegation op)
        (res_bind (target_delegation db) (\<lambda>target.
         res_bind (current_delegation op db) (\<lambda>current.
         assert_ge current target
         (assert_ge (ad_fee op) (cp_account_creation_fee (wso_median_props (db_wso db)))
         (res_bind (res_seq
            [only_if (producing \<or> has_hardfork 20 db)
               (res_seq [validate_auth_size (ad_owner op), validate_auth_size (ad_active op), validate_auth_size (ad_posting op)]),
             get_authority_accounts db (ad_owner op), get_authority_accounts db (ad_active op), get_authority_accounts db (ad_posting op)]) (\<lambda>_.
          res_bind (modify_account (ad_creator op) (\<lambda>c.
              res_bind (minus_asset DELTA_SYMBOL (acc_balance c) (ad_fee op)) (\<lambda>b.
              res_bind (plus_asset VESTS_SYMBOL (acc_delegated_vesting_shares c) (ad_delegation op)) (\<lambda>d.
              Inr (c\<lparr>acc_balance := b, acc_delegated_vesting_shares := d\<rparr>)))) db) (\<lambda>db1.
          res_bind (if has_hardfork 20 db1
                    then res_bind (get_account DELTA_NULL_ACCOUNT db1) (\<lambda>_. adjust_balance DELTA_NULL_ACCOUNT (ad_fee op) db1)
                    else Inr db1) (\<lambda>db2.
          res_bind (create_account ((initialize_account_object (ad_new_account_name op) (ad_memo_key op) (db_dgpo db2) False
              (ad_creator op) (get_hardfork db2))\<lparr>acc_received_vesting_shares := amount (ad_delegation op),
                acc_json_metadata := ad_json_metadata op\<rparr>) db2) (\<lambda>db3.
          let db4 = create_authority (ad_new_account_name op) (ad_owner op) (ad_active op) (ad_posting op) db3
          in res_bind (if amount (ad_delegation op) > 0 \<or> \<not> has_hardfork 19 db then
                 res_bind (create_by delegation_key
                    \<lparr>vdo_delegator = ad_creator op, vdo_delegatee = ad_new_account_name op, vdo_vesting_shares = amount (ad_delegation op),
                     vdo_min_delegation_time = add_seconds (head_block_time db4) DELTA_CREATE_ACCOUNT_DELEGATION_TIME\<rparr> (db_delegations db4)) (\<lambda>ds.
                 Inr (db4\<lparr>db_delegations := ds\<rparr>))
               else Inr db4) (\<lambda>db5.
             if \<not> has_hardfork 20 db5 \<and> amount (ad_fee op) > 0
             then res_bind (create_vesting (ad_new_account_name op) (ad_fee op) False db5) (\<lambda>(_, db6). Inr db6)
             else Inr db5)))))))))))))))))"

abbreviation (input) when_some :: "'a option \<Rightarrow> ('a \<Rightarrow> unit result) \<Rightarrow> unit result" where
  "when_some x f \<equiv> (case x of None \<Rightarrow> Inr () | Some v \<Rightarrow> f v)"

text \<open>The part of the evaluator for a new owner authority.\<close>

definition change_owner ::
  "public_key_type account_update_operation \<Rightarrow> account_authority_object \<Rightarrow> database \<Rightarrow> database result" where
  "change_owner op account_auth db =
     (case au_owner op of
        None \<Rightarrow> Inr db
      | Some owner \<Rightarrow>
          res_bind (res_seq
            [only_if (has_hardfork 11 db)
               (check (int (head_block_time db) - int (aao_last_owner_update account_auth) > DELTA_OWNER_UPDATE_LIMIT)),
             only_if (has_hardfork 15 db) (verify_authority_accounts_exist db owner)]) (\<lambda>_.
          update_owner_authority (au_account op) owner db))"

definition account_update_evaluator :: "bool \<Rightarrow> public_key_type account_update_operation \<Rightarrow> database \<Rightarrow> database result" where
  "account_update_evaluator producing op db =
     res_bind (res_seq
       [only_if (has_hardfork 1 db) (check (au_account op \<noteq> DELTA_TEMP_ACCOUNT)),
        only_if (has_hardfork 15 db) (when_some (au_posting op) authority_validate)]) (\<lambda>_.
     res_bind (get_account (au_account op) db) (\<lambda>_.
     res_bind (get_authority (au_account op) db) (\<lambda>account_auth.
     res_bind (only_if (producing \<or> has_hardfork 20 db)
        (res_seq [when_some (au_owner op) validate_auth_size, when_some (au_active op) validate_auth_size,
                  when_some (au_posting op) validate_auth_size])) (\<lambda>_.
     res_bind (change_owner op account_auth db) (\<lambda>db1.
     res_bind (res_seq
       [only_if (has_hardfork 15 db1) (when_some (au_active op) (verify_authority_accounts_exist db1)),
        only_if (has_hardfork 15 db1) (when_some (au_posting op) (verify_authority_accounts_exist db1))]) (\<lambda>_.
     res_bind (modify_account (au_account op) (\<lambda>acc. Inr
         (acc\<lparr>acc_memo_key := (if au_memo_key op \<noteq> null_public_key then au_memo_key op else acc_memo_key acc),
              acc_last_account_update := head_block_time db1,
              acc_json_metadata := (if length (au_json_metadata op) > 0 then au_json_metadata op else acc_json_metadata acc)\<rparr>)) db1) (\<lambda>db2.
     if au_active op \<noteq> None \<or> au_posting op \<noteq> None then
       modify_authority (au_account op) (\<lambda>auth.
         set_if (au_posting op) (\<lambda>x a. a\<lparr>aao_posting := x\<rparr>) (set_if (au_active op) (\<lambda>x a. a\<lparr>aao_active := x\<rparr>) auth)) db2
     else Inr db2)))))))"

text \<open>The part of the evaluator for a claim without a fee.\<close>

definition take_subsidy :: "bool \<Rightarrow> database \<Rightarrow> database result" where
  "take_subsidy pending db =
     res_bind (if \<not> pending then
         res_bind (get_witness (gpo_current_witness (db_dgpo db)) db) (\<lambda>current_witness.
         fc_assert (wit_schedule current_witness = elected)
         (fc_assert (wit_available_witness_account_subsidies current_witness \<ge> DELTA_ACCOUNT_SUBSIDY_PRECISION)
         (modify_witness (gpo_current_witness (db_dgpo db)) (\<lambda>w.
            Inr (w\<lparr>wit_available_witness_account_subsidies :=
              wit_available_witness_account_subsidies w - DELTA_ACCOUNT_SUBSIDY_PRECISION\<rparr>)) db)))
       else Inr db) (\<lambda>db1.
     fc_assert (gpo_available_account_subsidies (db_dgpo db1) \<ge> DELTA_ACCOUNT_SUBSIDY_PRECISION)
     (modify_dgpo (\<lambda>g. Inr (g\<lparr>gpo_available_account_subsidies :=
        gpo_available_account_subsidies g - DELTA_ACCOUNT_SUBSIDY_PRECISION\<rparr>)) db1))"

definition claim_account_evaluator :: "bool \<Rightarrow> claim_account_operation \<Rightarrow> database \<Rightarrow> database result" where
  "claim_account_evaluator pending op db =
     fc_assert (has_hardfork 20 db)
      (res_bind (get_account (ca_creator op) db) (\<lambda>creator.
       assert_ge (mk_asset (acc_balance creator) DELTA_SYMBOL) (ca_fee op)
       (res_bind (if amount (ca_fee op) = 0 then take_subsidy pending db
         else
           fc_assert (asset_eq (ca_fee op) (cp_account_creation_fee (wso_median_props (db_wso db)))) (Inr db)) (\<lambda>db1.
        res_bind (get_account DELTA_NULL_ACCOUNT db1) (\<lambda>_.
        res_bind (adjust_balance DELTA_NULL_ACCOUNT (ca_fee op) db1) (\<lambda>db2.
        modify_account (ca_creator op) (\<lambda>a.
          res_bind (minus_asset DELTA_SYMBOL (acc_balance a) (ca_fee op)) (\<lambda>b.
          res_bind (safe_add (acc_pending_claimed_accounts a) 1) (\<lambda>k.
          Inr (a\<lparr>acc_balance := b, acc_pending_claimed_accounts := k\<rparr>)))) db2))))))"

definition create_claimed_account_evaluator ::
  "public_key_type create_claimed_account_operation \<Rightarrow> database \<Rightarrow> database result" where
  "create_claimed_account_evaluator op db =
     fc_assert (has_hardfork 20 db)
      (res_bind (get_account (cc_creator op) db) (\<lambda>creator.
       fc_assert (acc_pending_claimed_accounts creator > 0)
       (res_bind (res_seq [verify_authority_accounts_exist db (cc_owner op), verify_authority_accounts_exist db (cc_active op),
            verify_authority_accounts_exist db (cc_posting op)]) (\<lambda>_.
        res_bind (modify_account (cc_creator op) (\<lambda>a.
          res_bind (safe_sub (acc_pending_claimed_accounts a) 1) (\<lambda>k. Inr (a\<lparr>acc_pending_claimed_accounts := k\<rparr>))) db) (\<lambda>db1.
        res_bind (create_account ((initialize_account_object (cc_new_account_name op) (cc_memo_key op) (db_dgpo db1) False
            (cc_creator op) (get_hardfork db1))\<lparr>acc_json_metadata := cc_json_metadata op\<rparr>) db1) (\<lambda>db2.
        Inr (create_authority (cc_new_account_name op) (cc_owner op) (cc_active op) (cc_posting op) db2)))))))"

section \<open>Recovery\<close>

definition top_witness :: "database \<Rightarrow> witness_object result" where
  "top_witness db = of_option Undefined_Behaviour (index_begin (\<lambda>w. (- wit_votes w, wit_owner w)) (db_witnesses db))"

definition request_account_recovery_evaluator ::
  "bool \<Rightarrow> public_key_type request_account_recovery_operation \<Rightarrow> database \<Rightarrow> database result" where
  "request_account_recovery_evaluator producing op db =
     res_bind (get_account (rr_account_to_recover op) db) (\<lambda>account_to_recover.
     res_bind (if length (acc_recovery_account account_to_recover) \<noteq> 0
               then check (acc_recovery_account account_to_recover = rr_recovery_account op)
               else res_bind (top_witness db) (\<lambda>w. check (wit_owner w = rr_recovery_account op))) (\<lambda>_.
     let n = rr_account_to_recover op; auth = rr_new_owner_authority op;
         expires = add_seconds (head_block_time db) DELTA_ACCOUNT_RECOVERY_REQUEST_EXPIRATION_PERIOD
     in case find_by arr_account_to_recover n (db_recovery_requests db) of
          None \<Rightarrow>
            res_bind (res_seq
              [check (\<not> is_impossible auth), check (weight_threshold auth \<noteq> 0),
               only_if (producing \<or> has_hardfork 20 db) (validate_auth_size auth),
               only_if (has_hardfork 15 db) (get_authority_accounts db auth)]) (\<lambda>_.
            res_bind (create_by arr_account_to_recover
              \<lparr>arr_account_to_recover = n, arr_new_owner_authority = auth, arr_expires = expires\<rparr> (db_recovery_requests db)) (\<lambda>rs.
            Inr (db\<lparr>db_recovery_requests := rs\<rparr>)))
        | Some request \<Rightarrow>
            if weight_threshold auth = 0
            then Inr (db\<lparr>db_recovery_requests := remove_by arr_account_to_recover n (db_recovery_requests db)\<rparr>)
            else
              res_bind (res_seq [check (\<not> is_impossible auth), only_if (has_hardfork 15 db) (get_authority_accounts db auth)]) (\<lambda>_.
              Inr (db\<lparr>db_recovery_requests := replace_by arr_account_to_recover n
                (request\<lparr>arr_new_owner_authority := auth, arr_expires := expires\<rparr>) (db_recovery_requests db)\<rparr>))))"

text \<open>The walk over the past owner authorities of an account, in the order of the index.\<close>

definition owner_history :: "account_name_type \<Rightarrow> database \<Rightarrow> owner_authority_history_object list" where
  "owner_history n db =
     dropWhile (\<lambda>h. oah_account h < n) (sort_key (\<lambda>h. (oah_account h, oah_last_valid_time h)) (db_owner_histories db))"

fun recent_authority_found ::
  "account_name_type \<Rightarrow> public_key_type authority \<Rightarrow> owner_authority_history_object list \<Rightarrow> bool" where
  "recent_authority_found n auth [] = False"
| "recent_authority_found n auth (h # hs) =
     (if oah_account h = n then (if oah_previous_owner_authority h = auth then True else recent_authority_found n auth hs) else False)"

definition recover_account_evaluator :: "public_key_type recover_account_operation \<Rightarrow> database \<Rightarrow> database result" where
  "recover_account_evaluator op db =
     (let n = ra_account_to_recover op
      in res_bind (get_account n db) (\<lambda>account.
         fc_assert (has_hardfork 12 db \<longrightarrow>
             int (head_block_time db) - int (acc_last_account_recovery account) > DELTA_OWNER_UPDATE_LIMIT)
         (case find_by arr_account_to_recover n (db_recovery_requests db) of
            None \<Rightarrow> Inl Assert_Exception
          | Some request \<Rightarrow>
              fc_assert (arr_new_owner_authority request = ra_new_owner_authority op)
              (fc_assert (recent_authority_found n (ra_recent_owner_authority op) (owner_history n db))
              (res_bind (update_owner_authority n (ra_new_owner_authority op)
                  (db\<lparr>db_recovery_requests := remove_by arr_account_to_recover n (db_recovery_requests db)\<rparr>)) (\<lambda>db1.
               modify_account n (\<lambda>a. Inr (a\<lparr>acc_last_account_recovery := head_block_time db1\<rparr>)) db1))))))"

definition change_recovery_account_evaluator :: "change_recovery_account_operation \<Rightarrow> database \<Rightarrow> database result" where
  "change_recovery_account_evaluator op db =
     res_bind (get_account (cr_new_recovery_account op) db) (\<lambda>_.
     res_bind (get_account (cr_account_to_recover op) db) (\<lambda>account_to_recover.
     let n = cr_account_to_recover op;
         effective_on = add_seconds (head_block_time db) DELTA_OWNER_AUTH_RECOVERY_PERIOD
     in case find_by cra_account_to_recover n (db_change_recovery_requests db) of
          None \<Rightarrow>
            res_bind (create_by cra_account_to_recover
              \<lparr>cra_account_to_recover = n, cra_recovery_account = cr_new_recovery_account op, cra_effective_on = effective_on\<rparr>
              (db_change_recovery_requests db)) (\<lambda>rs.
            Inr (db\<lparr>db_change_recovery_requests := rs\<rparr>))
        | Some request \<Rightarrow>
            if acc_recovery_account account_to_recover \<noteq> cr_new_recovery_account op
            then Inr (db\<lparr>db_change_recovery_requests := replace_by cra_account_to_recover n
                   (request\<lparr>cra_recovery_account := cr_new_recovery_account op, cra_effective_on := effective_on\<rparr>)
                   (db_change_recovery_requests db)\<rparr>)
            else Inr (db\<lparr>db_change_recovery_requests := remove_by cra_account_to_recover n (db_change_recovery_requests db)\<rparr>)))"

definition reset_account_evaluator :: "public_key_type reset_account_operation \<Rightarrow> database \<Rightarrow> database result" where
  "reset_account_evaluator op db = fc_assert False (Inr db)"

definition set_reset_account_evaluator :: "set_reset_account_operation \<Rightarrow> database \<Rightarrow> database result" where
  "set_reset_account_evaluator op db = fc_assert False (Inr db)"

text \<open>The three loops of \<open>account_recovery_processing\<close>.\<close>

definition due_recovery_request :: "database \<Rightarrow> account_recovery_request_object option" where
  "due_recovery_request db =
     (case index_begin (\<lambda>r. (arr_expires r, arr_account_to_recover r)) (db_recovery_requests db) of
        None \<Rightarrow> None
      | Some r \<Rightarrow> if arr_expires r \<le> head_block_time db then Some r else None)"

definition drop_recovery_request :: "account_recovery_request_object \<Rightarrow> database \<Rightarrow> database result" where
  "drop_recovery_request r db =
     Inr (db\<lparr>db_recovery_requests := remove_by arr_account_to_recover (arr_account_to_recover r) (db_recovery_requests db)\<rparr>)"

definition due_owner_history :: "database \<Rightarrow> owner_authority_history_object option" where
  "due_owner_history db =
     (case db_owner_histories db of
        [] \<Rightarrow> None
      | h # _ \<Rightarrow> if add_seconds (oah_last_valid_time h) DELTA_OWNER_AUTH_RECOVERY_PERIOD < head_block_time db then Some h else None)"

definition drop_owner_history :: "owner_authority_history_object \<Rightarrow> database \<Rightarrow> database result" where
  "drop_owner_history h db = Inr (db\<lparr>db_owner_histories := tl (db_owner_histories db)\<rparr>)"

definition due_recovery_change :: "database \<Rightarrow> change_recovery_account_request_object option" where
  "due_recovery_change db =
     (case index_begin (\<lambda>r. (cra_effective_on r, cra_account_to_recover r)) (db_change_recovery_requests db) of
        None \<Rightarrow> None
      | Some r \<Rightarrow> if cra_effective_on r \<le> head_block_time db then Some r else None)"

definition apply_recovery_change :: "change_recovery_account_request_object \<Rightarrow> database \<Rightarrow> database result" where
  "apply_recovery_change r db =
     res_bind (modify_account (cra_account_to_recover r) (\<lambda>a. Inr (a\<lparr>acc_recovery_account := cra_recovery_account r\<rparr>)) db) (\<lambda>db1.
     Inr (db1\<lparr>db_change_recovery_requests :=
       remove_by cra_account_to_recover (cra_account_to_recover r) (db_change_recovery_requests db1)\<rparr>))"

text \<open>Sequential composition of loops that may not end.\<close>

definition and_then :: "'a result option \<Rightarrow> ('a \<Rightarrow> 'b result option) \<Rightarrow> 'b result option" where
  "and_then r f = (case r of None \<Rightarrow> None | Some (Inl e) \<Rightarrow> Some (Inl e) | Some (Inr x) \<Rightarrow> f x)"

definition account_recovery_processing :: "database \<Rightarrow> database result option" where
  "account_recovery_processing db =
     and_then (drain due_recovery_request drop_recovery_request db) (\<lambda>db1.
     and_then (drain due_owner_history drop_owner_history db1)
       (drain due_recovery_change apply_recovery_change))"

section \<open>The books\<close>

text \<open>Tables that hold no funds and no votes.\<close>

lemma flow_tables:
  assumes "sound db" and db': "db' = db\<lparr>db_authorities := as, db_owner_histories := hs, db_recovery_requests := rs,
    db_change_recovery_requests := cs\<rparr>"
  shows "flow (\<lambda>_. 0) 0 db db'"
proof (rule flow_state [OF assms(1)])
  show "state_step (\<lambda>_. 0) db db'"
    using soundD(1,4) [OF assms(1)] unfolding db'
    by (simp add: state_step_def step_effect_def wf_objects_def wf_accounts_def same_tallies_def surplus_def pending_surplus_def locked_def)
qed

text \<open>The instance for a state given by updates of some of the tables.\<close>

lemma flow_some_tables:
  assumes "sound db" and "db' = db\<lparr>db_authorities := db_authorities db', db_owner_histories := db_owner_histories db',
    db_recovery_requests := db_recovery_requests db', db_change_recovery_requests := db_change_recovery_requests db'\<rparr>"
  shows "flow (\<lambda>_. 0) 0 db db'"
  using assms by (rule flow_tables)

text \<open>Witnesses whose names and votes stay, and a new one without votes.\<close>

abbreviation witness_view :: "witness_object \<Rightarrow> account_name_type \<times> int" where
  "witness_view w \<equiv> (wit_owner w, wit_votes w)"

lemma flow_witnesses:
  assumes s: "sound db" and d: "distinct (map wit_owner ws)"
    and v: "set (map wit_owner (db_witnesses db)) \<subseteq> set (map wit_owner ws)"
      "\<And>w. w \<in> set ws \<Longrightarrow> witness_view w \<in> witness_view ` set (db_witnesses db) \<or>
         wit_owner w \<notin> wit_owner ` set (db_witnesses db) \<and> wit_votes w = 0"
  shows "flow (\<lambda>_. 0) 0 db (db\<lparr>db_witnesses := ws\<rparr>)"
proof (rule flow_unmoved [OF s])
  let ?db = "db\<lparr>db_witnesses := ws\<rparr>"
  show "unmoved db ?db"
    using unmoved_records [OF soundD(4) [OF s], where ds = "db_declines db" and ws = ws and vs = "db_witness_votes db"] by simp
  show "wf_objects ?db" using soundD(1) [OF s] by (simp add: wf_objects_def)
  have ok: "wf_voting db" "tallied (\<lambda>_ _. 0) db" "acyclic (proxy_rel db)" using soundD(2) [OF s] by (auto simp: votes_ok_def)
  have "voted_exist ?db" using ok(1) v(1) by (auto simp: wf_voting_def voted_exist_def)
  then have "wf_voting ?db" using ok(1) d by (simp add: wf_voting_def wf_accounts_def)
  moreover have "tallied (\<lambda>_ _. 0) ?db"
  proof -
    have "wit_votes w = voter_sum (\<lambda>_ _. 0) (voters (wit_owner w) db) (db_accounts db)" if w: "w \<in> set ws" for w
      using v(2) [OF w]
    proof
      assume "witness_view w \<in> witness_view ` set (db_witnesses db)"
      then show ?thesis using ok(2) by (auto simp: tallied_def)
    next
      assume n: "wit_owner w \<notin> wit_owner ` set (db_witnesses db) \<and> wit_votes w = 0"
      moreover have "\<forall>k \<in> vote_pairs db. snd k \<in> set (map wit_owner (db_witnesses db))"
        using ok(1) unfolding wf_voting_def voted_exist_def vote_pairs_def by (elim conjE)
      ultimately have "voters (wit_owner w) db = {}" by (auto simp: voters_def)
      then show ?thesis using n by (simp add: voter_sum_0)
    qed
    then show ?thesis using ok(2) by (simp add: tallied_def voters_def vote_pairs_def)
  qed
  ultimately show "votes_ok ?db" using ok(3) by (simp add: votes_ok_def proxy_rel_def)
qed

lemma flow_witness:
  assumes s: "sound db" and m: "modify_witness n f db = Inr db'"
    and f: "\<And>w w'. f w = Inr w' \<Longrightarrow> witness_view w' = witness_view w"
  shows "flow (\<lambda>_. 0) 0 db db'"
proof -
  from m obtain w w' where w: "find_by wit_owner n (db_witnesses db) = Some w" "f w = Inr w'"
    and db': "db' = db\<lparr>db_witnesses := replace_by wit_owner n w' (db_witnesses db)\<rparr>"
    by (auto simp: modify_witness_def get_witness_def)
  have d: "distinct (map wit_owner (db_witnesses db))" using soundD(5) [OF s] by (simp add: wf_voting_def)
  have e: "map witness_view (replace_by wit_owner n w' (db_witnesses db)) = map witness_view (db_witnesses db)"
    by (rule map_replace_same [OF d w(1)]) (use f [OF w(2)] in simp)
  have n: "map wit_owner (replace_by wit_owner n w' (db_witnesses db)) = map wit_owner (db_witnesses db)"
    by (rule map_replace_same [OF d w(1)]) (use f [OF w(2)] in simp)
  show ?thesis unfolding db'
  proof (rule flow_witnesses [OF s])
    show "witness_view x \<in> witness_view ` set (db_witnesses db) \<or> wit_owner x \<notin> wit_owner ` set (db_witnesses db) \<and> wit_votes x = 0"
      if "x \<in> set (replace_by wit_owner n w' (db_witnesses db))" for x
    proof -
      have "witness_view x \<in> set (map witness_view (replace_by wit_owner n w' (db_witnesses db)))" using that by simp
      then show ?thesis unfolding e by simp
    qed
  qed (use n d in simp_all)
qed

text \<open>A new account that holds nothing.\<close>

definition blank :: "account_object \<Rightarrow> bool" where
  "blank a \<longleftrightarrow> acc_name a \<noteq> [] \<and> acc_proxy a = [] \<and> acc_proxied_vsf_votes a = replicate 4 0 \<and> (\<forall>s. account_holds s a = 0) \<and>
     acc_reward_vesting_delta a = 0 \<and> acc_vesting_shares a = 0 \<and> acc_to_withdraw a = 0 \<and> acc_withdrawn a = 0 \<and>
     acc_next_vesting_withdrawal a = time_point_sec_maximum \<and> acc_delegated_vesting_shares a = 0 \<and> acc_received_vesting_shares a = 0"

lemma blank_level: "blank a \<Longrightarrow> l < 5 \<Longrightarrow> level a l = 0"
  by (cases l) (simp_all add: blank_def)

lemma blank_votes_ok:
  assumes ok: "votes_ok db" and b: "blank a" "acc_name a \<notin> acc_name ` set (db_accounts db)"
  shows "votes_ok (db\<lparr>db_accounts := db_accounts db @ [a]\<rparr>)"
proof -
  let ?db = "db\<lparr>db_accounts := db_accounts db @ [a]\<rparr>"
  have wv: "wf_voting db" and t: "tallied (\<lambda>_ _. 0) db" and ac: "acyclic (proxy_rel db)" using ok by (auto simp: votes_ok_def)
  have px: "acc_proxy b \<noteq> acc_name a" if "b \<in> set (db_accounts db)" for b
    using wv b that unfolding wf_voting_def blank_def by metis
  have "wf_voting ?db" using wv b by (auto simp: wf_voting_def wf_accounts_def voted_exist_def blank_def)
  moreover have "tallied (\<lambda>_ _. 0) ?db"
  proof -
    have "slot_sum (\<lambda>_ _. 0) n i (db_accounts db @ [a]) = slot_sum (\<lambda>_ _. 0) n i (db_accounts db)" if "i < 4" for n i
      using blank_level [OF b(1), of i] that by (simp add: slot_sum_0)
    moreover have "voter_sum (\<lambda>_ _. 0) us (db_accounts db @ [a]) = voter_sum (\<lambda>_ _. 0) us (db_accounts db)" for us
      using blank_level [OF b(1)] by (simp add: voter_sum_0)
    moreover have "slot_sum (\<lambda>_ _. 0) (acc_name a) i (db_accounts db) = 0" for i
      using px by (simp add: slot_sum_0 sum_list_0 cong: map_cong)
    moreover have "level a (Suc i) = 0" if "i < 4" for i by (rule blank_level [OF b(1)]) (use that in simp)
    ultimately show ?thesis using t by (auto simp: tallied_def voters_def vote_pairs_def)
  qed
  moreover have "proxy_rel ?db = proxy_rel db" using b(1) by (auto simp: proxy_rel_def blank_def)
  ultimately show ?thesis using ac by (simp add: votes_ok_def)
qed

lemma blank_delegations_ok:
  assumes ok: "delegations_ok db" and b: "blank a" "acc_name a \<notin> acc_name ` set (db_accounts db)"
  shows "delegations_ok (db\<lparr>db_accounts := db_accounts db @ [a]\<rparr>)"
proof -
  have p: "parties_exist db" using ok by (simp add: delegations_ok_def)
  have d: "vdo_delegator d \<noteq> acc_name a" "vdo_delegatee d \<noteq> acc_name a" if "d \<in> set (db_delegations db)" for d
    using p b(2) that unfolding parties_exist_def by metis+
  have e: "vde_delegator e \<noteq> acc_name a" if "e \<in> set (db_delegation_expirations db)" for e
    using p b(2) that unfolding parties_exist_def by metis+
  have "delegated_by (acc_name a) db = 0" "delegated_to (acc_name a) db = 0"
    using d e by (simp_all add: delegated_by_def delegated_to_def sum_list_0 cong: map_cong)
  moreover have "parties_exist (db\<lparr>db_accounts := db_accounts db @ [a]\<rparr>)" using p by (auto simp: parties_exist_def)
  ultimately show ?thesis using ok b(1) by (auto simp: delegations_ok_def delegated_by_def delegated_to_def blank_def)
qed

lemma flow_new_account:
  assumes s: "sound db" and r: "create_account a db = Inr db'" and b: "blank a"
  shows "flow (\<lambda>_. 0) 0 db db'"
proof -
  from r have db': "db' = db\<lparr>db_accounts := db_accounts db @ [a]\<rparr>" and n: "acc_name a \<notin> acc_name ` set (db_accounts db)"
    by (auto simp: create_account_def dest!: create_byD)
  have w: "wf_accounts db'" using soundD(4) [OF s] n b by (auto simp: wf_accounts_def db' blank_def)
  have o: "wf_objects db'" using soundD(1) [OF s] by (simp add: wf_objects_def db')
  have c: "covered a" using b by (simp add: covered_def blank_def)
  have "sound db'"
    using o c s blank_votes_ok [OF soundD(2) [OF s] b n] blank_delegations_ok [OF soundD(7) [OF s] b n]
    by (auto simp: sound_def db')
  then show ?thesis
    using w b by (simp add: flow_def step_effect_def surplus_def locked_def pending_surplus_def vest_gap_def db' blank_def)
qed

lemma initialize_account_object_blank:
  "n \<noteq> [] \<Longrightarrow> blank ((initialize_account_object n key g m r h)\<lparr>acc_json_metadata := j\<rparr>)"
proof -
  have four: "replicate 4 x = [x, x, x, x]" for x :: int by (simp add: numeral_eq_Suc)
  show "n \<noteq> [] \<Longrightarrow> ?thesis"
    unfolding blank_def four by (simp add: initialize_account_object_def default_account_def account_holds_def Let_def)
qed


lemma flow_adjust:
  "sound db \<Longrightarrow> adjust_balance n d db = Inr db' \<Longrightarrow> symbol d = DELTA_SYMBOL \<Longrightarrow> flow (\<lambda>s. coin s d) 0 db db'"
  using flow_state [OF _ state_step_adjust(1)] soundD(3) by simp

lemma flow_neutral: "sound db \<Longrightarrow> modify_account n f db = Inr db' \<Longrightarrow> neutral f \<Longrightarrow> flow (\<lambda>_. 0) 0 db db'"
  using flow_state [OF _ state_step_neutral(1)] soundD(3) by blast

lemma flow_still: "flow m 0 a b \<Longrightarrow> flow (\<lambda>_. 0) 0 b c \<Longrightarrow> flow m 0 a c"
  using flow_trans [of m 0 a b "\<lambda>_. 0" 0 c] by simp

lemma flow_authority: "sound db \<Longrightarrow> flow (\<lambda>_. 0) 0 db (create_authority n ow ac po db)"
  by (rule flow_some_tables) (simp_all add: create_authority_def)

lemma modify_authority_flow: "sound db \<Longrightarrow> modify_authority n f db = Inr db' \<Longrightarrow> flow (\<lambda>_. 0) 0 db db'"
  by (rule flow_some_tables) (auto simp: modify_authority_def)

lemma update_owner_authority_Inr:
  assumes "update_owner_authority n auth db = Inr db'"
  obtains old where "get_authority n db = Inr old"
    "db' = db\<lparr>db_owner_histories := db_owner_histories db @
         (if gpo_head_block_number (db_dgpo db) \<ge> DELTA_OWNER_AUTH_HISTORY_TRACKING_START_BLOCK_NUM
          then [\<lparr>oah_account = n, oah_previous_owner_authority = aao_owner old, oah_last_valid_time = head_block_time db\<rparr>] else []),
       db_authorities := modify_first (\<lambda>a. aao_account a = n)
         (\<lambda>a. a\<lparr>aao_owner := auth, aao_last_owner_update := head_block_time db\<rparr>) (db_authorities db)\<rparr>"
  using assms by (auto simp: update_owner_authority_def modify_authority_def get_authority_def split: if_splits)

lemma update_owner_authority_flow: "sound db \<Longrightarrow> update_owner_authority n auth db = Inr db' \<Longrightarrow> flow (\<lambda>_. 0) 0 db db'"
  by (erule update_owner_authority_Inr, erule flow_some_tables) simp

lemma witness_update_flow:
  assumes s: "sound db" and r: "witness_update_evaluator producing op db = Inr db'"
  shows "flow (\<lambda>_. 0) 0 db db'"
proof (cases "find_by wit_owner (wu_owner op) (db_witnesses db)")
  case None
  with r obtain p ws where ws: "create_by wit_owner ((default_witness (wu_owner op))\<lparr>wit_url := wu_url op,
      wit_signing_key := wu_block_signing_key op, wit_created := head_block_time db, wit_props := p\<rparr>) (db_witnesses db) = Inr ws"
    and db': "db' = db\<lparr>db_witnesses := ws\<rparr>" by (auto simp: witness_update_evaluator_def)
  have "distinct (map wit_owner (db_witnesses db))" using soundD(5) [OF s] by (simp add: wf_voting_def)
  then show ?thesis unfolding db'
    using create_byD [OF ws] by (intro flow_witnesses [OF s distinct_create [OF ws]]) (auto simp: default_witness_def)
next
  case (Some w)
  with r have "modify_witness (wu_owner op) (\<lambda>w.
      res_bind (copy_legacy_chain_properties False (wit_props w) (wu_props op)) (\<lambda>p.
      Inr (w\<lparr>wit_url := wu_url op, wit_signing_key := wu_block_signing_key op, wit_props := p\<rparr>))) db = Inr db'"
    by (auto simp: witness_update_evaluator_def)
  then show ?thesis by (rule flow_witness [OF s]) auto
qed

lemma fc_assert_InrE: "fc_assert c k = Inr y \<Longrightarrow> (c \<Longrightarrow> k = Inr y \<Longrightarrow> P) \<Longrightarrow> P"
  by simp

lemma witness_set_properties_flow:
  assumes s: "sound db" and r: "witness_set_properties_evaluator cr producing op db = Inr db'"
  shows "flow (\<lambda>_. 0) 0 db db'"
  using r unfolding witness_set_properties_evaluator_def Let_def
  by (elim fc_assert_InrE res_bind_InrE) (erule flow_witness [OF s], auto split: option.split)

lemma feed_publish_flow: "sound db \<Longrightarrow> feed_publish_evaluator op db = Inr db' \<Longrightarrow> flow (\<lambda>_. 0) 0 db db'"
  by (rule flow_witness) (auto simp: feed_publish_evaluator_def)

lemma account_create_flow:
  assumes s: "sound db" and h: "has_hardfork 20 db" and v: "ac_new_account_name op \<noteq> []"
    and r: "account_create_evaluator producing op db = Inr db'"
  shows "flow (\<lambda>_. 0) 0 db db'"
proof -
  from r h obtain neg db1 db2 db3 where sy: "symbol (ac_fee op) = DELTA_SYMBOL" and neg: "asset_neg (ac_fee op) = Inr neg"
    and a: "adjust_balance (ac_creator op) neg db = Inr db1" "adjust_balance DELTA_NULL_ACCOUNT (ac_fee op) db1 = Inr db2"
    and c: "create_account ((initialize_account_object (ac_new_account_name op) (ac_memo_key op) (db_dgpo db2) False
            (ac_creator op) (get_hardfork db2))\<lparr>acc_json_metadata := ac_json_metadata op\<rparr>) db2 = Inr db3"
    and db': "db' = create_authority (ac_new_account_name op) (ac_owner op) (ac_active op) (ac_posting op) db3"
    unfolding account_create_evaluator_def by (auto simp: Let_def)
  note n = asset_neg_Inr [OF neg]
  have f1: "flow (\<lambda>s. coin s neg) 0 db db1" using flow_adjust [OF s a(1)] n sy by simp
  have f2: "flow (\<lambda>s. coin s (ac_fee op)) 0 db1 db2" by (rule flow_adjust [OF flow_sound [OF f1] a(2) sy])
  have "flow (\<lambda>s. coin s neg + coin s (ac_fee op)) (0 + 0) db db2" by (rule flow_trans [OF f1 f2])
  then have f3: "flow (\<lambda>_. 0) 0 db db2" by (rule flow_cong) (use n in \<open>auto simp: coin_def\<close>)
  have f4: "flow (\<lambda>_. 0) 0 db2 db3" by (rule flow_new_account [OF flow_sound [OF f3] c initialize_account_object_blank [OF v]])
  from flow_still [OF flow_still [OF f3 f4] flow_authority [OF flow_sound [OF f4]]] show ?thesis by (simp add: db')
qed

lemma flow_modify:
  assumes s: "sound db" and m: "modify_account n f db = Inr db'"
    and f: "\<And>a a'. f a = Inr a' \<Longrightarrow> voter_view a' = voter_view a \<and> (\<forall>s. account_holds s a' = account_holds s a + d s) \<and>
      acc_reward_vesting_delta a' = acc_reward_vesting_delta a"
  shows "flow d 0 db db'"
proof -
  have "ledger_step d 0 db db'" by (rule ledger_step_modify [OF soundD(4) [OF s] m]) (use f in auto)
  then show ?thesis using flow_state [OF s state_step_ledger] soundD(3) [OF s] by blast
qed

lemma flow_subsidies:
  assumes "sound db" "modify_dgpo (\<lambda>g. Inr (g\<lparr>gpo_available_account_subsidies := F g\<rparr>)) db = Inr db'"
  shows "flow (\<lambda>_. 0) 0 db db'"
proof (rule flow_state [OF assms(1)])
  show "state_step (\<lambda>_. 0) db db'"
    using assms(2) soundD(1,4) [OF assms(1)]
    by (auto simp: modify_dgpo_def state_step_def step_effect_def wf_objects_def wf_accounts_def same_tallies_def surplus_def
      pending_surplus_def locked_def funds_def token_supply_def)
qed

lemma take_subsidy_flow:
  assumes s: "sound db" and r: "take_subsidy pending db = Inr db'"
  shows "flow (\<lambda>_. 0) 0 db db'"
proof (cases pending)
  case True
  with r show ?thesis by (auto simp: take_subsidy_def intro: flow_subsidies [OF s])
next
  case False
  with r obtain db1 where m: "modify_witness (gpo_current_witness (db_dgpo db)) (\<lambda>w.
      Inr (w\<lparr>wit_available_witness_account_subsidies := wit_available_witness_account_subsidies w - DELTA_ACCOUNT_SUBSIDY_PRECISION\<rparr>)) db = Inr db1"
    and g: "modify_dgpo (\<lambda>g. Inr (g\<lparr>gpo_available_account_subsidies :=
      gpo_available_account_subsidies g - DELTA_ACCOUNT_SUBSIDY_PRECISION\<rparr>)) db1 = Inr db'"
    by (auto simp: take_subsidy_def)
  have f: "flow (\<lambda>_. 0) 0 db db1" by (rule flow_witness [OF s m]) auto
  show ?thesis by (rule flow_still [OF f flow_subsidies [OF flow_sound [OF f] g]])
qed

lemma claim_account_flow:
  assumes s: "sound db" and r: "claim_account_evaluator pending op db = Inr db'"
  shows "flow (\<lambda>_. 0) 0 db db'"
proof -
  from r obtain db1 db2 where sy: "symbol (ca_fee op) = DELTA_SYMBOL"
    and sub: "(if amount (ca_fee op) = 0 then take_subsidy pending db else
      fc_assert (asset_eq (ca_fee op) (cp_account_creation_fee (wso_median_props (db_wso db)))) (Inr db)) = Inr db1"
    and a: "adjust_balance DELTA_NULL_ACCOUNT (ca_fee op) db1 = Inr db2"
    and m: "modify_account (ca_creator op) (\<lambda>a.
          res_bind (minus_asset DELTA_SYMBOL (acc_balance a) (ca_fee op)) (\<lambda>b.
          res_bind (safe_add (acc_pending_claimed_accounts a) 1) (\<lambda>k.
          Inr (a\<lparr>acc_balance := b, acc_pending_claimed_accounts := k\<rparr>)))) db2 = Inr db'"
    unfolding claim_account_evaluator_def by (auto split del: if_split)
  have f1: "flow (\<lambda>_. 0) 0 db db1" using sub flow_refl [OF s] take_subsidy_flow [OF s] by (auto split: if_splits)
  have f2: "flow (\<lambda>s. coin s (ca_fee op)) 0 db1 db2" by (rule flow_adjust [OF flow_sound [OF f1] a sy])
  have f3: "flow (\<lambda>s. - coin s (ca_fee op)) 0 db2 db'"
    by (rule flow_modify [OF flow_sound [OF f2] m])
      (auto simp: voter_view_def account_holds_def coin_def dest!: minus_asset_Inr)
  from flow_trans [OF flow_trans [OF f1 f2] f3] show ?thesis by (rule flow_cong) auto
qed

lemma create_claimed_account_flow:
  assumes s: "sound db" and v: "cc_new_account_name op \<noteq> []" and r: "create_claimed_account_evaluator op db = Inr db'"
  shows "flow (\<lambda>_. 0) 0 db db'"
proof -
  from r obtain db1 db2 where m: "modify_account (cc_creator op) (\<lambda>a.
          res_bind (safe_sub (acc_pending_claimed_accounts a) 1) (\<lambda>k. Inr (a\<lparr>acc_pending_claimed_accounts := k\<rparr>))) db = Inr db1"
    and c: "create_account ((initialize_account_object (cc_new_account_name op) (cc_memo_key op) (db_dgpo db1) False
            (cc_creator op) (get_hardfork db1))\<lparr>acc_json_metadata := cc_json_metadata op\<rparr>) db1 = Inr db2"
    and db': "db' = create_authority (cc_new_account_name op) (cc_owner op) (cc_active op) (cc_posting op) db2"
    unfolding create_claimed_account_evaluator_def by auto
  have f1: "flow (\<lambda>_. 0) 0 db db1" by (rule flow_neutral [OF s m]) (auto simp: neutral_def account_holds_def)
  have f2: "flow (\<lambda>_. 0) 0 db1 db2" by (rule flow_new_account [OF flow_sound [OF f1] c initialize_account_object_blank [OF v]])
  from flow_still [OF flow_still [OF f1 f2] flow_authority [OF flow_sound [OF f2]]] show ?thesis by (simp add: db')
qed

text \<open>An update of an account: of the owner authority, of the account, and of the other authorities.\<close>

lemma account_update_Inr:
  assumes "account_update_evaluator producing op db = Inr db'"
  obtains auth db1 f db2 where "get_authority (au_account op) db = Inr auth" "change_owner op auth db = Inr db1"
    "modify_account (au_account op) f db1 = Inr db2" "neutral f"
    "\<And>a b. f a = Inr b \<Longrightarrow> acc_recovery_account b = acc_recovery_account a \<and> acc_last_account_recovery b = acc_last_account_recovery a"
    "db' = db2 \<or> (\<exists>g. modify_authority (au_account op) g db2 = Inr db' \<and> (\<forall>a. aao_account (g a) = aao_account a \<and> aao_owner (g a) = aao_owner a))"
proof -
  from assms obtain auth db1 db2 where 1: "get_authority (au_account op) db = Inr auth" "change_owner op auth db = Inr db1"
    "modify_account (au_account op) (\<lambda>acc. Inr
         (acc\<lparr>acc_memo_key := (if au_memo_key op \<noteq> null_public_key then au_memo_key op else acc_memo_key acc),
              acc_last_account_update := head_block_time db1,
              acc_json_metadata := (if length (au_json_metadata op) > 0 then au_json_metadata op else acc_json_metadata acc)\<rparr>)) db1 = Inr db2"
    and 2: "(if au_active op \<noteq> None \<or> au_posting op \<noteq> None then
       modify_authority (au_account op) (\<lambda>auth.
         set_if (au_posting op) (\<lambda>x a. a\<lparr>aao_posting := x\<rparr>) (set_if (au_active op) (\<lambda>x a. a\<lparr>aao_active := x\<rparr>) auth)) db2
     else Inr db2) = Inr db'"
    unfolding account_update_evaluator_def by (elim res_bind_InrE) (rule that)
  show thesis
  proof (rule that [OF 1])
    show "db' = db2 \<or> (\<exists>g. modify_authority (au_account op) g db2 = Inr db' \<and> (\<forall>a. aao_account (g a) = aao_account a \<and> aao_owner (g a) = aao_owner a))"
      using 2 by (cases "au_active op"; cases "au_posting op") (auto intro: exI conjI)
  qed (auto simp: neutral_def account_holds_def)
qed

lemma account_update_flow:
  assumes s: "sound db" and r: "account_update_evaluator producing op db = Inr db'"
  shows "flow (\<lambda>_. 0) 0 db db'"
  using r
proof (rule account_update_Inr)
  fix auth db1 f db2
  assume o: "change_owner op auth db = Inr db1" and m: "modify_account (au_account op) f db1 = Inr db2" "neutral f"
    and a: "db' = db2 \<or> (\<exists>g. modify_authority (au_account op) g db2 = Inr db' \<and> (\<forall>a. aao_account (g a) = aao_account a \<and> aao_owner (g a) = aao_owner a))"
  have f1: "flow (\<lambda>_. 0) 0 db db1"
    using o flow_refl [OF s] update_owner_authority_flow [OF s] by (auto simp: change_owner_def split: option.splits)
  have f2: "flow (\<lambda>_. 0) 0 db1 db2" by (rule flow_neutral [OF flow_sound [OF f1] m])
  have "flow (\<lambda>_. 0) 0 db2 db'" using a flow_refl modify_authority_flow flow_sound [OF f2] by blast
  with flow_still [OF f1 f2] show ?thesis by (rule flow_still)
qed

lemma request_account_recovery_flow: "sound db \<Longrightarrow> request_account_recovery_evaluator p op db = Inr db' \<Longrightarrow> flow (\<lambda>_. 0) 0 db db'"
  by (rule flow_some_tables) (auto simp: request_account_recovery_evaluator_def Let_def split: option.splits if_splits)

lemma change_recovery_account_flow: "sound db \<Longrightarrow> change_recovery_account_evaluator op db = Inr db' \<Longrightarrow> flow (\<lambda>_. 0) 0 db db'"
  by (rule flow_some_tables) (auto simp: change_recovery_account_evaluator_def Let_def split: option.splits if_splits)

lemma recover_account_flow:
  assumes s: "sound db" and r: "recover_account_evaluator op db = Inr db'"
  shows "flow (\<lambda>_. 0) 0 db db'"
proof -
  let ?n = "ra_account_to_recover op"
  let ?db0 = "db\<lparr>db_recovery_requests := remove_by arr_account_to_recover ?n (db_recovery_requests db)\<rparr>"
  from r obtain db1 where u: "update_owner_authority ?n (ra_new_owner_authority op) ?db0 = Inr db1"
    and m: "modify_account ?n (\<lambda>a. Inr (a\<lparr>acc_last_account_recovery := head_block_time db1\<rparr>)) db1 = Inr db'"
    unfolding recover_account_evaluator_def Let_def by (auto split: option.splits)
  have f0: "flow (\<lambda>_. 0) 0 db ?db0" by (rule flow_some_tables [OF s]) simp
  have f1: "flow (\<lambda>_. 0) 0 ?db0 db1" by (rule update_owner_authority_flow [OF flow_sound [OF f0] u])
  have "flow (\<lambda>_. 0) 0 db1 db'" by (rule flow_neutral [OF flow_sound [OF f1] m]) (auto simp: neutral_def account_holds_def)
  with flow_still [OF f0 f1] show ?thesis by (rule flow_still)
qed

end
