(* ===== verification/Recovery.thy ===== *)
theory Recovery
  imports Accounts
begin

text \<open>
  The recovery of stolen accounts over whole runs: what the processing at the end of a block leaves
  in the tables, where pending requests and past owner authorities come from, that a recovery needs
  the consent of the recovery partner and a recent owner, and that it is possible for thirty days.
\<close>

section \<open>The loops of the recovery\<close>

lemma and_then_Inr:
  assumes "and_then r f = Some (Inr y)"
  obtains x where "r = Some (Inr x)" "f x = Some (Inr y)"
  using assms by (auto simp: and_then_def split: option.splits sum.splits)

lemma due_recovery_request_Some:
  assumes "due_recovery_request db = Some r"
  shows "r \<in> set (db_recovery_requests db)" "arr_expires r \<le> head_block_time db"
  using assms index_begin_Some(1) by (fastforce simp: due_recovery_request_def split: option.splits if_splits)+

lemma due_recovery_request_None:
  assumes "due_recovery_request db = None" "r \<in> set (db_recovery_requests db)"
  shows "head_block_time db < arr_expires r"
proof -
  obtain x where x: "index_begin (\<lambda>r. (arr_expires r, arr_account_to_recover r)) (db_recovery_requests db) = Some x"
    using index_begin_ex [OF assms(2)] by blast
  have "(arr_expires x, arr_account_to_recover x) \<le> (arr_expires r, arr_account_to_recover r)"
    by (rule index_begin_Some(2) [OF x assms(2)])
  then have "arr_expires x \<le> arr_expires r" by auto
  with assms(1) x show ?thesis by (auto simp: due_recovery_request_def split: if_splits)
qed

interpretation request_loop: draining_loop due_recovery_request drop_recovery_request "\<lambda>_. True" "\<lambda>db. length (db_recovery_requests db)"
proof
  fix db r db'
  assume r: "due_recovery_request db = Some r" "drop_recovery_request r db = Inr db'"
  have "length (remove_by arr_account_to_recover (arr_account_to_recover r) (db_recovery_requests db)) < length (db_recovery_requests db)"
    unfolding remove_by_def by (rule length_filter_less [OF due_recovery_request_Some(1) [OF r(1)]]) simp
  then show "length (db_recovery_requests db') < length (db_recovery_requests db)"
    using r(2) by (auto simp: drop_recovery_request_def)
qed simp

interpretation history_loop: draining_loop due_owner_history drop_owner_history "\<lambda>_. True" "\<lambda>db. length (db_owner_histories db)"
  by unfold_locales (auto simp: due_owner_history_def drop_owner_history_def split: list.splits if_splits)

lemma due_recovery_change_Some:
  assumes "due_recovery_change db = Some r"
  shows "r \<in> set (db_change_recovery_requests db)" "cra_effective_on r \<le> head_block_time db"
  using assms index_begin_Some(1) by (fastforce simp: due_recovery_change_def split: option.splits if_splits)+

interpretation change_loop: draining_loop due_recovery_change apply_recovery_change "\<lambda>_. True" "\<lambda>db. length (db_change_recovery_requests db)"
proof
  fix db r db'
  assume r: "due_recovery_change db = Some r" "apply_recovery_change r db = Inr db'"
  have "length (remove_by cra_account_to_recover (cra_account_to_recover r) (db_change_recovery_requests db)) < length (db_change_recovery_requests db)"
    unfolding remove_by_def by (rule length_filter_less [OF due_recovery_change_Some(1) [OF r(1)]]) simp
  then show "length (db_change_recovery_requests db') < length (db_change_recovery_requests db)"
    using r(2) by (auto simp: apply_recovery_change_def modify_account_def get_account_def)
qed simp

lemma account_recovery_processing_returns: "\<exists>r. account_recovery_processing db = Some r"
proof -
  obtain r1 where r1: "drain due_recovery_request drop_recovery_request db = Some r1" using request_loop.returns by blast
  have "\<exists>r. and_then (drain due_owner_history drop_owner_history x) (drain due_recovery_change apply_recovery_change) = Some r" for x
  proof -
    obtain r2 where "drain due_owner_history drop_owner_history x = Some r2" using history_loop.returns by blast
    then show ?thesis using change_loop.returns by (cases r2) (auto simp: and_then_def)
  qed
  then show ?thesis using r1 by (cases r1) (auto simp: account_recovery_processing_def and_then_def)
qed

lemma request_loop_result:
  assumes "drain due_recovery_request drop_recovery_request db = Some (Inr db')"
  obtains rs where "db' = db\<lparr>db_recovery_requests := rs\<rparr>"
    "set rs \<subseteq> {r \<in> set (db_recovery_requests db). head_block_time db < arr_expires r}"
    "distinct (map arr_account_to_recover (db_recovery_requests db)) \<Longrightarrow> distinct (map arr_account_to_recover rs)"
proof -
  define R where "R a b \<longleftrightarrow> (\<exists>rs. b = a\<lparr>db_recovery_requests := rs\<rparr> \<and> set rs \<subseteq> set (db_recovery_requests a) \<and>
    (distinct (map arr_account_to_recover (db_recovery_requests a)) \<longrightarrow> distinct (map arr_account_to_recover rs)))" for a b :: database
  have "due_recovery_request db' = None \<and> True \<and> R db db'"
  proof (rule request_loop.drained [OF TrueI assms])
    show "R db db" unfolding R_def by (rule exI [of _ "db_recovery_requests db"]) simp
    fix a x b assume a: "R db a" "drop_recovery_request x a = Inr b"
    then obtain rs where "a = db\<lparr>db_recovery_requests := rs\<rparr>" "set rs \<subseteq> set (db_recovery_requests db)"
      "distinct (map arr_account_to_recover (db_recovery_requests db)) \<longrightarrow> distinct (map arr_account_to_recover rs)" by (auto simp: R_def)
    then show "R db b" using a(2) unfolding R_def
      by (intro exI [of _ "remove_by arr_account_to_recover (arr_account_to_recover x) rs"]) (auto simp: drop_recovery_request_def)
  qed
  then obtain rs where rs: "due_recovery_request db' = None" "db' = db\<lparr>db_recovery_requests := rs\<rparr>" "set rs \<subseteq> set (db_recovery_requests db)"
      "distinct (map arr_account_to_recover (db_recovery_requests db)) \<longrightarrow> distinct (map arr_account_to_recover rs)" by (auto simp: R_def)
  show thesis
    by (rule that [OF rs(2)]) (use due_recovery_request_None [OF rs(1)] rs in \<open>auto simp: head_block_time_def\<close>)
qed

definition expired_owner :: "time_point_sec \<Rightarrow> owner_authority_history_object \<Rightarrow> bool" where
  "expired_owner now h \<longleftrightarrow> add_seconds (oah_last_valid_time h) DELTA_OWNER_AUTH_RECOVERY_PERIOD < now"

lemma history_loop_result:
  assumes "drain due_owner_history drop_owner_history db = Some (Inr db')"
  shows "db' = db\<lparr>db_owner_histories := dropWhile (expired_owner (head_block_time db)) (db_owner_histories db)\<rparr>"
proof -
  let ?P = "expired_owner (head_block_time db)"
  define R where "R a b \<longleftrightarrow> (\<exists>hs. b = a\<lparr>db_owner_histories := hs\<rparr> \<and> dropWhile (expired_owner (head_block_time a)) hs =
    dropWhile (expired_owner (head_block_time a)) (db_owner_histories a))" for a b :: database
  have "due_owner_history db' = None \<and> True \<and> R db db'"
  proof (rule history_loop.drained [OF TrueI assms])
    show "R db db" unfolding R_def by (rule exI [of _ "db_owner_histories db"]) simp
    fix a x b assume a: "R db a" "due_owner_history a = Some x" "drop_owner_history x a = Inr b"
    then obtain hs where hs: "a = db\<lparr>db_owner_histories := hs\<rparr>" "dropWhile ?P hs = dropWhile ?P (db_owner_histories db)" by (auto simp: R_def)
    with a(2) obtain h hs' where "hs = h # hs'" "?P h"
      by (auto simp: due_owner_history_def expired_owner_def head_block_time_def split: list.splits if_splits)
    then show "R db b" using hs a(3) unfolding R_def by (intro exI [of _ hs']) (auto simp: drop_owner_history_def)
  qed
  then obtain hs where n: "due_owner_history db' = None" and hs: "db' = db\<lparr>db_owner_histories := hs\<rparr>"
    "dropWhile ?P hs = dropWhile ?P (db_owner_histories db)" by (auto simp: R_def)
  have "dropWhile ?P hs = hs"
    using n by (cases hs) (auto simp: hs(1) due_owner_history_def expired_owner_def head_block_time_def split: if_splits)
  then show ?thesis using hs by simp
qed

lemma change_loop_result:
  assumes "drain due_recovery_change apply_recovery_change db = Some (Inr db')"
  obtains as cs where "db' = db\<lparr>db_accounts := as, db_change_recovery_requests := cs\<rparr>" "map acc_name as = map acc_name (db_accounts db)"
proof -
  define R where "R a b \<longleftrightarrow> (\<exists>as cs. b = a\<lparr>db_accounts := as, db_change_recovery_requests := cs\<rparr> \<and>
    map acc_name as = map acc_name (db_accounts a))" for a b :: database
  have "due_recovery_change db' = None \<and> True \<and> R db db'"
  proof (rule change_loop.drained [OF TrueI assms])
    show "R db db" unfolding R_def by (intro exI [of _ "db_accounts db"] exI [of _ "db_change_recovery_requests db"]) simp
    fix a x b assume a: "R db a" "apply_recovery_change x a = Inr b"
    then obtain as cs where as: "a = db\<lparr>db_accounts := as, db_change_recovery_requests := cs\<rparr>"
      "map acc_name as = map acc_name (db_accounts db)"
      by (auto simp: R_def)
    let ?n = "cra_account_to_recover x"
    from a(2) obtain c where c: "find_by acc_name ?n as = Some c"
      "b = db\<lparr>db_accounts := replace_by acc_name ?n (c\<lparr>acc_recovery_account := cra_recovery_account x\<rparr>) as,
        db_change_recovery_requests := remove_by cra_account_to_recover ?n cs\<rparr>"
      by (auto simp: apply_recovery_change_def modify_account_def get_account_def as(1))
    show "R db b" unfolding R_def c(2)
    proof (intro exI conjI)
      show "map acc_name (replace_by acc_name ?n (c\<lparr>acc_recovery_account := cra_recovery_account x\<rparr>) as) = map acc_name (db_accounts db)"
        using find_by_Some [OF c(1)] as(2) by simp
    qed (rule refl)
  qed
  then show thesis using that by (auto simp: R_def)
qed

lemma account_recovery_processing_result:
  assumes "account_recovery_processing db = Some (Inr db')"
  obtains as rs cs where
    "db' = db\<lparr>db_accounts := as, db_recovery_requests := rs, db_change_recovery_requests := cs,
       db_owner_histories := dropWhile (expired_owner (head_block_time db)) (db_owner_histories db)\<rparr>"
    "map acc_name as = map acc_name (db_accounts db)"
    "set rs \<subseteq> {r \<in> set (db_recovery_requests db). head_block_time db < arr_expires r}"
    "distinct (map arr_account_to_recover (db_recovery_requests db)) \<Longrightarrow> distinct (map arr_account_to_recover rs)"
proof -
  from assms obtain db1 db2 where d: "drain due_recovery_request drop_recovery_request db = Some (Inr db1)"
    "drain due_owner_history drop_owner_history db1 = Some (Inr db2)" "drain due_recovery_change apply_recovery_change db2 = Some (Inr db')"
    unfolding account_recovery_processing_def by (elim and_then_Inr)
  from d(1) obtain rs where rs: "db1 = db\<lparr>db_recovery_requests := rs\<rparr>"
    "set rs \<subseteq> {r \<in> set (db_recovery_requests db). head_block_time db < arr_expires r}"
    "distinct (map arr_account_to_recover (db_recovery_requests db)) \<Longrightarrow> distinct (map arr_account_to_recover rs)"
    by (rule request_loop_result) blast
  from d(3) obtain as cs where as: "db' = db2\<lparr>db_accounts := as, db_change_recovery_requests := cs\<rparr>" "map acc_name as = map acc_name (db_accounts db2)"
    by (rule change_loop_result) blast
  note h = history_loop_result [OF d(2)]
  show thesis
    by (rule that [OF _ _ rs(2,3), where as = as and cs = cs]) (use as h rs(1) in \<open>simp_all add: head_block_time_def\<close>)
qed

lemma account_recovery_processing_flow:
  assumes s: "sound db" and r: "account_recovery_processing db = Some (Inr db')"
  shows "flow (\<lambda>_. 0) 0 db db'"
proof -
  from r obtain db1 db2 where d: "drain due_recovery_request drop_recovery_request db = Some (Inr db1)"
    "drain due_owner_history drop_owner_history db1 = Some (Inr db2)" "drain due_recovery_change apply_recovery_change db2 = Some (Inr db')"
    unfolding account_recovery_processing_def by (elim and_then_Inr)
  have f1: "flow (\<lambda>_. 0) 0 db db1" by (rule request_loop_result [OF d(1)], rule flow_some_tables [OF s]) simp
  have f2: "flow (\<lambda>_. 0) 0 db1 db2" by (rule flow_some_tables [OF flow_sound [OF f1]], subst (1 2 3 4 5) history_loop_result [OF d(2)]) simp
  have "due_recovery_change db' = None \<and> True \<and> flow (\<lambda>_. 0) 0 db2 db'"
  proof (rule change_loop.drained [OF TrueI d(3), where R = "flow (\<lambda>_. 0) 0"])
    show "flow (\<lambda>_. 0) 0 db2 db2" by (rule flow_refl [OF flow_sound [OF f2]])
    fix a x b assume a: "flow (\<lambda>_. 0) 0 db2 a" "apply_recovery_change x a = Inr b"
    then obtain c where m: "modify_account (cra_account_to_recover x) (\<lambda>a. Inr (a\<lparr>acc_recovery_account := cra_recovery_account x\<rparr>)) a = Inr c"
      and b: "b = c\<lparr>db_change_recovery_requests := remove_by cra_account_to_recover (cra_account_to_recover x) (db_change_recovery_requests c)\<rparr>"
      by (auto simp: apply_recovery_change_def)
    have f: "flow (\<lambda>_. 0) 0 a c" by (rule flow_neutral [OF flow_sound [OF a(1)] m]) (auto simp: neutral_def account_holds_def)
    have "flow (\<lambda>_. 0) 0 c b" by (rule flow_some_tables [OF flow_sound [OF f]]) (simp add: b)
    with flow_still [OF a(1) f] show "flow (\<lambda>_. 0) 0 db2 b" by (rule flow_still)
  qed
  with flow_still [OF f1 f2] show ?thesis using flow_still by blast
qed

section \<open>Runs of the recovery\<close>

text \<open>
  The steps of a chain as the recovery of accounts sees them: the operations that write its tables,
  the processing of a block, which advances the clock first, and anything else, which writes none of
  these tables and only adds authorities.
\<close>

definition next_block :: "time_point_sec \<Rightarrow> database \<Rightarrow> database" where
  "next_block t db = db\<lparr>db_dgpo := (db_dgpo db)\<lparr>gpo_time := t, gpo_head_block_number := Suc (gpo_head_block_number (db_dgpo db))\<rparr>\<rparr>"

definition elsewhere :: "database \<Rightarrow> database \<Rightarrow> bool" where
  "elsewhere db db' \<longleftrightarrow> db_recovery_requests db' = db_recovery_requests db \<and> db_owner_histories db' = db_owner_histories db \<and>
     db_change_recovery_requests db' = db_change_recovery_requests db \<and> head_block_time db' = head_block_time db \<and>
     (\<exists>xs. db_authorities db' = db_authorities db @ xs)"

inductive recovery_step :: "database \<Rightarrow> database \<Rightarrow> bool" where
  update: "account_update_evaluator p op db = Inr db' \<Longrightarrow> recovery_step db db'"
| request: "request_account_recovery_evaluator p op db = Inr db' \<Longrightarrow> recovery_step db db'"
| recover: "recover_account_evaluator op db = Inr db' \<Longrightarrow> recovery_step db db'"
| change: "change_recovery_account_evaluator op db = Inr db' \<Longrightarrow> recovery_step db db'"
| block: "head_block_time db \<le> t \<Longrightarrow> t + DELTA_OWNER_AUTH_RECOVERY_PERIOD < 2 ^ 32 \<Longrightarrow>
    account_recovery_processing (next_block t db) = Some (Inr db') \<Longrightarrow> recovery_step db db'"
| other: "elsewhere db db' \<Longrightarrow> recovery_step db db'"

inductive recovery_reachable :: "database \<Rightarrow> bool" where
  start: "db_recovery_requests db = [] \<Longrightarrow> db_owner_histories db = [] \<Longrightarrow>
    head_block_time db + DELTA_OWNER_AUTH_RECOVERY_PERIOD < 2 ^ 32 \<Longrightarrow> recovery_reachable db"
| step: "recovery_reachable db \<Longrightarrow> recovery_step db db' \<Longrightarrow> recovery_reachable db'"

text \<open>A later state of the run: the reflexive and transitive closure of the steps.\<close>

abbreviation later :: "database \<Rightarrow> database \<Rightarrow> bool" where
  "later \<equiv> recovery_step\<^sup>*\<^sup>*"

definition owner_of :: "account_name_type \<Rightarrow> public_key_type authority \<Rightarrow> database \<Rightarrow> bool" where
  "owner_of n auth db \<longleftrightarrow> (\<exists>a. get_authority n db = Inr a \<and> aao_owner a = auth)"

text \<open>
  What one step does to the two tables. Within a block requests stay, vanish or come from the
  operation that makes them, and past authorities are added when they are replaced; at the end of a
  block what is too old vanishes.
\<close>

definition within_block :: "database \<Rightarrow> database \<Rightarrow> bool" where
  "within_block db db' \<longleftrightarrow> head_block_time db' = head_block_time db \<and>
     (\<forall>r \<in> set (db_recovery_requests db'). r \<in> set (db_recovery_requests db) \<or>
        (\<exists>p op. request_account_recovery_evaluator p op db = Inr db' \<and> rr_account_to_recover op = arr_account_to_recover r \<and>
           rr_new_owner_authority op = arr_new_owner_authority r \<and>
           arr_expires r = add_seconds (head_block_time db) DELTA_ACCOUNT_RECOVERY_REQUEST_EXPIRATION_PERIOD)) \<and>
     (\<exists>new. db_owner_histories db' = db_owner_histories db @ new \<and>
        (\<forall>h \<in> set new. oah_last_valid_time h = head_block_time db \<and> owner_of (oah_account h) (oah_previous_owner_authority h) db))"

definition end_of_block :: "database \<Rightarrow> database \<Rightarrow> bool" where
  "end_of_block db db' \<longleftrightarrow> head_block_time db \<le> head_block_time db' \<and>
     head_block_time db' + DELTA_OWNER_AUTH_RECOVERY_PERIOD < 2 ^ 32 \<and>
     set (db_recovery_requests db') \<subseteq> {r \<in> set (db_recovery_requests db). head_block_time db' < arr_expires r} \<and>
     db_owner_histories db' = dropWhile (expired_owner (head_block_time db')) (db_owner_histories db)"

lemma within_block_refl: "within_block db db"
  by (simp add: within_block_def)

lemma modify_account_frame:
  "modify_account n f db = Inr db' \<Longrightarrow> \<exists>as. db' = db\<lparr>db_accounts := as\<rparr>"
  "modify_account n f db = Inr db' \<Longrightarrow> (\<And>a b. f a = Inr b \<Longrightarrow> acc_name b = acc_name a) \<Longrightarrow> map acc_name (db_accounts db') = map acc_name (db_accounts db)"
  by (auto elim!: modify_account_Inr dest: find_by_Some)

lemma modify_first_keys: "(\<And>x. key (f x) = key x) \<Longrightarrow> map key (modify_first P f xs) = map key xs"
  by (induction xs) auto

lemma find_modify_first:
  assumes "find_by key k xs = Some x" "\<And>x. key (f x) = key x"
  shows "find_by key k (modify_first (\<lambda>x. key x = k) f xs) = Some (f x)"
  using assms(1) by (induction xs) (auto simp: find_by_def assms(2) split: if_splits)

lemma update_owner_within_block:
  assumes "update_owner_authority n auth db = Inr db'"
  shows "within_block db db'" "db_recovery_requests db' = db_recovery_requests db"
  using assms by (auto elim!: update_owner_authority_Inr simp: within_block_def owner_of_def head_block_time_def)

lemma within_block_tail:
  assumes "within_block db db1" "set (db_recovery_requests db') \<subseteq> set (db_recovery_requests db)"
    "head_block_time db' = head_block_time db1" "db_owner_histories db' = db_owner_histories db1"
  shows "within_block db db'"
  using assms by (auto simp: within_block_def)

lemma modify_authority_frame: "modify_authority n f db = Inr db' \<Longrightarrow>
    db' = db\<lparr>db_authorities := modify_first (\<lambda>a. aao_account a = n) f (db_authorities db)\<rparr>"
  by (auto simp: modify_authority_def)

lemma account_update_within_block:
  assumes "account_update_evaluator p op db = Inr db'"
  shows "within_block db db'"
  using assms
proof (rule account_update_Inr)
  fix auth db1 f db2
  assume o: "change_owner op auth db = Inr db1" and m: "modify_account (au_account op) f db1 = Inr db2"
    and a: "db' = db2 \<or> (\<exists>g. modify_authority (au_account op) g db2 = Inr db' \<and> (\<forall>a. aao_account (g a) = aao_account a \<and> aao_owner (g a) = aao_owner a))"
  have w: "within_block db db1" "db_recovery_requests db1 = db_recovery_requests db"
    using o within_block_refl update_owner_within_block by (auto simp: change_owner_def split: option.splits)
  from modify_account_frame(1) [OF m] obtain as where db2: "db2 = db1\<lparr>db_accounts := as\<rparr>" ..
  from a show ?thesis
  proof (elim disjE exE conjE)
    assume "db' = db2"
    then show ?thesis by (intro within_block_tail [OF w(1)]) (simp_all add: db2 w(2) head_block_time_def)
  next
    fix g assume "modify_authority (au_account op) g db2 = Inr db'"
    note e = modify_authority_frame [OF this]
    show ?thesis by (rule within_block_tail [OF w(1)]) (simp_all add: e db2 w(2) head_block_time_def)
  qed
qed

lemma request_within_block:
  assumes "request_account_recovery_evaluator p op db = Inr db'"
  shows "within_block db db'"
proof -
  let ?n = "rr_account_to_recover op" and ?a = "rr_new_owner_authority op"
  have "db_dgpo db' = db_dgpo db \<and> db_owner_histories db' = db_owner_histories db \<and>
      (\<forall>r \<in> set (db_recovery_requests db'). r \<in> set (db_recovery_requests db) \<or>
      arr_account_to_recover r = ?n \<and> arr_new_owner_authority r = ?a \<and>
      arr_expires r = add_seconds (head_block_time db) DELTA_ACCOUNT_RECOVERY_REQUEST_EXPIRATION_PERIOD)"
  proof (cases "find_by arr_account_to_recover ?n (db_recovery_requests db)")
    case None
    then show ?thesis
      using assms by (auto simp: request_account_recovery_evaluator_def Let_def dest!: create_byD)
  next
    case (Some r)
    then show ?thesis
      using assms find_by_Some [OF Some]
      by (auto simp: request_account_recovery_evaluator_def Let_def replace_by_def split: if_splits)
  qed
  then show ?thesis using assms unfolding within_block_def head_block_time_def by (metis append_Nil2 empty_iff empty_set)
qed

text \<open>What an accepted recovery found and what it does.\<close>

lemma recent_authority_found_iff:
  "recent_authority_found n auth (owner_history n db) \<longleftrightarrow>
     (\<exists>h \<in> set (db_owner_histories db). oah_account h = n \<and> oah_previous_owner_authority h = auth)"
proof -
  have found: "recent_authority_found n auth (dropWhile (\<lambda>h. oah_account h < n) hs) \<longleftrightarrow>
      (\<exists>h \<in> set hs. oah_account h = n \<and> oah_previous_owner_authority h = auth)" if "sorted (map oah_account hs)" for hs
    using that
  proof (induction hs)
    case (Cons h hs)
    show ?case
    proof (cases "oah_account h" n rule: linorder_cases)
      case equal
      have "dropWhile (\<lambda>h. oah_account h < n) hs = hs" using Cons.prems equal by (cases hs) auto
      then show ?thesis using Cons equal by auto
    next
      case greater
      then have "oah_account x \<noteq> n" if "x \<in> set (h # hs)" for x using Cons.prems that by auto
      then show ?thesis using greater by auto
    qed (use Cons in auto)
  qed simp
  have st: "sorted (map oah_account (sort_key (\<lambda>h. (oah_account h, oah_last_valid_time h)) xs))" for xs :: "owner_authority_history_object list"
  proof -
    have "sorted (map (\<lambda>h. (oah_account h, oah_last_valid_time h)) (sort_key (\<lambda>h. (oah_account h, oah_last_valid_time h)) xs))" by simp
    then have "sorted_wrt (\<lambda>x y. oah_account x \<le> oah_account y) (sort_key (\<lambda>h. (oah_account h, oah_last_valid_time h)) xs)"
      unfolding sorted_map by (rule sorted_wrt_mono_rel [rotated]) auto
    then show ?thesis by (simp only: sorted_map)
  qed
  show ?thesis unfolding owner_history_def using found [OF st] by simp
qed

lemma recover_account_Inr:
  assumes "recover_account_evaluator op db = Inr db'"
  obtains r h old as where "find_by arr_account_to_recover (ra_account_to_recover op) (db_recovery_requests db) = Some r"
    "arr_new_owner_authority r = ra_new_owner_authority op"
    "h \<in> set (db_owner_histories db)" "oah_account h = ra_account_to_recover op" "oah_previous_owner_authority h = ra_recent_owner_authority op"
    "get_authority (ra_account_to_recover op) db = Inr old"
    "db' = db\<lparr>db_accounts := as, db_owner_histories := db_owner_histories db @
         (if gpo_head_block_number (db_dgpo db) \<ge> DELTA_OWNER_AUTH_HISTORY_TRACKING_START_BLOCK_NUM
          then [\<lparr>oah_account = ra_account_to_recover op, oah_previous_owner_authority = aao_owner old, oah_last_valid_time = head_block_time db\<rparr>] else []),
       db_authorities := modify_first (\<lambda>a. aao_account a = ra_account_to_recover op)
         (\<lambda>a. a\<lparr>aao_owner := ra_new_owner_authority op, aao_last_owner_update := head_block_time db\<rparr>) (db_authorities db),
       db_recovery_requests := remove_by arr_account_to_recover (ra_account_to_recover op) (db_recovery_requests db)\<rparr>"
    "map acc_name as = map acc_name (db_accounts db)"
proof -
  let ?n = "ra_account_to_recover op"
  let ?db0 = "db\<lparr>db_recovery_requests := remove_by arr_account_to_recover ?n (db_recovery_requests db)\<rparr>"
  from assms obtain r db1 where r: "find_by arr_account_to_recover ?n (db_recovery_requests db) = Some r"
    "arr_new_owner_authority r = ra_new_owner_authority op"
    "recent_authority_found ?n (ra_recent_owner_authority op) (owner_history ?n db)"
    and u: "update_owner_authority ?n (ra_new_owner_authority op) ?db0 = Inr db1"
    and m: "modify_account ?n (\<lambda>a. Inr (a\<lparr>acc_last_account_recovery := head_block_time db1\<rparr>)) db1 = Inr db'"
    unfolding recover_account_evaluator_def Let_def by (auto split: option.splits)
  from r(3) obtain h where h: "h \<in> set (db_owner_histories db)" "oah_account h = ?n" "oah_previous_owner_authority h = ra_recent_owner_authority op"
    unfolding recent_authority_found_iff by blast
  from modify_account_frame(1) [OF m] obtain as where as: "db' = db1\<lparr>db_accounts := as\<rparr>" ..
  have nm: "map acc_name (db_accounts db') = map acc_name (db_accounts db1)" by (rule modify_account_frame(2) [OF m]) auto
  from u show thesis
    by (rule update_owner_authority_Inr) (rule that [OF r(1,2) h, where as = as], use as nm in \<open>auto simp: get_authority_def head_block_time_def\<close>)
qed

lemma recover_within_block:
  assumes "recover_account_evaluator op db = Inr db'"
  shows "within_block db db'"
  using assms by (rule recover_account_Inr) (auto simp: within_block_def head_block_time_def owner_of_def)

lemma change_within_block:
  assumes "change_recovery_account_evaluator op db = Inr db'"
  shows "within_block db db'"
  using assms by (auto simp: change_recovery_account_evaluator_def Let_def within_block_def head_block_time_def split: option.splits if_splits)

lemma block_end_of_block:
  assumes "head_block_time db \<le> t" "t + DELTA_OWNER_AUTH_RECOVERY_PERIOD < 2 ^ 32"
    "account_recovery_processing (next_block t db) = Some (Inr db')"
  shows "end_of_block db db'"
  using assms(3) by (rule account_recovery_processing_result) (use assms(1,2) in \<open>auto simp: end_of_block_def next_block_def head_block_time_def\<close>)

lemma recovery_step_shape: "recovery_step db db' \<Longrightarrow> within_block db db' \<or> end_of_block db db'"
proof (induction rule: recovery_step.induct)
  case (other db db')
  then show ?case by (auto simp: elsewhere_def within_block_def)
qed (blast intro: account_update_within_block request_within_block recover_within_block change_within_block block_end_of_block)+

text \<open>Where the entries of the two tables come from.\<close>

definition asked :: "account_name_type \<Rightarrow> public_key_type authority \<Rightarrow> time_point_sec \<Rightarrow> database \<Rightarrow> bool" where
  "asked n auth t db \<longleftrightarrow> (\<exists>db0 p op db1. recovery_reachable db0 \<and> request_account_recovery_evaluator p op db0 = Inr db1 \<and>
     rr_account_to_recover op = n \<and> rr_new_owner_authority op = auth \<and> head_block_time db0 = t \<and> later db1 db)"

definition owned :: "account_name_type \<Rightarrow> public_key_type authority \<Rightarrow> time_point_sec \<Rightarrow> database \<Rightarrow> bool" where
  "owned n auth t db \<longleftrightarrow> (\<exists>db0. recovery_reachable db0 \<and> owner_of n auth db0 \<and> head_block_time db0 = t \<and> later db0 db)"

lemma asked_later: "asked n auth t db \<Longrightarrow> recovery_step db db' \<Longrightarrow> asked n auth t db'"
  unfolding asked_def by (blast intro: rtranclp.rtrancl_into_rtrancl)

lemma owned_later: "owned n auth t db \<Longrightarrow> recovery_step db db' \<Longrightarrow> owned n auth t db'"
  unfolding owned_def by (blast intro: rtranclp.rtrancl_into_rtrancl)

definition recovery_ok :: "database \<Rightarrow> bool" where
  "recovery_ok db \<longleftrightarrow> head_block_time db + DELTA_OWNER_AUTH_RECOVERY_PERIOD < 2 ^ 32 \<and>
     (\<forall>r \<in> set (db_recovery_requests db). head_block_time db < arr_expires r \<and>
        asked (arr_account_to_recover r) (arr_new_owner_authority r) (arr_expires r - DELTA_ACCOUNT_RECOVERY_REQUEST_EXPIRATION_PERIOD) db) \<and>
     sorted (map oah_last_valid_time (db_owner_histories db)) \<and>
     (\<forall>h \<in> set (db_owner_histories db). oah_last_valid_time h \<le> head_block_time db \<and>
        head_block_time db \<le> oah_last_valid_time h + DELTA_OWNER_AUTH_RECOVERY_PERIOD \<and>
        owned (oah_account h) (oah_previous_owner_authority h) (oah_last_valid_time h) db)"

lemma add_seconds_small: "t + s < 2 ^ 32 \<Longrightarrow> add_seconds t s = t + s"
  by (simp add: add_seconds_def)

lemma recovery_ok_within_block:
  assumes ok: "recovery_ok db" and re: "recovery_reachable db" and st: "recovery_step db db'" and w: "within_block db db'"
  shows "recovery_ok db'"
proof -
  have t: "head_block_time db' = head_block_time db" using w by (simp add: within_block_def)
  have b: "head_block_time db + DELTA_OWNER_AUTH_RECOVERY_PERIOD < 2 ^ 32" using ok by (simp add: recovery_ok_def)
  have "head_block_time db < arr_expires r \<and>
      asked (arr_account_to_recover r) (arr_new_owner_authority r) (arr_expires r - DELTA_ACCOUNT_RECOVERY_REQUEST_EXPIRATION_PERIOD) db'"
    if r: "r \<in> set (db_recovery_requests db')" for r
  proof (cases "r \<in> set (db_recovery_requests db)")
    case True
    then show ?thesis using ok asked_later [OF _ st] by (simp add: recovery_ok_def)
  next
    case False
    then obtain p op where op: "request_account_recovery_evaluator p op db = Inr db'" "rr_account_to_recover op = arr_account_to_recover r"
      "rr_new_owner_authority op = arr_new_owner_authority r"
      "arr_expires r = add_seconds (head_block_time db) DELTA_ACCOUNT_RECOVERY_REQUEST_EXPIRATION_PERIOD"
      using w r unfolding within_block_def by blast
    then have "arr_expires r = head_block_time db + DELTA_ACCOUNT_RECOVERY_REQUEST_EXPIRATION_PERIOD" using b by (simp add: add_seconds_small)
    then show ?thesis using op re unfolding asked_def by fastforce
  qed
  moreover obtain new where new: "db_owner_histories db' = db_owner_histories db @ new"
    "\<forall>h \<in> set new. oah_last_valid_time h = head_block_time db \<and> owner_of (oah_account h) (oah_previous_owner_authority h) db"
    using w by (auto simp: within_block_def)
  moreover have "sorted (map oah_last_valid_time (db_owner_histories db @ new))"
  proof -
    have "map oah_last_valid_time new = replicate (length new) (head_block_time db)" using new(2) by (simp add: map_replicate_const [symmetric])
    then show ?thesis using ok new(2) by (simp add: recovery_ok_def sorted_append)
  qed
  moreover have "owned (oah_account h) (oah_previous_owner_authority h) (oah_last_valid_time h) db'" if "h \<in> set (db_owner_histories db')" for h
  proof (cases "h \<in> set new")
    case True
    then have "owner_of (oah_account h) (oah_previous_owner_authority h) db" "head_block_time db = oah_last_valid_time h" using new(2) by auto
    then show ?thesis using re r_into_rtranclp [of recovery_step, OF st] unfolding owned_def by blast
  next
    case False
    then show ?thesis using that new(1) ok owned_later [OF _ st] by (simp add: recovery_ok_def)
  qed
  ultimately show ?thesis using ok b by (auto simp: recovery_ok_def t)
qed

lemma sorted_wrt_dropWhile: "sorted_wrt R xs \<Longrightarrow> sorted_wrt R (dropWhile P xs)"
  by (induction xs) auto

lemma recovery_ok_end_of_block:
  assumes ok: "recovery_ok db" and st: "recovery_step db db'" and e: "end_of_block db db'"
  shows "recovery_ok db'"
proof -
  let ?now = "head_block_time db'"
  have b: "head_block_time db \<le> ?now" "?now + DELTA_OWNER_AUTH_RECOVERY_PERIOD < 2 ^ 32" using e by (auto simp: end_of_block_def)
  have h: "db_owner_histories db' = dropWhile (expired_owner ?now) (db_owner_histories db)" using e by (simp add: end_of_block_def)
  have so: "sorted (map oah_last_valid_time (db_owner_histories db))" and hb: "\<forall>h \<in> set (db_owner_histories db). oah_last_valid_time h \<le> head_block_time db"
    using ok by (auto simp: recovery_ok_def)
  have so': "sorted (map oah_last_valid_time (db_owner_histories db'))"
    using so unfolding h sorted_map by (rule sorted_wrt_dropWhile)
  have live: "?now \<le> oah_last_valid_time x + DELTA_OWNER_AUTH_RECOVERY_PERIOD" if x: "x \<in> set (db_owner_histories db')" for x
  proof (cases "db_owner_histories db'")
    case (Cons y ys)
    then have "\<not> expired_owner ?now y" using h hd_dropWhile [of "expired_owner ?now" "db_owner_histories db"] by simp
    moreover have y: "y \<in> set (db_owner_histories db)" using Cons h by (metis list.set_intros(1) set_dropWhileD)
    moreover have "add_seconds (oah_last_valid_time y) DELTA_OWNER_AUTH_RECOVERY_PERIOD = oah_last_valid_time y + DELTA_OWNER_AUTH_RECOVERY_PERIOD"
      using hb y b by (intro add_seconds_small) fastforce
    ultimately have "?now \<le> oah_last_valid_time y + DELTA_OWNER_AUTH_RECOVERY_PERIOD" by (simp add: expired_owner_def)
    moreover have "oah_last_valid_time y \<le> oah_last_valid_time x" using so' x Cons by auto
    ultimately show ?thesis by simp
  qed (use x in simp)
  have "x \<in> set (db_owner_histories db)" if "x \<in> set (db_owner_histories db')" for x using that set_dropWhileD unfolding h by fast
  moreover have "oah_last_valid_time x \<le> ?now" if "x \<in> set (db_owner_histories db)" for x using hb b(1) that by fastforce
  moreover have "r \<in> set (db_recovery_requests db) \<and> ?now < arr_expires r" if "r \<in> set (db_recovery_requests db')" for r
    using e that by (auto simp: end_of_block_def)
  ultimately show ?thesis
    using ok b live so' asked_later [OF _ st] owned_later [OF _ st] by (simp add: recovery_ok_def)
qed

lemma recovery_reachable_ok: "recovery_reachable db \<Longrightarrow> recovery_ok db"
proof (induction rule: recovery_reachable.induct)
  case (start db)
  then show ?case by (simp add: recovery_ok_def)
next
  case (step db db')
  then show ?case
    using recovery_step_shape recovery_ok_within_block recovery_ok_end_of_block by blast
qed

text \<open>Authorities are never lost, and a past authority stays as long as it is recent.\<close>

lemma authorities_kept_step:
  assumes "recovery_step db db'"
  shows "set (map aao_account (db_authorities db)) \<subseteq> set (map aao_account (db_authorities db'))"
  using assms
proof (induction rule: recovery_step.induct)
  case (update p op db db')
  then show ?case
  proof (rule account_update_Inr)
    fix auth db1 f db2
    assume o: "change_owner op auth db = Inr db1" and m: "modify_account (au_account op) f db1 = Inr db2"
      and a: "db' = db2 \<or> (\<exists>g. modify_authority (au_account op) g db2 = Inr db' \<and> (\<forall>a. aao_account (g a) = aao_account a \<and> aao_owner (g a) = aao_owner a))"
    have 1: "map aao_account (db_authorities db1) = map aao_account (db_authorities db)"
      using o by (auto simp: change_owner_def modify_first_keys elim!: update_owner_authority_Inr split: option.splits)
    have 2: "db_authorities db2 = db_authorities db1" using modify_account_frame(1) [OF m] by auto
    have "map aao_account (db_authorities db') = map aao_account (db_authorities db2)"
      using a by (auto simp: modify_first_keys dest!: modify_authority_frame)
    then show ?thesis unfolding 1 2 by (simp only: 1 subset_refl)
  qed
next
  case (request p op db db')
  then show ?case by (auto simp: request_account_recovery_evaluator_def Let_def split: option.splits if_splits)
next
  case (recover op db db')
  then show ?case by (rule recover_account_Inr) (simp add: modify_first_keys)
next
  case (change op db db')
  then show ?case by (auto simp: change_recovery_account_evaluator_def Let_def split: option.splits if_splits)
next
  case (block db t db')
  from block(3) show ?case by (rule account_recovery_processing_result) (simp add: next_block_def)
next
  case (other db db')
  then show ?case by (auto simp: elsewhere_def)
qed

lemma authorities_kept: "later db db' \<Longrightarrow> set (map aao_account (db_authorities db)) \<subseteq> set (map aao_account (db_authorities db'))"
  by (induction rule: rtranclp_induct) (use authorities_kept_step in blast)+

lemma dropWhile_keeps: "x \<in> set xs \<Longrightarrow> \<not> P x \<Longrightarrow> x \<in> set (dropWhile P xs)"
  by (induction xs) auto

lemma history_kept_step:
  assumes st: "recovery_step db db'" and h: "h \<in> set (db_owner_histories db)" "oah_last_valid_time h \<le> head_block_time db"
    and now: "head_block_time db' \<le> oah_last_valid_time h + DELTA_OWNER_AUTH_RECOVERY_PERIOD"
  shows "h \<in> set (db_owner_histories db') \<and> head_block_time db \<le> head_block_time db'"
  using recovery_step_shape [OF st]
proof
  assume e: "end_of_block db db'"
  then have "oah_last_valid_time h + DELTA_OWNER_AUTH_RECOVERY_PERIOD < 2 ^ 32" using h(2) by (simp add: end_of_block_def)
  then have "\<not> expired_owner (head_block_time db') h" using now by (simp add: expired_owner_def add_seconds_small)
  then show ?thesis using e dropWhile_keeps [OF h(1)] by (simp add: end_of_block_def)
qed (use h in \<open>auto simp: within_block_def\<close>)

lemma time_step: "recovery_step db db' \<Longrightarrow> head_block_time db \<le> head_block_time db'"
  using recovery_step_shape [of db db'] by (auto simp: within_block_def end_of_block_def)

lemma history_kept:
  assumes "later db db'" "h \<in> set (db_owner_histories db)" "oah_last_valid_time h \<le> head_block_time db"
    "head_block_time db' \<le> oah_last_valid_time h + DELTA_OWNER_AUTH_RECOVERY_PERIOD"
  shows "h \<in> set (db_owner_histories db') \<and> head_block_time db \<le> head_block_time db'"
  using assms(1,4)
proof (induction rule: rtranclp_induct)
  case (step x y)
  have "h \<in> set (db_owner_histories x) \<and> head_block_time db \<le> head_block_time x" using step time_step [OF step.hyps(2)] by simp
  then show ?case using history_kept_step [OF step.hyps(2)] assms(3) step.prems by fastforce
qed (use assms(2) in simp)

text \<open>
  C4: an account changes hands by a recovery only with the consent of its recovery partner and of
  a past owner: in any run, when \<open>recover_account\<close> is accepted, less than a day before the recovery
  partner of the account (or the top witness, when it has none) had asked for exactly the new
  authority, the authority given as recent was the owner authority of the account in a state at most
  thirty days old, and after it the new authority owns the account.
\<close>

theorem recovery_authorised:
  assumes "recovery_reachable db" "recover_account_evaluator op db = Inr db'"
  shows "\<exists>db0 p req db1 a old.
    recovery_reachable db0 \<and> request_account_recovery_evaluator p req db0 = Inr db1 \<and> later db1 db \<and>
    rr_account_to_recover req = ra_account_to_recover op \<and> rr_new_owner_authority req = ra_new_owner_authority op \<and>
    head_block_time db < head_block_time db0 + 86400 \<and> get_account (ra_account_to_recover op) db0 = Inr a \<and>
    (acc_recovery_account a = rr_recovery_account req \<or>
     acc_recovery_account a = [] \<and> map_sum id wit_owner (top_witness db0) = Inr (rr_recovery_account req)) \<and>
    recovery_reachable old \<and> later old db \<and> owner_of (ra_account_to_recover op) (ra_recent_owner_authority op) old \<and>
    head_block_time db \<le> head_block_time old + 2592000 \<and>
    owner_of (ra_account_to_recover op) (ra_new_owner_authority op) db'"
  using assms(2)
proof (rule recover_account_Inr)
  let ?n = "ra_account_to_recover op"
  fix r h auth as
  assume r: "find_by arr_account_to_recover ?n (db_recovery_requests db) = Some r" "arr_new_owner_authority r = ra_new_owner_authority op"
    and h: "h \<in> set (db_owner_histories db)" "oah_account h = ?n" "oah_previous_owner_authority h = ra_recent_owner_authority op"
    and au: "get_authority ?n db = Inr auth"
    and db': "db' = db\<lparr>db_accounts := as, db_owner_histories := db_owner_histories db @
         (if gpo_head_block_number (db_dgpo db) \<ge> DELTA_OWNER_AUTH_HISTORY_TRACKING_START_BLOCK_NUM
          then [\<lparr>oah_account = ?n, oah_previous_owner_authority = aao_owner auth, oah_last_valid_time = head_block_time db\<rparr>] else []),
       db_authorities := modify_first (\<lambda>a. aao_account a = ?n)
         (\<lambda>a. a\<lparr>aao_owner := ra_new_owner_authority op, aao_last_owner_update := head_block_time db\<rparr>) (db_authorities db),
       db_recovery_requests := remove_by arr_account_to_recover ?n (db_recovery_requests db)\<rparr>"
  note ok = recovery_reachable_ok [OF assms(1)]
  have rn: "r \<in> set (db_recovery_requests db)" "arr_account_to_recover r = ?n" using find_by_Some [OF r(1)] by auto
  then have "head_block_time db < arr_expires r"
    "asked ?n (ra_new_owner_authority op) (arr_expires r - DELTA_ACCOUNT_RECOVERY_REQUEST_EXPIRATION_PERIOD) db"
    using ok r(2) by (auto simp: recovery_ok_def)
  then obtain db0 p req db1 where q: "recovery_reachable db0" "request_account_recovery_evaluator p req db0 = Inr db1" "later db1 db"
    "rr_account_to_recover req = ?n" "rr_new_owner_authority req = ra_new_owner_authority op" "head_block_time db < head_block_time db0 + 86400"
    unfolding asked_def by fastforce
  then obtain a where a: "get_account ?n db0 = Inr a" "acc_recovery_account a = rr_recovery_account req \<or>
     acc_recovery_account a = [] \<and> map_sum id wit_owner (top_witness db0) = Inr (rr_recovery_account req)"
    unfolding request_account_recovery_evaluator_def by (auto split: if_splits)
  obtain old where o: "recovery_reachable old" "later old db" "owner_of ?n (ra_recent_owner_authority op) old"
    "head_block_time db \<le> head_block_time old + 2592000"
    using ok h unfolding recovery_ok_def owned_def by metis
  have "find_by aao_account ?n (db_authorities db) = Some auth" using au by (simp add: get_authority_def)
  then have "owner_of ?n (ra_new_owner_authority op) db'"
    using find_modify_first [of aao_account ?n "db_authorities db" auth] by (simp add: owner_of_def db' get_authority_def)
  then show ?thesis using q a o by blast
qed


text \<open>Alice's key is stolen, and Bob, the recovery partner, helps to get the account back.\<close>

definition sample_authority :: "byte \<Rightarrow> public_key_type authority" where
  "sample_authority k = \<lparr>weight_threshold = 1, account_auths = [], key_auths = [([k], 1)]\<rparr>"

definition sample_accounts :: database where
  "sample_accounts = empty_database
    \<lparr>db_accounts := [(default_account ''alice'')\<lparr>acc_recovery_account := ''bob''\<rparr>, default_account ''bob''],
     db_authorities := [\<lparr>aao_account = ''alice'', aao_owner = sample_authority 1, aao_active = sample_authority 1,
       aao_posting = sample_authority 1, aao_last_owner_update = 0\<rparr>],
     db_dgpo := default_dgpo\<lparr>gpo_head_block_number := 4000000, gpo_time := 1480000000\<rparr>\<rparr>"

definition sample_theft :: "public_key_type account_update_operation" where
  "sample_theft = \<lparr>au_account = ''alice'', au_owner = Some (sample_authority 2), au_active = None, au_posting = None,
     au_memo_key = null_public_key, au_json_metadata = []\<rparr>"

definition sample_request :: "public_key_type request_account_recovery_operation" where
  "sample_request = \<lparr>rr_recovery_account = ''bob'', rr_account_to_recover = ''alice'', rr_new_owner_authority = sample_authority 3,
     rr_extensions = []\<rparr>"

definition sample_recovery :: "public_key_type recover_account_operation" where
  "sample_recovery = \<lparr>ra_account_to_recover = ''alice'', ra_new_owner_authority = sample_authority 3,
     ra_recent_owner_authority = sample_authority 1, ra_extensions = []\<rparr>"

definition sample_pending :: account_recovery_request_object where
  "sample_pending = \<lparr>arr_account_to_recover = ''alice'', arr_new_owner_authority = sample_authority 3, arr_expires = 1480086400\<rparr>"

definition sample_stolen :: database where
  "sample_stolen = sample_accounts
    \<lparr>db_accounts := [(default_account ''alice'')\<lparr>acc_recovery_account := ''bob'', acc_last_account_update := 1480000000\<rparr>, default_account ''bob''],
     db_authorities := [\<lparr>aao_account = ''alice'', aao_owner = sample_authority 2, aao_active = sample_authority 1,
       aao_posting = sample_authority 1, aao_last_owner_update = 1480000000\<rparr>],
     db_owner_histories := [\<lparr>oah_account = ''alice'', oah_previous_owner_authority = sample_authority 1, oah_last_valid_time = 1480000000\<rparr>]\<rparr>"

definition sample_asked :: database where
  "sample_asked = sample_stolen\<lparr>db_recovery_requests := [sample_pending]\<rparr>"

lemmas sample_recovery_defs = sample_accounts_def sample_authority_def sample_theft_def sample_request_def sample_recovery_def
  sample_pending_def sample_stolen_def sample_asked_def

lemma sample_start: "recovery_reachable sample_accounts"
  by (rule recovery_reachable.start) (simp_all add: sample_accounts_def empty_database_def head_block_time_def)

lemmas recovery_eval = has_hardfork_def head_block_time_def get_account_def get_authority_def find_by_def replace_by_def modify_account_def
  modify_authority_def update_owner_authority_def create_by_def remove_by_def add_seconds_def only_if_def check_def validate_auth_size_def
  verify_authority_accounts_exist_def get_authority_accounts_def is_impossible_def default_account_def default_dgpo_def empty_database_def

lemma sample_theft_accepted: "account_update_evaluator False sample_theft sample_accounts = Inr sample_stolen"
  by (simp add: account_update_evaluator_def change_owner_def recovery_eval sample_recovery_defs)

lemma sample_request_accepted: "request_account_recovery_evaluator False sample_request sample_stolen = Inr sample_asked"
  by (simp add: request_account_recovery_evaluator_def Let_def recovery_eval sample_recovery_defs)

lemma sample_asked_reachable: "recovery_reachable sample_asked" "later sample_stolen sample_asked"
  using sample_start recovery_step.update [OF sample_theft_accepted] recovery_step.request [OF sample_request_accepted]
  by (blast intro: recovery_reachable.step)+

lemma sample_recovery_accepted: "\<exists>db'. recover_account_evaluator sample_recovery sample_asked = Inr db'"
proof -
  have "recent_authority_found ''alice'' (sample_authority 1) (owner_history ''alice'' sample_asked)"
    unfolding recent_authority_found_iff by (simp add: sample_asked_def sample_stolen_def)
  then show ?thesis by (simp add: recover_account_evaluator_def Let_def recovery_eval sample_recovery_defs)
qed

theorem recovery_authorised_witness:
  "recovery_reachable sample_asked \<and>
   (\<exists>db' db0 req db1. recover_account_evaluator sample_recovery sample_asked = Inr db' \<and>
      request_account_recovery_evaluator False req db0 = Inr db1 \<and> rr_new_owner_authority req = sample_authority 3 \<and>
      owner_of ''alice'' (sample_authority 3) db')"
proof -
  obtain db' where db': "recover_account_evaluator sample_recovery sample_asked = Inr db'" using sample_recovery_accepted by blast
  have "owner_of ''alice'' (sample_authority 3) db'"
    using recovery_authorised [OF sample_asked_reachable(1) db'] by (auto simp: sample_recovery_def)
  moreover have "rr_new_owner_authority sample_request = sample_authority 3" by (simp add: sample_request_def)
  ultimately show ?thesis using db' sample_request_accepted sample_asked_reachable(1) by blast
qed


end
