(* ===== verification/Spec2Isabelle.thy ===== *)
theory Spec2Isabelle
  imports Fc_Uint128 Chainbase_Undo Invariants Recovery
begin

text \<open>
  A verification development of the Delta blockchain node (a C++ fork of Steem).

  \<^item> \<open>Delta_Prelude\<close>: results of fallible code, 64-bit limits and shared lemmas.
  \<^item> \<open>Fc_Safe\<close>, \<open>Fc_Uint128\<close>: checked, saturating and 128-bit arithmetic (\<open>fc/safe.hpp\<close>,
    \<open>fc/saturation.hpp\<close>, \<open>fc/uint128.hpp\<close>, \<open>fc/src/uint128.cpp\<close>).
  \<^item> \<open>Asset_Symbol\<close>: asset numbers, NAIs and their serialization (\<open>protocol/asset_symbol.hpp\<close>,
    \<open>protocol/asset.cpp\<close>).
\<close>

end
